(* ===== verification/Go_Base.thy ===== *)
theory Go_Base
  imports Main "HOL-Library.Char_ord" "HOL-Library.List_Lexorder"
begin

text \<open>
  Prelude of the development: the parts of Go and of its standard library that the
  modelled packages use, and the generic lemmas the component theories share.

  A Go \<open>string\<close> (and a \<open>[]byte\<close>) is a list of bytes, \<open>char list\<close>; a
  character literal is a byte. Slicing \<open>s[i:j]\<close> is \<open>take (j - i) (drop i s)\<close> with
  the bounds the code has established. A fallible call returns \<open>'e + 'a\<close>, \<open>Inl\<close>
  carrying the error. Comparison of strings is the bytewise lexicographic order, which
  is the order \<open>HOL-Library.List_Lexorder\<close> puts on \<open>char list\<close>.
\<close>

named_theorems scan_progress \<open>progress and bounds of index-based scanning loops\<close>

type_synonym gostring = "char list"

subsection \<open>Results\<close>

definition rbind :: "'e + 'a \<Rightarrow> ('a \<Rightarrow> 'e + 'b) \<Rightarrow> 'e + 'b" where
  "rbind r f = (case r of Inl e \<Rightarrow> Inl e | Inr a \<Rightarrow> f a)"

definition check :: "bool \<Rightarrow> 'e \<Rightarrow> 'e + unit" where
  "check b e = (if b then Inr () else Inl e)"

lemma rbind_simps [simp]:
  "rbind (Inl e) f = Inl e"
  "rbind (Inr a) f = f a"
  by (simp_all add: rbind_def)

lemma rbind_eq_Inr [simp]: "rbind r f = Inr b \<longleftrightarrow> (\<exists>a. r = Inr a \<and> f a = Inr b)"
  by (cases r) auto

lemma rbind_unit_eq_Inr [simp]:
  "rbind (r :: 'e + unit) f = Inr b \<longleftrightarrow> r = Inr () \<and> f () = Inr b"
  by (cases r) auto

lemma rbind_eq_Inl: "rbind r f = Inl e \<longleftrightarrow> r = Inl e \<or> (\<exists>a. r = Inr a \<and> f a = Inl e)"
  by (cases r) auto

lemma check_eq_Inr [simp]: "check b e = Inr u \<longleftrightarrow> b"
  by (simp add: check_def)

lemma check_eq_Inl [simp]: "check b e = Inl e' \<longleftrightarrow> \<not> b \<and> e = e'"
  by (auto simp: check_def)

text \<open>A loop that stops at the first error, threading its state.\<close>

fun rfold :: "('x \<Rightarrow> 's \<Rightarrow> 'e + 's) \<Rightarrow> 'x list \<Rightarrow> 's \<Rightarrow> 'e + 's" where
  "rfold f [] s = Inr s"
| "rfold f (x # xs) s = rbind (f x s) (rfold f xs)"

lemma rfold_append: "rfold f (xs @ ys) s = rbind (rfold f xs s) (rfold f ys)"
  by (induction xs arbitrary: s) (auto simp: rbind_def split: sum.splits)

lemma rfold_invariant:
  assumes "rfold f xs s = Inr t" and "I s"
    and "\<And>x s s'. x \<in> set xs \<Longrightarrow> I s \<Longrightarrow> f x s = Inr s' \<Longrightarrow> I s'"
  shows "I t"
  using assms by (induction xs arbitrary: s) auto

text \<open>A loop that checks each element on its own is the universal check.\<close>

lemma rfold_check_all:
  assumes "\<And>x s. f x s = Inr s \<longleftrightarrow> P x" "\<And>x s t. f x s = Inr t \<Longrightarrow> t = s"
  shows "rfold f xs s = Inr t \<longleftrightarrow> t = s \<and> (\<forall>x\<in>set xs. P x)"
proof (induction xs arbitrary: s)
  case Nil
  then show ?case by auto
next
  case (Cons x xs)
  show ?case using assms Cons.IH by auto (metis assms(1))+
qed

text \<open>
  The loops of the validators: each element is checked on its own, and its key, when it
  has one, must not have been used by an earlier element. \<open>names\<close> reads the keys used so
  far off the loop's state, a set or a map.
\<close>

locale registry_loop =
  fixes f :: "'x \<Rightarrow> 's \<Rightarrow> 'e + 's"
    and P :: "'x \<Rightarrow> bool"
    and key :: "'x \<Rightarrow> 'k option"
    and names :: "'s \<Rightarrow> 'k set"
  assumes step_sound: "f x s = Inr s' \<Longrightarrow>
      P x \<and> (\<forall>k. key x = Some k \<longrightarrow> k \<notin> names s) \<and> names s' = names s \<union> set_option (key x)"
    and step_complete: "P x \<Longrightarrow> (\<And>k. key x = Some k \<Longrightarrow> k \<notin> names s) \<Longrightarrow> \<exists>s'. f x s = Inr s'"
begin

lemma run_names: "rfold f xs s = Inr t \<Longrightarrow> names t = names s \<union> set (List.map_filter key xs)"
proof (induction xs arbitrary: s)
  case Nil
  then show ?case by (simp add: map_filter_simps)
next
  case (Cons x xs)
  then obtain s' where s': "f x s = Inr s'" "rfold f xs s' = Inr t" by auto
  show ?case
    using Cons.IH [OF s'(2)] step_sound [OF s'(1)]
    by (cases "key x") (auto simp: map_filter_simps)
qed

lemma run: "(\<exists>t. rfold f xs s = Inr t) \<longleftrightarrow>
    (\<forall>x\<in>set xs. P x) \<and> distinct (List.map_filter key xs) \<and>
    set (List.map_filter key xs) \<inter> names s = {}"
proof (induction xs arbitrary: s)
  case Nil
  then show ?case by (simp add: map_filter_simps)
next
  case (Cons x xs)
  show ?case
  proof (cases "P x \<and> (\<forall>k. key x = Some k \<longrightarrow> k \<notin> names s)")
    case True
    then obtain s' where s': "f x s = Inr s'" using step_complete by blast
    then show ?thesis
      using True Cons.IH [of s'] step_sound [OF s']
      by (cases "key x") (auto simp: map_filter_simps)
  next
    case False
    then have "f x s \<noteq> Inr s'" for s' using step_sound by blast
    then show ?thesis using False
      by (cases "key x") (auto simp: map_filter_simps)
  qed
qed

end

text \<open>\<open>for i, x := range xs\<close>.\<close>

definition indexed :: "'a list \<Rightarrow> (nat \<times> 'a) list" where
  "indexed xs = zip [0..<length xs] xs"

lemma map_snd_indexed [simp]: "map snd (indexed xs) = xs"
  by (simp add: indexed_def)

lemma indexed_ball [simp]: "(\<forall>p\<in>set (indexed xs). Q (snd p)) \<longleftrightarrow> (\<forall>x\<in>set xs. Q x)"
proof -
  have "(\<forall>p\<in>set (indexed xs). Q (snd p)) \<longleftrightarrow> (\<forall>x\<in>snd ` set (indexed xs). Q x)"
    by blast
  also have "snd ` set (indexed xs) = set xs"
    by (metis list.set_map map_snd_indexed)
  finally show ?thesis .
qed

lemma map_filter_indexed [simp]:
  "List.map_filter (\<lambda>p. k (snd p)) (indexed xs) = List.map_filter k xs"
proof -
  have "List.map_filter (\<lambda>p. k (snd p)) ps = List.map_filter k (map snd ps)"
    for ps :: "(nat \<times> 'b) list"
    by (simp add: List.map_filter_def filter_map comp_def)
  then show ?thesis by simp
qed

lemma map_filter_Some [simp]: "List.map_filter (\<lambda>x. Some (g x)) xs = map g xs"
  by (simp add: List.map_filter_def)

subsection \<open>Bytes\<close>

abbreviation code :: "char \<Rightarrow> nat" where
  "code c \<equiv> of_char c"

definition is_ascii :: "char \<Rightarrow> bool" where
  "is_ascii c = (code c < 128)"

text \<open>\<open>unicode.IsDigit(rune(b))\<close> for a byte \<open>b\<close>: the Latin-1 digits are the ASCII ones.\<close>

definition is_digit :: "char \<Rightarrow> bool" where
  "is_digit c = (48 \<le> code c \<and> code c \<le> 57)"

text \<open>\<open>unicode.IsLetter(rune(b))\<close> for a byte \<open>b\<close>: the letters of Latin-1.\<close>

definition is_letter :: "char \<Rightarrow> bool" where
  "is_letter c = (let n = code c in
     (65 \<le> n \<and> n \<le> 90) \<or> (97 \<le> n \<and> n \<le> 122) \<or> n = 170 \<or> n = 181 \<or> n = 186 \<or>
     (192 \<le> n \<and> n \<le> 214) \<or> (216 \<le> n \<and> n \<le> 246) \<or> 248 \<le> n)"

text \<open>\<open>unicode.IsSpace(rune(b))\<close> for a byte \<open>b\<close>.\<close>

definition is_space :: "char \<Rightarrow> bool" where
  "is_space c = (let n = code c in (9 \<le> n \<and> n \<le> 13) \<or> n = 32 \<or> n = 133 \<or> n = 160)"

definition ascii_upper :: "char \<Rightarrow> char" where
  "ascii_upper c = (if 97 \<le> code c \<and> code c \<le> 122 then char_of (code c - 32) else c)"

definition ascii_lower :: "char \<Rightarrow> char" where
  "ascii_lower c = (if 65 \<le> code c \<and> code c \<le> 90 then char_of (code c + 32) else c)"

text \<open>
  \<open>strings.ToUpper\<close> and \<open>strings.ToLower\<close>: the bytewise map on an ASCII string; on any
  other string the Unicode case tables decide, which are the parameter \<open>U\<close>.
\<close>

definition to_upper :: "(gostring \<Rightarrow> gostring) \<Rightarrow> gostring \<Rightarrow> gostring" where
  "to_upper U s = (if list_all is_ascii s then map ascii_upper s else U s)"

definition to_lower :: "(gostring \<Rightarrow> gostring) \<Rightarrow> gostring \<Rightarrow> gostring" where
  "to_lower U s = (if list_all is_ascii s then map ascii_lower s else U s)"

subsection \<open>Searching and slicing\<close>

definition slice :: "'a list \<Rightarrow> nat \<Rightarrow> nat \<Rightarrow> 'a list" where
  "slice s i j = take (j - i) (drop i s)"

fun has_prefix :: "gostring \<Rightarrow> gostring \<Rightarrow> bool" where
  "has_prefix s [] = True"
| "has_prefix [] (p # ps) = False"
| "has_prefix (c # s) (p # ps) = (c = p \<and> has_prefix s ps)"

definition has_suffix :: "gostring \<Rightarrow> gostring \<Rightarrow> bool" where
  "has_suffix s suf = has_prefix (rev s) (rev suf)"

definition trim_suffix :: "gostring \<Rightarrow> gostring \<Rightarrow> gostring" where
  "trim_suffix s suf = (if has_suffix s suf then take (length s - length suf) s else s)"

text \<open>\<open>strings.Index\<close>: the first position at which \<open>p\<close> occurs in \<open>s\<close>.\<close>

fun index_of :: "gostring \<Rightarrow> gostring \<Rightarrow> nat option" where
  "index_of [] p = (if p = [] then Some 0 else None)"
| "index_of (c # s) p =
     (if has_prefix (c # s) p then Some 0 else map_option Suc (index_of s p))"

lemma has_prefix_iff: "has_prefix s p \<longleftrightarrow> (\<exists>t. s = p @ t)"
  by (induction s p rule: has_prefix.induct) auto

lemma has_suffix_iff: "has_suffix s p \<longleftrightarrow> (\<exists>t. s = t @ p)"
proof -
  have "has_suffix s p \<longleftrightarrow> (\<exists>t. rev s = rev p @ t)"
    by (simp add: has_suffix_def has_prefix_iff)
  also have "\<dots> \<longleftrightarrow> (\<exists>t. s = rev t @ p)"
    by (metis rev_append rev_rev_ident)
  also have "\<dots> \<longleftrightarrow> (\<exists>t. s = t @ p)"
    by (metis rev_rev_ident)
  finally show ?thesis .
qed

lemma trim_suffix_append [simp]: "trim_suffix (t @ p) p = t"
  by (auto simp: trim_suffix_def has_suffix_iff)

lemma has_prefix_length: "has_prefix s p \<Longrightarrow> length p \<le> length s"
  by (auto simp: has_prefix_iff)

lemma index_of_bound: "index_of s p = Some k \<Longrightarrow> k + length p \<le> length s"
  by (induction s arbitrary: k) (force dest: has_prefix_length split: if_splits)+

lemma index_of_Some:
  "index_of s p = Some k \<Longrightarrow> take (length p) (drop k s) = p"
  by (induction s arbitrary: k) (auto simp: has_prefix_iff split: if_splits)

lemma index_of_append_Some: "\<exists>k \<le> length s. index_of (s @ p @ t) p = Some k"
proof (induction s)
  case Nil
  have "has_prefix (p @ t) p" by (simp add: has_prefix_iff)
  then show ?case by (cases "p @ t") auto
next
  case (Cons c s)
  then show ?case by auto
qed

subsection \<open>White space\<close>

text \<open>
  \<open>strings.TrimSpace\<close> and \<open>strings.Fields\<close> work on runes. The white space runes are
  the six ASCII ones and those of \<open>wide_spaces\<close>, given by their UTF-8 encodings; a
  byte that is not part of such an encoding is not white space.
\<close>

definition ascii_space :: "char \<Rightarrow> bool" where
  "ascii_space c = ((9 \<le> code c \<and> code c \<le> 13) \<or> code c = 32)"

definition wide_spaces :: "gostring list" where
  "wide_spaces = map (map char_of)
     [[194, 133], [194, 160], [225, 154, 128],
      [226, 128, 128], [226, 128, 129], [226, 128, 130], [226, 128, 131], [226, 128, 132],
      [226, 128, 133], [226, 128, 134], [226, 128, 135], [226, 128, 136], [226, 128, 137],
      [226, 128, 138], [226, 128, 168], [226, 128, 169], [226, 128, 175], [226, 129, 159],
      [227, 128, 128 :: nat]]"

text \<open>The width in bytes of the white space rune at the front (at the end) of \<open>s\<close>, or 0.\<close>

definition space_width :: "gostring \<Rightarrow> nat" where
  "space_width s = (case s of [] \<Rightarrow> 0
     | c # _ \<Rightarrow> if is_ascii c then (if ascii_space c then 1 else 0)
                else (case find (has_prefix s) wide_spaces of None \<Rightarrow> 0 | Some w \<Rightarrow> length w))"

definition space_width_end :: "gostring \<Rightarrow> nat" where
  "space_width_end s = (case rev s of [] \<Rightarrow> 0
     | c # _ \<Rightarrow> if is_ascii c then (if ascii_space c then 1 else 0)
                else (case find (has_suffix s) wide_spaces of None \<Rightarrow> 0 | Some w \<Rightarrow> length w))"

lemma space_width_Nil [simp]: "space_width [] = 0" "space_width_end [] = 0"
  by (simp_all add: space_width_def space_width_end_def)

function trim_left :: "gostring \<Rightarrow> gostring" where
  "trim_left s = (if space_width s = 0 then s else trim_left (drop (space_width s) s))"
  by pat_completeness auto
termination
proof (relation "measure length")
  fix s :: gostring
  assume "space_width s \<noteq> 0"
  then show "(drop (space_width s) s, s) \<in> measure length"
    by (cases s) auto
qed simp

function trim_right :: "gostring \<Rightarrow> gostring" where
  "trim_right s = (if space_width_end s = 0 then s
                   else trim_right (take (length s - space_width_end s) s))"
  by pat_completeness auto
termination
proof (relation "measure length")
  fix s :: gostring
  assume "space_width_end s \<noteq> 0"
  then show "(take (length s - space_width_end s) s, s) \<in> measure length"
    by (cases s) auto
qed simp

declare trim_left.simps [simp del] trim_right.simps [simp del]

definition trim_space :: "gostring \<Rightarrow> gostring" where
  "trim_space s = trim_right (trim_left s)"

text \<open>\<open>strings.Fields\<close>: the maximal runs of bytes between white space runes.\<close>

function fields_from :: "gostring \<Rightarrow> gostring \<Rightarrow> gostring list" where
  "fields_from acc s = (case s of [] \<Rightarrow> (if acc = [] then [] else [acc])
     | c # t \<Rightarrow> (if space_width s = 0 then fields_from (acc @ [c]) t
                else if acc = [] then fields_from [] (drop (space_width s) s)
                else acc # fields_from [] (drop (space_width s) s)))"
  by pat_completeness auto
termination
  by (relation "measure (\<lambda>(acc, s). length s)") auto

declare fields_from.simps [simp del]

definition fields :: "gostring \<Rightarrow> gostring list" where
  "fields s = fields_from [] s"

text \<open>\<open>strings.Split(s, sep)\<close> for a one-byte separator, and \<open>strings.Join\<close>.\<close>

fun split_byte :: "char \<Rightarrow> gostring \<Rightarrow> gostring list" where
  "split_byte sep [] = [[]]"
| "split_byte sep (c # s) =
     (if c = sep then [] # split_byte sep s
      else (case split_byte sep s of [] \<Rightarrow> [[c]] | p # ps \<Rightarrow> (c # p) # ps))"

fun join :: "gostring \<Rightarrow> gostring list \<Rightarrow> gostring" where
  "join sep [] = []"
| "join sep [x] = x"
| "join sep (x # y # ys) = x @ sep @ join sep (y # ys)"

lemma split_byte_not_Nil [simp]: "split_byte sep s \<noteq> []"
  by (induction s) (auto split: list.splits)

lemma join_split_byte: "join [sep] (split_byte sep s) = s"
proof (induction s)
  case Nil
  then show ?case by simp
next
  case (Cons c s)
  obtain p ps where ps: "split_byte sep s = p # ps"
    by (meson neq_Nil_conv split_byte_not_Nil)
  with Cons show ?case by (cases ps) auto
qed

subsection \<open>Decimal numerals\<close>

definition digit_char :: "nat \<Rightarrow> char" where
  "digit_char d = char_of (48 + d)"

definition digit_val :: "char \<Rightarrow> nat" where
  "digit_val c = code c - 48"

text \<open>\<open>%d\<close> of a non-negative integer.\<close>

fun dec :: "nat \<Rightarrow> gostring" where
  "dec n = (if n < 10 then [digit_char n] else dec (n div 10) @ [digit_char (n mod 10)])"

declare dec.simps [simp del]

text \<open>The value of a digit string, as \<open>strconv\<close> accumulates it from the left.\<close>

definition dec_val :: "gostring \<Rightarrow> nat" where
  "dec_val s = fold (\<lambda>c n. 10 * n + digit_val c) s 0"

lemma code_digit_char: "d < 10 \<Longrightarrow> code (digit_char d) = 48 + d"
  by (simp add: digit_char_def)

lemma digit_val_digit_char [simp]: "d < 10 \<Longrightarrow> digit_val (digit_char d) = d"
  by (simp add: digit_val_def code_digit_char)

lemma is_digit_digit_char [simp]: "d < 10 \<Longrightarrow> is_digit (digit_char d)"
  by (simp add: is_digit_def code_digit_char)

lemma dec_val_snoc: "dec_val (s @ [c]) = 10 * dec_val s + digit_val c"
  by (simp add: dec_val_def)

lemma dec_val_dec [simp]: "dec_val (dec n) = n"
proof (induction n rule: dec.induct)
  case (1 n)
  show ?case
  proof (cases "n < 10")
    case True
    then show ?thesis by (subst dec.simps) (simp add: dec_val_def)
  next
    case False
    then show ?thesis using "1.IH" by (subst dec.simps) (simp add: dec_val_snoc)
  qed
qed

lemma dec_inj [simp]: "dec m = dec n \<longleftrightarrow> m = n"
  by (metis dec_val_dec)

lemma dec_digits: "list_all is_digit (dec n)"
proof (induction n rule: dec.induct)
  case (1 n)
  then show ?case by (subst dec.simps) simp
qed

lemma dec_not_Nil [simp]: "dec n \<noteq> []"
  by (subst dec.simps) simp

text \<open>\<open>%d\<close> of an \<open>int\<close>.\<close>

definition dec_int :: "int \<Rightarrow> gostring" where
  "dec_int i = (if i < 0 then ''-'' @ dec (nat (- i)) else dec (nat i))"

subsection \<open>UTF-8\<close>

text \<open>
  \<open>utf8.DecodeRuneInString\<close> on a non-empty string: the rune and its width in bytes; a
  byte that starts no valid encoding is the replacement rune 65533 of width 1.
\<close>

definition between :: "nat \<Rightarrow> nat \<Rightarrow> char list \<Rightarrow> nat \<Rightarrow> bool" where
  "between lo hi s i = (i < length s \<and> lo \<le> code (s ! i) \<and> code (s ! i) \<le> hi)"

definition decode_rune :: "gostring \<Rightarrow> nat \<times> nat" where
  "decode_rune s = (let b0 = code (s ! 0); b = (\<lambda>i. code (s ! i) mod 64);
       cont = between 128 191 s;
       two = (b0 mod 32 * 64 + b 1, 2);
       three = (b0 mod 16 * 4096 + b 1 * 64 + b 2, 3);
       four = (b0 mod 8 * 262144 + b 1 * 4096 + b 2 * 64 + b 3, 4) in
     if b0 < 128 then (b0, 1)
     else if 194 \<le> b0 \<and> b0 \<le> 223 \<and> cont 1 then two
     else if b0 = 224 \<and> between 160 191 s 1 \<and> cont 2 then three
     else if (225 \<le> b0 \<and> b0 \<le> 236 \<or> b0 = 238 \<or> b0 = 239) \<and> cont 1 \<and> cont 2 then three
     else if b0 = 237 \<and> between 128 159 s 1 \<and> cont 2 then three
     else if b0 = 240 \<and> between 144 191 s 1 \<and> cont 2 \<and> cont 3 then four
     else if 241 \<le> b0 \<and> b0 \<le> 243 \<and> cont 1 \<and> cont 2 \<and> cont 3 then four
     else if b0 = 244 \<and> between 128 143 s 1 \<and> cont 2 \<and> cont 3 then four
     else (65533, 1))"

lemma decode_rune_width: "1 \<le> snd (decode_rune s)"
  by (simp add: decode_rune_def Let_def)

lemma decode_rune_ascii: "code c < 128 \<Longrightarrow> decode_rune (c # s) = (code c, 1)"
  by (simp add: decode_rune_def Let_def)

text \<open>The runes a \<open>for range\<close> loop over a string visits.\<close>

function runes :: "gostring \<Rightarrow> nat list" where
  "runes [] = []"
| "runes (c # s) = fst (decode_rune (c # s)) # runes (drop (snd (decode_rune (c # s))) (c # s))"
  by pat_completeness auto
termination
proof (relation "measure length")
  fix c and s :: gostring
  show "(drop (snd (decode_rune (c # s))) (c # s), c # s) \<in> measure length"
    using decode_rune_width [of "c # s"] by (cases "snd (decode_rune (c # s))") auto
qed simp

text \<open>\<open>utf8.ValidString\<close>.\<close>

function valid_utf8 :: "gostring \<Rightarrow> bool" where
  "valid_utf8 [] = True"
| "valid_utf8 (c # s) = (decode_rune (c # s) \<noteq> (65533, 1) \<and>
     valid_utf8 (drop (snd (decode_rune (c # s))) (c # s)))"
  by pat_completeness auto
termination
proof (relation "measure length")
  fix c and s :: gostring
  show "(drop (snd (decode_rune (c # s))) (c # s), c # s) \<in> measure length"
    using decode_rune_width [of "c # s"] by (cases "snd (decode_rune (c # s))") auto
qed simp

lemma runes_ascii: "list_all is_ascii s \<Longrightarrow> runes s = map of_char s"
  by (induction s) (simp_all add: is_ascii_def decode_rune_ascii)

lemma valid_utf8_ascii: "list_all is_ascii s \<Longrightarrow> valid_utf8 s"
  by (induction s) (simp_all add: is_ascii_def decode_rune_ascii)

lemma valid_utf8_ascii_append: "list_all is_ascii s \<Longrightarrow> valid_utf8 (s @ t) = valid_utf8 t"
  by (induction s) (simp_all add: is_ascii_def decode_rune_ascii)

subsection \<open>Evaluation\<close>

text \<open>The equations by which a closed term over bytes evaluates in the simplifier.\<close>

lemmas byte_eval = is_letter_def is_digit_def is_space_def is_ascii_def ascii_upper_def
  ascii_lower_def to_upper_def to_lower_def slice_def Let_def ascii_space_def space_width_def
  space_width_end_def trim_space_def trim_left.simps trim_right.simps dec_val_def digit_val_def

end
