(* ===== verification/Sql_Scan.thy ===== *)
theory Sql_Scan
  imports Go_Base
begin

text \<open>
  The lexical scanner of \<open>src/internal/sqlscan/sqlscan.go\<close>: \<open>Scan\<close> with its helpers,
  \<open>FirstKeyword\<close>, \<open>ExecutableWords\<close>, \<open>executableTokens\<close> and \<open>ValidateSelect\<close>. Native SQL
  enters every other layer through this scanner: it says which bytes are protected
  (quoted, commented or dollar-quoted) and where the executable placeholders and
  semicolons are.

  Offsets are \<open>nat\<close>; a read \<open>sql[i]\<close> always stands under the bound check the source makes.
  The optional engine argument is an \<open>option\<close>. The three word loops follow the
  \<open>Protected\<close> spans of a result that the caller supplies, so they are defined as
  \<open>partial_function (option)\<close>, \<open>None\<close> meaning that the loop does not return, and are
  proved to return on every result of \<open>Scan\<close>. \<open>L\<close> and \<open>U\<close> are the Unicode case tables
  used by \<open>strings.ToLower\<close> and \<open>strings.ToUpper\<close> on text that is not ASCII.
\<close>

datatype scan_error =
    UnterminatedQuoted
  | UnterminatedBlockComment
  | UnterminatedDollarQuote
  | ExecutableSemicolon
  | NotSelect
  | NotSelectWith

record span =
  span_start :: nat
  span_end :: nat

datatype placeholder_kind = Question | Dollar

record placeholder =
  ph_start :: nat
  ph_end :: nat
  ph_kind :: placeholder_kind
  ph_number :: nat
  ph_invalid :: bool

record scan_result =
  protected :: "span list"
  placeholders :: "placeholder list"
  semicolons :: "nat list"

definition empty_result :: scan_result where
  "empty_result = \<lparr>protected = [], placeholders = [], semicolons = []\<rparr>"

definition engine_name :: "(gostring \<Rightarrow> gostring) \<Rightarrow> gostring option \<Rightarrow> gostring" where
  "engine_name L engine = (case engine of None \<Rightarrow> '''' | Some e \<Rightarrow> to_lower L (trim_space e))"

subsection \<open>Lexical regions\<close>

definition line_comment_start :: "gostring \<Rightarrow> nat \<Rightarrow> gostring \<Rightarrow> bool" where
  "line_comment_start sql start engine =
     (if engine \<noteq> ''mysql'' then True
      else start + 2 \<ge> length sql \<or> is_space (sql ! (start + 2)))"

function scan_quoted_from :: "gostring \<Rightarrow> nat \<Rightarrow> char \<Rightarrow> bool \<Rightarrow> scan_error + nat" where
  "scan_quoted_from sql i quote escapes =
     (if i < length sql then
        if escapes \<and> code (sql ! i) = 92 \<and> i + 1 < length sql
        then scan_quoted_from sql (i + 2) quote escapes
        else if sql ! i \<noteq> quote then scan_quoted_from sql (i + 1) quote escapes
        else if i + 1 < length sql \<and> sql ! (i + 1) = quote
        then scan_quoted_from sql (i + 2) quote escapes
        else Inr (i + 1)
      else Inl UnterminatedQuoted)"
  by pat_completeness auto
termination
  by (relation "measure (\<lambda>(sql, i, _). length sql - i)") auto

definition scan_quoted :: "gostring \<Rightarrow> nat \<Rightarrow> char \<Rightarrow> bool \<Rightarrow> scan_error + nat" where
  "scan_quoted sql start quote escapes = scan_quoted_from sql (start + 1) quote escapes"

function scan_line_comment :: "gostring \<Rightarrow> nat \<Rightarrow> nat" where
  "scan_line_comment sql i =
     (if i < length sql then
        if code (sql ! i) = 10 \<or> code (sql ! i) = 13 then i else scan_line_comment sql (i + 1)
      else length sql)"
  by pat_completeness auto
termination
  by (relation "measure (\<lambda>(sql, i). length sql - i)") auto

function scan_block_from :: "gostring \<Rightarrow> nat \<Rightarrow> nat \<Rightarrow> scan_error + nat" where
  "scan_block_from sql i depth =
     (if i < length sql then
        if i + 1 < length sql \<and> sql ! i = CHR ''/'' \<and> sql ! (i + 1) = CHR ''*''
        then scan_block_from sql (i + 2) (depth + 1)
        else if i + 1 < length sql \<and> sql ! i = CHR ''*'' \<and> sql ! (i + 1) = CHR ''/''
        then (if depth - 1 = 0 then Inr (i + 2) else scan_block_from sql (i + 2) (depth - 1))
        else scan_block_from sql (i + 1) depth
      else Inl UnterminatedBlockComment)"
  by pat_completeness auto
termination
  by (relation "measure (\<lambda>(sql, i, _). length sql - i)") auto

definition scan_block_comment :: "gostring \<Rightarrow> nat \<Rightarrow> scan_error + nat" where
  "scan_block_comment sql start = scan_block_from sql (start + 2) 1"

text \<open>A loop \<open>for end < len(sql) && p(sql[end]) { end++ }\<close>.\<close>

function skip_while :: "(char \<Rightarrow> bool) \<Rightarrow> gostring \<Rightarrow> nat \<Rightarrow> nat" where
  "skip_while p sql i = (if i < length sql \<and> p (sql ! i) then skip_while p sql (i + 1) else i)"
  by pat_completeness auto
termination
  by (relation "measure (\<lambda>(p, sql, i). length sql - i)") auto

declare scan_quoted_from.simps [simp del] scan_line_comment.simps [simp del]
  scan_block_from.simps [simp del] skip_while.simps [simp del]

definition word_char :: "char \<Rightarrow> bool" where
  "word_char c = (is_letter c \<or> is_digit c \<or> c = CHR ''_'')"

definition dollar_quote_start :: "gostring \<Rightarrow> nat \<Rightarrow> nat option" where
  "dollar_quote_start sql start =
     (let e = start + 1 in
      if e < length sql \<and> sql ! e = CHR ''$'' then Some (e + 1)
      else if e \<ge> length sql then None
      else if sql ! e \<noteq> CHR ''_'' \<and> \<not> is_letter (sql ! e) then None
      else (let e' = skip_while word_char sql (e + 1) in
            if e' < length sql \<and> sql ! e' = CHR ''$'' then Some (e' + 1) else None))"

text \<open>The largest value of Go's \<open>int\<close> on a 64-bit platform, the bound \<open>strconv.Atoi\<close> enforces.\<close>

definition max_int :: nat where
  "max_int = 2 ^ 63 - 1"

text \<open>\<open>Some (number, end, invalid)\<close> where the source returns \<open>ok\<close>.\<close>

definition dollar_placeholder :: "gostring \<Rightarrow> nat \<Rightarrow> (nat \<times> nat \<times> bool) option" where
  "dollar_placeholder sql start =
     (let e = start + 1 in
      if e \<ge> length sql \<or> \<not> is_digit (sql ! e) then None
      else (let e' = skip_while is_digit sql e; n = dec_val (slice sql (start + 1) e') in
            if n > max_int then Some (0, e', True) else Some (n, e', False)))"

subsection \<open>Scan\<close>

definition protect :: "nat \<Rightarrow> nat \<Rightarrow> scan_result \<Rightarrow> scan_result" where
  "protect i e r = r\<lparr>protected := protected r @ [\<lparr>span_start = i, span_end = e\<rparr>]\<rparr>"

definition add_placeholder :: "placeholder \<Rightarrow> scan_result \<Rightarrow> scan_result" where
  "add_placeholder p r = r\<lparr>placeholders := placeholders r @ [p]\<rparr>"

definition add_semicolon :: "nat \<Rightarrow> scan_result \<Rightarrow> scan_result" where
  "add_semicolon i r = r\<lparr>semicolons := semicolons r @ [i]\<rparr>"

text \<open>The \<open>case sql[i] == '$'\<close> branch.\<close>

definition scan_dollar :: "gostring \<Rightarrow> gostring \<Rightarrow> nat \<Rightarrow> scan_result \<Rightarrow> scan_error + nat \<times> scan_result" where
  "scan_dollar engine sql i r =
     (case (if engine = '''' \<or> engine = ''postgresql'' then dollar_quote_start sql i else None) of
        Some e \<Rightarrow>
          (case index_of (drop e sql) (slice sql i e) of
             None \<Rightarrow> Inl UnterminatedDollarQuote
           | Some k \<Rightarrow> (let close_end = (k + e) + (e - i) in
                       Inr (close_end, protect i close_end r)))
      | None \<Rightarrow>
          (case dollar_placeholder sql i of
             Some (number, e, invalid) \<Rightarrow>
               Inr (e, add_placeholder \<lparr>ph_start = i, ph_end = e, ph_kind = Dollar,
                                        ph_number = number, ph_invalid = invalid\<rparr> r)
           | None \<Rightarrow> Inr (i + 1, r)))"

text \<open>One iteration of the scanning loop: the next offset and the result so far.\<close>

definition scan_step :: "gostring \<Rightarrow> gostring \<Rightarrow> nat \<Rightarrow> scan_result \<Rightarrow> scan_error + nat \<times> scan_result" where
  "scan_step engine sql i r =
     (let backslash_strings = (engine = '''' \<or> engine = ''mysql'');
          protected_to = (\<lambda>e. (e, protect i e r)) in
      if sql ! i = CHR 0x27 then
        map_sum id protected_to (scan_quoted sql i (CHR 0x27) backslash_strings)
      else if engine = ''postgresql'' \<and> (sql ! i = CHR ''e'' \<or> sql ! i = CHR ''E'')
              \<and> i + 1 < length sql \<and> sql ! (i + 1) = CHR 0x27 then
        map_sum id protected_to (scan_quoted sql (i + 1) (CHR 0x27) True)
      else if sql ! i = CHR 0x22 then
        map_sum id protected_to (scan_quoted sql i (CHR 0x22) (engine = ''mysql''))
      else if sql ! i = CHR 0x60 then
        map_sum id protected_to (scan_quoted sql i (CHR 0x60) backslash_strings)
      else if sql ! i = CHR ''-'' \<and> i + 1 < length sql \<and> sql ! (i + 1) = CHR ''-''
              \<and> line_comment_start sql i engine then
        Inr (protected_to (scan_line_comment sql (i + 2)))
      else if sql ! i = CHR ''#'' \<and> (engine = '''' \<or> engine = ''mysql'') then
        Inr (protected_to (scan_line_comment sql (i + 1)))
      else if sql ! i = CHR ''/'' \<and> i + 1 < length sql \<and> sql ! (i + 1) = CHR ''*'' then
        map_sum id protected_to (scan_block_comment sql i)
      else if sql ! i = CHR ''$'' then scan_dollar engine sql i r
      else if sql ! i = CHR ''?'' then
        Inr (i + 1, add_placeholder \<lparr>ph_start = i, ph_end = i + 1, ph_kind = Question,
                                     ph_number = 0, ph_invalid = False\<rparr> r)
      else if sql ! i = CHR '';'' then Inr (i + 1, add_semicolon i r)
      else Inr (i + 1, r))"

subsection \<open>Progress and bounds of the loops\<close>

lemma scan_quoted_from_bound [scan_progress]:
  "scan_quoted_from sql i quote escapes = Inr e \<Longrightarrow> i < e \<and> e \<le> length sql"
proof (induction sql i quote escapes rule: scan_quoted_from.induct)
  case (1 sql i quote escapes)
  then show ?case
    by (subst (asm) (4) scan_quoted_from.simps) (auto split: if_splits)
qed

lemma scan_quoted_bound [scan_progress]:
  "scan_quoted sql i quote escapes = Inr e \<Longrightarrow> i + 1 < e \<and> e \<le> length sql"
  unfolding scan_quoted_def by (drule scan_quoted_from_bound) simp

lemma scan_line_comment_bound [scan_progress]:
  "i \<le> length sql \<Longrightarrow> i \<le> scan_line_comment sql i \<and> scan_line_comment sql i \<le> length sql"
proof (induction sql i rule: scan_line_comment.induct)
  case (1 sql i)
  then show ?case by (subst (1 2) scan_line_comment.simps) auto
qed

lemma scan_block_from_bound [scan_progress]:
  "scan_block_from sql i depth = Inr e \<Longrightarrow> i < e \<and> e \<le> length sql"
proof (induction sql i depth rule: scan_block_from.induct)
  case (1 sql i depth)
  then show ?case
    by (subst (asm) (4) scan_block_from.simps) (auto split: if_splits)
qed

lemma scan_block_comment_bound [scan_progress]:
  "scan_block_comment sql i = Inr e \<Longrightarrow> i + 2 < e \<and> e \<le> length sql"
  unfolding scan_block_comment_def by (drule scan_block_from_bound) simp

lemma skip_while_ge [scan_progress]: "i \<le> skip_while p sql i"
proof (induction p sql i rule: skip_while.induct)
  case (1 p sql i)
  then show ?case by (subst skip_while.simps) auto
qed

lemma skip_while_le [scan_progress]: "i \<le> length sql \<Longrightarrow> skip_while p sql i \<le> length sql"
proof (induction p sql i rule: skip_while.induct)
  case (1 p sql i)
  then show ?case by (subst skip_while.simps) auto
qed

lemma skip_while_inside: "i \<le> k \<Longrightarrow> k < skip_while p sql i \<Longrightarrow> p (sql ! k)"
proof (induction p sql i rule: skip_while.induct)
  case (1 p sql i)
  from "1.prems" have go: "i < length sql \<and> p (sql ! i)"
    by (cases "i < length sql \<and> p (sql ! i)") (auto simp: skip_while.simps [of p sql i])
  show ?case
  proof (cases "i = k")
    case False
    with "1.IH" [OF go] "1.prems" go show ?thesis by (simp add: skip_while.simps [of p sql i])
  qed (use go in simp)
qed

lemma skip_while_stops: "skip_while p sql i < length sql \<Longrightarrow> \<not> p (sql ! skip_while p sql i)"
proof (induction p sql i rule: skip_while.induct)
  case (1 p sql i)
  then show ?case
    by (cases "i < length sql \<and> p (sql ! i)") (auto simp: skip_while.simps [of p sql i])
qed

lemma dollar_quote_start_bound [scan_progress]:
  "dollar_quote_start sql i = Some e \<Longrightarrow> i + 1 < e \<and> e \<le> length sql"
  using skip_while_ge [of "i + 2" word_char sql]
  by (auto simp: dollar_quote_start_def Let_def split: if_splits)

lemma dollar_placeholder_bound [scan_progress]:
  assumes "dollar_placeholder sql i = Some (n, e, bad)"
  shows "i + 1 < e \<and> e \<le> length sql \<and> (\<forall>k. i < k \<and> k < e \<longrightarrow> is_digit (sql ! k))"
proof -
  from assms have i: "i + 1 < length sql" "is_digit (sql ! (i + 1))"
    and e: "e = skip_while is_digit sql (i + 1)"
    by (auto simp: dollar_placeholder_def Let_def split: if_splits)
  from i have "e = skip_while is_digit sql (i + 2)"
    unfolding e by (subst skip_while.simps) simp
  then have "i + 2 \<le> e" using skip_while_ge by simp
  moreover have "e \<le> length sql"
    using i skip_while_le [of "i + 1" sql is_digit] by (simp add: e)
  moreover have "\<forall>k. i < k \<and> k < e \<longrightarrow> is_digit (sql ! k)"
    using skip_while_inside [of "i + 1" _ is_digit sql] by (auto simp: e)
  ultimately show ?thesis by auto
qed

lemma scan_dollar_bound:
  assumes "scan_dollar engine sql i r = Inr (j, r')" and "i < length sql"
  shows "i < j \<and> j \<le> length sql"
proof (cases "if engine = '''' \<or> engine = ''postgresql'' then dollar_quote_start sql i else None")
  case None
  with assms show ?thesis
    by (auto simp: scan_dollar_def dest!: dollar_placeholder_bound split: option.splits if_splits)
next
  case (Some e)
  then have q: "dollar_quote_start sql i = Some e" by (auto split: if_splits)
  note b = dollar_quote_start_bound [OF q]
  from assms Some obtain k where k: "index_of (drop e sql) (slice sql i e) = Some k"
    and j: "j = (k + e) + (e - i)"
    by (auto simp: scan_dollar_def Let_def split: option.splits)
  from b have "length (slice sql i e) = e - i" by (auto simp: slice_def)
  with index_of_bound [OF k] b j show ?thesis by auto
qed

lemma scan_step_bound:
  assumes "scan_step engine sql i r = Inr (j, r')" and "i < length sql"
  shows "i < j \<and> j \<le> length sql"
  using assms scan_line_comment_bound [of "i + 1" sql] scan_line_comment_bound [of "i + 2" sql]
  by (auto simp: scan_step_def Let_def map_sum_def dest!: scan_quoted_bound scan_block_comment_bound
      scan_dollar_bound split: if_splits sum.splits)

function scan_loop :: "gostring \<Rightarrow> gostring \<Rightarrow> nat \<Rightarrow> scan_result \<Rightarrow> scan_error + scan_result" where
  "scan_loop engine sql i r =
     (if i < length sql then
        (case scan_step engine sql i r of
           Inl e \<Rightarrow> Inl e
         | Inr (j, r') \<Rightarrow> scan_loop engine sql j r')
      else Inr r)"
  by pat_completeness auto
termination
proof (relation "measure (\<lambda>(engine, sql, i, r). length sql - i)", goal_cases)
  case 1
  then show ?case by simp
next
  case (2 engine sql i r p j r')
  then show ?case using scan_step_bound [of engine sql i r j r'] by auto
qed

declare scan_loop.simps [simp del]

definition scan :: "(gostring \<Rightarrow> gostring) \<Rightarrow> gostring \<Rightarrow> gostring option \<Rightarrow> scan_error + scan_result" where
  "scan L sql engine = scan_loop (engine_name L engine) sql 0 empty_result"

subsection \<open>What one iteration records\<close>

text \<open>
  Five kinds of iteration: a protected region, a skipped byte, a question mark, a
  semicolon, and a dollar placeholder.
\<close>

inductive step_kind :: "gostring \<Rightarrow> nat \<Rightarrow> scan_result \<Rightarrow> nat \<Rightarrow> scan_result \<Rightarrow> bool"
  for sql i r where
  protects: "i < j \<Longrightarrow> j \<le> length sql \<Longrightarrow> step_kind sql i r j (protect i j r)"
| skips: "sql ! i \<noteq> CHR ''?'' \<Longrightarrow> sql ! i \<noteq> CHR '';'' \<Longrightarrow> step_kind sql i r (i + 1) r"
| question: "sql ! i = CHR ''?'' \<Longrightarrow>
     step_kind sql i r (i + 1)
       (add_placeholder \<lparr>ph_start = i, ph_end = i + 1, ph_kind = Question, ph_number = 0,
                         ph_invalid = False\<rparr> r)"
| semicolon: "sql ! i = CHR '';'' \<Longrightarrow> step_kind sql i r (i + 1) (add_semicolon i r)"
| dollar: "sql ! i = CHR ''$'' \<Longrightarrow> dollar_placeholder sql i = Some (n, e, bad) \<Longrightarrow>
     step_kind sql i r e
       (add_placeholder \<lparr>ph_start = i, ph_end = e, ph_kind = Dollar, ph_number = n,
                         ph_invalid = bad\<rparr> r)"

lemma scan_dollar_kind:
  assumes "scan_dollar engine sql i r = Inr (j, r')" and "i < length sql" and "sql ! i = CHR ''$''"
  shows "step_kind sql i r j r'"
proof (cases "if engine = '''' \<or> engine = ''postgresql'' then dollar_quote_start sql i else None")
  case None
  show ?thesis
  proof (cases "dollar_placeholder sql i")
    case None': None
    with None assms have "j = i + 1" "r' = r" by (auto simp: scan_dollar_def)
    moreover have "step_kind sql i r (i + 1) r"
      using assms(3) by (intro step_kind.skips) auto
    ultimately show ?thesis by simp
  next
    case (Some p)
    obtain n e bad where "p = (n, e, bad)" by (cases p)
    with Some None assms show ?thesis by (auto simp: scan_dollar_def intro!: step_kind.dollar)
  qed
next
  case (Some e)
  with assms have "r' = protect i j r"
    by (auto simp: scan_dollar_def Let_def split: option.splits)
  with scan_dollar_bound [OF assms(1,2)] show ?thesis by (auto intro: step_kind.protects)
qed

lemma scan_step_kind:
  assumes "scan_step engine sql i r = Inr (j, r')" and "i < length sql"
  shows "step_kind sql i r j r'"
proof -
  note b = scan_step_bound [OF assms]
  from assms(1) consider (prot) "r' = protect i j r"
    | (dollar) "sql ! i = CHR ''$''" "scan_dollar engine sql i r = Inr (j, r')"
    | (quest) "sql ! i = CHR ''?''" "j = i + 1"
        "r' = add_placeholder \<lparr>ph_start = i, ph_end = i + 1, ph_kind = Question,
                                ph_number = 0, ph_invalid = False\<rparr> r"
    | (semi) "sql ! i = CHR '';''" "j = i + 1" "r' = add_semicolon i r"
    | (skip) "sql ! i \<noteq> CHR ''?''" "sql ! i \<noteq> CHR '';''" "j = i + 1" "r' = r"
    by (auto simp: scan_step_def Let_def map_sum_def split: if_splits sum.splits)
  then show ?thesis
  proof cases
    case prot
    with b show ?thesis by (auto intro: step_kind.protects)
  next
    case dollar
    with assms show ?thesis by (intro scan_dollar_kind)
  next
    case quest
    then show ?thesis by (auto intro: step_kind.question [of sql i r, simplified])
  next
    case semi
    then show ?thesis by (auto intro: step_kind.semicolon [of sql i r, simplified])
  next
    case skip
    then show ?thesis by (auto intro: step_kind.skips [of sql i r, simplified])
  qed
qed

subsection \<open>What a whole scan records\<close>

definition covered :: "span list \<Rightarrow> nat \<Rightarrow> bool" where
  "covered sps k = list_ex (\<lambda>sp. span_start sp \<le> k \<and> k < span_end sp) sps"

text \<open>The offsets below \<open>n\<close> that hold byte \<open>c\<close> outside every protected region.\<close>

definition marks :: "gostring \<Rightarrow> char \<Rightarrow> span list \<Rightarrow> nat \<Rightarrow> nat list" where
  "marks sql c sps n = filter (\<lambda>k. sql ! k = c \<and> \<not> covered sps k) [0..<n]"

definition spans_ok :: "span list \<Rightarrow> nat \<Rightarrow> bool" where
  "spans_ok sps n = (sorted_wrt (\<lambda>a b. span_end a \<le> span_start b) sps
     \<and> list_all (\<lambda>sp. span_start sp < span_end sp \<and> span_end sp \<le> n) sps)"

definition placeholder_ok :: "gostring \<Rightarrow> span list \<Rightarrow> placeholder \<Rightarrow> bool" where
  "placeholder_ok sql sps p =
     ((\<forall>k \<in> {ph_start p..<ph_end p}. \<not> covered sps k) \<and>
      (case ph_kind p of
         Question \<Rightarrow> sql ! ph_start p = CHR ''?'' \<and> ph_end p = ph_start p + 1 \<and> ph_number p = 0
                     \<and> \<not> ph_invalid p
       | Dollar \<Rightarrow> sql ! ph_start p = CHR ''$'' \<and>
           dollar_placeholder sql (ph_start p) = Some (ph_number p, ph_end p, ph_invalid p)))"

definition questions :: "scan_result \<Rightarrow> nat list" where
  "questions r = map ph_start (filter (\<lambda>p. ph_kind p = Question) (placeholders r))"

definition placeholders_ok :: "gostring \<Rightarrow> scan_result \<Rightarrow> nat \<Rightarrow> bool" where
  "placeholders_ok sql r n =
     (sorted_wrt (\<lambda>a b. ph_end a \<le> ph_start b) (placeholders r) \<and>
      list_all (\<lambda>p. ph_start p < ph_end p \<and> ph_end p \<le> n \<and> placeholder_ok sql (protected r) p)
        (placeholders r))"

definition scan_inv :: "gostring \<Rightarrow> nat \<Rightarrow> scan_result \<Rightarrow> bool" where
  "scan_inv sql i r =
     (spans_ok (protected r) i \<and> placeholders_ok sql r i
      \<and> semicolons r = marks sql (CHR '';'') (protected r) i
      \<and> questions r = marks sql (CHR ''?'') (protected r) i)"

lemma covered_iff: "covered sps k \<longleftrightarrow> (\<exists>sp \<in> set sps. span_start sp \<le> k \<and> k < span_end sp)"
  by (auto simp: covered_def list_ex_iff)

lemma covered_snoc [simp]:
  "covered (sps @ [\<lparr>span_start = i, span_end = j\<rparr>]) k \<longleftrightarrow> covered sps k \<or> i \<le> k \<and> k < j"
  by (auto simp: covered_iff)

lemma spans_ok_not_covered: "spans_ok sps i \<Longrightarrow> i \<le> k \<Longrightarrow> \<not> covered sps k"
  by (auto simp: spans_ok_def covered_iff list_all_iff)

lemma spans_ok_mono: "spans_ok sps i \<Longrightarrow> i \<le> j \<Longrightarrow> spans_ok sps j"
  by (auto simp: spans_ok_def list_all_iff)

lemma spans_ok_snoc:
  "spans_ok sps i \<Longrightarrow> i < j \<Longrightarrow> spans_ok (sps @ [\<lparr>span_start = i, span_end = j\<rparr>]) j"
  by (auto simp: spans_ok_def sorted_wrt_append list_all_iff)

lemma upt_split: "i \<le> j \<Longrightarrow> [0..<j] = [0..<i] @ [i..<j]"
  by (metis bot_nat_0.extremum le_add_diff_inverse upt_add_eq_append)

lemma marks_protect:
  assumes "spans_ok sps i" and "i < j"
  shows "marks sql c (sps @ [\<lparr>span_start = i, span_end = j\<rparr>]) j = marks sql c sps i"
proof -
  have "filter (\<lambda>k. sql ! k = c \<and> \<not> covered (sps @ [\<lparr>span_start = i, span_end = j\<rparr>]) k) [0..<i]
        = filter (\<lambda>k. sql ! k = c \<and> \<not> covered sps k) [0..<i]"
    by (rule filter_cong) auto
  moreover have "filter (\<lambda>k. sql ! k = c \<and> \<not> covered (sps @ [\<lparr>span_start = i, span_end = j\<rparr>]) k) [i..<j] = []"
    by (simp add: filter_empty_conv)
  ultimately show ?thesis
    using assms by (simp add: marks_def upt_split [of i j])
qed

lemma marks_skip:
  "i \<le> j \<Longrightarrow> (\<And>k. i \<le> k \<Longrightarrow> k < j \<Longrightarrow> sql ! k \<noteq> c) \<Longrightarrow> marks sql c sps j = marks sql c sps i"
  by (simp add: marks_def upt_split [of i j] filter_empty_conv)

lemma marks_miss: "sql ! i \<noteq> c \<Longrightarrow> marks sql c sps (Suc i) = marks sql c sps i"
  by (simp add: marks_def)

lemma marks_hit:
  "spans_ok sps i \<Longrightarrow> sql ! i = c \<Longrightarrow> marks sql c sps (Suc i) = marks sql c sps i @ [i]"
  by (simp add: marks_def spans_ok_not_covered)

lemma placeholder_ok_protect:
  assumes "placeholder_ok sql sps p" and "ph_end p \<le> i"
  shows "placeholder_ok sql (sps @ [\<lparr>span_start = i, span_end = j\<rparr>]) p"
  using assms by (auto simp: placeholder_ok_def)

lemma placeholders_ok_protect:
  "placeholders_ok sql r i \<Longrightarrow> i < j \<Longrightarrow> placeholders_ok sql (protect i j r) j"
  by (auto simp: placeholders_ok_def protect_def list_all_iff placeholder_ok_protect)

lemma placeholders_ok_mono: "placeholders_ok sql r i \<Longrightarrow> i \<le> j \<Longrightarrow> placeholders_ok sql r j"
  by (auto simp: placeholders_ok_def list_all_iff)

lemma placeholders_ok_add:
  assumes "placeholders_ok sql r i" and "ph_start p = i" and "i < ph_end p"
    and "placeholder_ok sql (protected r) p"
  shows "placeholders_ok sql (add_placeholder p r) (ph_end p)"
  using assms by (auto simp: placeholders_ok_def add_placeholder_def sorted_wrt_append list_all_iff)

lemma step_kind_inv:
  assumes "step_kind sql i r j r'" and "scan_inv sql i r"
  shows "scan_inv sql j r'"
  using assms(1)
proof cases
  case protects
  with assms(2) show ?thesis
    using placeholders_ok_protect [of sql r i j]
    by (simp add: scan_inv_def protect_def spans_ok_snoc marks_protect questions_def)
next
  case skips
  with assms(2) show ?thesis
    by (auto simp: scan_inv_def marks_miss intro: spans_ok_mono placeholders_ok_mono)
next
  case question
  let ?p = "\<lparr>ph_start = i, ph_end = i + 1, ph_kind = Question, ph_number = 0, ph_invalid = False\<rparr>"
  have "placeholder_ok sql (protected r) ?p"
    using assms(2) question spans_ok_not_covered [of "protected r" i]
    by (auto simp: placeholder_ok_def scan_inv_def)
  with placeholders_ok_add [of sql r i ?p] assms(2) question show ?thesis
    by (auto simp: scan_inv_def add_placeholder_def marks_hit marks_miss questions_def
        intro: spans_ok_mono)
next
  case semicolon
  with assms(2) show ?thesis
    by (auto simp: scan_inv_def add_semicolon_def marks_hit marks_miss questions_def
        placeholders_ok_def list_all_iff intro: spans_ok_mono)
next
  case (dollar n bad)
  let ?p = "\<lparr>ph_start = i, ph_end = j, ph_kind = Dollar, ph_number = n, ph_invalid = bad\<rparr>"
  note b = dollar_placeholder_bound [OF dollar(3)]
  have no: "sql ! k \<noteq> c" if "i \<le> k" "k < j" "c = CHR ''?'' \<or> c = CHR '';''" for k c
  proof (cases "i = k")
    case True
    with that(3) dollar(2) show ?thesis by auto
  next
    case False
    with that b have "is_digit (sql ! k)" by simp
    with that(3) show ?thesis by (auto simp: is_digit_def)
  qed
  have "placeholder_ok sql (protected r) ?p"
    using assms(2) dollar spans_ok_not_covered [of "protected r" i]
    by (auto simp: placeholder_ok_def scan_inv_def)
  with placeholders_ok_add [of sql r i ?p] assms(2) dollar b show ?thesis
    by (auto simp: scan_inv_def add_placeholder_def marks_skip [of i j] no questions_def
        intro: spans_ok_mono)
qed

lemma scan_loop_inv:
  assumes "scan_loop engine sql i r = Inr res" and "scan_inv sql i r" and "i \<le> length sql"
  shows "scan_inv sql (length sql) res"
  using assms
proof (induction engine sql i r rule: scan_loop.induct)
  case (1 engine sql i r)
  show ?case
  proof (cases "i < length sql")
    case False
    with "1.prems" show ?thesis by (simp add: scan_loop.simps [of engine sql i r])
  next
    case True
    with "1.prems" obtain j r' where step: "scan_step engine sql i r = Inr (j, r')"
      and rest: "scan_loop engine sql j r' = Inr res"
      by (auto simp: scan_loop.simps [of engine sql i r] split: sum.splits)
    have "scan_inv sql j r'"
      using step_kind_inv [OF scan_step_kind [OF step True] "1.prems"(2)] .
    with "1.IH" [OF True step refl rest] scan_step_bound [OF step True] show ?thesis by simp
  qed
qed

lemma scan_inv_empty: "scan_inv sql 0 empty_result"
  by (simp add: scan_inv_def empty_result_def spans_ok_def placeholders_ok_def marks_def questions_def)

lemma scan_scan_inv: "scan L sql engine = Inr res \<Longrightarrow> scan_inv sql (length sql) res"
  unfolding scan_def by (erule scan_loop_inv) (simp_all add: scan_inv_empty)

subsection \<open>Words and tokens outside the protected regions\<close>

text \<open>The map from the start of each protected span to its end.\<close>

definition span_index :: "span list \<Rightarrow> (nat \<rightharpoonup> nat)" where
  "span_index sps = foldl (\<lambda>m sp. m(span_start sp \<mapsto> span_end sp)) Map.empty sps"

partial_function (option) first_keyword_from ::
    "(gostring \<Rightarrow> gostring) \<Rightarrow> gostring \<Rightarrow> span list \<Rightarrow> nat \<Rightarrow> gostring option" where
  "first_keyword_from U sql sps i =
     (if i < length sql then
        (case span_index sps i of
           Some e \<Rightarrow> first_keyword_from U sql sps e
         | None \<Rightarrow>
             (if is_space (sql ! i) then first_keyword_from U sql sps (i + 1)
              else if \<not> is_letter (sql ! i) then Some ''''
              else Some (to_upper U (slice sql i (skip_while word_char sql i)))))
      else Some '''')"

definition first_keyword :: "(gostring \<Rightarrow> gostring) \<Rightarrow> gostring \<Rightarrow> scan_result \<Rightarrow> gostring option" where
  "first_keyword U sql r = first_keyword_from U sql (protected r) 0"

record sql_word =
  word_text :: gostring
  word_depth :: nat

partial_function (option) executable_words_from ::
    "(gostring \<Rightarrow> gostring) \<Rightarrow> gostring \<Rightarrow> span list \<Rightarrow> nat \<Rightarrow> nat \<Rightarrow> sql_word list \<Rightarrow> sql_word list option"
  where
  "executable_words_from U sql sps i depth words =
     (if i < length sql then
        (case span_index sps i of
           Some e \<Rightarrow> executable_words_from U sql sps e depth words
         | None \<Rightarrow>
             (if sql ! i = CHR ''('' then executable_words_from U sql sps (i + 1) (depth + 1) words
              else if sql ! i = CHR '')'' then executable_words_from U sql sps (i + 1) (depth - 1) words
              else if is_letter (sql ! i) then
                executable_words_from U sql sps (skip_while word_char sql i) depth
                  (words @ [\<lparr>word_text = to_upper U (slice sql i (skip_while word_char sql i)),
                             word_depth = depth\<rparr>])
              else executable_words_from U sql sps (i + 1) depth words))
      else Some words)"

definition executable_words :: "(gostring \<Rightarrow> gostring) \<Rightarrow> gostring \<Rightarrow> scan_result \<Rightarrow> sql_word list option" where
  "executable_words U sql r = executable_words_from U sql (protected r) 0 0 []"

datatype token_kind = TokenWord | TokenOpen | TokenClose | TokenComma | TokenOpaque

record token =
  tok_kind :: token_kind
  tok_text :: gostring

partial_function (option) tokens_from ::
    "(gostring \<Rightarrow> gostring) \<Rightarrow> gostring \<Rightarrow> span list \<Rightarrow> nat \<Rightarrow> token list \<Rightarrow> token list option" where
  "tokens_from U sql sps i toks =
     (if i < length sql then
        (case span_index sps i of
           Some e \<Rightarrow>
             tokens_from U sql sps e
               (if sql ! i \<noteq> CHR ''-'' \<and> sql ! i \<noteq> CHR ''#'' \<and> sql ! i \<noteq> CHR ''/''
                then toks @ [\<lparr>tok_kind = TokenOpaque, tok_text = slice sql i e\<rparr>] else toks)
         | None \<Rightarrow>
             (if sql ! i = CHR ''('' then
                tokens_from U sql sps (i + 1) (toks @ [\<lparr>tok_kind = TokenOpen, tok_text = ''(''\<rparr>])
              else if sql ! i = CHR '')'' then
                tokens_from U sql sps (i + 1) (toks @ [\<lparr>tok_kind = TokenClose, tok_text = '')''\<rparr>])
              else if sql ! i = CHR '','' then
                tokens_from U sql sps (i + 1) (toks @ [\<lparr>tok_kind = TokenComma, tok_text = '',''\<rparr>])
              else if is_letter (sql ! i) \<or> sql ! i = CHR ''_'' then
                tokens_from U sql sps (skip_while word_char sql i)
                  (toks @ [\<lparr>tok_kind = TokenWord,
                            tok_text = to_upper U (slice sql i (skip_while word_char sql i))\<rparr>])
              else tokens_from U sql sps (i + 1) toks))
      else Some toks)"

definition executable_tokens :: "(gostring \<Rightarrow> gostring) \<Rightarrow> gostring \<Rightarrow> scan_result \<Rightarrow> token list option" where
  "executable_tokens U sql r = tokens_from U sql (protected r) 0 []"

lemma span_index_ahead:
  assumes "spans_ok sps n" and "span_index sps i = Some e"
  shows "i < e \<and> e \<le> n"
proof -
  have "\<exists>sp \<in> set sps. span_start sp = i \<and> span_end sp = e"
    using assms(2) unfolding span_index_def
    by (induction sps rule: rev_induct) (auto split: if_splits)
  with assms(1) show ?thesis by (auto simp: spans_ok_def list_all_iff)
qed

lemma skip_word_ahead:
  "i < length sql \<Longrightarrow> is_letter (sql ! i) \<or> sql ! i = CHR ''_'' \<Longrightarrow> i < skip_while word_char sql i"
  using skip_while_ge [of "i + 1" word_char sql]
  by (subst skip_while.simps) (auto simp: word_char_def)

lemma first_keyword_from_returns:
  "spans_ok sps n \<Longrightarrow> \<exists>w. first_keyword_from U sql sps i = Some w"
proof (induction "length sql - i" arbitrary: i rule: less_induct)
  case less
  then show ?case
    by (subst first_keyword_from.simps)
       (auto split: option.splits dest!: span_index_ahead [OF less.prems] intro!: less.hyps)
qed

lemma executable_words_from_returns:
  "spans_ok sps n \<Longrightarrow> \<exists>ws. executable_words_from U sql sps i depth words = Some ws"
proof (induction "length sql - i" arbitrary: i depth words rule: less_induct)
  case less
  then show ?case
    using skip_word_ahead [of i sql]
    by (subst executable_words_from.simps)
       (auto split: option.splits dest!: span_index_ahead [OF less.prems] intro!: less.hyps)
qed

lemma tokens_from_returns:
  "spans_ok sps n \<Longrightarrow> \<exists>ts. tokens_from U sql sps i toks = Some ts"
proof (induction "length sql - i" arbitrary: i toks rule: less_induct)
  case less
  then show ?case
    using skip_word_ahead [of i sql]
    by (subst tokens_from.simps)
       (auto split: option.splits dest!: span_index_ahead [OF less.prems] intro!: less.hyps)
qed

subsection \<open>ValidateSelect\<close>

definition is_word :: "token \<Rightarrow> gostring \<Rightarrow> bool" where
  "is_word t w = (tok_kind t = TokenWord \<and> tok_text t = w)"

function matching_from :: "token list \<Rightarrow> nat \<Rightarrow> int \<Rightarrow> nat option" where
  "matching_from ts i depth =
     (if i < length ts then
        (case tok_kind (ts ! i) of
           TokenOpen \<Rightarrow> matching_from ts (i + 1) (depth + 1)
         | TokenClose \<Rightarrow> if depth - 1 = 0 then Some i else matching_from ts (i + 1) (depth - 1)
         | _ \<Rightarrow> matching_from ts (i + 1) depth)
      else None)"
  by pat_completeness auto
termination
  by (relation "measure (\<lambda>(ts, i, _). length ts - i)") auto

declare matching_from.simps [simp del]

definition matching_paren :: "token list \<Rightarrow> nat \<Rightarrow> nat option" where
  "matching_paren ts start = matching_from ts start 0"

lemma matching_from_bound: "matching_from ts i depth = Some c \<Longrightarrow> i \<le> c \<and> c < length ts"
proof (induction ts i depth rule: matching_from.induct)
  case (1 ts i depth)
  then show ?case
    by (subst (asm) (6) matching_from.simps) (auto split: if_splits token_kind.splits)
qed

text \<open>
  One turn of the loop of \<open>validateWithTokens\<close> up to the parenthesis that closes the body:
  \<open>Some (open, close)\<close> are the offsets of the body's parentheses, \<open>None\<close> where the source
  returns false.
\<close>

definition with_columns :: "token list \<Rightarrow> nat \<Rightarrow> nat option" where
  "with_columns ts i =
     (if i < length ts \<and> tok_kind (ts ! i) = TokenOpen
      then map_option Suc (matching_paren ts i) else Some i)"

definition with_materialized :: "token list \<Rightarrow> nat \<Rightarrow> nat option" where
  "with_materialized ts i =
     (if i < length ts \<and> is_word (ts ! i) ''NOT'' then
        (if i + 1 \<ge> length ts \<or> \<not> is_word (ts ! (i + 1)) ''MATERIALIZED'' then None else Some (i + 2))
      else if i < length ts \<and> is_word (ts ! i) ''MATERIALIZED'' then Some (i + 1)
      else Some i)"

definition with_entry :: "token list \<Rightarrow> nat \<Rightarrow> (nat \<times> nat) option" where
  "with_entry ts i =
     (if i \<ge> length ts \<or> (tok_kind (ts ! i) \<noteq> TokenWord \<and> tok_kind (ts ! i) \<noteq> TokenOpaque) then None
      else (case with_columns ts (i + 1) of None \<Rightarrow> None | Some i1 \<Rightarrow>
        if i1 \<ge> length ts \<or> \<not> is_word (ts ! i1) ''AS'' then None
        else (case with_materialized ts (i1 + 1) of None \<Rightarrow> None | Some i2 \<Rightarrow>
          if i2 \<ge> length ts \<or> tok_kind (ts ! i2) \<noteq> TokenOpen then None
          else (case matching_paren ts i2 of None \<Rightarrow> None | Some c \<Rightarrow>
            if c = i2 + 1 then None else Some (i2, c)))))"

lemma with_columns_ge: "with_columns ts i = Some j \<Longrightarrow> i \<le> j"
  by (auto simp: with_columns_def matching_paren_def dest!: matching_from_bound split: if_splits)

lemma with_materialized_ge: "with_materialized ts i = Some j \<Longrightarrow> i \<le> j"
  by (auto simp: with_materialized_def split: if_splits)

lemma with_entry_bound:
  assumes "with_entry ts i = Some (op, c)"
  shows "i < op \<and> op \<le> c \<and> c < length ts"
  using assms
  by (auto simp: with_entry_def matching_paren_def dest!: with_columns_ge with_materialized_ge
      matching_from_bound split: if_splits option.splits)

function with_entries :: "token list \<Rightarrow> nat \<Rightarrow> bool"
  and valid_select_body :: "token list \<Rightarrow> bool" where
  "with_entries ts i =
     (case with_entry ts i of
        None \<Rightarrow> False
      | Some (op, c) \<Rightarrow>
          valid_select_body (slice ts (op + 1) c) \<and>
          (if c + 1 < length ts \<and> tok_kind (ts ! (c + 1)) = TokenComma
           then with_entries ts (c + 2)
           else c + 1 < length ts \<and> is_word (ts ! (c + 1)) ''SELECT''))"
| "valid_select_body ts =
     (if ts = [] \<or> tok_kind (ts ! 0) \<noteq> TokenWord then False
      else if tok_text (ts ! 0) = ''SELECT'' then True
      else if tok_text (ts ! 0) \<noteq> ''WITH'' then False
      else with_entries ts (if 1 < length ts \<and> is_word (ts ! 1) ''RECURSIVE'' then 2 else 1))"
  by pat_completeness auto
termination
  by (relation "measures [\<lambda>x. case x of Inl (ts, i) \<Rightarrow> length ts | Inr ts \<Rightarrow> length ts,
                          \<lambda>x. case x of Inl (ts, i) \<Rightarrow> length ts - i | Inr ts \<Rightarrow> Suc (length ts)]")
     (auto dest!: with_entry_bound simp: slice_def)

declare with_entries.simps [simp del] valid_select_body.simps [simp del]

definition validate_with_tokens :: "token list \<Rightarrow> bool" where
  "validate_with_tokens ts =
     with_entries ts (if 1 < length ts \<and> is_word (ts ! 1) ''RECURSIVE'' then 2 else 1)"

definition validate_select ::
    "(gostring \<Rightarrow> gostring) \<Rightarrow> (gostring \<Rightarrow> gostring) \<Rightarrow> gostring \<Rightarrow> gostring option \<Rightarrow> (scan_error + unit) option"
  where
  "validate_select L U sql engine =
     (case scan L sql engine of
        Inl e \<Rightarrow> Some (Inl e)
      | Inr r \<Rightarrow>
          (if semicolons r \<noteq> [] then Some (Inl ExecutableSemicolon)
           else (case executable_tokens U sql r of
               None \<Rightarrow> None
             | Some ts \<Rightarrow> Some
                 (if ts = [] then Inl NotSelect
                  else if tok_kind (ts ! 0) = TokenWord \<and> tok_text (ts ! 0) = ''SELECT'' then Inr ()
                  else if tok_kind (ts ! 0) \<noteq> TokenWord \<or> tok_text (ts ! 0) \<noteq> ''WITH'' then Inl NotSelect
                  else if \<not> validate_with_tokens ts then Inl NotSelectWith
                  else Inr ()))))"

subsection \<open>The statement shapes ValidateSelect accepts\<close>

fun paren_delta :: "token \<Rightarrow> int" where
  "paren_delta t = (case tok_kind t of TokenOpen \<Rightarrow> 1 | TokenClose \<Rightarrow> -1 | _ \<Rightarrow> 0)"

definition net :: "token list \<Rightarrow> int" where
  "net ts = sum_list (map paren_delta ts)"

definition balanced :: "token list \<Rightarrow> bool" where
  "balanced ts = (net ts = 0 \<and> (\<forall>k \<le> length ts. 0 \<le> net (take k ts)))"

definition column_list :: "token list \<Rightarrow> bool" where
  "column_list ts \<longleftrightarrow> ts = [] \<or>
     (\<exists>op xs cl. ts = op # xs @ [cl] \<and> tok_kind op = TokenOpen \<and> balanced xs \<and> tok_kind cl = TokenClose)"

definition materialization :: "token list \<Rightarrow> bool" where
  "materialization ts \<longleftrightarrow> ts = [] \<or> (\<exists>m. ts = [m] \<and> is_word m ''MATERIALIZED'') \<or>
     (\<exists>n m. ts = [n, m] \<and> is_word n ''NOT'' \<and> is_word m ''MATERIALIZED'')"

inductive select_stmt :: "token list \<Rightarrow> bool" and cte_list :: "token list \<Rightarrow> bool" where
  plain: "is_word s ''SELECT'' \<Longrightarrow> select_stmt (s # ts)"
| with_ctes: "is_word w ''WITH'' \<Longrightarrow> cte_list ts \<Longrightarrow> select_stmt (w # ts)"
| with_recursive: "is_word w ''WITH'' \<Longrightarrow> is_word r ''RECURSIVE'' \<Longrightarrow> cte_list ts \<Longrightarrow>
     select_stmt (w # r # ts)"
| last_cte: "tok_kind n = TokenWord \<or> tok_kind n = TokenOpaque \<Longrightarrow> column_list cols \<Longrightarrow>
     is_word a ''AS'' \<Longrightarrow> materialization m \<Longrightarrow> tok_kind op = TokenOpen \<Longrightarrow> balanced body \<Longrightarrow>
     select_stmt body \<Longrightarrow> tok_kind cl = TokenClose \<Longrightarrow> is_word s ''SELECT'' \<Longrightarrow>
     cte_list (n # cols @ a # m @ op # body @ cl # s # rest)"
| more_ctes: "tok_kind n = TokenWord \<or> tok_kind n = TokenOpaque \<Longrightarrow> column_list cols \<Longrightarrow>
     is_word a ''AS'' \<Longrightarrow> materialization m \<Longrightarrow> tok_kind op = TokenOpen \<Longrightarrow> balanced body \<Longrightarrow>
     select_stmt body \<Longrightarrow> tok_kind cl = TokenClose \<Longrightarrow> tok_kind comma = TokenComma \<Longrightarrow>
     cte_list rest \<Longrightarrow> cte_list (n # cols @ a # m @ op # body @ cl # comma # rest)"

lemma drop_Cons_nth: "i < length xs \<Longrightarrow> drop i xs = xs ! i # drop (Suc i) xs"
  by (simp add: Cons_nth_drop_Suc)

lemma drop_slice: "i \<le> j \<Longrightarrow> drop i xs = slice xs i j @ drop j xs"
  unfolding slice_def by (metis add_diff_inverse_nat append_take_drop_id drop_drop le_add_diff_inverse2 not_less)

lemma slice_Suc: "i < j \<Longrightarrow> i < length xs \<Longrightarrow> slice xs i j = xs ! i # slice xs (Suc i) j"
  by (auto simp: slice_def drop_Cons_nth Suc_diff_Suc take_Cons')

lemma slice_self [simp]: "slice xs i i = []"
  by (simp add: slice_def)

lemma net_simps [simp]: "net [] = 0" "net (t # ts) = paren_delta t + net ts"
  by (simp_all add: net_def)

lemma matching_from_spec:
  assumes "matching_from ts i d = Some c" and "1 \<le> d"
  shows "tok_kind (ts ! c) = TokenClose \<and> net (slice ts i c) = 1 - d \<and>
         (\<forall>k. i \<le> k \<and> k \<le> c \<longrightarrow> 1 - d \<le> net (slice ts i k))"
  using assms
proof (induction ts i d rule: matching_from.induct)
  case (1 ts i d)
  note bound = matching_from_bound [OF "1.prems"(1)]
  have net_step: "net (slice ts i k) = paren_delta (ts ! i) + net (slice ts (Suc i) k)" if "i < k" for k
    using that bound by (simp add: slice_Suc)
  show ?case
  proof (cases "tok_kind (ts ! i) = TokenClose \<and> d = 1")
    case True
    with "1.prems" bound have "c = i"
      by (subst (asm) matching_from.simps) (auto split: if_splits)
    with True show ?thesis by auto
  next
    case False
    let ?d = "d + paren_delta (ts ! i)"
    from False "1.prems" bound have rec: "matching_from ts (Suc i) ?d = Some c" and d: "1 \<le> ?d"
      by (subst (asm) matching_from.simps; auto split: if_splits token_kind.splits)+
    have ih: "tok_kind (ts ! c) = TokenClose \<and> net (slice ts (Suc i) c) = 1 - ?d \<and>
         (\<forall>k. Suc i \<le> k \<and> k \<le> c \<longrightarrow> 1 - ?d \<le> net (slice ts (Suc i) k))"
      using "1.IH" False rec d bound
      by (cases "tok_kind (ts ! i)") (auto simp del: One_nat_def simp: Suc_eq_plus1 [symmetric])
    have ic: "i < c" using matching_from_bound [OF rec] by simp
    have "1 - d \<le> net (slice ts i k)" if "i \<le> k" "k \<le> c" for k
    proof (cases "i = k")
      case True
      with "1.prems" show ?thesis by simp
    next
      case neq: False
      with that have ik: "Suc i \<le> k" "i < k" by auto
      with ih that have "1 - ?d \<le> net (slice ts (Suc i) k)" by blast
      with net_step [OF ik(2)] show ?thesis by linarith
    qed
    with ih net_step [OF ic] show ?thesis by simp
  qed
qed

lemma matching_paren_spec:
  assumes "matching_paren ts i = Some c" and "i < length ts" and "tok_kind (ts ! i) = TokenOpen"
  shows "i < c \<and> c < length ts \<and> tok_kind (ts ! c) = TokenClose \<and> balanced (slice ts (Suc i) c)"
proof -
  from assms have m: "matching_from ts (Suc i) 1 = Some c"
    by (auto simp: matching_paren_def matching_from.simps [of ts i 0])
  note b = matching_from_bound [OF m] and s = matching_from_spec [OF m, simplified]
  have take_eq: "take k (slice ts (Suc i) c) = slice ts (Suc i) (Suc i + k)"
    if "k \<le> length (slice ts (Suc i) c)" for k
    using that b by (simp add: slice_def)
  have "length (slice ts (Suc i) c) = c - Suc i" using b by (auto simp: slice_def)
  with s b take_eq have "balanced (slice ts (Suc i) c)"
    unfolding balanced_def by auto
  with s b show ?thesis by auto
qed

lemma with_columns_spec:
  assumes "with_columns ts i = Some j" and "i \<le> length ts"
  shows "\<exists>cols. column_list cols \<and> drop i ts = cols @ drop j ts \<and> j \<le> length ts"
proof (cases "i < length ts \<and> tok_kind (ts ! i) = TokenOpen")
  case False
  with assms show ?thesis
    by (intro exI [of _ "[]"]) (auto simp: with_columns_def column_list_def)
next
  case True
  with assms obtain c where c: "matching_paren ts i = Some c" and j: "j = Suc c"
    by (auto simp: with_columns_def)
  note s = matching_paren_spec [OF c True [THEN conjunct1] True [THEN conjunct2]]
  have "drop i ts = ts ! i # slice ts (Suc i) c @ ts ! c # drop j ts"
    using True s j drop_Cons_nth [of i ts] drop_slice [of "Suc i" c ts] drop_Cons_nth [of c ts]
    by simp
  with s True j show ?thesis
    by (intro exI [of _ "ts ! i # slice ts (Suc i) c @ [ts ! c]"]) (auto simp: column_list_def)
qed

lemma with_materialized_spec:
  assumes "with_materialized ts i = Some j" and "i \<le> length ts"
  shows "\<exists>m. materialization m \<and> drop i ts = m @ drop j ts \<and> j \<le> length ts"
proof -
  from assms consider "j = i" | "j = i + 1" "i < length ts" "is_word (ts ! i) ''MATERIALIZED''"
    | "j = i + 2" "i + 1 < length ts" "is_word (ts ! i) ''NOT''" "is_word (ts ! (i + 1)) ''MATERIALIZED''"
    by (auto simp: with_materialized_def split: if_splits)
  then show ?thesis
  proof cases
    case 1
    with assms show ?thesis by (intro exI [of _ "[]"]) (auto simp: materialization_def)
  next
    case 2
    then show ?thesis
      by (intro exI [of _ "[ts ! i]"]) (auto simp: materialization_def drop_Cons_nth)
  next
    case 3
    then show ?thesis
      by (intro exI [of _ "[ts ! i, ts ! (i + 1)]"]) (auto simp: materialization_def drop_Cons_nth)
  qed
qed

lemma with_entry_spec:
  assumes "with_entry ts i = Some (op, c)"
  shows "\<exists>cols a m. (tok_kind (ts ! i) = TokenWord \<or> tok_kind (ts ! i) = TokenOpaque) \<and>
     column_list cols \<and> is_word a ''AS'' \<and> materialization m \<and> tok_kind (ts ! op) = TokenOpen \<and>
     balanced (slice ts (Suc op) c) \<and> tok_kind (ts ! c) = TokenClose \<and>
     drop i ts = ts ! i # cols @ a # m @ ts ! op # slice ts (Suc op) c @ ts ! c # drop (Suc c) ts"
proof -
  from assms obtain i1 i2 where i: "i < length ts"
    and n: "tok_kind (ts ! i) = TokenWord \<or> tok_kind (ts ! i) = TokenOpaque"
    and i1: "with_columns ts (Suc i) = Some i1" "i1 < length ts" "is_word (ts ! i1) ''AS''"
    and i2: "with_materialized ts (Suc i1) = Some i2" "i2 < length ts" "tok_kind (ts ! i2) = TokenOpen"
    and c: "matching_paren ts i2 = Some c" and op: "op = i2"
    by (auto simp: with_entry_def split: if_splits option.splits)
  obtain cols where cols: "column_list cols" "drop (Suc i) ts = cols @ drop i1 ts"
    using with_columns_spec [OF i1(1)] i by auto
  obtain m where m: "materialization m" "drop (Suc i1) ts = m @ drop i2 ts"
    using with_materialized_spec [OF i2(1)] i1 by auto
  note s = matching_paren_spec [OF c i2(2,3)]
  have "drop i2 ts = ts ! i2 # slice ts (Suc i2) c @ ts ! c # drop (Suc c) ts"
    using s i2 drop_Cons_nth [of i2 ts] drop_slice [of "Suc i2" c ts] drop_Cons_nth [of c ts] by simp
  then have "drop i ts = ts ! i # cols @ ts ! i1 # m @ ts ! i2 # slice ts (Suc i2) c @ ts ! c # drop (Suc c) ts"
    using i i1 cols m drop_Cons_nth [of i ts] drop_Cons_nth [of i1 ts] by simp
  with n cols m i1 i2 s op show ?thesis by blast
qed

lemma with_entries_grammar: "with_entries ts i \<Longrightarrow> cte_list (drop i ts)"
  and valid_select_body_grammar: "valid_select_body ts \<Longrightarrow> select_stmt ts"
proof (induction ts i and ts rule: with_entries_valid_select_body.induct)
  case (1 ts i)
  from "1.prems" obtain op c where e: "with_entry ts i = Some (op, c)"
    by (auto simp: with_entries.simps [of ts i] split: option.splits)
  from "1.prems" e have body: "valid_select_body (slice ts (op + 1) c)"
    by (auto simp: with_entries.simps [of ts i])
  have ih: "select_stmt (slice ts (Suc op) c)"
    using "1.IH"(1) [OF e refl body] by simp
  from with_entry_spec [OF e] obtain cols a m where
    n: "tok_kind (ts ! i) = TokenWord \<or> tok_kind (ts ! i) = TokenOpaque"
    and parts: "column_list cols" "is_word a ''AS''" "materialization m" "tok_kind (ts ! op) = TokenOpen"
      "balanced (slice ts (Suc op) c)" "tok_kind (ts ! c) = TokenClose"
    and d: "drop i ts = ts ! i # cols @ a # m @ ts ! op # slice ts (Suc op) c @ ts ! c # drop (Suc c) ts"
    by blast
  show ?case
  proof (cases "c + 1 < length ts \<and> tok_kind (ts ! (c + 1)) = TokenComma")
    case True
    with "1.prems" e have rest: "with_entries ts (c + 2)"
      by (auto simp: with_entries.simps [of ts i])
    have "cte_list (drop (c + 2) ts)" by (rule "1.IH"(2) [OF e refl True rest])
    with True n parts ih d show ?thesis
      using drop_Cons_nth [of "Suc c" ts] more_ctes [OF n parts(1-5) ih parts(6)] by simp
  next
    case False
    with "1.prems" e have "Suc c < length ts" "is_word (ts ! Suc c) ''SELECT''"
      by (auto simp: with_entries.simps [of ts i] split: if_splits)
    with d show ?thesis
      using drop_Cons_nth [of "Suc c" ts] last_cte [OF n parts(1-5) ih parts(6)] by simp
  qed
next
  case (2 ts)
  show ?case
  proof (cases ts)
    case Nil
    with "2.prems" show ?thesis by (simp add: valid_select_body.simps)
  next
    case (Cons t ts')
    with "2.prems" have w: "is_word t ''SELECT'' \<or> is_word t ''WITH'' \<and> \<not> is_word t ''SELECT''"
      by (auto simp: valid_select_body.simps is_word_def split: if_splits)
    then show ?thesis
    proof
      assume "is_word t ''SELECT''"
      then show ?thesis using Cons by (simp add: plain)
    next
      assume t: "is_word t ''WITH'' \<and> \<not> is_word t ''SELECT''"
      let ?i = "if 1 < length ts \<and> is_word (ts ! 1) ''RECURSIVE'' then 2 else 1"
      from t Cons "2.prems" have go: "with_entries ts ?i"
        by (auto simp: valid_select_body.simps is_word_def split: if_splits)
      have "cte_list (drop ?i ts)"
        using "2.IH" [OF _ _ _ go] t Cons by (auto simp: is_word_def)
      with t Cons show ?thesis
        by (cases ts') (auto split: if_splits intro: with_ctes with_recursive)
    qed
  qed
qed

subsection \<open>Properties\<close>

lemmas scan_eval = byte_eval scan_def engine_name_def scan_loop.simps scan_step_def scan_dollar_def
  scan_quoted_def scan_quoted_from.simps scan_line_comment.simps scan_block_from.simps
  scan_block_comment_def skip_while.simps dollar_quote_start_def dollar_placeholder_def max_int_def
  line_comment_start_def protect_def add_placeholder_def add_semicolon_def empty_result_def
  word_char_def span_index_def

lemmas select_eval = scan_eval validate_select_def executable_tokens_def tokens_from.simps
  validate_with_tokens_def with_entries.simps valid_select_body.simps with_entry_def
  with_columns_def with_materialized_def matching_paren_def matching_from.simps is_word_def

text \<open>
  C6. A successful scan partitions the text: the protected spans are in order, disjoint,
  non-empty and inside the text, and the recorded semicolons and question marks are exactly
  the offsets, in order, that hold such a byte outside every protected span. No executable
  semicolon or question mark is missed and none inside a string or comment is reported.
\<close>

theorem scan_records_exactly:
  assumes "scan L sql engine = Inr res"
  shows "spans_ok (protected res) (length sql)
    \<and> semicolons res = marks sql (CHR '';'') (protected res) (length sql)
    \<and> questions res = marks sql (CHR ''?'') (protected res) (length sql)"
  using scan_scan_inv [OF assms] by (simp add: scan_inv_def)

theorem scan_records_exactly_witness:
  "\<exists>res. scan id ''? /*?;*/ ;'' None = Inr res \<and> questions res = [0] \<and> semicolons res = [9]
    \<and> spans_ok (protected res) (length ''? /*?;*/ ;'')
    \<and> semicolons res = marks ''? /*?;*/ ;'' (CHR '';'') (protected res) (length ''? /*?;*/ ;'')
    \<and> questions res = marks ''? /*?;*/ ;'' (CHR ''?'') (protected res) (length ''? /*?;*/ ;'')"
proof -
  let ?r = "\<lparr>protected = [\<lparr>span_start = 2, span_end = 8\<rparr>],
      placeholders = [\<lparr>ph_start = 0, ph_end = 1, ph_kind = Question, ph_number = 0, ph_invalid = False\<rparr>],
      semicolons = [9]\<rparr> :: scan_result"
  have h: "scan id ''? /*?;*/ ;'' None = Inr ?r"
    by (simp add: scan_eval)
  have "questions ?r = [0]" "semicolons ?r = [9]" by (simp_all add: questions_def)
  with h scan_records_exactly [OF h] show ?thesis by blast
qed

text \<open>
  Every placeholder of a successful scan lies outside the protected spans and the
  placeholders are in order and disjoint. A question mark placeholder is one byte; a dollar
  placeholder is a dollar sign and the maximal run of digits after it, and carries the value
  of those digits, unless the value exceeds the largest \<open>int\<close>, when it is marked invalid.
\<close>

theorem scan_placeholders_sound:
  assumes "scan L sql engine = Inr res"
  shows "sorted_wrt (\<lambda>a b. ph_end a \<le> ph_start b) (placeholders res)
    \<and> (\<forall>p \<in> set (placeholders res). ph_start p < ph_end p \<and> ph_end p \<le> length sql
         \<and> placeholder_ok sql (protected res) p)"
  using scan_scan_inv [OF assms] by (auto simp: scan_inv_def placeholders_ok_def list_all_iff)

theorem scan_placeholders_sound_witness:
  "\<exists>res p. scan id ''a = $12'' (Some ''postgresql'') = Inr res \<and> placeholders res = [p]
    \<and> ph_number p = 12 \<and> ph_end p \<le> length ''a = $12'' \<and> placeholder_ok ''a = $12'' (protected res) p"
proof -
  let ?p = "\<lparr>ph_start = 4, ph_end = 7, ph_kind = Dollar, ph_number = 12, ph_invalid = False\<rparr>"
  let ?r = "\<lparr>protected = [], placeholders = [?p], semicolons = []\<rparr> :: scan_result"
  have h: "scan id ''a = $12'' (Some ''postgresql'') = Inr ?r"
    by (simp add: scan_eval)
  have m: "?p \<in> set (placeholders ?r)" and n: "ph_number ?p = 12" and l: "placeholders ?r = [?p]"
    by simp_all
  from scan_placeholders_sound [OF h] m
  have "ph_end ?p \<le> length ''a = $12'' \<and> placeholder_ok ''a = $12'' (protected ?r) ?p" by blast
  with h n l show ?thesis by blast
qed

text \<open>
  \<open>ValidateSelect\<close> always returns: the scan stops, the token loop makes progress on
  every result the scanner produces, and the nested WITH checks recurse on shorter token
  lists.
\<close>

theorem validate_select_returns: "\<exists>r. validate_select L U sql engine = Some r"
proof (cases "scan L sql engine")
  case (Inl e)
  then show ?thesis by (simp add: validate_select_def)
next
  case (Inr res)
  then have "spans_ok (protected res) (length sql)"
    using scan_scan_inv by (auto simp: scan_inv_def)
  then obtain ts where "executable_tokens U sql res = Some ts"
    using tokens_from_returns unfolding executable_tokens_def by blast
  with Inr show ?thesis by (simp add: validate_select_def)
qed

text \<open>
  \<open>FirstKeyword\<close>, \<open>ExecutableWords\<close> and \<open>executableTokens\<close> return on every result of
  \<open>Scan\<close>.
\<close>

theorem word_loops_return:
  assumes "scan L sql engine = Inr res"
  shows "(\<exists>w. first_keyword U sql res = Some w) \<and> (\<exists>ws. executable_words U sql res = Some ws)
    \<and> (\<exists>ts. executable_tokens U sql res = Some ts)"
proof -
  from scan_scan_inv [OF assms] have "spans_ok (protected res) (length sql)"
    by (simp add: scan_inv_def)
  then show ?thesis
    unfolding first_keyword_def executable_words_def executable_tokens_def
    using first_keyword_from_returns executable_words_from_returns tokens_from_returns by blast
qed

theorem word_loops_return_witness:
  "\<exists>res w. scan id ''--x'' None = Inr res \<and> protected res = [\<lparr>span_start = 0, span_end = 3\<rparr>]
    \<and> first_keyword id ''--x'' res = Some w"
proof -
  let ?r = "\<lparr>protected = [\<lparr>span_start = 0, span_end = 3\<rparr>], placeholders = [], semicolons = []\<rparr> :: scan_result"
  have h: "scan id ''--x'' None = Inr ?r" by (simp add: scan_eval)
  have p: "protected ?r = [\<lparr>span_start = 0, span_end = 3\<rparr>]" by simp
  from word_loops_return [OF h, of id] obtain w where "first_keyword id ''--x'' ?r = Some w" by blast
  with h p show ?thesis by blast
qed

text \<open>
  C26. What \<open>ValidateSelect\<close> accepts is one statement of the shape it documents: the text has
  no executable semicolon, and its tokens are a SELECT, or a WITH whose common table
  expressions each have a parenthesised, balanced body that is itself of that shape, and
  which ends in a SELECT.
\<close>

theorem validate_select_sound:
  assumes "validate_select L U sql engine = Some (Inr ())"
  shows "\<exists>res ts. scan L sql engine = Inr res \<and> marks sql (CHR '';'') (protected res) (length sql) = []
    \<and> executable_tokens U sql res = Some ts \<and> select_stmt ts"
proof -
  from assms obtain res ts where s: "scan L sql engine = Inr res" and semi: "semicolons res = []"
    and ts: "executable_tokens U sql res = Some ts" "ts \<noteq> []"
    and ok: "is_word (ts ! 0) ''SELECT'' \<or> is_word (ts ! 0) ''WITH'' \<and> validate_with_tokens ts"
    by (auto simp: validate_select_def is_word_def split: sum.splits if_splits option.splits)
  from ok ts(2) have "valid_select_body ts"
    by (subst valid_select_body.simps) (auto simp: validate_with_tokens_def is_word_def)
  then have "select_stmt ts" by (rule valid_select_body_grammar)
  with s ts semi scan_scan_inv [OF s] show ?thesis by (auto simp: scan_inv_def)
qed

theorem validate_select_sound_witness:
  "validate_select id id ''WITH a AS (SELECT 1) SELECT $1'' (Some ''postgresql'') = Some (Inr ())
    \<and> (\<exists>res ts. scan id ''WITH a AS (SELECT 1) SELECT $1'' (Some ''postgresql'') = Inr res
        \<and> executable_tokens id ''WITH a AS (SELECT 1) SELECT $1'' res = Some ts \<and> select_stmt ts)"
proof -
  have h: "validate_select id id ''WITH a AS (SELECT 1) SELECT $1'' (Some ''postgresql'') = Some (Inr ())"
    by (simp add: select_eval)
  with validate_select_sound [OF h] show ?thesis by blast
qed

end
