(* ===== verification/Schema_Types.thy ===== *)
theory Schema_Types
  imports Go_Base "HOL-Library.Word"
begin

unbundle bit_operations_syntax

text \<open>
  The leaves of package \<open>schema\<close>: identifier validation, the string enumerations with
  their \<open>valid\<close> methods (\<open>types.go\<close>), column types (\<open>column_type.go\<close>), native type
  identities (\<open>native_type.go\<close>) and Go bindings (\<open>go_binding.go\<close>).

  A \<open>*ValidationError\<close> is kept as the path, the format string and the arguments that
  \<open>validationError\<close> was given; the formatted message is not computed. The Unicode
  classes of the runes outside ASCII are the parameter \<open>U\<close> of the operations that ask
  package \<open>unicode\<close> for them.
\<close>

subsection \<open>Validation errors\<close>

text \<open>
  A \<open>ColumnType\<close> value. The interface is closed by an unexported method, so its values
  are the ten built-in structs and pointers to them. \<open>DecimalScale\<close>, \<open>TextWidth\<close> and
  \<open>IntegerDisplayWidth\<close> are \<open>int option\<close>: unstated is \<open>None\<close>.
\<close>

type_synonym decimal_scale = "int option"

type_synonym text_width = "int option"

type_synonym integer_display_width = "int option"

datatype column_type =
    BooleanType
  | IntegerType (it_unsigned: bool) (it_display_width: integer_display_width) (it_zero_fill: bool)
  | FloatType
  | TextType (tt_width: text_width) (tt_fixed: bool)
  | BytesType
  | TimeType
  | JSONType
  | UUIDType
  | DecimalType (dt_precision: int) (dt_scale: decimal_scale) (dt_unsigned: bool) (dt_zero_fill: bool)
  | OpaqueType
  | PointerTo column_type

datatype validation_error = ValidationError gostring gostring "message_arg list"
and message_arg = QuotedArg gostring | IntArg int | RuneArg nat | ErrArg validation_error
  | TypeArg "column_type option"

text \<open>The error of \<open>fmt.Errorf\<close> with a fixed text, where the code does not build a path.\<close>

abbreviation plain_error :: "gostring \<Rightarrow> validation_error" where
  "plain_error msg \<equiv> ValidationError [] msg []"

subsection \<open>Identifiers\<close>

definition validate_identifier :: "gostring \<Rightarrow> validation_error + unit" where
  "validate_identifier name =
     rbind (check (name \<noteq> []) (ValidationError ''identifier'' ''must not be empty'' [])) (\<lambda>_.
     rbind (check (CHR 0x00 \<notin> set name) (ValidationError ''identifier'' ''must not contain NUL'' [])) (\<lambda>_.
     check (valid_utf8 name) (ValidationError ''identifier'' ''must contain valid UTF-8'' [])))"

definition rune_alpha :: "nat \<Rightarrow> bool" where
  "rune_alpha r = (r = 95 \<or> (65 \<le> r \<and> r \<le> 90) \<or> (97 \<le> r \<and> r \<le> 122))"

definition rune_digit :: "nat \<Rightarrow> bool" where
  "rune_digit r = (48 \<le> r \<and> r \<le> 57)"

definition validate_simple_identifier :: "gostring \<Rightarrow> validation_error + unit" where
  "validate_simple_identifier name = (case runes name of
       [] \<Rightarrow> Inl (ValidationError ''identifier'' ''must not be empty'' [])
     | r # rs \<Rightarrow>
         rbind (check (rune_alpha r) (ValidationError ''identifier'' ''must start with a letter or underscore'' [])) (\<lambda>_.
         rfold (\<lambda>r _. check (rune_alpha r \<or> rune_digit r)
                  (ValidationError ''identifier'' ''contains invalid character %q'' [RuneArg r])) rs ()))"

text \<open>
  \<open>go/token.IsIdentifier\<close> and \<open>unicode.IsUpper\<close>. The classes of the runes from 128 on
  come from the Unicode tables.
\<close>

record unicode_tables =
  ut_letter :: "nat \<Rightarrow> bool"
  ut_digit :: "nat \<Rightarrow> bool"
  ut_upper :: "nat \<Rightarrow> bool"

definition go_keywords :: "gostring list" where
  "go_keywords = [''break'', ''case'', ''chan'', ''const'', ''continue'', ''default'', ''defer'',
     ''else'', ''fallthrough'', ''for'', ''func'', ''go'', ''goto'', ''if'', ''import'',
     ''interface'', ''map'', ''package'', ''range'', ''return'', ''select'', ''struct'',
     ''switch'', ''type'', ''var'']"

definition go_letter :: "unicode_tables \<Rightarrow> nat \<Rightarrow> bool" where
  "go_letter U r = (if r < 128 then rune_alpha r else ut_letter U r)"

definition go_digit :: "unicode_tables \<Rightarrow> nat \<Rightarrow> bool" where
  "go_digit U r = (if r < 128 then rune_digit r else ut_digit U r)"

definition is_go_identifier :: "unicode_tables \<Rightarrow> gostring \<Rightarrow> bool" where
  "is_go_identifier U name = (name \<noteq> [] \<and> name \<notin> set go_keywords \<and>
     (case runes name of [] \<Rightarrow> False
      | r # rs \<Rightarrow> go_letter U r \<and> list_all (\<lambda>r. go_letter U r \<or> go_digit U r) rs))"

definition rune_is_upper :: "unicode_tables \<Rightarrow> nat \<Rightarrow> bool" where
  "rune_is_upper U r = (if r < 128 then 65 \<le> r \<and> r \<le> 90 else ut_upper U r)"

definition validate_exported_go_identifier :: "unicode_tables \<Rightarrow> gostring \<Rightarrow> validation_error + unit" where
  "validate_exported_go_identifier U name =
     rbind (check (is_go_identifier U name) (plain_error ''must be a valid Go identifier'')) (\<lambda>_.
     check (rune_is_upper U (fst (decode_rune name))) (plain_error ''must be an exported Go identifier''))"

text \<open>What a valid identifier is, in one line.\<close>

definition identifier_ok :: "gostring \<Rightarrow> bool" where
  "identifier_ok name = (name \<noteq> [] \<and> CHR 0x00 \<notin> set name \<and> valid_utf8 name)"

lemma validate_identifier_iff [simp]: "validate_identifier name = Inr u \<longleftrightarrow> identifier_ok name"
  by (auto simp: validate_identifier_def identifier_ok_def)

lemma identifier_ok_ascii:
  "s \<noteq> [] \<Longrightarrow> list_all is_ascii s \<Longrightarrow> CHR 0x00 \<notin> set s \<Longrightarrow> identifier_ok s"
  by (simp add: identifier_ok_def valid_utf8_ascii)

subsection \<open>String enumerations\<close>

type_synonym reference_action = gostring

type_synonym match_type = gostring

type_synonym deferrability = gostring

type_synonym conflict_resolution = gostring

type_synonym generated_storage = gostring

type_synonym identity_generation = gostring

type_synonym nulls_order = gostring

type_synonym sql_text = gostring

definition reference_action_valid :: "reference_action \<Rightarrow> bool" where
  "reference_action_valid a =
     (a \<in> {'''', ''NO ACTION'', ''RESTRICT'', ''CASCADE'', ''SET NULL'', ''SET DEFAULT''})"

definition match_type_valid :: "match_type \<Rightarrow> bool" where
  "match_type_valid m = (m \<in> {'''', ''FULL'', ''PARTIAL''})"

definition deferrability_valid :: "deferrability \<Rightarrow> bool" where
  "deferrability_valid d =
     (d \<in> {'''', ''DEFERRABLE INITIALLY IMMEDIATE'', ''DEFERRABLE INITIALLY DEFERRED''})"

definition conflict_resolution_valid :: "conflict_resolution \<Rightarrow> bool" where
  "conflict_resolution_valid c = (c \<in> {'''', ''ROLLBACK'', ''FAIL'', ''IGNORE'', ''REPLACE''})"

definition generated_storage_valid :: "generated_storage \<Rightarrow> bool" where
  "generated_storage_valid g = (g \<in> {'''', ''STORED'', ''VIRTUAL''})"

definition identity_generation_valid :: "identity_generation \<Rightarrow> bool" where
  "identity_generation_valid g = (g \<in> {'''', ''ALWAYS'', ''BY DEFAULT''})"

definition nulls_order_valid :: "nulls_order \<Rightarrow> bool" where
  "nulls_order_valid n = (n \<in> {'''', ''FIRST'', ''LAST''})"

lemmas enum_valid_defs = reference_action_valid_def match_type_valid_def deferrability_valid_def
  conflict_resolution_valid_def generated_storage_valid_def identity_generation_valid_def
  nulls_order_valid_def

subsection \<open>Column types\<close>

datatype type_kind = KindBoolean | KindInteger | KindFloat | KindText | KindBytes | KindTime
  | KindJSON | KindUUID | KindDecimal | KindNative

fun kind :: "column_type \<Rightarrow> type_kind" where
  "kind BooleanType = KindBoolean"
| "kind (IntegerType _ _ _) = KindInteger"
| "kind FloatType = KindFloat"
| "kind (TextType _ _) = KindText"
| "kind BytesType = KindBytes"
| "kind TimeType = KindTime"
| "kind JSONType = KindJSON"
| "kind UUIDType = KindUUID"
| "kind (DecimalType _ _ _ _) = KindDecimal"
| "kind OpaqueType = KindNative"
| "kind (PointerTo t) = kind t"

text \<open>A \<open>ColumnType\<close> interface value: nil is \<open>None\<close>.\<close>

fun valid_column_type :: "column_type option \<Rightarrow> bool" where
  "valid_column_type None = False"
| "valid_column_type (Some (PointerTo _)) = False"
| "valid_column_type (Some _) = True"

definition validate_column_type :: "column_type option \<Rightarrow> validation_error + unit" where
  "validate_column_type ct = (case ct of
       None \<Rightarrow> Inl (plain_error ''column type must not be nil'')
     | Some t \<Rightarrow>
         rbind (check (valid_column_type ct) (ValidationError [] ''unsupported column type %T'' [TypeArg ct])) (\<lambda>_.
         case t of
           DecimalType precision sc _ _ \<Rightarrow>
             rbind (check (1 \<le> precision) (plain_error ''decimal precision must be at least 1'')) (\<lambda>_.
             (case sc of None \<Rightarrow> Inl (plain_error ''decimal scale must be stated'')
              | Some s \<Rightarrow> check (0 \<le> s \<and> s \<le> precision)
                            (plain_error ''decimal scale must be between 0 and precision'')))
         | TextType width fixed \<Rightarrow>
             rbind (check (\<forall>w\<in>set_option width. 0 \<le> w) (plain_error ''text width must not be negative'')) (\<lambda>_.
             check (fixed \<longrightarrow> width \<noteq> None) (plain_error ''fixed-width text requires a width''))
         | IntegerType _ width _ \<Rightarrow>
             check (\<forall>w\<in>set_option width. 0 \<le> w) (plain_error ''integer display width must not be negative'')
         | _ \<Rightarrow> Inr ()))"

text \<open>The well-formed column types.\<close>

fun column_type_ok :: "column_type option \<Rightarrow> bool" where
  "column_type_ok (Some (DecimalType p s u z)) = (1 \<le> p \<and> (\<exists>n. s = Some n \<and> 0 \<le> n \<and> n \<le> p))"
| "column_type_ok (Some (TextType w fixed)) = ((\<forall>n. w = Some n \<longrightarrow> 0 \<le> n) \<and> (fixed \<longrightarrow> w \<noteq> None))"
| "column_type_ok (Some (IntegerType u w z)) = (\<forall>n. w = Some n \<longrightarrow> 0 \<le> n)"
| "column_type_ok ct = valid_column_type ct"

lemma valid_column_type_unless: "column_type_ok ct \<Longrightarrow> valid_column_type ct"
  by (cases ct rule: column_type_ok.cases) auto

lemma validate_column_type_iff: "validate_column_type ct = Inr u \<longleftrightarrow> column_type_ok ct"
  by (cases ct rule: column_type_ok.cases)
     (auto simp: validate_column_type_def split: option.splits)

subsection \<open>Native types\<close>

text \<open>
  \<open>NativeTypeDef\<close>; \<open>Arguments\<close> keeps whether the slice is nil, since \<open>clone\<close> does. The
  recursion through the \<open>Element\<close> pointer makes it a \<open>datatype\<close> with named fields.
\<close>

datatype native_type_def = NativeTypeDef
  (nt_dialect: gostring) (nt_schema: gostring) (nt_name: gostring) (nt_kind: gostring)
  (nt_arguments: "gostring list option") (nt_element: "native_type_def option")

definition native_type_kinds :: "gostring set" where
  "native_type_kinds = {''builtin'', ''domain'', ''enum'', ''set'', ''array'', ''other''}"

fun native_clone :: "native_type_def \<Rightarrow> native_type_def" where
  "native_clone (NativeTypeDef d s n k args el) =
     NativeTypeDef d s n k (case args of None \<Rightarrow> None | Some xs \<Rightarrow> Some (map id xs)) (map_option native_clone el)"

text \<open>The checks \<open>validate\<close> makes on one node, before it descends into the element.\<close>

definition native_node_check :: "gostring \<Rightarrow> nat \<Rightarrow> native_type_def \<Rightarrow> validation_error + unit" where
  "native_node_check path depth n =
     rbind (check (depth \<le> 32) (ValidationError path ''native type nesting exceeds depth 32'' [])) (\<lambda>_.
     rbind (check (nt_dialect n \<noteq> []) (ValidationError (path @ ''.dialect'') ''must not be empty'' [])) (\<lambda>_.
     rbind (check (nt_name n \<noteq> []) (ValidationError (path @ ''.name'') ''must not be empty'' [])) (\<lambda>_.
     rbind (check (nt_kind n \<noteq> []) (ValidationError (path @ ''.kind'') ''must not be empty'' [])) (\<lambda>_.
     rbind (check (nt_kind n \<in> native_type_kinds) (ValidationError (path @ ''.kind'') ''is unsupported'' [])) (\<lambda>_.
     rbind (if nt_schema n \<noteq> [] then
              (case validate_simple_identifier (nt_schema n) of
                 Inl e \<Rightarrow> Inl (ValidationError (path @ ''.schema'') ''%s'' [ErrArg e]) | Inr _ \<Rightarrow> Inr ())
            else Inr ()) (\<lambda>_.
     rbind (if nt_dialect n = ''postgresql'' then
              (case validate_simple_identifier (nt_name n) of
                 Inl e \<Rightarrow> Inl (ValidationError (path @ ''.name'') ''%s'' [ErrArg e]) | Inr _ \<Rightarrow> Inr ())
            else Inr ()) (\<lambda>_.
     rbind (check (\<not> (nt_dialect n = ''mysql'' \<and> (nt_kind n = ''domain'' \<or> nt_kind n = ''array'')))
              (ValidationError (path @ ''.kind'') ''is unsupported for mysql'' [])) (\<lambda>_.
     rbind (check (\<not> (nt_dialect n = ''postgresql'' \<and> nt_kind n = ''set''))
              (ValidationError (path @ ''.kind'') ''is unsupported for postgresql'' [])) (\<lambda>_.
     rbind (check (\<not> (nt_kind n \<noteq> ''array'' \<and> nt_element n \<noteq> None))
              (ValidationError (path @ ''.element'') ''is only valid for array native types'' [])) (\<lambda>_.
     check (\<not> (nt_kind n = ''array'' \<and> nt_element n = None))
              (ValidationError (path @ ''.element'') ''is required for array native types'' [])))))))))))"

fun native_validate_def :: "gostring \<Rightarrow> nat \<Rightarrow> native_type_def \<Rightarrow> validation_error + unit" where
  "native_validate_def path depth (NativeTypeDef d s n k args el) =
     rbind (native_node_check path depth (NativeTypeDef d s n k args el)) (\<lambda>_.
     (case el of None \<Rightarrow> Inr () | Some e \<Rightarrow> native_validate_def (path @ ''.element'') (depth + 1) e))"

text \<open>The method on the pointer: a nil receiver is valid.\<close>

definition native_validate :: "gostring \<Rightarrow> nat \<Rightarrow> native_type_def option \<Rightarrow> validation_error + unit" where
  "native_validate path depth n = (case n of None \<Rightarrow> Inr () | Some d \<Rightarrow> native_validate_def path depth d)"

definition simple_identifier_ok :: "gostring \<Rightarrow> bool" where
  "simple_identifier_ok s = (validate_simple_identifier s = Inr ())"

definition native_node_ok :: "native_type_def \<Rightarrow> bool" where
  "native_node_ok n = (nt_dialect n \<noteq> [] \<and> nt_name n \<noteq> [] \<and> nt_kind n \<in> native_type_kinds \<and>
     (nt_schema n \<noteq> [] \<longrightarrow> simple_identifier_ok (nt_schema n)) \<and>
     (nt_dialect n = ''postgresql'' \<longrightarrow> simple_identifier_ok (nt_name n) \<and> nt_kind n \<noteq> ''set'') \<and>
     (nt_dialect n = ''mysql'' \<longrightarrow> nt_kind n \<notin> {''domain'', ''array''}) \<and>
     (nt_element n \<noteq> None \<longleftrightarrow> nt_kind n = ''array''))"

text \<open>The element chain of a native type, outermost first.\<close>

fun native_chain :: "native_type_def \<Rightarrow> native_type_def list" where
  "native_chain (NativeTypeDef d s n k args el) =
     NativeTypeDef d s n k args el # (case el of None \<Rightarrow> [] | Some e \<Rightarrow> native_chain e)"

lemma native_node_check_iff:
  "native_node_check path depth n = Inr u \<longleftrightarrow> depth \<le> 32 \<and> native_node_ok n"
proof -
  have kinds: "nt_kind n \<in> native_type_kinds \<Longrightarrow> nt_kind n \<noteq> []"
    by (auto simp: native_type_kinds_def)
  have opt: "(if c then (case validate_simple_identifier s of Inl e \<Rightarrow> Inl (err e) | Inr _ \<Rightarrow> Inr ())
      else Inr ()) = Inr v \<longleftrightarrow> (c \<longrightarrow> simple_identifier_ok s)"
    for c s and err :: "validation_error \<Rightarrow> validation_error" and v
    by (simp add: simple_identifier_ok_def split: sum.splits)
  show ?thesis
    unfolding native_node_check_def rbind_unit_eq_Inr check_eq_Inr opt native_node_ok_def
      insert_iff empty_iff
    using kinds by argo
qed

lemma native_chain_length: "1 \<le> length (native_chain n)"
  by (cases n) simp

lemma native_validate_def_iff:
  "native_validate_def path depth n = Inr u \<longleftrightarrow>
     depth + length (native_chain n) \<le> 33 \<and> list_all native_node_ok (native_chain n)"
proof (induction path depth n rule: native_validate_def.induct)
  case (1 path depth d s n k args el)
  show ?case
  proof (cases el)
    case None
    then show ?thesis by (auto simp: native_node_check_iff)
  next
    case (Some e)
    have len: "1 \<le> length (native_chain e)" by (rule native_chain_length)
    have ih: "native_validate_def (path @ ''.element'') (depth + 1) e = Inr u \<longleftrightarrow>
        depth + 1 + length (native_chain e) \<le> 33 \<and> list_all native_node_ok (native_chain e)"
      using 1 Some by auto
    then show ?thesis using Some len by (auto simp: native_node_check_iff)
  qed
qed

text \<open>\<open>clone\<close> copies the whole chain.\<close>

lemma native_clone_id: "native_clone n = n"
proof (induction n rule: native_clone.induct)
  case (1 d s n k args el)
  then show ?case by (cases el; cases args) auto
qed

subsection \<open>Go bindings\<close>

record go_import =
  gi_path :: gostring
  gi_name :: gostring

text \<open>\<open>GoBinding\<close>; \<open>Imports\<close> keeps whether the slice is nil.\<close>

record go_binding =
  gb_type :: gostring
  gb_nullable_type :: gostring
  gb_imports :: "go_import list option"

text \<open>\<open>append([]T(nil), xs...)\<close>: nil when there is nothing to append.\<close>

definition append_to_nil :: "'a list option \<Rightarrow> 'a list option" where
  "append_to_nil xs = (case xs of None \<Rightarrow> None | Some ys \<Rightarrow> if ys = [] then None else Some ys)"

definition go_binding_clone :: "go_binding option \<Rightarrow> go_binding option" where
  "go_binding_clone b = (case b of None \<Rightarrow> None
     | Some g \<Rightarrow> Some (g\<lparr>gb_imports := append_to_nil (gb_imports g)\<rparr>))"

lemma go_binding_clone_id:
  "go_binding_clone b = b \<longleftrightarrow> (\<forall>g. b = Some g \<longrightarrow> gb_imports g \<noteq> Some [])"
  by (cases b) (auto simp: go_binding_clone_def append_to_nil_def split: option.splits
    intro!: go_binding.equality dest: arg_cong [of _ _ gb_imports])

lemmas schema_eval = identifier_ok_def enum_valid_defs native_node_ok_def native_type_kinds_def
  simple_identifier_ok_def validate_simple_identifier_def rune_alpha_def rune_digit_def
  decode_rune_def between_def Let_def check_def

end
