(* ===== verification/Schema_Table.thy ===== *)
theory Schema_Table
  imports Schema_Types
begin

text \<open>
  Table descriptors of package \<open>schema\<close> (\<open>table.go\<close>): the descriptor structs, the
  operations a descriptor supports, and \<open>TableDef.Validate\<close> with its helpers. \<open>table_ok\<close> is the declarative statement of what a valid
  descriptor is; the validator is proved to accept exactly those.

  A slice is a list: none of the operations here distinguishes a nil slice from an empty
  one. A \<open>map[string]string\<close> is an association list in the order a \<open>range\<close> loop happens
  to visit it, which Go leaves open.
\<close>

subsection \<open>Descriptors\<close>

record column_def =
  col_name :: gostring
  col_type :: "column_type option"
  col_nullable :: bool
  col_default :: sql_text
  col_go_binding :: "go_binding option"
  col_collation :: gostring
  col_generated_expression :: sql_text
  col_generated_storage :: generated_storage
  col_identity :: identity_generation
  col_hidden :: bool
  col_native_type :: "native_type_def option"

record index_key_def =
  ik_expression :: sql_text
  ik_descending :: bool
  ik_collation :: gostring
  ik_operator_class :: gostring
  ik_prefix_length :: int
  ik_nulls_order :: nulls_order

record unique_def =
  uq_name :: gostring
  uq_columns :: "gostring list"
  uq_deferrable :: deferrability
  uq_nulls_not_distinct :: bool
  uq_include_columns :: "gostring list"
  uq_on_conflict :: conflict_resolution
  uq_keys :: "index_key_def list"
  uq_temporal :: bool
  uq_storage_parameters :: "(gostring \<times> gostring) list"
  uq_tablespace :: gostring
  uq_replica_identity :: bool
  uq_collations :: "(gostring \<times> gostring) list"

record check_def =
  ck_name :: gostring
  ck_expression :: sql_text
  ck_no_inherit :: bool
  ck_not_valid :: bool
  ck_not_enforced :: bool

record index_def =
  ix_name :: gostring
  ix_columns :: "gostring list"
  ix_unique :: bool
  ix_method :: gostring
  ix_expressions :: "sql_text list"
  ix_predicate :: sql_text
  ix_include_columns :: "gostring list"
  ix_invisible :: bool
  ix_not_valid :: bool
  ix_storage_parameters :: "(gostring \<times> gostring) list"
  ix_tablespace :: gostring
  ix_replica_identity :: bool
  ix_keys :: "index_key_def list"
  ix_nulls_not_distinct :: bool

record exclusion_element_def =
  ee_expression :: sql_text
  ee_operator :: gostring

record exclusion_def =
  ex_name :: gostring
  ex_method :: gostring
  ex_elements :: "exclusion_element_def list"
  ex_predicate :: sql_text
  ex_deferrable :: deferrability

record foreign_key_def =
  fk_name :: gostring
  fk_columns :: "gostring list"
  fk_referenced_schema :: gostring
  fk_referenced_table :: gostring
  fk_referenced_columns :: "gostring list"
  fk_match :: match_type
  fk_on_delete :: reference_action
  fk_on_update :: reference_action
  fk_deferrable :: deferrability
  fk_not_valid :: bool
  fk_not_enforced :: bool
  fk_temporal :: bool
  fk_delete_set_columns :: "gostring list"

type_synonym object_kind = gostring

type_synonym operation = "16 word"

record object_name =
  on_schema :: gostring
  on_name :: gostring

record table_def =
  tb_schema :: gostring
  tb_name :: gostring
  tb_kind :: object_kind
  tb_operations :: operation
  tb_row_name :: gostring
  tb_columns :: "column_def list"
  tb_primary_key :: "gostring list"
  tb_strict :: bool
  tb_without_rowid :: bool
  tb_primary_key_autoincrement :: bool
  tb_primary_key_on_conflict :: conflict_resolution
  tb_virtual_table_module :: gostring
  tb_virtual_table_module_arguments :: "gostring list"
  tb_unique_constraints :: "unique_def list"
  tb_checks :: "check_def list"
  tb_exclusion_constraints :: "exclusion_def list"
  tb_indexes :: "index_def list"
  tb_foreign_keys :: "foreign_key_def list"

subsection \<open>Zero values\<close>

definition zero_column :: column_def where
  "zero_column = \<lparr>col_name = [], col_type = None, col_nullable = False, col_default = [],
     col_go_binding = None, col_collation = [], col_generated_expression = [],
     col_generated_storage = [], col_identity = [], col_hidden = False, col_native_type = None\<rparr>"

definition zero_unique :: unique_def where
  "zero_unique = \<lparr>uq_name = [], uq_columns = [], uq_deferrable = [], uq_nulls_not_distinct = False,
     uq_include_columns = [], uq_on_conflict = [], uq_keys = [], uq_temporal = False,
     uq_storage_parameters = [], uq_tablespace = [], uq_replica_identity = False, uq_collations = []\<rparr>"

definition zero_check :: check_def where
  "zero_check = \<lparr>ck_name = [], ck_expression = [], ck_no_inherit = False, ck_not_valid = False,
     ck_not_enforced = False\<rparr>"

definition zero_index :: index_def where
  "zero_index = \<lparr>ix_name = [], ix_columns = [], ix_unique = False, ix_method = [], ix_expressions = [],
     ix_predicate = [], ix_include_columns = [], ix_invisible = False, ix_not_valid = False,
     ix_storage_parameters = [], ix_tablespace = [], ix_replica_identity = False, ix_keys = [],
     ix_nulls_not_distinct = False\<rparr>"

definition zero_foreign_key :: foreign_key_def where
  "zero_foreign_key = \<lparr>fk_name = [], fk_columns = [], fk_referenced_schema = [], fk_referenced_table = [],
     fk_referenced_columns = [], fk_match = [], fk_on_delete = [], fk_on_update = [], fk_deferrable = [],
     fk_not_valid = False, fk_not_enforced = False, fk_temporal = False, fk_delete_set_columns = []\<rparr>"

definition zero_table :: table_def where
  "zero_table = \<lparr>tb_schema = [], tb_name = [], tb_kind = [], tb_operations = 0, tb_row_name = [],
     tb_columns = [], tb_primary_key = [], tb_strict = False, tb_without_rowid = False,
     tb_primary_key_autoincrement = False, tb_primary_key_on_conflict = [],
     tb_virtual_table_module = [], tb_virtual_table_module_arguments = [],
     tb_unique_constraints = [], tb_checks = [], tb_exclusion_constraints = [], tb_indexes = [],
     tb_foreign_keys = []\<rparr>"

lemmas zero_defs = zero_column_def zero_unique_def zero_check_def zero_index_def
  zero_foreign_key_def zero_table_def

subsection \<open>Names, kinds and operations\<close>

definition all_table_operations :: operation where
  "all_table_operations = 31"

definition object_kind_valid :: "object_kind \<Rightarrow> bool" where
  "object_kind_valid k = (k = '''' \<or> k = ''table'' \<or> k = ''view'')"

definition operation_valid :: "operation \<Rightarrow> bool" where
  "operation_valid ops = (ops AND NOT all_table_operations = 0)"

definition table_object_name :: "table_def \<Rightarrow> object_name" where
  "table_object_name t = \<lparr>on_schema = tb_schema t, on_name = tb_name t\<rparr>"

definition is_qualified :: "table_def \<Rightarrow> bool" where
  "is_qualified t = (tb_schema t \<noteq> [])"

definition effective_kind :: "table_def \<Rightarrow> object_kind" where
  "effective_kind t = (if tb_kind t = [] then ''table'' else tb_kind t)"

definition table_supports :: "table_def \<Rightarrow> operation \<Rightarrow> bool" where
  "table_supports t operation =
     (if operation = 0 \<or> operation AND NOT all_table_operations \<noteq> 0 then False
      else let operations = (if tb_operations t = 0
                             then (if effective_kind t = ''view'' then 1 else all_table_operations)
                             else tb_operations t)
           in operations AND operation = operation)"

definition qualified_name :: "table_def \<Rightarrow> gostring" where
  "qualified_name t = (if tb_schema t = [] then tb_name t else tb_schema t @ ''.'' @ tb_name t)"

definition table_column :: "table_def \<Rightarrow> gostring \<Rightarrow> column_def option" where
  "table_column t name = find (\<lambda>c. col_name c = name) (tb_columns t)"

definition clone_columns :: "column_def list \<Rightarrow> column_def list" where
  "clone_columns cs = map (\<lambda>c. c\<lparr>col_native_type := map_option native_clone (col_native_type c),
                                  col_go_binding := go_binding_clone (col_go_binding c)\<rparr>) cs"

subsection \<open>Validation\<close>

text \<open>The error of a nested check, reported at \<open>path\<close>.\<close>

definition err_at :: "gostring \<Rightarrow> validation_error + unit \<Rightarrow> validation_error + unit" where
  "err_at path r = (case r of Inl e \<Rightarrow> Inl (ValidationError path ''%s'' [ErrArg e]) | Inr u \<Rightarrow> Inr u)"

lemma err_at_eq_Inr [simp]: "err_at path r = Inr u \<longleftrightarrow> r = Inr ()"
  by (cases r) (auto simp: err_at_def)

text \<open>\<open>fmt.Sprintf("%s[%d]", path, i)\<close>.\<close>

definition item_path :: "gostring \<Rightarrow> nat \<Rightarrow> gostring" where
  "item_path path i = path @ ''['' @ dec i @ '']''"

text \<open>An optional identifier: only checked when it is stated.\<close>

definition optional_ident :: "gostring \<Rightarrow> gostring \<Rightarrow> validation_error + unit" where
  "optional_ident path name = (if name \<noteq> [] then err_at path (validate_identifier name) else Inr ())"

lemma optional_ident_iff [simp]:
  "optional_ident path name = Inr u \<longleftrightarrow> name = [] \<or> identifier_ok name"
  by (simp add: optional_ident_def)

definition validate_native_column :: "column_def \<Rightarrow> gostring \<Rightarrow> validation_error + unit" where
  "validate_native_column column path =
     rbind (native_validate (path @ ''.native_type'') 1 (col_native_type column)) (\<lambda>_.
     check (\<not> (col_type column = Some OpaqueType \<and> col_native_type column = None))
       (ValidationError (path @ ''.native_type'') ''is required for opaque column types'' []))"

text \<open>One name of a column list: it names a known column that the list has not named yet.\<close>

definition column_list_step :: "gostring \<Rightarrow> gostring set \<Rightarrow> nat \<times> gostring \<Rightarrow> gostring set \<Rightarrow> validation_error + gostring set" where
  "column_list_step path columns p seen =
     rbind (check (snd p \<in> columns)
              (ValidationError (item_path path (fst p)) ''references unknown column %q'' [QuotedArg (snd p)])) (\<lambda>_.
     rbind (check (snd p \<notin> seen)
              (ValidationError (item_path path (fst p)) ''duplicates column %q'' [QuotedArg (snd p)])) (\<lambda>_.
     Inr (insert (snd p) seen)))"

definition validate_column_list :: "gostring \<Rightarrow> gostring list \<Rightarrow> gostring set \<Rightarrow> bool \<Rightarrow> validation_error + unit" where
  "validate_column_list path names columns required =
     rbind (check (\<not> (required \<and> names = [])) (ValidationError path ''must not be empty'' [])) (\<lambda>_.
     rbind (rfold (column_list_step path columns) (indexed names) {}) (\<lambda>_. Inr ()))"

definition identifier_list_step :: "gostring \<Rightarrow> nat \<times> gostring \<Rightarrow> gostring set \<Rightarrow> validation_error + gostring set" where
  "identifier_list_step path p seen =
     rbind (err_at (item_path path (fst p)) (validate_identifier (snd p))) (\<lambda>_.
     rbind (check (snd p \<notin> seen)
              (ValidationError (item_path path (fst p)) ''duplicates column %q'' [QuotedArg (snd p)])) (\<lambda>_.
     Inr (insert (snd p) seen)))"

definition validate_identifier_list :: "gostring \<Rightarrow> gostring list \<Rightarrow> bool \<Rightarrow> validation_error + unit" where
  "validate_identifier_list path names required =
     rbind (check (\<not> (required \<and> names = [])) (ValidationError path ''must not be empty'' [])) (\<lambda>_.
     rbind (rfold (identifier_list_step path) (indexed names) {}) (\<lambda>_. Inr ()))"

text \<open>
  The included columns of a unique constraint or an index: known columns, named neither
  among the key columns nor twice.
\<close>

definition validate_include_columns :: "gostring \<Rightarrow> gostring list \<Rightarrow> gostring list \<Rightarrow> gostring set \<Rightarrow> validation_error + unit" where
  "validate_include_columns path keys included columns =
     rbind (rfold (column_list_step (path @ ''.include_columns'') columns) (indexed included) (set keys)) (\<lambda>_. Inr ())"

text \<open>The constraint names seen so far, with the path that declared each.\<close>

type_synonym constraint_names = "gostring \<rightharpoonup> gostring"

definition register_name :: "gostring \<Rightarrow> gostring \<Rightarrow> constraint_names \<Rightarrow> validation_error + constraint_names" where
  "register_name path name names =
     (if name \<noteq> [] then
        rbind (err_at (path @ ''.name'') (validate_identifier name)) (\<lambda>_.
        (case names name of
           Some owner \<Rightarrow> Inl (ValidationError (path @ ''.name'') ''duplicates constraint %q declared at %s''
                                [QuotedArg name, QuotedArg owner])
         | None \<Rightarrow> Inr (names(name \<mapsto> path))))
      else Inr names)"

definition unique_key_check :: "gostring \<Rightarrow> nat \<times> index_key_def \<Rightarrow> unit \<Rightarrow> validation_error + unit" where
  "unique_key_check path p _ =
     rbind (check (ik_expression (snd p) \<noteq> [])
              (ValidationError (item_path (path @ ''.keys'') (fst p) @ ''.expression'') ''must not be empty'' [])) (\<lambda>_.
     check (0 \<le> ik_prefix_length (snd p))
              (ValidationError (item_path (path @ ''.keys'') (fst p) @ ''.prefix_length'') ''must not be negative'' []))"

definition storage_check :: "gostring \<Rightarrow> (gostring \<times> gostring) list \<Rightarrow> validation_error + unit" where
  "storage_check path params =
     check (list_all (\<lambda>kv. fst kv \<noteq> []) params)
       (ValidationError (path @ ''.storage_parameters'') ''must not have an empty key'' [])"

definition unique_body :: "gostring \<Rightarrow> unique_def \<Rightarrow> gostring set \<Rightarrow> validation_error + unit" where
  "unique_body path u columns =
     rbind (if uq_keys u \<noteq> [] then
              rbind (check (uq_columns u = []) (ValidationError (path @ ''.columns'')
                       ''must be empty when Keys describes the constraint's keys instead'' [])) (\<lambda>_.
              rfold (unique_key_check path) (indexed (uq_keys u)) ())
            else validate_column_list (path @ ''.columns'') (uq_columns u) columns True) (\<lambda>_.
     rbind (check (deferrability_valid (uq_deferrable u)) (ValidationError (path @ ''.deferrable'')
              ''unsupported unique constraint deferrability %q'' [QuotedArg (uq_deferrable u)])) (\<lambda>_.
     rbind (check (conflict_resolution_valid (uq_on_conflict u)) (ValidationError (path @ ''.on_conflict'')
              ''unsupported unique constraint conflict resolution %q'' [QuotedArg (uq_on_conflict u)])) (\<lambda>_.
     rbind (validate_include_columns path (uq_columns u) (uq_include_columns u) columns) (\<lambda>_.
     rbind (storage_check path (uq_storage_parameters u)) (\<lambda>_.
     rbind (optional_ident (path @ ''.tablespace'') (uq_tablespace u)) (\<lambda>_.
     rfold (\<lambda>kv _.
       rbind (check (fst kv \<in> set (uq_columns u)) (ValidationError (path @ ''.collations'')
                ''names column %q, which is not part of the constraint'' [QuotedArg (fst kv)])) (\<lambda>_.
       check (snd kv \<noteq> []) (ValidationError (path @ ''.collations'')
                ''must not have an empty value for column %q'' [QuotedArg (fst kv)])))
       (uq_collations u) ()))))))"

definition unique_step :: "gostring \<Rightarrow> gostring set \<Rightarrow> nat \<times> unique_def \<Rightarrow> constraint_names \<Rightarrow> validation_error + constraint_names" where
  "unique_step path columns p names =
     rbind (register_name (item_path path (fst p)) (uq_name (snd p)) names) (\<lambda>names'.
     rbind (unique_body (item_path path (fst p)) (snd p) columns) (\<lambda>_. Inr names'))"

definition validate_named_column_lists :: "gostring \<Rightarrow> unique_def list \<Rightarrow> gostring set \<Rightarrow> constraint_names \<Rightarrow> validation_error + constraint_names" where
  "validate_named_column_lists path us columns names = rfold (unique_step path columns) (indexed us) names"

definition check_step :: "nat \<times> check_def \<Rightarrow> constraint_names \<Rightarrow> validation_error + constraint_names" where
  "check_step p names =
     rbind (register_name (item_path ''checks'' (fst p)) (ck_name (snd p)) names) (\<lambda>names'.
     rbind (check (ck_expression (snd p) \<noteq> [])
              (ValidationError (item_path ''checks'' (fst p) @ ''.expression'') ''must not be empty'' [])) (\<lambda>_. Inr names'))"

definition validate_checks :: "check_def list \<Rightarrow> constraint_names \<Rightarrow> validation_error + constraint_names" where
  "validate_checks cs names = rfold check_step (indexed cs) names"

definition exclusion_body :: "gostring \<Rightarrow> exclusion_def \<Rightarrow> validation_error + unit" where
  "exclusion_body path e =
     rbind (check (ex_elements e \<noteq> []) (ValidationError (path @ ''.elements'') ''must not be empty'' [])) (\<lambda>_.
     rbind (rfold (\<lambda>p _.
              rbind (check (ee_expression (snd p) \<noteq> [])
                (ValidationError (item_path (path @ ''.elements'') (fst p) @ ''.expression'') ''must not be empty'' [])) (\<lambda>_.
              check (ee_operator (snd p) \<noteq> [])
                (ValidationError (item_path (path @ ''.elements'') (fst p) @ ''.operator'') ''must not be empty'' [])))
              (indexed (ex_elements e)) ()) (\<lambda>_.
     check (deferrability_valid (ex_deferrable e)) (ValidationError (path @ ''.deferrable'')
              ''unsupported exclusion constraint deferrability %q'' [QuotedArg (ex_deferrable e)])))"

definition exclusion_step :: "nat \<times> exclusion_def \<Rightarrow> constraint_names \<Rightarrow> validation_error + constraint_names" where
  "exclusion_step p names =
     rbind (register_name (item_path ''exclusion_constraints'' (fst p)) (ex_name (snd p)) names) (\<lambda>names'.
     rbind (exclusion_body (item_path ''exclusion_constraints'' (fst p)) (snd p)) (\<lambda>_. Inr names'))"

definition validate_exclusion_constraints :: "exclusion_def list \<Rightarrow> constraint_names \<Rightarrow> validation_error + constraint_names" where
  "validate_exclusion_constraints es names = rfold exclusion_step (indexed es) names"

definition index_key_check :: "gostring \<Rightarrow> nat \<times> index_key_def \<Rightarrow> unit \<Rightarrow> validation_error + unit" where
  "index_key_check path p _ =
     rbind (unique_key_check path p ()) (\<lambda>_.
     check (nulls_order_valid (ik_nulls_order (snd p)))
       (ValidationError (item_path (path @ ''.keys'') (fst p) @ ''.nulls_order'')
          ''unsupported nulls order %q'' [QuotedArg (ik_nulls_order (snd p))]))"

definition index_body :: "gostring \<Rightarrow> index_def \<Rightarrow> gostring set \<Rightarrow> validation_error + unit" where
  "index_body path x columns =
     rbind (if ix_keys x \<noteq> [] then
              rbind (check (ix_columns x = []) (ValidationError (path @ ''.columns'')
                       ''must be empty when Keys describes the index's keys instead'' [])) (\<lambda>_.
              rbind (check (ix_expressions x = []) (ValidationError (path @ ''.expressions'')
                       ''must be empty when Keys describes the index's keys instead'' [])) (\<lambda>_.
              rfold (index_key_check path) (indexed (ix_keys x)) ()))
            else if ix_expressions x \<noteq> [] then
              rbind (check (ix_columns x = []) (ValidationError (path @ ''.columns'')
                       ''must be empty when Expressions describes the index's keys instead'' [])) (\<lambda>_.
              rfold (\<lambda>p _. check (snd p \<noteq> []) (ValidationError (item_path (path @ ''.expressions'') (fst p))
                       ''must not be empty'' [])) (indexed (ix_expressions x)) ())
            else validate_column_list (path @ ''.columns'') (ix_columns x) columns True) (\<lambda>_.
     rbind (validate_include_columns path (ix_columns x) (ix_include_columns x) columns) (\<lambda>_.
     rbind (storage_check path (ix_storage_parameters x)) (\<lambda>_.
     rbind (optional_ident (path @ ''.tablespace'') (ix_tablespace x)) (\<lambda>_.
     rbind (check (\<not> (ix_replica_identity x \<and> \<not> ix_unique x)) (ValidationError (path @ ''.replica_identity'')
              ''must not be set on a non-unique index: PostgreSQL requires a unique index to serve as REPLICA IDENTITY USING INDEX'' [])) (\<lambda>_.
     check (\<not> (ix_nulls_not_distinct x \<and> \<not> ix_unique x)) (ValidationError (path @ ''.nulls_not_distinct'')
              ''must not be set on a non-unique index: NULLS NOT DISTINCT only applies to a unique index'' []))))))"

definition index_step :: "gostring set \<Rightarrow> nat \<times> index_def \<Rightarrow> gostring set \<Rightarrow> validation_error + gostring set" where
  "index_step columns p names =
     (let path = item_path ''indexes'' (fst p); x = snd p in
     rbind (err_at (path @ ''.name'') (validate_identifier (ix_name x))) (\<lambda>_.
     rbind (check (ix_name x \<notin> names) (ValidationError (path @ ''.name'') ''duplicates index %q'' [QuotedArg (ix_name x)])) (\<lambda>_.
     rbind (index_body path x columns) (\<lambda>_. Inr (insert (ix_name x) names)))))"

definition validate_indexes :: "index_def list \<Rightarrow> gostring set \<Rightarrow> validation_error + unit" where
  "validate_indexes xs columns = rbind (rfold (index_step columns) (indexed xs) {}) (\<lambda>_. Inr ())"

text \<open>One column of an \<open>ON DELETE SET NULL (columns)\<close> list.\<close>

definition delete_set_step :: "gostring \<Rightarrow> gostring set \<Rightarrow> nat \<times> gostring \<Rightarrow> gostring set \<Rightarrow> validation_error + gostring set" where
  "delete_set_step path referencing p seen =
     rbind (check (snd p \<in> referencing) (ValidationError (item_path path (fst p))
              ''names column %q, which is not part of the foreign key'' [QuotedArg (snd p)])) (\<lambda>_.
     rbind (check (snd p \<notin> seen)
              (ValidationError (item_path path (fst p)) ''duplicates column %q'' [QuotedArg (snd p)])) (\<lambda>_.
     Inr (insert (snd p) seen)))"

definition foreign_key_body :: "gostring \<Rightarrow> foreign_key_def \<Rightarrow> gostring set \<Rightarrow> validation_error + unit" where
  "foreign_key_body path k columns =
     rbind (validate_column_list (path @ ''.columns'') (fk_columns k) columns True) (\<lambda>_.
     rbind (optional_ident (path @ ''.referenced_schema'') (fk_referenced_schema k)) (\<lambda>_.
     rbind (err_at (path @ ''.referenced_table'') (validate_identifier (fk_referenced_table k))) (\<lambda>_.
     rbind (validate_identifier_list (path @ ''.referenced_columns'') (fk_referenced_columns k) True) (\<lambda>_.
     rbind (check (length (fk_columns k) = length (fk_referenced_columns k)) (ValidationError path
              ''has %d local columns and %d referenced columns''
              [IntArg (int (length (fk_columns k))), IntArg (int (length (fk_referenced_columns k)))])) (\<lambda>_.
     rbind (check (reference_action_valid (fk_on_delete k)) (ValidationError (path @ ''.on_delete'')
              ''unsupported reference action %q'' [QuotedArg (fk_on_delete k)])) (\<lambda>_.
     rbind (check (reference_action_valid (fk_on_update k)) (ValidationError (path @ ''.on_update'')
              ''unsupported reference action %q'' [QuotedArg (fk_on_update k)])) (\<lambda>_.
     rbind (check (match_type_valid (fk_match k)) (ValidationError (path @ ''.match'')
              ''unsupported foreign key match type %q'' [QuotedArg (fk_match k)])) (\<lambda>_.
     rbind (check (deferrability_valid (fk_deferrable k)) (ValidationError (path @ ''.deferrable'')
              ''unsupported foreign key deferrability %q'' [QuotedArg (fk_deferrable k)])) (\<lambda>_.
     if fk_delete_set_columns k \<noteq> [] then
       rbind (check (fk_on_delete k = ''SET NULL'' \<or> fk_on_delete k = ''SET DEFAULT'')
                (ValidationError (path @ ''.delete_set_columns'')
                  ''must not be set unless OnDelete is SetNull or SetDefault'' [])) (\<lambda>_.
       rbind (rfold (delete_set_step (path @ ''.delete_set_columns'') (set (fk_columns k)))
                (indexed (fk_delete_set_columns k)) {}) (\<lambda>_. Inr ()))
     else Inr ())))))))))"

definition foreign_key_step :: "gostring set \<Rightarrow> nat \<times> foreign_key_def \<Rightarrow> constraint_names \<Rightarrow> validation_error + constraint_names" where
  "foreign_key_step columns p names =
     rbind (register_name (item_path ''foreign_keys'' (fst p)) (fk_name (snd p)) names) (\<lambda>names'.
     rbind (foreign_key_body (item_path ''foreign_keys'' (fst p)) (snd p) columns) (\<lambda>_. Inr names'))"

definition validate_foreign_keys :: "foreign_key_def list \<Rightarrow> gostring set \<Rightarrow> constraint_names \<Rightarrow> validation_error + unit" where
  "validate_foreign_keys ks columns names =
     rbind (rfold (foreign_key_step columns) (indexed ks) names) (\<lambda>_. Inr ())"

text \<open>The type-specific checks of a column.\<close>

definition column_type_check :: "gostring \<Rightarrow> column_type option \<Rightarrow> validation_error + unit" where
  "column_type_check path ct = (case ct of
       Some (DecimalType precision sc _ _) \<Rightarrow>
         rbind (check (1 \<le> precision) (ValidationError (path @ ''.type.precision'')
                  ''decimal column must state a precision of at least 1'' [])) (\<lambda>_.
         (case sc of
            None \<Rightarrow> Inl (ValidationError (path @ ''.type.scale'')
                  ''decimal column must state a scale: use schema.NewDecimalScale, which can state a scale of 0'' [])
          | Some s \<Rightarrow>
              rbind (check (0 \<le> s) (ValidationError (path @ ''.type.scale'') ''decimal scale must not be negative'' [])) (\<lambda>_.
              check (s \<le> precision) (ValidationError (path @ ''.type.scale'')
                  ''decimal scale %d exceeds precision %d'' [IntArg s, IntArg precision]))))
     | Some (TextType width fixed) \<Rightarrow>
         rbind (check (\<forall>w\<in>set_option width. 0 \<le> w) (ValidationError (path @ ''.type.width'')
                  ''text width must not be negative'' [])) (\<lambda>_.
         check (fixed \<longrightarrow> width \<noteq> None) (ValidationError (path @ ''.type.width'')
                  ''fixed-width text column must state a width: use schema.Width, since bare CHAR means CHAR(1), not an unbounded column'' []))
     | Some (IntegerType _ width _) \<Rightarrow>
         check (\<forall>w\<in>set_option width. 0 \<le> w) (ValidationError (path @ ''.type.display_width'')
                  ''integer display width must not be negative'' [])
     | _ \<Rightarrow> Inr ())"

definition column_body :: "gostring \<Rightarrow> gostring \<Rightarrow> column_def \<Rightarrow> validation_error + unit" where
  "column_body module path c =
     rbind (err_at (path @ ''.name'') (validate_identifier (col_name c))) (\<lambda>_.
     rbind (check (valid_column_type (col_type c)) (ValidationError (path @ ''.type'')
              ''unsupported column type %T'' [TypeArg (col_type c)])) (\<lambda>_.
     rbind (validate_native_column c path) (\<lambda>_.
     rbind (optional_ident (path @ ''.collation'') (col_collation c)) (\<lambda>_.
     rbind (column_type_check path (col_type c)) (\<lambda>_.
     rbind (check ((col_generated_expression c = []) = (col_generated_storage c = []))
              (ValidationError (path @ ''.generated_storage'')
                ''GeneratedExpression and GeneratedStorage must be stated together'' [])) (\<lambda>_.
     rbind (check (generated_storage_valid (col_generated_storage c)) (ValidationError (path @ ''.generated_storage'')
              ''unsupported generated column storage %q'' [QuotedArg (col_generated_storage c)])) (\<lambda>_.
     rbind (check (\<not> (col_generated_expression c \<noteq> [] \<and> col_default c \<noteq> [])) (ValidationError (path @ ''.default'')
              ''a generated column must not also state a Default'' [])) (\<lambda>_.
     rbind (check (identity_generation_valid (col_identity c)) (ValidationError (path @ ''.identity'')
              ''unsupported identity generation %q'' [QuotedArg (col_identity c)])) (\<lambda>_.
     rbind (check (\<not> (col_identity c \<noteq> [] \<and> col_generated_expression c \<noteq> [])) (ValidationError (path @ ''.identity'')
              ''an identity column must not also state a GeneratedExpression'' [])) (\<lambda>_.
     rbind (check (\<not> (col_identity c \<noteq> [] \<and> col_default c \<noteq> [])) (ValidationError (path @ ''.identity'')
              ''an identity column must not also state a Default'' [])) (\<lambda>_.
     rbind (check (\<not> (col_identity c \<noteq> [] \<and> col_nullable c)) (ValidationError (path @ ''.identity'')
              ''an identity column must not be Nullable'' [])) (\<lambda>_.
     check (\<not> (col_hidden c \<and> module = [])) (ValidationError (path @ ''.hidden'')
              ''must not be set without a VirtualTableModule'' [])))))))))))))"

definition column_step :: "gostring \<Rightarrow> nat \<times> column_def \<Rightarrow> gostring set \<Rightarrow> validation_error + gostring set" where
  "column_step module p columns =
     (let path = item_path ''columns'' (fst p); c = snd p in
     rbind (column_body module path c) (\<lambda>_.
     rbind (check (col_name c \<notin> columns) (ValidationError (path @ ''.name'') ''duplicates column %q'' [QuotedArg (col_name c)])) (\<lambda>_.
     Inr (insert (col_name c) columns))))"

text \<open>What must not be stated next to an absent or a present virtual table module.\<close>

definition virtual_table_check :: "table_def \<Rightarrow> validation_error + unit" where
  "virtual_table_check t =
     (if tb_virtual_table_module t = [] then
        check (tb_virtual_table_module_arguments t = []) (ValidationError ''table.virtual_table_module_arguments''
          ''must not be set without a VirtualTableModule'' [])
      else
        rbind (check (tb_primary_key t = []) (ValidationError ''table.primary_key'' ''must be empty on a SQLite virtual table'' [])) (\<lambda>_.
        rbind (check (\<not> tb_strict t) (ValidationError ''table.strict'' ''must not be set on a SQLite virtual table'' [])) (\<lambda>_.
        rbind (check (\<not> tb_without_rowid t) (ValidationError ''table.without_rowid'' ''must not be set on a SQLite virtual table'' [])) (\<lambda>_.
        rbind (check (tb_unique_constraints t = []) (ValidationError ''table.unique_constraints'' ''must be empty on a SQLite virtual table'' [])) (\<lambda>_.
        rbind (check (tb_checks t = []) (ValidationError ''table.checks'' ''must be empty on a SQLite virtual table'' [])) (\<lambda>_.
        rbind (check (tb_exclusion_constraints t = []) (ValidationError ''table.exclusion_constraints'' ''must be empty on a SQLite virtual table'' [])) (\<lambda>_.
        rbind (check (tb_indexes t = []) (ValidationError ''table.indexes'' ''must be empty on a SQLite virtual table'' [])) (\<lambda>_.
        check (tb_foreign_keys t = []) (ValidationError ''table.foreign_keys'' ''must be empty on a SQLite virtual table'' [])))))))))"

definition table_validate :: "unicode_tables \<Rightarrow> table_def \<Rightarrow> validation_error + unit" where
  "table_validate U t =
     rbind (check (object_kind_valid (tb_kind t)) (ValidationError ''table.kind'' ''unsupported object kind %q'' [QuotedArg (tb_kind t)])) (\<lambda>_.
     rbind (check (operation_valid (tb_operations t)) (ValidationError ''table.operations''
              ''unsupported operation bits %d'' [IntArg (uint (tb_operations t))])) (\<lambda>_.
     rbind (optional_ident ''table.schema'' (tb_schema t)) (\<lambda>_.
     rbind (err_at ''table'' (validate_identifier (tb_name t))) (\<lambda>_.
     rbind (if tb_row_name t \<noteq> [] then err_at ''table.row_name'' (validate_exported_go_identifier U (tb_row_name t)) else Inr ()) (\<lambda>_.
     rbind (check (tb_columns t \<noteq> []) (ValidationError ''table'' ''must have at least one column'' [])) (\<lambda>_.
     rbind (rfold (column_step (tb_virtual_table_module t)) (indexed (tb_columns t)) {}) (\<lambda>columns.
     rbind (validate_column_list ''primary_key'' (tb_primary_key t) columns False) (\<lambda>_.
     rbind (check (conflict_resolution_valid (tb_primary_key_on_conflict t)) (ValidationError ''table.primary_key_on_conflict''
              ''unsupported primary key conflict resolution %q'' [QuotedArg (tb_primary_key_on_conflict t)])) (\<lambda>_.
     rbind (check (\<not> (tb_primary_key t = [] \<and> tb_primary_key_autoincrement t))
              (ValidationError ''table.primary_key_autoincrement'' ''must not be set without a primary key'' [])) (\<lambda>_.
     rbind (check (\<not> (tb_primary_key t = [] \<and> tb_primary_key_on_conflict t \<noteq> []))
              (ValidationError ''table.primary_key_on_conflict'' ''must not be set without a primary key'' [])) (\<lambda>_.
     rbind (virtual_table_check t) (\<lambda>_.
     rbind (validate_named_column_lists ''unique_constraints'' (tb_unique_constraints t) columns Map.empty) (\<lambda>names1.
     rbind (validate_checks (tb_checks t) names1) (\<lambda>names2.
     rbind (validate_exclusion_constraints (tb_exclusion_constraints t) names2) (\<lambda>names3.
     rbind (validate_indexes (tb_indexes t) columns) (\<lambda>_.
     validate_foreign_keys (tb_foreign_keys t) columns names3))))))))))))))))"

subsection \<open>What a valid descriptor is\<close>

definition name_ok :: "gostring \<Rightarrow> bool" where
  "name_ok name = (name = [] \<or> identifier_ok name)"

definition key_columns_ok :: "gostring set \<Rightarrow> gostring list \<Rightarrow> bool" where
  "key_columns_ok columns names = (names \<noteq> [] \<and> distinct names \<and> set names \<subseteq> columns)"

definition include_ok :: "gostring set \<Rightarrow> gostring list \<Rightarrow> gostring list \<Rightarrow> bool" where
  "include_ok columns keys included = (distinct included \<and> set included \<subseteq> columns - set keys)"

definition index_key_ok :: "index_key_def \<Rightarrow> bool" where
  "index_key_ok k = (ik_expression k \<noteq> [] \<and> 0 \<le> ik_prefix_length k)"

definition column_ok :: "gostring \<Rightarrow> column_def \<Rightarrow> bool" where
  "column_ok module c = (identifier_ok (col_name c) \<and> column_type_ok (col_type c) \<and>
     (\<forall>n. col_native_type c = Some n \<longrightarrow> length (native_chain n) \<le> 32 \<and> list_all native_node_ok (native_chain n)) \<and>
     (col_type c = Some OpaqueType \<longrightarrow> col_native_type c \<noteq> None) \<and>
     name_ok (col_collation c) \<and>
     (col_generated_expression c = [] \<longleftrightarrow> col_generated_storage c = []) \<and>
     generated_storage_valid (col_generated_storage c) \<and> identity_generation_valid (col_identity c) \<and>
     (col_generated_expression c \<noteq> [] \<longrightarrow> col_default c = [] \<and> col_identity c = []) \<and>
     (col_identity c \<noteq> [] \<longrightarrow> col_default c = [] \<and> \<not> col_nullable c) \<and>
     (col_hidden c \<longrightarrow> module \<noteq> []))"

definition unique_ok :: "gostring set \<Rightarrow> unique_def \<Rightarrow> bool" where
  "unique_ok columns u = (name_ok (uq_name u) \<and>
     (if uq_keys u \<noteq> [] then uq_columns u = [] \<and> list_all index_key_ok (uq_keys u)
      else key_columns_ok columns (uq_columns u)) \<and>
     deferrability_valid (uq_deferrable u) \<and> conflict_resolution_valid (uq_on_conflict u) \<and>
     include_ok columns (uq_columns u) (uq_include_columns u) \<and>
     list_all (\<lambda>kv. fst kv \<noteq> []) (uq_storage_parameters u) \<and> name_ok (uq_tablespace u) \<and>
     list_all (\<lambda>kv. fst kv \<in> set (uq_columns u) \<and> snd kv \<noteq> []) (uq_collations u))"

definition check_ok :: "check_def \<Rightarrow> bool" where
  "check_ok c = (name_ok (ck_name c) \<and> ck_expression c \<noteq> [])"

definition exclusion_ok :: "exclusion_def \<Rightarrow> bool" where
  "exclusion_ok e = (name_ok (ex_name e) \<and> ex_elements e \<noteq> [] \<and>
     list_all (\<lambda>x. ee_expression x \<noteq> [] \<and> ee_operator x \<noteq> []) (ex_elements e) \<and>
     deferrability_valid (ex_deferrable e))"

definition index_ok :: "gostring set \<Rightarrow> index_def \<Rightarrow> bool" where
  "index_ok columns x = (identifier_ok (ix_name x) \<and>
     (if ix_keys x \<noteq> [] then ix_columns x = [] \<and> ix_expressions x = [] \<and>
          list_all (\<lambda>k. index_key_ok k \<and> nulls_order_valid (ik_nulls_order k)) (ix_keys x)
      else if ix_expressions x \<noteq> [] then ix_columns x = [] \<and> [] \<notin> set (ix_expressions x)
      else key_columns_ok columns (ix_columns x)) \<and>
     include_ok columns (ix_columns x) (ix_include_columns x) \<and>
     list_all (\<lambda>kv. fst kv \<noteq> []) (ix_storage_parameters x) \<and> name_ok (ix_tablespace x) \<and>
     (ix_replica_identity x \<or> ix_nulls_not_distinct x \<longrightarrow> ix_unique x))"

definition foreign_key_ok :: "gostring set \<Rightarrow> foreign_key_def \<Rightarrow> bool" where
  "foreign_key_ok columns k = (name_ok (fk_name k) \<and> key_columns_ok columns (fk_columns k) \<and>
     name_ok (fk_referenced_schema k) \<and> identifier_ok (fk_referenced_table k) \<and>
     distinct (fk_referenced_columns k) \<and> list_all identifier_ok (fk_referenced_columns k) \<and>
     length (fk_columns k) = length (fk_referenced_columns k) \<and>
     reference_action_valid (fk_on_delete k) \<and> reference_action_valid (fk_on_update k) \<and>
     match_type_valid (fk_match k) \<and> deferrability_valid (fk_deferrable k) \<and>
     distinct (fk_delete_set_columns k) \<and> set (fk_delete_set_columns k) \<subseteq> set (fk_columns k) \<and>
     (fk_delete_set_columns k \<noteq> [] \<longrightarrow> fk_on_delete k \<in> {''SET NULL'', ''SET DEFAULT''}))"

text \<open>The names of the constraints that have one, in the order the validator meets them.\<close>

definition stated_names :: "('a \<Rightarrow> gostring) \<Rightarrow> 'a list \<Rightarrow> gostring list" where
  "stated_names name xs = filter (\<lambda>n. n \<noteq> []) (map name xs)"

definition constraint_name_list :: "table_def \<Rightarrow> gostring list" where
  "constraint_name_list t = stated_names uq_name (tb_unique_constraints t) @ stated_names ck_name (tb_checks t) @
     stated_names ex_name (tb_exclusion_constraints t) @ stated_names fk_name (tb_foreign_keys t)"

definition virtual_ok :: "table_def \<Rightarrow> bool" where
  "virtual_ok t = (if tb_virtual_table_module t = [] then tb_virtual_table_module_arguments t = []
     else tb_primary_key t = [] \<and> \<not> tb_strict t \<and> \<not> tb_without_rowid t \<and> tb_unique_constraints t = [] \<and>
       tb_checks t = [] \<and> tb_exclusion_constraints t = [] \<and> tb_indexes t = [] \<and> tb_foreign_keys t = [])"

definition table_ok :: "unicode_tables \<Rightarrow> table_def \<Rightarrow> bool" where
  "table_ok U t = (let columns = set (map col_name (tb_columns t)) in
     object_kind_valid (tb_kind t) \<and> operation_valid (tb_operations t) \<and>
     name_ok (tb_schema t) \<and> identifier_ok (tb_name t) \<and>
     (tb_row_name t \<noteq> [] \<longrightarrow> is_go_identifier U (tb_row_name t) \<and> rune_is_upper U (fst (decode_rune (tb_row_name t)))) \<and>
     tb_columns t \<noteq> [] \<and> list_all (column_ok (tb_virtual_table_module t)) (tb_columns t) \<and>
     distinct (map col_name (tb_columns t)) \<and>
     distinct (tb_primary_key t) \<and> set (tb_primary_key t) \<subseteq> columns \<and>
     conflict_resolution_valid (tb_primary_key_on_conflict t) \<and>
     (tb_primary_key t = [] \<longrightarrow> \<not> tb_primary_key_autoincrement t \<and> tb_primary_key_on_conflict t = []) \<and>
     virtual_ok t \<and>
     list_all (unique_ok columns) (tb_unique_constraints t) \<and> list_all check_ok (tb_checks t) \<and>
     list_all exclusion_ok (tb_exclusion_constraints t) \<and> list_all (index_ok columns) (tb_indexes t) \<and>
     list_all (foreign_key_ok columns) (tb_foreign_keys t) \<and>
     distinct (map ix_name (tb_indexes t)) \<and> distinct (constraint_name_list t))"

subsection \<open>The validator against the specification\<close>

lemma map_filter_stated:
  "List.map_filter (\<lambda>x. if name x = [] then None else Some (name x)) xs = stated_names name xs"
  by (induction xs) (auto simp: map_filter_simps stated_names_def)

interpretation column_list: registry_loop "column_list_step path columns"
  "\<lambda>p. snd p \<in> columns" "\<lambda>p. Some (snd p)" "\<lambda>s. s" for path columns
  by unfold_locales (auto simp: column_list_step_def)

interpretation identifier_list: registry_loop "identifier_list_step path"
  "\<lambda>p. identifier_ok (snd p)" "\<lambda>p. Some (snd p)" "\<lambda>s. s" for path
  by unfold_locales (auto simp: identifier_list_step_def)

interpretation delete_set: registry_loop "delete_set_step path referencing"
  "\<lambda>p. snd p \<in> referencing" "\<lambda>p. Some (snd p)" "\<lambda>s. s" for path referencing
  by unfold_locales (auto simp: delete_set_step_def)

lemma column_list_iff: "(\<exists>t. rfold (column_list_step path columns) (indexed names) seen = Inr t) \<longleftrightarrow>
    distinct names \<and> set names \<subseteq> columns \<and> set names \<inter> seen = {}"
  using indexed_ball [of names "\<lambda>x. x \<in> columns"] by (simp add: column_list.run subset_eq conj_ac)

lemma validate_column_list_iff [simp]:
  "validate_column_list path names columns required = Inr u \<longleftrightarrow>
     (required \<longrightarrow> names \<noteq> []) \<and> distinct names \<and> set names \<subseteq> columns"
  using column_list_iff [of path columns names "{}"] by (auto simp: validate_column_list_def)

lemma validate_include_columns_iff [simp]:
  "validate_include_columns path keys included columns = Inr u \<longleftrightarrow> include_ok columns keys included"
  using column_list_iff [of "path @ ''.include_columns''" columns included "set keys"]
  by (auto simp: validate_include_columns_def include_ok_def)

lemma validate_identifier_list_iff [simp]:
  "validate_identifier_list path names required = Inr u \<longleftrightarrow>
     (required \<longrightarrow> names \<noteq> []) \<and> distinct names \<and> list_all identifier_ok names"
  using identifier_list.run [of path "indexed names" "{}"] indexed_ball [of names identifier_ok]
  by (auto simp: validate_identifier_list_def list_all_iff)

lemma unit_loop_iff:
  assumes "\<And>p. f p () = Inr () \<longleftrightarrow> P (snd p)"
  shows "rfold f (indexed xs) () = Inr u \<longleftrightarrow> list_all P xs"
  using rfold_check_all [of f "\<lambda>p. P (snd p)" "indexed xs" "()" u] assms
  by (simp add: list_all_iff)

lemma register_name_Inr:
  "register_name path name names = Inr names' \<longleftrightarrow>
     name_ok name \<and> name \<notin> (if name = [] then {} else dom names) \<and>
     names' = (if name = [] then names else names(name \<mapsto> path))"
  by (auto simp: register_name_def name_ok_def split: option.splits)

text \<open>The bodies of the constraint loops decide exactly the declarative conditions.\<close>

lemma unique_key_check_iff: "unique_key_check path p w = Inr u \<longleftrightarrow> index_key_ok (snd p)"
  by (simp add: unique_key_check_def index_key_ok_def)

lemma index_key_check_iff: "index_key_check path p w = Inr u \<longleftrightarrow>
    index_key_ok (snd p) \<and> nulls_order_valid (ik_nulls_order (snd p))"
  by (simp add: index_key_check_def unique_key_check_iff)

lemma collations_loop_iff:
  "rfold (\<lambda>kv _. rbind (check (P kv) (e1 kv)) (\<lambda>_. check (Q kv) (e2 kv))) xs () = Inr u \<longleftrightarrow>
     list_all (\<lambda>kv. P kv \<and> Q kv) xs"
  using rfold_check_all [of "\<lambda>kv _. rbind (check (P kv) (e1 kv)) (\<lambda>_. check (Q kv) (e2 kv))"
      "\<lambda>kv. P kv \<and> Q kv" xs "()" u]
  by (simp add: list_all_iff)

lemma unique_body_iff:
  "name_ok (uq_name u) \<and> unique_body path u columns = Inr () \<longleftrightarrow> unique_ok columns u"
proof -
  have keys: "rfold (unique_key_check path) (indexed (uq_keys u)) () = Inr () \<longleftrightarrow> list_all index_key_ok (uq_keys u)"
    by (rule unit_loop_iff) (rule unique_key_check_iff)
  show ?thesis
    unfolding unique_body_def unique_ok_def
    by (simp add: keys collations_loop_iff storage_check_def name_ok_def key_columns_ok_def conj_ac)
qed

lemma exclusion_body_iff:
  "name_ok (ex_name e) \<and> exclusion_body path e = Inr () \<longleftrightarrow> exclusion_ok e"
proof -
  let ?f = "\<lambda>p (_ :: unit).
      rbind (check (ee_expression (snd p) \<noteq> [])
        (ValidationError (item_path (path @ ''.elements'') (fst p) @ ''.expression'') ''must not be empty'' [])) (\<lambda>_.
      check (ee_operator (snd p) \<noteq> [])
        (ValidationError (item_path (path @ ''.elements'') (fst p) @ ''.operator'') ''must not be empty'' []))"
  have elems: "rfold ?f (indexed (ex_elements e)) () = Inr () \<longleftrightarrow>
      list_all (\<lambda>x. ee_expression x \<noteq> [] \<and> ee_operator x \<noteq> []) (ex_elements e)"
    by (rule unit_loop_iff) simp
  show ?thesis
    unfolding exclusion_body_def exclusion_ok_def using elems by (simp add: conj_ac)
qed

lemma index_body_iff:
  "identifier_ok (ix_name x) \<and> index_body path x columns = Inr () \<longleftrightarrow> index_ok columns x"
proof -
  have keys: "rfold (index_key_check path) (indexed (ix_keys x)) () = Inr () \<longleftrightarrow>
      list_all (\<lambda>k. index_key_ok k \<and> nulls_order_valid (ik_nulls_order k)) (ix_keys x)"
    by (rule unit_loop_iff) (rule index_key_check_iff)
  have exprs: "rfold (\<lambda>p _. check (snd p \<noteq> []) (err p)) (indexed (ix_expressions x)) () = Inr () \<longleftrightarrow>
      list_all (\<lambda>e. e \<noteq> []) (ix_expressions x)" for err :: "nat \<times> gostring \<Rightarrow> validation_error"
    by (rule unit_loop_iff) simp
  have nonempty: "list_all (\<lambda>e. e \<noteq> []) xs \<longleftrightarrow> [] \<notin> set xs" for xs :: "gostring list"
    by (auto simp: list_all_iff)
  show ?thesis
    unfolding index_body_def index_ok_def
    by (auto simp: keys exprs nonempty storage_check_def name_ok_def key_columns_ok_def)
qed

lemma foreign_key_body_iff:
  "name_ok (fk_name k) \<and> foreign_key_body path k columns = Inr () \<longleftrightarrow> foreign_key_ok columns k"
proof -
  have del: "(\<exists>t. rfold (delete_set_step p (set (fk_columns k))) (indexed (fk_delete_set_columns k)) {} = Inr t) \<longleftrightarrow>
      distinct (fk_delete_set_columns k) \<and> set (fk_delete_set_columns k) \<subseteq> set (fk_columns k)" for p
    using indexed_ball [of "fk_delete_set_columns k" "\<lambda>x. x \<in> set (fk_columns k)"]
    by (simp add: delete_set.run subset_eq conj_ac)
  have nonempty: "length xs = length ys \<Longrightarrow> xs \<noteq> [] \<Longrightarrow> ys \<noteq> []" for xs ys :: "gostring list"
    by auto
  show ?thesis
  proof (cases "fk_delete_set_columns k = []")
    case True
    then show ?thesis
      using nonempty [of "fk_columns k" "fk_referenced_columns k"]
      unfolding foreign_key_body_def foreign_key_ok_def
      by (auto simp: name_ok_def key_columns_ok_def)
  next
    case False
    then show ?thesis
      using nonempty [of "fk_columns k" "fk_referenced_columns k"]
      unfolding foreign_key_body_def foreign_key_ok_def
      by (simp add: name_ok_def key_columns_ok_def del) blast
  qed
qed

lemma column_type_check_iff:
  "valid_column_type ct \<and> column_type_check path ct = Inr () \<longleftrightarrow> column_type_ok ct"
  by (cases ct rule: column_type_ok.cases)
     (auto simp: column_type_check_def split: option.splits)

lemma validate_native_column_iff:
  "validate_native_column c path = Inr u \<longleftrightarrow>
     (\<forall>n. col_native_type c = Some n \<longrightarrow> length (native_chain n) \<le> 32 \<and> list_all native_node_ok (native_chain n)) \<and>
     (col_type c = Some OpaqueType \<longrightarrow> col_native_type c \<noteq> None)"
  by (cases "col_native_type c")
     (auto simp: validate_native_column_def native_validate_def native_validate_def_iff)

lemma column_body_iff: "column_body module path c = Inr u \<longleftrightarrow> column_ok module c"
proof -
  have "column_body module path c = Inr u \<longleftrightarrow>
      identifier_ok (col_name c) \<and> (valid_column_type (col_type c) \<and> column_type_check path (col_type c) = Inr ()) \<and>
      validate_native_column c path = Inr () \<and> name_ok (col_collation c) \<and>
      (col_generated_expression c = []) = (col_generated_storage c = []) \<and>
      generated_storage_valid (col_generated_storage c) \<and>
      \<not> (col_generated_expression c \<noteq> [] \<and> col_default c \<noteq> []) \<and>
      identity_generation_valid (col_identity c) \<and>
      \<not> (col_identity c \<noteq> [] \<and> col_generated_expression c \<noteq> []) \<and>
      \<not> (col_identity c \<noteq> [] \<and> col_default c \<noteq> []) \<and>
      \<not> (col_identity c \<noteq> [] \<and> col_nullable c) \<and> \<not> (col_hidden c \<and> module = [])"
    unfolding column_body_def rbind_unit_eq_Inr check_eq_Inr err_at_eq_Inr validate_identifier_iff
      optional_ident_iff name_ok_def
    by argo
  also have "\<dots> \<longleftrightarrow> column_ok module c"
    unfolding column_type_check_iff validate_native_column_iff column_ok_def by argo
  finally show ?thesis .
qed

text \<open>The loops over the constraint lists, as registries of the names they declare.\<close>

abbreviation stated :: "gostring \<Rightarrow> gostring option" where
  "stated n \<equiv> (if n = [] then None else Some n)"

lemma registered_step:
  assumes "name_ok name \<and> body = Inr () \<longleftrightarrow> P"
  shows "rbind (register_name path name names) (\<lambda>names'. rbind body (\<lambda>_. Inr names')) = Inr s' \<longleftrightarrow>
    P \<and> (\<forall>k. stated name = Some k \<longrightarrow> k \<notin> dom names) \<and>
    s' = (if name = [] then names else names(name \<mapsto> path))"
  using assms by (auto simp: register_name_Inr)

lemma registered_loop:
  fixes f :: "'p \<Rightarrow> constraint_names \<Rightarrow> 'e + constraint_names"
  assumes step: "\<And>p s s'. f p s = Inr s' \<longleftrightarrow> P p \<and> (\<forall>k. stated (name p) = Some k \<longrightarrow> k \<notin> dom s) \<and>
      s' = (if name p = [] then s else s(name p \<mapsto> path p))"
  shows "registry_loop f P (\<lambda>p. stated (name p)) dom"
proof unfold_locales
  fix p and s s' :: constraint_names
  assume "f p s = Inr s'"
  then show "P p \<and> (\<forall>k. stated (name p) = Some k \<longrightarrow> k \<notin> dom s) \<and> dom s' = dom s \<union> set_option (stated (name p))"
    unfolding step by auto
next
  fix p and s :: constraint_names
  assume "P p" "\<And>k. stated (name p) = Some k \<Longrightarrow> k \<notin> dom s"
  then show "\<exists>s'. f p s = Inr s'"
    unfolding step by blast
qed

interpretation uniques: registry_loop "unique_step path columns" "\<lambda>p. unique_ok columns (snd p)"
  "\<lambda>p. stated (uq_name (snd p))" dom for path columns
  by (rule registered_loop) (unfold unique_step_def, rule registered_step [OF unique_body_iff])

interpretation checks: registry_loop check_step "\<lambda>p. check_ok (snd p)" "\<lambda>p. stated (ck_name (snd p))" dom
proof (rule registered_loop)
  fix p and s s' :: constraint_names
  show "check_step p s = Inr s' \<longleftrightarrow> check_ok (snd p) \<and>
      (\<forall>k. stated (ck_name (snd p)) = Some k \<longrightarrow> k \<notin> dom s) \<and>
      s' = (if ck_name (snd p) = [] then s else s(ck_name (snd p) \<mapsto> item_path ''checks'' (fst p)))"
    unfolding check_step_def by (rule registered_step) (simp add: check_ok_def)
qed

interpretation exclusions: registry_loop exclusion_step "\<lambda>p. exclusion_ok (snd p)"
  "\<lambda>p. stated (ex_name (snd p))" dom
  by (rule registered_loop) (unfold exclusion_step_def, rule registered_step [OF exclusion_body_iff])

interpretation foreign_keys: registry_loop "foreign_key_step columns" "\<lambda>p. foreign_key_ok columns (snd p)"
  "\<lambda>p. stated (fk_name (snd p))" dom for columns
  by (rule registered_loop) (unfold foreign_key_step_def, rule registered_step [OF foreign_key_body_iff])

interpretation indexes: registry_loop "index_step columns" "\<lambda>p. index_ok columns (snd p)"
  "\<lambda>p. Some (ix_name (snd p))" "\<lambda>s. s" for columns
proof -
  have step: "index_step columns p s = Inr s' \<longleftrightarrow>
      index_ok columns (snd p) \<and> ix_name (snd p) \<notin> s \<and> s' = insert (ix_name (snd p)) s" for p s s'
    using index_body_iff [of "snd p" "item_path ''indexes'' (fst p)" columns]
    by (auto simp: index_step_def Let_def)
  show "registry_loop (index_step columns) (\<lambda>p. index_ok columns (snd p)) (\<lambda>p. Some (ix_name (snd p))) (\<lambda>s. s)"
    by unfold_locales (auto simp: step)
qed

interpretation columns: registry_loop "column_step module" "\<lambda>p. column_ok module (snd p)"
  "\<lambda>p. Some (col_name (snd p))" "\<lambda>s. s" for module
  by unfold_locales (auto simp: column_step_def Let_def column_body_iff)

lemma stated_indexed:
  "List.map_filter (\<lambda>p. stated (name (snd p))) (indexed xs) = stated_names name xs"
  using map_filter_indexed [of "\<lambda>x. stated (name x)" xs] by (simp add: map_filter_stated)

lemma some_indexed: "List.map_filter (\<lambda>p. Some (name (snd p))) (indexed xs) = map name xs"
  using map_filter_indexed [of "\<lambda>x. Some (name x)" xs] by simp


lemma uniques_run:
  "(\<exists>t. validate_named_column_lists path us columns s = Inr t) \<longleftrightarrow>
     list_all (unique_ok columns) us \<and> distinct (stated_names uq_name us) \<and>
     set (stated_names uq_name us) \<inter> dom s = {}"
  unfolding validate_named_column_lists_def uniques.run stated_indexed [of uq_name]
    indexed_ball [of us "unique_ok columns"] list_all_iff ..

lemma uniques_names:
  "validate_named_column_lists path us columns s = Inr t \<Longrightarrow> dom t = dom s \<union> set (stated_names uq_name us)"
  unfolding validate_named_column_lists_def
  using uniques.run_names stated_indexed [of uq_name us] by fastforce

lemma checks_run:
  "(\<exists>t. validate_checks cs s = Inr t) \<longleftrightarrow> list_all check_ok cs \<and> distinct (stated_names ck_name cs) \<and>
     set (stated_names ck_name cs) \<inter> dom s = {}"
  unfolding validate_checks_def checks.run stated_indexed [of ck_name] indexed_ball [of cs check_ok] list_all_iff ..

lemma checks_names: "validate_checks cs s = Inr t \<Longrightarrow> dom t = dom s \<union> set (stated_names ck_name cs)"
  unfolding validate_checks_def using checks.run_names stated_indexed [of ck_name cs] by fastforce

lemma exclusions_run:
  "(\<exists>t. validate_exclusion_constraints es s = Inr t) \<longleftrightarrow> list_all exclusion_ok es \<and>
     distinct (stated_names ex_name es) \<and> set (stated_names ex_name es) \<inter> dom s = {}"
  unfolding validate_exclusion_constraints_def exclusions.run stated_indexed [of ex_name]
    indexed_ball [of es exclusion_ok] list_all_iff ..

lemma exclusions_names:
  "validate_exclusion_constraints es s = Inr t \<Longrightarrow> dom t = dom s \<union> set (stated_names ex_name es)"
  unfolding validate_exclusion_constraints_def using exclusions.run_names stated_indexed [of ex_name es] by fastforce

lemma foreign_keys_run:
  "validate_foreign_keys ks columns s = Inr () \<longleftrightarrow> list_all (foreign_key_ok columns) ks \<and>
     distinct (stated_names fk_name ks) \<and> set (stated_names fk_name ks) \<inter> dom s = {}"
proof -
  have "validate_foreign_keys ks columns s = Inr () \<longleftrightarrow>
      (\<exists>t. rfold (foreign_key_step columns) (indexed ks) s = Inr t)"
    by (simp add: validate_foreign_keys_def)
  also have "\<dots> \<longleftrightarrow> list_all (foreign_key_ok columns) ks \<and>
     distinct (stated_names fk_name ks) \<and> set (stated_names fk_name ks) \<inter> dom s = {}"
    unfolding foreign_keys.run stated_indexed [of fk_name] indexed_ball [of ks "foreign_key_ok columns"] list_all_iff ..
  finally show ?thesis .
qed

lemma indexes_run:
  "validate_indexes xs columns = Inr () \<longleftrightarrow> list_all (index_ok columns) xs \<and> distinct (map ix_name xs)"
proof -
  have "validate_indexes xs columns = Inr () \<longleftrightarrow> (\<exists>t. rfold (index_step columns) (indexed xs) {} = Inr t)"
    by (simp add: validate_indexes_def)
  also have "\<dots> \<longleftrightarrow> list_all (index_ok columns) xs \<and> distinct (map ix_name xs)"
    unfolding indexes.run some_indexed [of ix_name] indexed_ball [of xs "index_ok columns"] list_all_iff by simp
  finally show ?thesis .
qed

lemma columns_run:
  "rfold (column_step module) (indexed cs) {} = Inr t \<longleftrightarrow>
     list_all (column_ok module) cs \<and> distinct (map col_name cs) \<and> t = set (map col_name cs)"
proof -
  have "(\<exists>t. rfold (column_step module) (indexed cs) {} = Inr t) \<longleftrightarrow>
      list_all (column_ok module) cs \<and> distinct (map col_name cs)"
    unfolding columns.run some_indexed [of col_name] indexed_ball [of cs "column_ok module"] list_all_iff by simp
  moreover have "t' = set (map col_name cs)" if "rfold (column_step module) (indexed cs) {} = Inr t'" for t'
    using columns.run_names [OF that] unfolding some_indexed [of col_name cs] by simp
  ultimately show ?thesis by blast
qed

lemma virtual_table_check_iff: "virtual_table_check t = Inr u \<longleftrightarrow> virtual_ok t"
  by (simp add: virtual_table_check_def virtual_ok_def)

text \<open>The four constraint validators share one namespace.\<close>

definition validate_constraints :: "table_def \<Rightarrow> gostring set \<Rightarrow> validation_error + unit" where
  "validate_constraints t columns =
     rbind (validate_named_column_lists ''unique_constraints'' (tb_unique_constraints t) columns Map.empty) (\<lambda>names1.
     rbind (validate_checks (tb_checks t) names1) (\<lambda>names2.
     rbind (validate_exclusion_constraints (tb_exclusion_constraints t) names2) (\<lambda>names3.
     rbind (validate_indexes (tb_indexes t) columns) (\<lambda>_.
     validate_foreign_keys (tb_foreign_keys t) columns names3))))"

lemma validate_constraints_iff:
  "validate_constraints t columns = Inr () \<longleftrightarrow>
     list_all (unique_ok columns) (tb_unique_constraints t) \<and> list_all check_ok (tb_checks t) \<and>
     list_all exclusion_ok (tb_exclusion_constraints t) \<and> list_all (index_ok columns) (tb_indexes t) \<and>
     list_all (foreign_key_ok columns) (tb_foreign_keys t) \<and>
     distinct (map ix_name (tb_indexes t)) \<and> distinct (constraint_name_list t)"
  (is "?L \<longleftrightarrow> ?R")
proof
  assume ?L
  then obtain n1 n2 n3
    where n1: "validate_named_column_lists ''unique_constraints'' (tb_unique_constraints t) columns Map.empty = Inr n1"
      and n2: "validate_checks (tb_checks t) n1 = Inr n2"
      and n3: "validate_exclusion_constraints (tb_exclusion_constraints t) n2 = Inr n3"
      and ix: "validate_indexes (tb_indexes t) columns = Inr ()"
      and fk: "validate_foreign_keys (tb_foreign_keys t) columns n3 = Inr ()"
    by (auto simp: validate_constraints_def)
  note doms = uniques_names [OF n1] checks_names [OF n2] exclusions_names [OF n3]
  show ?R
    using uniques_run [of "''unique_constraints''" "tb_unique_constraints t" columns Map.empty]
      checks_run [of "tb_checks t" n1] exclusions_run [of "tb_exclusion_constraints t" n2]
      n1 n2 n3 ix fk doms
    unfolding foreign_keys_run indexes_run constraint_name_list_def by auto
next
  assume R: ?R
  obtain n1 where n1: "validate_named_column_lists ''unique_constraints'' (tb_unique_constraints t) columns Map.empty = Inr n1"
    using R uniques_run [of "''unique_constraints''" "tb_unique_constraints t" columns Map.empty]
    by (auto simp: constraint_name_list_def)
  obtain n2 where n2: "validate_checks (tb_checks t) n1 = Inr n2"
    using R checks_run [of "tb_checks t" n1] uniques_names [OF n1] by (auto simp: constraint_name_list_def)
  obtain n3 where n3: "validate_exclusion_constraints (tb_exclusion_constraints t) n2 = Inr n3"
    using R exclusions_run [of "tb_exclusion_constraints t" n2] uniques_names [OF n1] checks_names [OF n2]
    by (auto simp: constraint_name_list_def)
  have "validate_foreign_keys (tb_foreign_keys t) columns n3 = Inr ()"
    unfolding foreign_keys_run
    using R uniques_names [OF n1] checks_names [OF n2] exclusions_names [OF n3]
    by (auto simp: constraint_name_list_def)
  then show ?L using R n1 n2 n3 by (simp add: validate_constraints_def indexes_run)
qed

lemma row_name_iff:
  "(if name \<noteq> [] then err_at path (validate_exported_go_identifier U name) else Inr ()) = Inr u \<longleftrightarrow>
     (name \<noteq> [] \<longrightarrow> is_go_identifier U name \<and> rune_is_upper U (fst (decode_rune name)))"
  by (simp add: validate_exported_go_identifier_def)

lemma validate_spec: "table_validate U t = Inr () \<longleftrightarrow> table_ok U t"
proof -
  have "table_validate U t = Inr () \<longleftrightarrow>
      object_kind_valid (tb_kind t) \<and> operation_valid (tb_operations t) \<and>
      name_ok (tb_schema t) \<and> identifier_ok (tb_name t) \<and>
      (tb_row_name t \<noteq> [] \<longrightarrow> is_go_identifier U (tb_row_name t) \<and> rune_is_upper U (fst (decode_rune (tb_row_name t)))) \<and>
      tb_columns t \<noteq> [] \<and>
      (\<exists>columns. rfold (column_step (tb_virtual_table_module t)) (indexed (tb_columns t)) {} = Inr columns \<and>
        distinct (tb_primary_key t) \<and> set (tb_primary_key t) \<subseteq> columns \<and>
        conflict_resolution_valid (tb_primary_key_on_conflict t) \<and>
        (tb_primary_key t = [] \<longrightarrow> \<not> tb_primary_key_autoincrement t \<and> tb_primary_key_on_conflict t = []) \<and>
        virtual_ok t \<and> validate_constraints t columns = Inr ())"
    unfolding table_validate_def row_name_iff rbind_unit_eq_Inr validate_constraints_def [symmetric]
    by (simp add: name_ok_def virtual_table_check_iff) blast
  also have "\<dots> \<longleftrightarrow> table_ok U t"
    unfolding table_ok_def Let_def columns_run validate_constraints_iff by blast
  finally show ?thesis .
qed

text \<open>
  C9. \<open>TableDef.Validate\<close> accepts a descriptor exactly when it is well-formed: every
  column, key, constraint, index and foreign key satisfies its own condition and refers
  to columns the table declares, column names and index names are distinct, and the names
  of unique, check, exclusion and foreign key constraints are distinct across all four
  kinds.\<close>

theorem table_validate_iff: "table_validate U t = Inr () \<longleftrightarrow> table_ok U t"
  by (rule validate_spec)

subsection \<open>Lookup and supported operations\<close>

lemma find_distinct:
  assumes "distinct (map f xs)"
  shows "find (\<lambda>x. f x = k) xs = Some x \<longleftrightarrow> x \<in> set xs \<and> f x = k"
  using assms by (induction xs) auto

text \<open>
  In a descriptor that \<open>Validate\<close> accepts, \<open>Column\<close> finds exactly the declared column
  of that name, every primary key column and every foreign key column is found, and no
  other name is.\<close>

theorem validated_column_lookup:
  assumes "table_validate U t = Inr ()"
  shows "(table_column t name = Some c \<longleftrightarrow> c \<in> set (tb_columns t) \<and> col_name c = name) \<and>
    (\<forall>k\<in>set (tb_primary_key t). table_column t k \<noteq> None) \<and>
    (\<forall>f\<in>set (tb_foreign_keys t). \<forall>k\<in>set (fk_columns f). table_column t k \<noteq> None)"
proof -
  have ok: "table_ok U t" using assms by (simp add: validate_spec)
  then have "distinct (map col_name (tb_columns t))" by (simp add: table_ok_def Let_def)
  note look = find_distinct [OF this]
  have hit: "table_column t k \<noteq> None" if "k \<in> set (map col_name (tb_columns t))" for k
    using that unfolding table_column_def by (auto simp: find_None_iff)
  have "set (tb_primary_key t) \<subseteq> set (map col_name (tb_columns t))"
    using ok by (simp add: table_ok_def Let_def)
  moreover have "set (fk_columns f) \<subseteq> set (map col_name (tb_columns t))" if "f \<in> set (tb_foreign_keys t)" for f
    using ok that by (auto simp: table_ok_def Let_def list_all_iff foreign_key_ok_def key_columns_ok_def)
  ultimately show ?thesis
    using look [of name c] hit unfolding table_column_def by blast
qed

text \<open>
  A descriptor supports a combination of operations exactly when it supports each of
  them, for non-empty combinations of the five defined operations; a descriptor that
  states no operations supports all five as a table and only reading as a view.\<close>

theorem table_supports_combination:
  assumes "a \<noteq> 0" "b \<noteq> 0" "operation_valid a" "operation_valid b"
  shows "(table_supports t (a OR b) \<longleftrightarrow> table_supports t a \<and> table_supports t b) \<and>
    (tb_operations t = 0 \<and> effective_kind t \<noteq> ''view'' \<longrightarrow> table_supports t a) \<and>
    (tb_operations t = 0 \<and> effective_kind t = ''view'' \<longrightarrow> (table_supports t a \<longleftrightarrow> a = 1))"
proof -
  have ne: "a OR b \<noteq> 0" using assms(1) by (metis or_eq_0_iff)
  have all: "all_table_operations AND x = x" if "x AND NOT all_table_operations = 0" for x :: operation
    using that by (auto simp: bit_eq_iff bit_simps)
  have mask: "(a OR b) AND NOT all_table_operations = 0"
    using assms(3,4) by (auto simp: operation_valid_def bit_eq_iff bit_simps)
  have sub: "m AND (a OR b) = a OR b \<longleftrightarrow> m AND a = a \<and> m AND b = b" for m :: operation
    by (auto simp: bit_eq_iff bit_simps)
  have one: "1 AND a = a \<longleftrightarrow> a = 1"
    using assms(1) by (auto simp: one_and_eq odd_iff_mod_2_eq_one) (metis of_bool_eq(1) parity_cases mod_2_eq_odd)+
  show ?thesis
    using assms ne mask sub one all
    unfolding table_supports_def operation_valid_def Let_def by auto
qed

text \<open>The hypotheses hold for reading and inserting.\<close>

theorem table_supports_combination_witness:
  "(1 :: operation) \<noteq> 0 \<and> (2 :: operation) \<noteq> 0 \<and> operation_valid 1 \<and> operation_valid 2 \<and>
   (\<forall>t. table_supports t (1 OR 2) \<longleftrightarrow> table_supports t 1 \<and> table_supports t 2)"
proof -
  have "(1 :: operation) \<noteq> 0" "(2 :: operation) \<noteq> 0" "operation_valid 1" "operation_valid 2"
    by (simp_all add: operation_valid_def all_table_operations_def)
  note h = this
  show ?thesis using h table_supports_combination [OF h] by blast
qed

text \<open>
  \<open>cloneColumns\<close> returns columns equal to its source exactly when no column has a Go
  binding whose import list is stated but empty; such a list is cloned to nil, although
  the comment on \<open>TableDef.Clone\<close> promises that a stated-but-empty container stays one.\<close>

theorem clone_columns_identity:
  "clone_columns cs = cs \<longleftrightarrow> (\<forall>c\<in>set cs. \<forall>g. col_go_binding c = Some g \<longrightarrow> gb_imports g \<noteq> Some [])"
proof -
  have native: "map_option native_clone n = n" for n
    by (cases n) (simp_all add: native_clone_id)
  have "c\<lparr>col_native_type := map_option native_clone (col_native_type c),
          col_go_binding := go_binding_clone (col_go_binding c)\<rparr> = c \<longleftrightarrow>
      go_binding_clone (col_go_binding c) = col_go_binding c" for c :: column_def
    by (cases c) (simp add: native)
  then show ?thesis
    by (simp add: clone_columns_def go_binding_clone_id map_idI list_eq_iff_nth_eq all_set_conv_all_nth)
qed

theorem clone_columns_identity_witness:
  "clone_columns [zero_column\<lparr>col_go_binding := Some \<lparr>gb_type = ''T'', gb_nullable_type = [], gb_imports = Some []\<rparr>\<rparr>]
    \<noteq> [zero_column\<lparr>col_go_binding := Some \<lparr>gb_type = ''T'', gb_nullable_type = [], gb_imports = Some []\<rparr>\<rparr>]"
  unfolding clone_columns_identity by simp

text \<open>Equations by which the validator evaluates on a concrete descriptor.\<close>

lemmas table_ok_eval = table_ok_def Let_def zero_defs object_kind_valid_def operation_valid_def
  all_table_operations_def name_ok_def column_ok_def unique_ok_def check_ok_def exclusion_ok_def
  index_ok_def foreign_key_ok_def key_columns_ok_def include_ok_def index_key_ok_def virtual_ok_def
  constraint_name_list_def stated_names_def identifier_ok_def enum_valid_defs decode_rune_ascii

theorem validated_column_lookup_witness:
  "table_validate \<lparr>ut_letter = \<lambda>_. False, ut_digit = \<lambda>_. False, ut_upper = \<lambda>_. False\<rparr>
     (zero_table\<lparr>tb_name := ''users'', tb_columns := [zero_column\<lparr>col_name := ''id'', col_type := Some UUIDType\<rparr>],
        tb_primary_key := [''id'']\<rparr>) = Inr () \<and>
   table_column (zero_table\<lparr>tb_name := ''users'', tb_columns := [zero_column\<lparr>col_name := ''id'', col_type := Some UUIDType\<rparr>],
        tb_primary_key := [''id'']\<rparr>) ''id'' \<noteq> None"
proof -
  have h: "table_validate \<lparr>ut_letter = \<lambda>_. False, ut_digit = \<lambda>_. False, ut_upper = \<lambda>_. False\<rparr>
     (zero_table\<lparr>tb_name := ''users'', tb_columns := [zero_column\<lparr>col_name := ''id'', col_type := Some UUIDType\<rparr>],
        tb_primary_key := [''id'']\<rparr>) = Inr ()"
    unfolding validate_spec by (simp add: table_ok_eval)
  show ?thesis using h validated_column_lookup [OF h] by simp
qed

end
