(* ===== verification/Query_Ast.thy ===== *)
theory Query_Ast
  imports Schema_Table
begin

text \<open>
  The statement model of package \<open>query\<close>: table references with their column index
  (\<open>query/table.go\<close>), relations, result queries and common table expressions
  (\<open>query/relation.go\<close>), expressions and their constructors (\<open>query/expression.go\<close>), and the
  fields of a \<open>SELECT\<close> (\<open>query/select.go\<close>).

  The type variable \<open>'v\<close> stands for the Go values a caller binds. A Go interface that may
  be nil is a datatype with a nil constructor. Structs that contain each other through
  slices and pointers are one mutually recursive datatype. The identity that \<open>%p\<close> prints
  of a pointer is a natural number, the address.
\<close>

subsection \<open>Table references\<close>

record table_descriptor =
  td_definition :: table_def
  td_columns :: "gostring \<rightharpoonup> nat"
  td_owned :: bool

record table_ref =
  tr_descriptor :: "table_descriptor option"
  tr_alias :: gostring

definition index_columns :: "column_def list \<Rightarrow> (gostring \<rightharpoonup> nat)" where
  "index_columns cs = fold (\<lambda>(i, c) m. if m (col_name c) \<noteq> None then m else m(col_name c \<mapsto> i)) (indexed cs) Map.empty"

definition new_table_descriptor :: "table_def \<Rightarrow> bool \<Rightarrow> table_descriptor" where
  "new_table_descriptor definition owned =
     \<lparr>td_definition = definition, td_columns = index_columns (tb_columns definition), td_owned = owned\<rparr>"

text \<open>
  An index behind the end of the columns would panic in the source. It cannot occur: the
  index is built from the columns, and the descriptor holds a slice header of its own, so a
  caller can rename columns in place but not shorten the slice (\<open>index_columns_range\<close>).
\<close>

definition descriptor_column :: "table_descriptor \<Rightarrow> gostring \<Rightarrow> column_def option" where
  "descriptor_column d name = (case td_columns d name of
       Some i \<Rightarrow>
         let column = tb_columns (td_definition d) ! i in
         if td_owned d \<or> col_name column = name then Some column
         else if td_owned d then None
         else table_column (td_definition d) name
     | None \<Rightarrow> if td_owned d then None else table_column (td_definition d) name)"

definition err_nil_table :: validation_error where
  "err_nil_table = plain_error ''query table: table must not be nil''"

definition table_clone :: "table_def \<Rightarrow> table_def" where
  "table_clone t = t\<lparr>tb_columns := clone_columns (tb_columns t)\<rparr>"

definition new_table_ref :: "unicode_tables \<Rightarrow> table_def \<Rightarrow> validation_error + table_ref" where
  "new_table_ref U definition = (case table_validate U definition of
       Inl e \<Rightarrow> Inl (ValidationError [] ''query table: %w'' [ErrArg e])
     | Inr _ \<Rightarrow> Inr \<lparr>tr_descriptor = Some (new_table_descriptor (table_clone definition) True), tr_alias = []\<rparr>)"

definition table_ref_from :: "table_def \<Rightarrow> table_ref" where
  "table_ref_from definition = \<lparr>tr_descriptor = Some (new_table_descriptor definition False), tr_alias = []\<rparr>"

definition tr_def :: "table_ref \<Rightarrow> table_def" where
  "tr_def t = (case tr_descriptor t of None \<Rightarrow> zero_table | Some d \<Rightarrow> td_definition d)"

definition tr_validate :: "table_ref \<Rightarrow> validation_error + unit" where
  "tr_validate t = (if tr_descriptor t = None then Inl err_nil_table else Inr ())"

definition tr_as :: "table_ref \<Rightarrow> gostring \<Rightarrow> validation_error + table_ref" where
  "tr_as t alias = rbind (tr_validate t) (\<lambda>_. case validate_simple_identifier alias of
       Inl e \<Rightarrow> Inl (ValidationError [] ''query table alias: %w'' [ErrArg e])
     | Inr _ \<Rightarrow> Inr (t\<lparr>tr_alias := alias\<rparr>))"

definition tr_in_schema :: "table_ref \<Rightarrow> gostring \<Rightarrow> validation_error + table_ref" where
  "tr_in_schema t namespace = rbind (tr_validate t) (\<lambda>_. case validate_identifier namespace of
       Inl e \<Rightarrow> Inl (ValidationError [] ''query table schema: %w'' [ErrArg e])
     | Inr _ \<Rightarrow> Inr (t\<lparr>tr_descriptor :=
         map_option (\<lambda>d. d\<lparr>td_definition := (td_definition d)\<lparr>tb_schema := namespace\<rparr>\<rparr>) (tr_descriptor t)\<rparr>))"

definition tr_name :: "table_ref \<Rightarrow> gostring" where
  "tr_name t = tb_name (tr_def t)"

definition tr_qualifier :: "table_ref \<Rightarrow> gostring" where
  "tr_qualifier t = (if tr_alias t \<noteq> [] then tr_alias t else tb_name (tr_def t))"

definition tr_schema :: "table_ref \<Rightarrow> gostring" where
  "tr_schema t = tb_schema (tr_def t)"

definition tr_qualifier_schema :: "table_ref \<Rightarrow> gostring" where
  "tr_qualifier_schema t = (if tr_alias t \<noteq> [] then [] else tb_schema (tr_def t))"

definition tr_qualified_name :: "table_ref \<Rightarrow> gostring" where
  "tr_qualified_name t = (if tr_alias t \<noteq> [] then tr_alias t else qualified_name (tr_def t))"

definition tr_definition :: "table_ref \<Rightarrow> table_def" where
  "tr_definition t = table_clone (tr_def t)"

definition tr_supports :: "table_ref \<Rightarrow> operation \<Rightarrow> bool" where
  "tr_supports t operation = (case tr_descriptor t of None \<Rightarrow> False
     | Some d \<Rightarrow> table_supports (td_definition d) operation)"

definition tr_column :: "table_ref \<Rightarrow> gostring \<Rightarrow> column_def option" where
  "tr_column t name = (case tr_descriptor t of None \<Rightarrow> None | Some d \<Rightarrow> descriptor_column d name)"

definition tr_key :: "table_ref \<Rightarrow> gostring" where
  "tr_key t = (case tr_descriptor t of
       None \<Rightarrow> CHR 0x00 # CHR 0x00 # tr_alias t
     | Some d \<Rightarrow> tb_schema (td_definition d) @ CHR 0x00 # tb_name (td_definition d) @ CHR 0x00 # tr_alias t)"

subsection \<open>Statements and expressions\<close>

record result_column =
  rc_name :: gostring
  rc_type :: "column_type option"
  rc_nullable :: bool
  rc_codec :: gostring

record lock =
  lk_strength :: "8 word"
  lk_of :: "table_ref list"
  lk_wait :: "8 word"

type_synonym null_placement = "8 word"
type_synonym compound_operator = "8 word"

datatype 'v expression =
    NilExpression
  | ColumnRef "'v relation_ref" gostring
  | ExcludedColumn "'v relation_ref" gostring
  | TableIdentifier "'v relation_ref"
  | Value 'v
  | Binary "'v expression" gostring "'v expression"
  | Case "'v expression" "'v case_when list" "'v expression option"
  | Cast "'v expression" "column_type option"
  | Filter "'v expression" "'v expression"
  | Over "'v expression" "'v expression list" "'v order list"
  | TrustedFragment gostring "'v fragment_part list"
  | Logical gostring "'v expression list"
  | NotExpression "'v expression"
  | NullTest "'v expression" bool
  | Membership "'v expression" "'v expression list" bool "'v select option"
  | Function gostring "'v expression list" bool bool bool
  | Subquery "'v select"
  | Existence "'v select" bool
  | OtherExpression gostring
and 'v case_when = CaseWhen "'v expression" "'v expression"
and 'v order = Order (od_expression: "'v expression") (od_result: "'v projection option")
    (od_descending: bool) (od_nulls: null_placement)
and 'v fragment_part = FragmentHole "'v expression" | IdentifierHole gostring | OtherPart
and 'v projection = NilProjection | ColumnProjection "'v relation_ref" gostring
  | ExpressionProjection "'v expression" gostring
and 'v relation_ref =
    NoRelation
  | TableRelation table_ref
  | ResultRelation nat "'v query_body" "result_column list" gostring
  | CteRelation nat "'v cte" gostring
and 'v cte = Cte (cte_name: gostring) (cte_body: "'v query_body") (cte_columns: "result_column list") (cte_id: nat)
and 'v query_body =
    NilBody
  | NativeResult gostring gostring "'v list"
  | SelectBody "'v select"
  | Compound "'v query_body" "result_column list" compound_operator "'v query_body" "result_column list"
and 'v join = Join (jn_type: gostring) (jn_source: "'v relation_ref") (jn_on: "'v expression")
and 'v select = Select
    (s_projections: "'v projection list") (s_from: "'v relation_ref") (s_correlations: "'v relation_ref list")
    (s_ctes: "'v cte list") (s_joins: "'v join list") (s_where: "'v expression")
    (s_group_by: "'v expression list") (s_having: "'v expression") (s_order_by: "'v order list")
    (s_limit: "int option") (s_offset: "int option") (s_distinct: bool) (s_lock: "lock option") (s_checked: bool)

type_synonym 'v result_query = "'v query_body \<times> result_column list"

end
