(* ===== verification/Query_Relation.thy ===== *)
theory Query_Relation
  imports Query_Ast
begin

text \<open>
  The operations of a \<open>RelationRef\<close> and of a \<open>ColumnRef\<close> (\<open>query/relation.go\<close>,
  \<open>query/expression.go\<close>), the constructors of expressions, and what makes two sources of a
  statement conflict (\<open>query/table.go\<close>). The theorem on the column index says when the
  index that \<open>newTableDescriptor\<close> builds answers as a scan of the live columns does.
\<close>

subsection \<open>Relations\<close>

definition relation :: "table_ref \<Rightarrow> 'v relation_ref" where
  "relation t = TableRelation t"

definition derived :: "nat \<Rightarrow> 'v result_query \<Rightarrow> gostring \<Rightarrow> validation_error + 'v relation_ref" where
  "derived address result alias = (case validate_simple_identifier alias of
       Inl e \<Rightarrow> Inl (ValidationError [] ''derived relation alias: %w'' [ErrArg e])
     | Inr _ \<Rightarrow> if fst result = NilBody then Inl (plain_error ''derived relation query must not be empty'')
         else Inr (ResultRelation address (fst result) (snd result) alias))"

fun rel_table :: "'v relation_ref \<Rightarrow> table_ref option" where
  "rel_table (TableRelation t) = Some t"
| "rel_table _ = None"

fun rel_alias :: "'v relation_ref \<Rightarrow> gostring" where
  "rel_alias NoRelation = []"
| "rel_alias (TableRelation t) = tr_alias t"
| "rel_alias (ResultRelation address body columns alias) = alias"
| "rel_alias (CteRelation address c alias) = alias"

text \<open>\<open>r.result\<close>: what a derived relation or a reference to a CTE carries, \<open>nil\<close> for a table.\<close>

fun rel_result :: "'v relation_ref \<Rightarrow> 'v result_query option" where
  "rel_result (ResultRelation address body columns alias) = Some (body, columns)"
| "rel_result (CteRelation address c alias) = Some (cte_body c, cte_columns c)"
| "rel_result _ = None"

definition table_columns :: "table_def \<Rightarrow> result_column list" where
  "table_columns t = map (\<lambda>c. \<lparr>rc_name = col_name c, rc_type = col_type c, rc_nullable = col_nullable c, rc_codec = []\<rparr>) (tb_columns t)"

definition rel_columns :: "'v relation_ref \<Rightarrow> result_column list" where
  "rel_columns r = (case rel_table r of
       Some t \<Rightarrow> table_columns (tr_definition t)
     | None \<Rightarrow> (case rel_result r of None \<Rightarrow> [] | Some q \<Rightarrow> snd q))"

definition has_column :: "'v relation_ref \<Rightarrow> gostring \<Rightarrow> bool" where
  "has_column r name = (case rel_table r of
       Some t \<Rightarrow> tr_column t name \<noteq> None
     | None \<Rightarrow> (case rel_result r of None \<Rightarrow> False | Some q \<Rightarrow> list_ex (\<lambda>c. rc_name c = name) (snd q)))"

definition rel_qualifier :: "'v relation_ref \<Rightarrow> gostring" where
  "rel_qualifier r = (if rel_alias r \<noteq> [] then rel_alias r
     else (case rel_table r of Some t \<Rightarrow> tr_qualifier t | None \<Rightarrow> []))"

definition rel_qualifier_schema :: "'v relation_ref \<Rightarrow> gostring" where
  "rel_qualifier_schema r = (if rel_alias r \<noteq> [] then []
     else (case rel_table r of Some t \<Rightarrow> tr_qualifier_schema t | None \<Rightarrow> []))"

definition rel_definition :: "'v relation_ref \<Rightarrow> table_def" where
  "rel_definition r = (case rel_table r of Some t \<Rightarrow> tr_definition t | None \<Rightarrow> zero_table)"

definition rel_result_body :: "'v relation_ref \<Rightarrow> 'v query_body" where
  "rel_result_body r = (case rel_result r of None \<Rightarrow> NilBody | Some q \<Rightarrow> fst q)"

fun rel_cte_name :: "'v relation_ref \<Rightarrow> gostring" where
  "rel_cte_name (CteRelation address c alias) = cte_name c"
| "rel_cte_name _ = []"

fun rel_cte_identity :: "'v relation_ref \<Rightarrow> nat" where
  "rel_cte_identity (CteRelation address c alias) = cte_id c"
| "rel_cte_identity _ = 0"

definition rel_qualified_name :: "'v relation_ref \<Rightarrow> gostring" where
  "rel_qualified_name r = (if rel_alias r \<noteq> [] then rel_alias r
     else (case rel_table r of Some t \<Rightarrow> tr_qualified_name t | None \<Rightarrow> []))"

text \<open>
  The key of a relation. The source formats it into one string with a leading kind, a
  NUL byte and, for a derived relation or a CTE reference, the pointer and the alias; the
  kinds are constructors here and the pointer is the address.
\<close>

datatype relation_key =
    TableKey gostring
  | ResultKey nat gostring
  | CteKey nat gostring
  | OtherKey gostring

fun rel_key :: "'v relation_ref \<Rightarrow> relation_key" where
  "rel_key (TableRelation t) = TableKey (tr_key t)"
| "rel_key (ResultRelation address body columns alias) = ResultKey address alias"
| "rel_key (CteRelation address c alias) = CteKey address alias"
| "rel_key NoRelation = OtherKey []"

fun rel_validate :: "'v relation_ref \<Rightarrow> validation_error + unit" where
  "rel_validate NoRelation = Inl err_nil_table"
| "rel_validate (TableRelation t) = tr_validate t"
| "rel_validate (ResultRelation address body columns alias) =
     (if alias = [] then Inl (plain_error ''relation alias must not be empty'') else Inr ())"
| "rel_validate (CteRelation address c alias) =
     (if alias = [] then Inl (plain_error ''relation alias must not be empty'') else Inr ())"

record source_reference =
  sr_qualifier :: gostring
  sr_schema :: gostring
  sr_descriptor :: gostring

definition rel_reference :: "'v relation_ref \<Rightarrow> source_reference" where
  "rel_reference r = \<lparr>sr_qualifier = rel_qualifier r, sr_schema = rel_qualifier_schema r,
     sr_descriptor = (case rel_table r of Some t \<Rightarrow> qualified_name (tr_definition t) | None \<Rightarrow> rel_qualified_name r)\<rparr>"

definition conflicts :: "source_reference \<Rightarrow> source_reference \<Rightarrow> bool" where
  "conflicts r other =
     (if sr_qualifier r \<noteq> sr_qualifier other then False
      else if sr_schema r \<noteq> [] \<and> sr_schema other \<noteq> [] then sr_schema r = sr_schema other
      else True)"

definition common_table :: "gostring \<Rightarrow> 'v result_query \<Rightarrow> nat \<Rightarrow> (validation_error + 'v cte) \<times> nat" where
  "common_table name result next_cte_id = (case validate_simple_identifier name of
       Inl e \<Rightarrow> (Inl (ValidationError [] ''CTE name: %w'' [ErrArg e]), next_cte_id)
     | Inr _ \<Rightarrow> if fst result = NilBody then (Inl (plain_error ''CTE query must not be empty''), next_cte_id)
         else (Inr (Cte name (fst result) (snd result) (next_cte_id + 1)), next_cte_id + 1))"

definition cte_ref :: "nat \<Rightarrow> 'v cte \<Rightarrow> gostring \<Rightarrow> validation_error + 'v relation_ref" where
  "cte_ref address c alias = (let alias = (if alias = [] then cte_name c else alias) in
     case validate_simple_identifier alias of
       Inl e \<Rightarrow> Inl (ValidationError [] ''CTE alias: %w'' [ErrArg e])
     | Inr _ \<Rightarrow> Inr (CteRelation address c alias))"

definition compound_query :: "'v result_query \<Rightarrow> compound_operator \<Rightarrow> 'v result_query \<Rightarrow> validation_error + 'v query_body" where
  "compound_query left operator right =
     (if fst left = NilBody \<or> fst right = NilBody then Inl (plain_error ''compound operands must not be empty'')
      else if operator < 1 \<or> operator > 4 then Inl (ValidationError [] ''unsupported compound operator %d'' [IntArg (uint operator)])
      else if length (snd left) \<noteq> length (snd right) then Inl (plain_error ''compound operands expose different column counts'')
      else Inr (Compound (fst left) (snd left) operator (fst right) (snd right)))"

subsection \<open>Constructors of expressions\<close>

text \<open>
  An operand given to a constructor: a plain Go value, or an expression. A typed column is
  an expression here, since \<open>operand\<close> replaces it by its \<open>ColumnRef\<close> first.
\<close>

type_synonym 'v any_operand = "'v + 'v expression"

definition operand :: "'v any_operand \<Rightarrow> 'v expression" where
  "operand value = (case value of Inr expression \<Rightarrow> expression | Inl v \<Rightarrow> Value v)"

definition operands :: "'v any_operand list \<Rightarrow> 'v expression list" where
  "operands values = map operand values"

definition compare_expr :: "'v any_operand \<Rightarrow> gostring \<Rightarrow> 'v any_operand \<Rightarrow> 'v expression" where
  "compare_expr left operator right = Binary (operand left) operator (operand right)"

definition equal_expr :: "'v any_operand \<Rightarrow> 'v any_operand \<Rightarrow> 'v expression" where
  "equal_expr left right = compare_expr left ''='' right"

definition greater_than :: "'v any_operand \<Rightarrow> 'v any_operand \<Rightarrow> 'v expression" where
  "greater_than left right = compare_expr left ''>'' right"

definition less_than :: "'v any_operand \<Rightarrow> 'v any_operand \<Rightarrow> 'v expression" where
  "less_than left right = compare_expr left ''<'' right"

definition match_expr :: "table_ref \<Rightarrow> 'v any_operand \<Rightarrow> 'v expression" where
  "match_expr table expr = Binary (TableIdentifier (relation table)) ''MATCH'' (operand expr)"

definition and_expr :: "'v expression list \<Rightarrow> 'v expression" where
  "and_expr expressions = Logical ''AND'' expressions"

definition or_expr :: "'v expression list \<Rightarrow> 'v expression" where
  "or_expr expressions = Logical ''OR'' expressions"

definition is_null :: "'v expression \<Rightarrow> 'v expression" where
  "is_null expression = NullTest expression False"

definition is_not_null :: "'v expression \<Rightarrow> 'v expression" where
  "is_not_null expression = NullTest expression True"

definition in_values :: "'v any_operand \<Rightarrow> 'v any_operand list \<Rightarrow> 'v expression" where
  "in_values expression values = Membership (operand expression) (operands values) False None"

definition not_in_values :: "'v any_operand \<Rightarrow> 'v any_operand list \<Rightarrow> 'v expression" where
  "not_in_values expression values = Membership (operand expression) (operands values) True None"

definition in_select :: "'v any_operand \<Rightarrow> 'v select \<Rightarrow> 'v expression" where
  "in_select expression statement = Membership (operand expression) [] False (Some statement)"

definition not_in_select :: "'v any_operand \<Rightarrow> 'v select \<Rightarrow> 'v expression" where
  "not_in_select expression statement = Membership (operand expression) [] True (Some statement)"

definition exists_expr :: "'v select \<Rightarrow> 'v expression" where
  "exists_expr statement = Existence statement False"

definition not_exists :: "'v select \<Rightarrow> 'v expression" where
  "not_exists statement = Existence statement True"

definition call :: "gostring \<Rightarrow> 'v any_operand list \<Rightarrow> 'v expression" where
  "call name arguments = Function name (operands arguments) False False False"

definition func :: "gostring \<Rightarrow> 'v any_operand list \<Rightarrow> 'v expression" where
  "func name arguments = Function name (operands arguments) False False True"

definition count_all :: "'v expression" where
  "count_all = Function ''COUNT'' [] True False False"

definition bm25 :: "table_ref \<Rightarrow> 'v list \<Rightarrow> 'v expression" where
  "bm25 table weights = call ''BM25'' (Inr (TableIdentifier (relation table)) # map Inl weights)"

fun with_distinct_call :: "'v expression \<Rightarrow> 'v expression" where
  "with_distinct_call (Function name arguments star dist unchecked) = Function name arguments star True unchecked"
| "with_distinct_call e = e"

definition asc :: "'v any_operand \<Rightarrow> 'v order" where
  "asc expression = Order (operand expression) None False 0"

definition desc :: "'v any_operand \<Rightarrow> 'v order" where
  "desc expression = Order (operand expression) None True 0"

definition asc_nulls :: "'v any_operand \<Rightarrow> null_placement \<Rightarrow> 'v order" where
  "asc_nulls expression placement = Order (operand expression) None False placement"

definition desc_nulls :: "'v any_operand \<Rightarrow> null_placement \<Rightarrow> 'v order" where
  "desc_nulls expression placement = Order (operand expression) None True placement"

definition asc_result :: "'v projection \<Rightarrow> 'v order" where
  "asc_result projection = Order NilExpression (Some projection) False 0"

definition desc_result :: "'v projection \<Rightarrow> 'v order" where
  "desc_result projection = Order NilExpression (Some projection) True 0"

fun projected_expression :: "'v projection \<Rightarrow> 'v expression" where
  "projected_expression NilProjection = NilExpression"
| "projected_expression (ColumnProjection source name) = ColumnRef source name"
| "projected_expression (ExpressionProjection expression alias) = expression"

fun result_alias :: "'v projection \<Rightarrow> gostring" where
  "result_alias (ExpressionProjection expression alias) = alias"
| "result_alias _ = []"

fun result_name :: "'v projection \<Rightarrow> gostring option" where
  "result_name (ExpressionProjection expression alias) = (if alias \<noteq> [] then Some alias else None)"
| "result_name (ColumnProjection source name) = Some name"
| "result_name NilProjection = None"

definition column_validate :: "'v relation_ref \<Rightarrow> gostring \<Rightarrow> validation_error + unit" where
  "column_validate source name = (case rel_validate source of
       Inl e \<Rightarrow> Inl (ValidationError [] ''query column: %q: %w'' [QuotedArg name, ErrArg e])
     | Inr _ \<Rightarrow> if has_column source name then Inr ()
         else Inl (ValidationError [] ''query column: table %q has no column %q'' [QuotedArg (rel_qualified_name source), QuotedArg name]))"


subsection \<open>The column index\<close>

lemma zip_upt_Cons: "zip [k..<k + length (c # cs)] (c # cs) = (k, c) # zip [Suc k..<Suc k + length cs] cs"
proof -
  have "[k..<k + length (c # cs)] = k # [Suc k..<Suc k + length cs]" by (subst upt_conv_Cons) simp_all
  then show ?thesis by simp
qed

lemma fold_index_columns:
  "fold (\<lambda>(i, c) m. if m (col_name c) \<noteq> None then m else m(col_name c \<mapsto> i)) (zip [k..<k + length cs] cs) m name =
   (case m name of Some i \<Rightarrow> Some i
    | None \<Rightarrow> map_option (\<lambda>(i, _). i) (find (\<lambda>(i, c). col_name c = name) (zip [k..<k + length cs] cs)))"
proof (induction cs arbitrary: k m)
  case Nil
  then show ?case by (simp split: option.split)
next
  case (Cons c cs)
  show ?case unfolding zip_upt_Cons using Cons.IH [of "Suc k"] by (auto split: option.split)
qed

lemma index_columns_find:
  "index_columns cs name = map_option (\<lambda>(i, _). i) (find (\<lambda>(i, c). col_name c = name) (indexed cs))"
  unfolding index_columns_def indexed_def using fold_index_columns [of 0 cs Map.empty name] by simp

lemma find_zip_column:
  "find (\<lambda>c. col_name c = name) cs = map_option (\<lambda>(_, c). c) (find (\<lambda>(i, c). col_name c = name) (zip [k..<k + length cs] cs))"
proof (induction cs arbitrary: k)
  case (Cons c cs)
  show ?case unfolding zip_upt_Cons using Cons.IH [of "Suc k"] by auto
qed simp

lemma index_columns_range:
  assumes "index_columns cs name = Some i"
  shows "i < length cs \<and> col_name (cs ! i) = name \<and> find (\<lambda>c. col_name c = name) cs = Some (cs ! i)"
proof -
  obtain c where c: "find (\<lambda>(i, c). col_name c = name) (indexed cs) = Some (i, c)"
    using assms by (auto simp: index_columns_find)
  then have "(i, c) \<in> set (indexed cs)" "col_name c = name" by (auto simp: find_Some_iff in_set_conv_nth)
  then have "i < length cs" "cs ! i = c" by (auto simp: indexed_def set_zip)
  then show ?thesis using c \<open>col_name c = name\<close> find_zip_column [of name cs 0] by (simp add: indexed_def)
qed

lemma index_columns_None:
  "index_columns cs name = None \<longleftrightarrow> find (\<lambda>c. col_name c = name) cs = None"
  using find_zip_column [of name cs 0] by (auto simp: index_columns_find indexed_def)

lemma descriptor_column_fresh:
  "descriptor_column (new_table_descriptor definition owned) name = table_column definition name"
proof (cases "index_columns (tb_columns definition) name")
  case None
  then show ?thesis using index_columns_None [of "tb_columns definition" name]
    by (simp add: descriptor_column_def new_table_descriptor_def table_column_def)
next
  case (Some i)
  then show ?thesis using index_columns_range [OF Some]
    by (simp add: descriptor_column_def new_table_descriptor_def table_column_def)
qed

lemma find_distinct_nth:
  assumes "distinct (map col_name cs)" "i < length cs"
  shows "find (\<lambda>c. col_name c = col_name (cs ! i)) cs = Some (cs ! i)"
  using assms by (auto simp: find_Some_iff distinct_conv_nth intro!: exI [of _ i])

text \<open>
  The column index of a table reference answers as a scan of the columns does. Fresh from
  \<open>NewTableRef\<close> or \<open>TableRefFrom\<close> it finds for every name the first column of that name, and
  nothing when there is none. After a caller of \<open>TableRefFrom\<close> has renamed columns in place
  the stale index is still only a hint: the lookup agrees with a scan of the live columns
  as long as their names are distinct.
\<close>
theorem column_index_is_scan:
  "descriptor_column (new_table_descriptor definition owned) name = table_column definition name \<and>
   (length (tb_columns renamed) = length (tb_columns definition) \<and> distinct (map col_name (tb_columns renamed)) \<longrightarrow>
    descriptor_column ((new_table_descriptor definition False)\<lparr>td_definition := renamed\<rparr>) name = table_column renamed name)"
proof (intro conjI impI)
  assume r: "length (tb_columns renamed) = length (tb_columns definition) \<and> distinct (map col_name (tb_columns renamed))"
  show "descriptor_column ((new_table_descriptor definition False)\<lparr>td_definition := renamed\<rparr>) name = table_column renamed name"
  proof (cases "index_columns (tb_columns definition) name")
    case None
    then show ?thesis by (simp add: descriptor_column_def new_table_descriptor_def)
  next
    case (Some i)
    then have "i < length (tb_columns renamed)" using index_columns_range [OF Some] r by simp
    then show ?thesis using Some r find_distinct_nth [of "tb_columns renamed" i]
      by (auto simp: descriptor_column_def new_table_descriptor_def table_column_def Let_def)
  qed
qed (rule descriptor_column_fresh)

theorem column_index_is_scan_witness:
  "let definition = zero_table\<lparr>tb_columns := [zero_column\<lparr>col_name := ''a''\<rparr>, zero_column\<lparr>col_name := ''b''\<rparr>]\<rparr>;
       renamed = zero_table\<lparr>tb_columns := [zero_column\<lparr>col_name := ''b''\<rparr>, zero_column\<lparr>col_name := ''c''\<rparr>]\<rparr> in
   descriptor_column ((new_table_descriptor definition False)\<lparr>td_definition := renamed\<rparr>) ''b'' = Some (zero_column\<lparr>col_name := ''b''\<rparr>) \<and>
   descriptor_column ((new_table_descriptor definition False)\<lparr>td_definition := renamed\<rparr>) ''a'' = None"
  using column_index_is_scan [of "zero_table\<lparr>tb_columns := [zero_column\<lparr>col_name := ''a''\<rparr>, zero_column\<lparr>col_name := ''b''\<rparr>]\<rparr>"
      False "''b''" "zero_table\<lparr>tb_columns := [zero_column\<lparr>col_name := ''b''\<rparr>, zero_column\<lparr>col_name := ''c''\<rparr>]\<rparr>"]
    column_index_is_scan [of "zero_table\<lparr>tb_columns := [zero_column\<lparr>col_name := ''a''\<rparr>, zero_column\<lparr>col_name := ''b''\<rparr>]\<rparr>"
      False "''a''" "zero_table\<lparr>tb_columns := [zero_column\<lparr>col_name := ''b''\<rparr>, zero_column\<lparr>col_name := ''c''\<rparr>]\<rparr>"]
  by (simp add: table_column_def)

end
