(* ===== verification/Query_Validate.thy ===== *)
theory Query_Validate
  imports Query_Relation Sql_Scan
begin

text \<open>
  Statement validation of package \<open>query\<close>: the expression walk of \<open>query/validate.go\<close> and
  \<open>Select.Validate\<close> of \<open>query/select.go\<close>. The walk is one recursion over the mutually
  recursive statement types. The rules of one clause or one node are separate
  definitions, as in the source; where a rule walks child expressions it takes the list of
  the children paired with their walks.

  Messages are formats with arguments; the formatted text is not computed. A call of
  \<open>Validate\<close> on a nil query body, which panics, is an error value here; every constructor
  refuses a nil body before.
\<close>

record case_tables =
  ct_lower :: "gostring \<Rightarrow> gostring"
  ct_upper :: "gostring \<Rightarrow> gostring"

record source_scope =
  sc_keys :: "relation_key set"
  sc_references :: "source_reference list"

definition scope_add :: "source_scope \<Rightarrow> 'v relation_ref \<Rightarrow> source_scope" where
  "scope_add s table = s\<lparr>sc_keys := insert (rel_key table) (sc_keys s),
     sc_references := sc_references s @ [rel_reference table]\<rparr>"

definition empty_scope :: source_scope where
  "empty_scope = \<lparr>sc_keys = {}, sc_references = []\<rparr>"

definition new_source_scope :: "'v relation_ref \<Rightarrow> source_scope" where
  "new_source_scope table = scope_add empty_scope table"

record expression_context =
  ec_sources :: source_scope
  ec_clause :: gostring
  ec_allows_aggregate :: bool
  ec_allows_subquery :: bool
  ec_depth :: nat
  ec_row_value :: bool
  ec_allows_excluded :: bool

definition clause_context :: "source_scope \<Rightarrow> gostring \<Rightarrow> expression_context" where
  "clause_context sources clause = \<lparr>ec_sources = sources, ec_clause = clause, ec_allows_aggregate = False,
     ec_allows_subquery = False, ec_depth = 0, ec_row_value = False, ec_allows_excluded = False\<rparr>"

definition row_value_context :: "source_scope \<Rightarrow> gostring \<Rightarrow> expression_context" where
  "row_value_context sources clause = (clause_context sources clause)\<lparr>ec_row_value := True\<rparr>"

definition aggregate_clause_context :: "source_scope \<Rightarrow> gostring \<Rightarrow> expression_context" where
  "aggregate_clause_context sources clause =
     (clause_context sources clause)\<lparr>ec_allows_aggregate := True, ec_allows_subquery := True\<rparr>"

definition subquery_clause_context :: "source_scope \<Rightarrow> gostring \<Rightarrow> expression_context" where
  "subquery_clause_context sources clause = (clause_context sources clause)\<lparr>ec_allows_subquery := True\<rparr>"

definition excluded_context :: "source_scope \<Rightarrow> gostring \<Rightarrow> expression_context" where
  "excluded_context sources clause = (clause_context sources clause)\<lparr>ec_allows_excluded := True\<rparr>"

definition projection_context :: "source_scope \<Rightarrow> expression_context" where
  "projection_context sources = aggregate_clause_context sources ''a SELECT projection''"

definition in_aggregate :: "expression_context \<Rightarrow> expression_context" where
  "in_aggregate c = c\<lparr>ec_depth := ec_depth c + 1\<rparr>"

definition outside_aggregates :: "expression_context \<Rightarrow> expression_context" where
  "outside_aggregates c = c\<lparr>ec_allows_aggregate := False, ec_depth := 0\<rparr>"

record expression_usage =
  eu_aggregate :: bool
  eu_bare_column :: bool

definition no_usage :: expression_usage where
  "no_usage = \<lparr>eu_aggregate = False, eu_bare_column = False\<rparr>"

definition usage_merge :: "expression_usage \<Rightarrow> expression_usage \<Rightarrow> expression_usage" where
  "usage_merge u other = \<lparr>eu_aggregate = eu_aggregate u \<or> eu_aggregate other,
     eu_bare_column = eu_bare_column u \<or> eu_bare_column other\<rparr>"

type_synonym expression_check = "expression_context \<Rightarrow> gostring \<Rightarrow> validation_error + expression_usage"

abbreviation invalid :: "gostring \<Rightarrow> gostring \<Rightarrow> message_arg list \<Rightarrow> validation_error + 'a" where
  "invalid path format args \<equiv> Inl (ValidationError path format args)"

text \<open>The loop over numbered child expressions that merges what they read.\<close>

definition walk_all :: "gostring \<Rightarrow> expression_check list \<Rightarrow> expression_context \<Rightarrow> expression_usage \<Rightarrow> validation_error + expression_usage" where
  "walk_all path walks ctx usage =
     rfold (\<lambda>(i, walk) u. rbind (walk ctx (item_path path i)) (\<lambda>v. Inr (usage_merge u v))) (indexed walks) usage"

subsection \<open>Leaves\<close>

definition validate_alias :: "gostring \<Rightarrow> validation_error + unit" where
  "validate_alias alias = (case validate_simple_identifier alias of
       Inl e \<Rightarrow> invalid [] ''invalid alias: %w'' [ErrArg e]
     | Inr _ \<Rightarrow> Inr ())"

definition validate_column_ref :: "'v relation_ref \<Rightarrow> gostring \<Rightarrow> expression_check" where
  "validate_column_ref source name ctx path = (case rel_validate source of
       Inl e \<Rightarrow> invalid path ''%s'' [ErrArg e]
     | Inr _ \<Rightarrow>
         if ec_row_value ctx \<and> rel_key source \<in> sc_keys (ec_sources ctx)
           then invalid path ''references column %q of the target table, but an INSERT VALUES row cannot read the target table's columns'' [QuotedArg name]
         else if rel_key source \<notin> sc_keys (ec_sources ctx)
           then invalid path ''references table %q outside the statement'' [QuotedArg (rel_qualified_name source)]
         else if \<not> has_column source name then invalid path ''references unknown column %q'' [QuotedArg name]
         else Inr \<lparr>eu_aggregate = False, eu_bare_column = (ec_depth ctx = 0)\<rparr>)"

definition validate_excluded_column :: "'v relation_ref \<Rightarrow> gostring \<Rightarrow> expression_check" where
  "validate_excluded_column source name ctx path =
     (if \<not> ec_allows_excluded ctx then invalid path ''EXCLUDED is only valid in an upsert conflict-update expression'' []
      else (case rel_validate source of
       Inl e \<Rightarrow> invalid path ''%s'' [ErrArg e]
     | Inr _ \<Rightarrow>
         if rel_key source \<notin> sc_keys (ec_sources ctx)
           then invalid path ''references table %q outside the statement'' [QuotedArg (rel_qualified_name source)]
         else if \<not> has_column source name then invalid path ''references unknown column %q'' [QuotedArg name]
         else Inr \<lparr>eu_aggregate = False, eu_bare_column = (ec_depth ctx = 0)\<rparr>))"

definition validate_table_identifier :: "'v relation_ref \<Rightarrow> expression_check" where
  "validate_table_identifier source ctx path = (case rel_validate source of
       Inl e \<Rightarrow> invalid path ''%s'' [ErrArg e]
     | Inr _ \<Rightarrow>
         if rel_key source \<notin> sc_keys (ec_sources ctx)
           then invalid path ''references table %q outside the statement'' [QuotedArg (rel_qualified_name source)]
         else Inr \<lparr>eu_aggregate = False, eu_bare_column = (ec_depth ctx = 0)\<rparr>)"

definition valid_binary_operator :: "gostring \<Rightarrow> bool" where
  "valid_binary_operator operator = (operator \<in> {''='', ''<>'', ''>'', ''>='', ''<'', ''<='', ''LIKE'', ''MATCH'',
     ''+'', ''-'', ''*'', ''/'', ''%''})"

fun predicate_expression :: "'v expression \<Rightarrow> bool" where
  "predicate_expression (Binary l op r) = True"
| "predicate_expression (Logical op es) = True"
| "predicate_expression (NotExpression e) = True"
| "predicate_expression (NullTest e n) = True"
| "predicate_expression (Membership e vs n q) = True"
| "predicate_expression (Existence s n) = True"
| "predicate_expression _ = False"

text \<open>The type switch names the nine value types, so a pointer to one of them is refused.\<close>

fun valid_cast_type :: "column_type option \<Rightarrow> bool" where
  "valid_cast_type None = False"
| "valid_cast_type (Some OpaqueType) = False"
| "valid_cast_type (Some (PointerTo t)) = False"
| "valid_cast_type (Some _) = True"

text \<open>\<open>strings.Count(sql, "{}")\<close> and \<open>strings.Split(sql, "{}")\<close>.\<close>

fun split_markers :: "gostring \<Rightarrow> gostring list" where
  "split_markers [] = [[]]"
| "split_markers [c] = [[c]]"
| "split_markers (c # d # s) =
     (if c = CHR ''{'' \<and> d = CHR ''}'' then [] # split_markers s
      else (case split_markers (d # s) of [] \<Rightarrow> [[c]] | x # xs \<Rightarrow> (c # x) # xs))"

definition count_markers :: "gostring \<Rightarrow> nat" where
  "count_markers sql = length (split_markers sql) - 1"

subsection \<open>Function calls\<close>

record function_spec =
  fs_aggregate :: bool
  fs_minimum :: nat
  fs_maximum :: nat

definition function_specs :: "gostring \<rightharpoonup> function_spec" where
  "function_specs name =
     (if name \<in> {''COUNT'', ''SUM'', ''MIN'', ''MAX'', ''AVG''} then Some \<lparr>fs_aggregate = True, fs_minimum = 1, fs_maximum = 1\<rparr>
      else if name = ''COALESCE'' then Some \<lparr>fs_aggregate = False, fs_minimum = 2, fs_maximum = 0\<rparr>
      else if name \<in> {''LOWER'', ''UPPER'', ''ABS''} then Some \<lparr>fs_aggregate = False, fs_minimum = 1, fs_maximum = 1\<rparr>
      else None)"

fun aggregates :: "'v expression \<Rightarrow> bool" where
  "aggregates (Function name arguments star dist unchecked) =
     (if unchecked then False
      else (case function_specs name of None \<Rightarrow> False | Some spec \<Rightarrow> fs_aggregate spec))"
| "aggregates _ = False"

type_synonym 'v arguments = "('v expression \<times> expression_check) list"

definition validate_aggregate_function :: "gostring \<Rightarrow> 'v arguments \<Rightarrow> bool \<Rightarrow> bool \<Rightarrow> expression_check" where
  "validate_aggregate_function name arguments star dist ctx path =
     (if ec_depth ctx > 0 then invalid path ''calls aggregate function %q inside another aggregate function'' [QuotedArg name]
      else if \<not> ec_allows_aggregate ctx then invalid path ''calls aggregate function %q in %s, but an aggregate is only valid in a SELECT projection, in a HAVING clause, or in the ORDER BY clause of a statement that groups'' [QuotedArg name, QuotedArg (ec_clause ctx)]
      else if star then
        (if name \<noteq> ''COUNT'' then invalid path ''function %q does not support *'' [QuotedArg name]
         else if length arguments > 0 then invalid path ''COUNT(*) takes no arguments'' []
         else if dist then invalid path ''COUNT(DISTINCT *) is not valid SQL; call Count with a column instead of CountAll'' []
         else Inr \<lparr>eu_aggregate = True, eu_bare_column = False\<rparr>)
      else if length arguments \<noteq> 1 then invalid path ''function %q takes exactly one argument, got %d'' [QuotedArg name, IntArg (int (length arguments))]
      else rbind (walk_all (path @ ''.arguments'') (map snd arguments) (in_aggregate ctx) no_usage)
             (\<lambda>_. Inr \<lparr>eu_aggregate = True, eu_bare_column = False\<rparr>))"

definition validate_function_arity :: "gostring \<Rightarrow> nat \<Rightarrow> function_spec \<Rightarrow> gostring \<Rightarrow> validation_error + unit" where
  "validate_function_arity name n spec path =
     (if fs_minimum spec = fs_maximum spec then
        (if n \<noteq> fs_minimum spec then invalid path ''function %q takes exactly %d argument(s), got %d'' [QuotedArg name, IntArg (int (fs_minimum spec)), IntArg (int n)]
         else Inr ())
      else if n < fs_minimum spec then invalid path ''function %q takes at least %d argument(s), got %d'' [QuotedArg name, IntArg (int (fs_minimum spec)), IntArg (int n)]
      else if fs_maximum spec > 0 \<and> n > fs_maximum spec then invalid path ''function %q takes at most %d argument(s), got %d'' [QuotedArg name, IntArg (int (fs_maximum spec)), IntArg (int n)]
      else Inr ())"

definition validate_scalar_function :: "gostring \<Rightarrow> 'v arguments \<Rightarrow> bool \<Rightarrow> bool \<Rightarrow> function_spec \<Rightarrow> expression_check" where
  "validate_scalar_function name arguments star dist spec ctx path =
     (if star then invalid path ''function %q does not support *'' [QuotedArg name]
      else if dist then invalid path ''function %q does not aggregate, so it does not support DISTINCT'' [QuotedArg name]
      else rbind (validate_function_arity name (length arguments) spec path)
        (\<lambda>_. walk_all (path @ ''.arguments'') (map snd arguments) ctx no_usage))"

fun is_table_identifier :: "'v expression \<Rightarrow> bool" where
  "is_table_identifier (TableIdentifier r) = True"
| "is_table_identifier _ = False"

definition validate_bm25_function :: "gostring \<Rightarrow> 'v arguments \<Rightarrow> bool \<Rightarrow> bool \<Rightarrow> expression_check" where
  "validate_bm25_function name arguments star dist ctx path =
     (if star then invalid path ''function %q does not support *'' [QuotedArg name]
      else if dist then invalid path ''function %q does not aggregate, so it does not support DISTINCT'' [QuotedArg name]
      else if arguments = [] then invalid path ''function %q takes the table's own identifier as its first argument, followed by zero or more column weights'' [QuotedArg name]
      else if \<not> is_table_identifier (fst (hd arguments)) then invalid (path @ ''.arguments[0]'') ''function %q takes a TableIdentifier as its first argument, got %T; build one with TableRef.Identifier'' [QuotedArg name]
      else walk_all (path @ ''.arguments'') (map snd arguments) ctx no_usage)"

definition validate_custom_function :: "gostring \<Rightarrow> 'v arguments \<Rightarrow> bool \<Rightarrow> expression_check" where
  "validate_custom_function name arguments star ctx path =
     (if star then invalid path ''function %q does not support *'' [QuotedArg name]
      else (case validate_simple_identifier name of
          Inl e \<Rightarrow> invalid (path @ ''.function'') ''invalid function name %q: %s'' [QuotedArg name, ErrArg e]
        | Inr _ \<Rightarrow> walk_all (path @ ''.arguments'') (map snd arguments) ctx no_usage))"

definition validate_function :: "gostring \<Rightarrow> 'v arguments \<Rightarrow> bool \<Rightarrow> bool \<Rightarrow> bool \<Rightarrow> expression_check" where
  "validate_function name arguments star dist unchecked ctx path =
     (if unchecked then validate_custom_function name arguments star ctx path
      else if name = ''BM25'' then validate_bm25_function name arguments star dist ctx path
      else (case function_specs name of
          None \<Rightarrow> invalid (path @ ''.function'') ''unsupported function %q'' [QuotedArg name]
        | Some spec \<Rightarrow>
            if fs_aggregate spec then validate_aggregate_function name arguments star dist ctx path
            else validate_scalar_function name arguments star dist spec ctx path))"


subsection \<open>Clauses of a SELECT\<close>

definition validate_lock :: "lock \<Rightarrow> 'v relation_ref \<Rightarrow> 'v join list \<Rightarrow> validation_error + unit" where
  "validate_lock lock source joins =
     (if lk_strength lock \<notin> {1, 2, 3, 4} then invalid ''lock.strength'' ''unsupported lock strength %d'' [IntArg (uint (lk_strength lock))]
      else if lk_wait lock \<notin> {0, 1, 2} then invalid ''lock.wait'' ''unsupported lock wait mode %d'' [IntArg (uint (lk_wait lock))]
      else (let sources = set (map tr_key (List.map_filter rel_table (source # map jn_source joins))) in
        rbind (rfold (\<lambda>(i, table) seen. let path = item_path ''lock.of'' i in
            case tr_validate table of
              Inl e \<Rightarrow> invalid path ''%s'' [ErrArg e]
            | Inr _ \<Rightarrow>
                if tr_key table \<notin> sources then invalid path ''references a table outside the SELECT sources'' []
                else if tr_key table \<in> seen then invalid path ''duplicates table reference %q'' [QuotedArg (tr_qualified_name table)]
                else Inr (insert (tr_key table) seen)) (indexed (lk_of lock)) {})
          (\<lambda>_. Inr ())))"

definition count_name :: "gostring \<Rightarrow> 'v projection list \<Rightarrow> nat" where
  "count_name name projections = length (filter (\<lambda>p. result_name p = Some name) projections)"

definition validate_order_result_alias :: "'v projection \<Rightarrow> 'v projection list \<Rightarrow> gostring \<Rightarrow> validation_error + unit" where
  "validate_order_result_alias projection projections path =
     (case result_name projection of
        None \<Rightarrow> invalid path ''orders by a projection with no result name; give it one with As, or use Asc on the expression instead'' []
      | Some name \<Rightarrow> (case validate_alias name of
            Inl e \<Rightarrow> invalid path ''%s'' [ErrArg e]
          | Inr _ \<Rightarrow>
              if count_name name projections = 0 then invalid path ''orders by the result name %q, which no projection of this statement reports; add the projection to Project before ordering by it'' [QuotedArg name]
              else if count_name name projections = 1 then Inr ()
              else invalid path ''orders by the result name %q, which %d projections report, so the ordering is ambiguous; give one of them a distinct alias'' [QuotedArg name, IntArg (int (count_name name projections))]))"

definition validate_source_reference :: "source_reference list \<Rightarrow> 'v relation_ref \<Rightarrow> gostring \<Rightarrow> validation_error + unit" where
  "validate_source_reference references source path =
     (case find (\<lambda>existing. conflicts existing (rel_reference source)) references of
        None \<Rightarrow> Inr ()
      | Some existing \<Rightarrow> invalid path ''table %q is referred to as %q, which already refers to table %q; give one of them a distinct alias''
          [QuotedArg (sr_descriptor (rel_reference source)), QuotedArg (sr_qualifier (rel_reference source)), QuotedArg (sr_descriptor existing)])"

definition is_correlated_source :: "'v relation_ref list \<Rightarrow> 'v relation_ref \<Rightarrow> bool" where
  "is_correlated_source correlations source = list_ex (\<lambda>c. rel_key c = rel_key source) correlations"

definition validate_visible_cte :: "'v relation_ref \<Rightarrow> 'v cte list \<Rightarrow> gostring \<Rightarrow> validation_error + unit" where
  "validate_visible_cte source ctes path =
     (if rel_cte_name source = [] then Inr ()
      else if ctes = [] then Inr ()
      else if list_ex (\<lambda>c. cte_id c = rel_cte_identity source) ctes then Inr ()
      else invalid path ''references CTE %q outside its owning SELECT'' [QuotedArg (rel_cte_name source)])"

definition validate_ctes :: "('v cte \<times> (validation_error + unit)) list \<Rightarrow> validation_error + gostring set" where
  "validate_ctes ctes = rfold (\<lambda>(i, c, body) seen. let path = item_path ''ctes'' i in
       if cte_name c \<in> seen then invalid path ''duplicates CTE name %q'' [QuotedArg (cte_name c)]
       else (case body of
           Inl e \<Rightarrow> invalid path ''%s'' [ErrArg e]
         | Inr _ \<Rightarrow> Inr (insert (cte_name c) seen))) (indexed ctes) {}"

definition validate_correlations :: "'v relation_ref list \<Rightarrow> 'v cte list \<Rightarrow> validation_error + source_scope" where
  "validate_correlations correlations ctes = rfold (\<lambda>(i, correlated) sources. let path = item_path ''correlations'' i in
       rbind (validate_visible_cte correlated ctes path) (\<lambda>_.
       case rel_validate correlated of
         Inl e \<Rightarrow> invalid path ''%s'' [ErrArg e]
       | Inr _ \<Rightarrow> rbind (validate_source_reference (sc_references sources) correlated path) (\<lambda>_.
           Inr (scope_add sources correlated)))) (indexed correlations) empty_scope"

definition validate_join :: "'v relation_ref list \<Rightarrow> 'v cte list \<Rightarrow> gostring \<Rightarrow> 'v join \<Rightarrow> expression_check \<Rightarrow> source_scope \<Rightarrow> validation_error + source_scope" where
  "validate_join correlations ctes path jn on sources =
     (if jn_type jn \<noteq> ''INNER'' \<and> jn_type jn \<noteq> ''LEFT'' then invalid (path @ ''.type'') ''unsupported jn type %q'' [QuotedArg (jn_type jn)]
      else (case rel_validate (jn_source jn) of
          Inl e \<Rightarrow> invalid (path @ ''.source'') ''%s'' [ErrArg e]
        | Inr _ \<Rightarrow> rbind (validate_visible_cte (jn_source jn) ctes (path @ ''.source'')) (\<lambda>_.
            if rel_key (jn_source jn) \<in> sc_keys sources \<and> \<not> is_correlated_source correlations (jn_source jn)
              then invalid (path @ ''.source'') ''duplicates table reference %q'' [QuotedArg (rel_qualified_name (jn_source jn))]
            else rbind (validate_source_reference (sc_references sources) (jn_source jn) (path @ ''.source'')) (\<lambda>_.
              let scope = scope_add sources (jn_source jn) in
              rbind (on (subquery_clause_context scope ''a JOIN ON condition'') (path @ ''.on'')) (\<lambda>_. Inr scope)))))"

definition validate_joins :: "'v relation_ref list \<Rightarrow> 'v cte list \<Rightarrow> ('v join \<times> expression_check) list \<Rightarrow> source_scope \<Rightarrow> validation_error + source_scope" where
  "validate_joins correlations ctes joins sources =
     rfold (\<lambda>(i, jn, on). validate_join correlations ctes (item_path ''joins'' i) jn on) (indexed joins) sources"

fun is_bound_value :: "'v expression \<Rightarrow> bool" where
  "is_bound_value (Value v) = True"
| "is_bound_value _ = False"

definition validate_group_by :: "'v arguments \<Rightarrow> source_scope \<Rightarrow> validation_error + unit" where
  "validate_group_by group_by sources =
     rfold (\<lambda>(i, expression, walk) _. let path = item_path ''group_by'' i in
       rbind (walk (subquery_clause_context sources ''a GROUP BY clause'') path) (\<lambda>_.
       if is_bound_value expression then invalid path ''must not be a bound value'' [] else Inr ())) (indexed group_by) ()"

record projection_scan =
  ps_total :: expression_usage
  ps_aggregate_path :: gostring
  ps_column_path :: gostring

definition validate_projection_set :: "('v projection \<times> expression_check) list \<Rightarrow> source_scope \<Rightarrow> bool \<Rightarrow> validation_error + expression_usage" where
  "validate_projection_set projections sources grouped =
     rbind (rfold (\<lambda>(i, projection, walk) st. let path = item_path ''projections'' i in
        if projection = NilProjection then invalid path ''must not be nil'' []
        else rbind (if result_alias projection \<noteq> [] then err_at (path @ ''.alias'') (validate_alias (result_alias projection)) else Inr ()) (\<lambda>_.
        rbind (walk (projection_context sources) (path @ ''.expression'')) (\<lambda>usage.
        Inr \<lparr>ps_total = usage_merge (ps_total st) usage,
             ps_aggregate_path = (if eu_aggregate usage \<and> ps_aggregate_path st = [] then path else ps_aggregate_path st),
             ps_column_path = (if eu_bare_column usage \<and> ps_column_path st = [] then path else ps_column_path st)\<rparr>)))
        (indexed projections) \<lparr>ps_total = no_usage, ps_aggregate_path = [], ps_column_path = []\<rparr>)
     (\<lambda>st. if \<not> grouped \<and> eu_aggregate (ps_total st) \<and> eu_bare_column (ps_total st)
        then invalid (ps_column_path st @ ''.expression'') ''reads a column outside an aggregate function while %s aggregates, which requires a GROUP BY clause'' [QuotedArg (ps_aggregate_path st)]
        else Inr (ps_total st))"

definition validate_having :: "'v expression \<Rightarrow> expression_check \<Rightarrow> source_scope \<Rightarrow> expression_usage \<Rightarrow> bool \<Rightarrow> validation_error + unit" where
  "validate_having having walk sources projections grouped =
     (if having = NilExpression then Inr ()
      else if \<not> grouped \<and> \<not> eu_aggregate projections then invalid ''having'' ''requires a GROUP BY clause or a projection set that aggregates'' []
      else rbind (walk (aggregate_clause_context sources ''a HAVING clause'') ''having'') (\<lambda>usage.
        if \<not> grouped \<and> eu_bare_column usage
          then invalid ''having'' ''reads a column outside an aggregate function while the projections aggregate, which requires a GROUP BY clause'' []
        else Inr ()))"

definition validate_order :: "'v order \<Rightarrow> expression_check \<Rightarrow> source_scope \<Rightarrow> expression_usage \<Rightarrow> bool \<Rightarrow> 'v projection list \<Rightarrow> gostring \<Rightarrow> validation_error + unit" where
  "validate_order order walk sources projections grouped results path =
     (case od_result order of
        Some projection \<Rightarrow> validate_order_result_alias projection results path
      | None \<Rightarrow>
          if grouped then rbind (walk (aggregate_clause_context sources ''an ORDER BY clause'') path) (\<lambda>_. Inr ())
          else if \<not> eu_aggregate projections then rbind (walk (subquery_clause_context sources ''an ORDER BY clause'') path) (\<lambda>_. Inr ())
          else rbind (walk (aggregate_clause_context sources ''an ORDER BY clause'') path) (\<lambda>usage.
            if eu_bare_column usage
              then invalid path ''reads a column outside an aggregate function while the projections aggregate, which requires a GROUP BY clause'' []
            else Inr ()))"

definition validate_order_by :: "'v projection list \<Rightarrow> ('v order \<times> expression_check) list \<Rightarrow> source_scope \<Rightarrow> expression_usage \<Rightarrow> bool \<Rightarrow> validation_error + unit" where
  "validate_order_by results order_by sources projections grouped =
     rfold (\<lambda>(i, order, walk) _.
       if od_nulls order > 2 then invalid (item_path ''order_by'' i) ''invalid NULL placement'' []
       else validate_order order walk sources projections grouped results (item_path ''order_by'' i)) (indexed order_by) ()"

definition validate_bounds :: "int option \<Rightarrow> int option \<Rightarrow> validation_error + unit" where
  "validate_bounds limit offset =
     rbind (case limit of Some n \<Rightarrow> (if n < 0 then invalid ''limit'' ''must not be negative'' [] else Inr ()) | None \<Rightarrow> Inr ())
     (\<lambda>_. case offset of Some n \<Rightarrow> (if n < 0 then invalid ''offset'' ''must not be negative'' [] else Inr ()) | None \<Rightarrow> Inr ())"


subsection \<open>The walk\<close>

definition scan_error_text :: "scan_error \<Rightarrow> gostring" where
  "scan_error_text e = (case e of
       UnterminatedQuoted \<Rightarrow> ''unterminated quoted SQL region''
     | UnterminatedBlockComment \<Rightarrow> ''unterminated block comment''
     | UnterminatedDollarQuote \<Rightarrow> ''unterminated dollar-quoted string''
     | ExecutableSemicolon \<Rightarrow> ''embedded SQL must not contain an executable semicolon''
     | NotSelect \<Rightarrow> ''native result is not SELECT: native result must be a SELECT statement''
     | NotSelectWith \<Rightarrow> ''native result is not SELECT: native result WITH bodies must be SELECT statements'')"

definition validate_native :: "case_tables \<Rightarrow> gostring \<Rightarrow> gostring \<Rightarrow> validation_error + unit" where
  "validate_native T engine sql =
     (if trim_space engine = [] then Inl (plain_error ''native result engine must not be empty'')
      else if trim_space sql = [] then Inl (plain_error ''native result SQL must not be empty'')
      else (case the (validate_select (ct_lower T) (ct_upper T) sql (Some engine)) of
          Inl e \<Rightarrow> Inl (plain_error (scan_error_text e))
        | Inr _ \<Rightarrow> Inr ()))"

fun window_capable :: "'v expression \<Rightarrow> bool" where
  "window_capable (Function name arguments star dist unchecked) = True"
| "window_capable (Filter aggregate predicate) = True"
| "window_capable _ = False"

definition validate_window :: "expression_check list \<Rightarrow> ('v order \<times> expression_check) list \<Rightarrow> expression_check" where
  "validate_window parts order ctx path =
     rbind (walk_all (path @ ''.partition'') parts ctx no_usage) (\<lambda>usage.
       rfold (\<lambda>(i, term, walk) u.
         if od_result term \<noteq> None then invalid (item_path (path @ ''.order'') i) ''cannot order by a result alias inside a window'' []
         else rbind (walk ctx (item_path (path @ ''.order'') i)) (\<lambda>v. Inr (usage_merge u v))) (indexed order) usage)"

definition validate_filter :: "expression_check \<Rightarrow> expression_check \<Rightarrow> expression_check" where
  "validate_filter aggregate predicate ctx path =
     rbind (aggregate ctx (path @ ''.aggregate'')) (\<lambda>usage.
       if \<not> eu_aggregate usage then invalid (path @ ''.aggregate'') ''must contain an aggregate expression'' []
       else rbind (predicate (outside_aggregates ctx) (path @ ''.predicate'')) (\<lambda>_.
         Inr \<lparr>eu_aggregate = True, eu_bare_column = eu_bare_column usage\<rparr>))"

fun is_subquery :: "'v expression \<Rightarrow> bool" where
  "is_subquery (Subquery s) = True"
| "is_subquery _ = False"

definition option_zip :: "'a option \<Rightarrow> 'b option \<Rightarrow> ('a \<times> 'b) option" where
  "option_zip a b = (case a of None \<Rightarrow> None | Some x \<Rightarrow> map_option (Pair x) b)"

definition validate_membership :: "expression_check \<Rightarrow> 'v arguments \<Rightarrow> expression_check option \<Rightarrow> expression_check" where
  "validate_membership expression values subquery ctx path = (case subquery of
       Some walk \<Rightarrow> rbind (expression ctx (path @ ''.expression'')) (\<lambda>usage.
         rbind (walk ctx (path @ ''.subquery'')) (\<lambda>sub. Inr (usage_merge usage sub)))
     | None \<Rightarrow>
         if values = [] then invalid path ''requires at least one value'' []
         else rbind (expression ctx (path @ ''.expression'')) (\<lambda>usage.
           rfold (\<lambda>(i, value, walk) u. let item = item_path (path @ ''.values'') i in
             if is_subquery value then invalid item ''puts a subquery in an IN value list; use InSelect or NotInSelect for IN (SELECT ...)'' []
             else rbind (walk ctx item) (\<lambda>v. Inr (usage_merge u v))) (indexed values) usage))"

definition validate_subquery_statement :: "'v relation_ref list \<Rightarrow> validation_error + unit \<Rightarrow> expression_context \<Rightarrow> gostring \<Rightarrow> validation_error + unit" where
  "validate_subquery_statement correlations validated ctx path =
     (if \<not> ec_allows_subquery ctx then invalid path ''runs a subquery in %s, but a subquery is only valid in the projections, JOIN ON conditions, WHERE clause, GROUP BY clause, HAVING clause, and ORDER BY clause of a SELECT statement, in the WHERE clause of a DELETE statement, and in the WHERE clause and SET assignments of an UPDATE statement'' [QuotedArg (ec_clause ctx)]
      else rbind (rfold (\<lambda>(i, correlated) _.
          if rel_key correlated \<notin> sc_keys (ec_sources ctx)
            then invalid (item_path (path @ ''.statement.correlations'') i) ''declares a correlation with table %q, which the enclosing statement does not carry'' [QuotedArg (rel_qualified_name correlated)]
          else Inr ()) (indexed correlations) ()) (\<lambda>_.
        err_at (path @ ''.statement'') validated))"

definition validate_scalar_subquery :: "'v select \<Rightarrow> validation_error + unit \<Rightarrow> expression_check" where
  "validate_scalar_subquery statement validated ctx path =
     rbind (validate_subquery_statement (s_correlations statement) validated ctx path) (\<lambda>_.
       if length (s_projections statement) \<noteq> 1 then invalid path ''a subquery used as an expression must select exactly one expression, got %d'' [IntArg (int (length (s_projections statement)))]
       else Inr no_usage)"

primrec validate_expression :: "case_tables \<Rightarrow> 'v expression \<Rightarrow> expression_check"
  and validate_case_when :: "case_tables \<Rightarrow> 'v case_when \<Rightarrow> bool \<Rightarrow> expression_context \<Rightarrow> gostring \<Rightarrow> expression_usage \<Rightarrow> validation_error + expression_usage"
  and validate_order_expression :: "case_tables \<Rightarrow> 'v order \<Rightarrow> expression_check"
  and validate_fragment_part :: "case_tables \<Rightarrow> 'v fragment_part \<Rightarrow> expression_check"
  and validate_projection :: "case_tables \<Rightarrow> 'v projection \<Rightarrow> expression_check"
  and validate_cte :: "case_tables \<Rightarrow> 'v cte \<Rightarrow> validation_error + unit"
  and validate_body :: "case_tables \<Rightarrow> 'v query_body \<Rightarrow> validation_error + unit"
  and validate_join_on :: "case_tables \<Rightarrow> 'v join \<Rightarrow> expression_check"
  and validate_statement :: "case_tables \<Rightarrow> 'v select \<Rightarrow> validation_error + unit" where
  "validate_expression T NilExpression = (\<lambda>ctx path. invalid path ''must not be nil'' [])"
| "validate_expression T (ColumnRef source name) = validate_column_ref source name"
| "validate_expression T (ExcludedColumn source name) = validate_excluded_column source name"
| "validate_expression T (TableIdentifier source) = validate_table_identifier source"
| "validate_expression T (Value v) = (\<lambda>ctx path. Inr no_usage)"
| "validate_expression T (Binary left operator right) = (\<lambda>ctx path.
     if \<not> valid_binary_operator operator then invalid (path @ ''.operator'') ''unsupported operator %q'' [QuotedArg operator]
     else rbind (validate_expression T left ctx (path @ ''.left'')) (\<lambda>l.
       rbind (validate_expression T right ctx (path @ ''.right'')) (\<lambda>r. Inr (usage_merge l r))))"
| "validate_expression T (Case subject branches fallback) = (\<lambda>ctx path.
     if branches = [] then invalid path ''requires at least one branch'' []
     else rbind (if subject = NilExpression then Inr no_usage else validate_expression T subject ctx (path @ ''.operand'')) (\<lambda>usage.
       rbind (rfold (\<lambda>(i, walk) u. walk (subject = NilExpression) ctx (item_path (path @ ''.branches'') i) u)
          (indexed (map (\<lambda>b. validate_case_when T b) branches)) usage) (\<lambda>usage.
         (case map_option (\<lambda>e. validate_expression T e) fallback of
            None \<Rightarrow> Inr usage
          | Some walk \<Rightarrow> rbind (walk ctx (path @ ''.fallback'')) (\<lambda>v. Inr (usage_merge usage v))))))"
| "validate_expression T (Cast expr target) = (\<lambda>ctx path.
     if \<not> valid_cast_type target then invalid (path @ ''.target'') ''must be a valid schema type'' []
     else validate_expression T expr ctx (path @ ''.expression''))"
| "validate_expression T (Filter aggregate predicate) =
     validate_filter (validate_expression T aggregate) (validate_expression T predicate)"
| "validate_expression T (Over expr parts order) = (\<lambda>ctx path.
     if \<not> window_capable expr then invalid (path @ ''.expression'') ''must be a window-capable function or aggregate expression'' []
     else rbind (validate_expression T expr ctx (path @ ''.expression'')) (\<lambda>usage.
       rbind (validate_window (map (\<lambda>e. validate_expression T e) parts)
           (zip order (map (\<lambda>t. validate_order_expression T t) order)) (outside_aggregates ctx) (path @ ''.window'')) (\<lambda>_.
         Inr usage)))"
| "validate_expression T (TrustedFragment sql parts) = (\<lambda>ctx path.
     if count_markers sql \<noteq> length parts
       then invalid path ''contains %d fragment markers for %d parts'' [IntArg (int (count_markers sql)), IntArg (int (length parts))]
     else walk_all (path @ ''.parts'') (map (\<lambda>p. validate_fragment_part T p) parts) ctx no_usage)"
| "validate_expression T (Logical operator expressions) = (\<lambda>ctx path.
     if operator \<noteq> ''AND'' \<and> operator \<noteq> ''OR'' then invalid (path @ ''.operator'') ''unsupported operator %q'' [QuotedArg operator]
     else if length expressions < 2 then invalid path ''requires at least two expressions'' []
     else walk_all (path @ ''.expressions'') (map (\<lambda>e. validate_expression T e) expressions) ctx no_usage)"
| "validate_expression T (NotExpression expr) = (\<lambda>ctx path. validate_expression T expr ctx (path @ ''.expression''))"
| "validate_expression T (NullTest expr negated) = (\<lambda>ctx path. validate_expression T expr ctx (path @ ''.expression''))"
| "validate_expression T (Membership expr values negated subquery) =
     validate_membership (validate_expression T expr) (zip values (map (\<lambda>e. validate_expression T e) values))
       (map_option (\<lambda>(s, walk). validate_scalar_subquery s walk)
         (option_zip subquery (map_option (\<lambda>s. validate_statement T s) subquery)))"
| "validate_expression T (Function name arguments star dist unchecked) =
     validate_function name (zip arguments (map (\<lambda>e. validate_expression T e) arguments)) star dist unchecked"
| "validate_expression T (Subquery statement) = validate_scalar_subquery statement (validate_statement T statement)"
| "validate_expression T (Existence statement negated) = (\<lambda>ctx path.
     rbind (validate_subquery_statement (s_correlations statement) (validate_statement T statement) ctx (path @ ''.subquery''))
       (\<lambda>_. Inr no_usage))"
| "validate_expression T (OtherExpression name) = (\<lambda>ctx path. Inr no_usage)"
| "validate_case_when T (CaseWhen predicate result) = (\<lambda>searched ctx path usage.
     if predicate = NilExpression then invalid (path @ ''.predicate'') ''must not be nil'' []
     else if result = NilExpression then invalid (path @ ''.result'') ''must not be nil'' []
     else if searched \<and> \<not> predicate_expression predicate then invalid (path @ ''.predicate'') ''must be a predicate expression'' []
     else rbind (validate_expression T predicate ctx (path @ ''.predicate'')) (\<lambda>u.
       rbind (validate_expression T result ctx (path @ ''.result'')) (\<lambda>v. Inr (usage_merge (usage_merge usage u) v))))"
| "validate_order_expression T (Order expression result descending nulls) = validate_expression T expression"
| "validate_fragment_part T (FragmentHole value) = validate_expression T value"
| "validate_fragment_part T (IdentifierHole name) = (\<lambda>ctx path. case validate_identifier name of
     Inl e \<Rightarrow> invalid path ''%s'' [ErrArg e] | Inr _ \<Rightarrow> Inr no_usage)"
| "validate_fragment_part T OtherPart = (\<lambda>ctx path. invalid path ''unsupported fragment part %T'' [])"
| "validate_projection T NilProjection = (\<lambda>ctx path. invalid path ''must not be nil'' [])"
| "validate_projection T (ColumnProjection source name) = validate_column_ref source name"
| "validate_projection T (ExpressionProjection expression alias) = validate_expression T expression"
| "validate_cte T (Cte name body columns ident) = validate_body T body"
| "validate_body T NilBody = Inl (plain_error ''query body must not be nil'')"
| "validate_body T (NativeResult engine sql args) = validate_native T engine sql"
| "validate_body T (SelectBody s) = validate_statement T s"
| "validate_body T (Compound left left_columns operator right right_columns) =
     (if left = NilBody \<or> right = NilBody then Inl (plain_error ''compound operands must not be empty'')
      else rbind (validate_body T left) (\<lambda>_. validate_body T right))"
| "validate_join_on T (Join jtype source on) = validate_expression T on"
| "validate_statement T (Select projections source correlations ctes joins whr group_by having order_by limit offset dist lock checked) =
     (if checked then Inr ()
      else rbind (validate_visible_cte source ctes ''from'') (\<lambda>_.
        rbind (err_at ''from'' (rel_validate source)) (\<lambda>_.
        if projections = [] then invalid ''projections'' ''must not be empty'' []
        else rbind (validate_ctes (zip ctes (map (\<lambda>c. validate_cte T c) ctes))) (\<lambda>_.
        rbind (validate_correlations correlations ctes) (\<lambda>sources.
        rbind (validate_source_reference (sc_references sources) source ''from'') (\<lambda>_.
        rbind (validate_joins correlations ctes (zip joins (map (\<lambda>j. validate_join_on T j) joins)) (scope_add sources source)) (\<lambda>sources.
        rbind (validate_group_by (zip group_by (map (\<lambda>e. validate_expression T e) group_by)) sources) (\<lambda>_.
        rbind (validate_projection_set (zip projections (map (\<lambda>p. validate_projection T p) projections)) sources (group_by \<noteq> [])) (\<lambda>usage.
        rbind (if whr = NilExpression then Inr no_usage
               else validate_expression T whr (subquery_clause_context sources ''a WHERE clause'') ''where'') (\<lambda>_.
        rbind (validate_having having (validate_expression T having) sources usage (group_by \<noteq> [])) (\<lambda>_.
        rbind (validate_order_by projections (zip order_by (map (\<lambda>t. validate_order_expression T t) order_by)) sources usage (group_by \<noteq> [])) (\<lambda>_.
        rbind (validate_bounds limit offset) (\<lambda>_.
        (case lock of None \<Rightarrow> Inr () | Some l \<Rightarrow> validate_lock l source joins))))))))))))))"

end
