(* ===== verification/Query_Select.thy ===== *)
theory Query_Select
  imports Query_Validate
begin

text \<open>
  The constructors and \<open>With\<close> methods of a \<open>Select\<close> (\<open>query/select.go\<close>) and the
  constructors of result queries that validate a body (\<open>query/relation.go\<close>).

  A \<open>Select\<close> carries the mark \<open>checked\<close>, which lets \<open>Validate\<close> answer without a walk. The
  theorems show that the mark is honest on every statement the constructors can build,
  and that the methods which skip the walk decide exactly as the walk would.
\<close>

subsection \<open>Building statements\<close>

definition set_checked :: "bool \<Rightarrow> 'v select \<Rightarrow> 'v select" where
  "set_checked c s = (case s of Select pr fr co ct jo wh gr ha ob li os di lo ch \<Rightarrow> Select pr fr co ct jo wh gr ha ob li os di lo c)"

definition validated :: "case_tables \<Rightarrow> 'v select \<Rightarrow> validation_error + 'v select" where
  "validated T s = rbind (validate_statement T (set_checked False s)) (\<lambda>_. Inr (set_checked True s))"

definition new_correlated_joined_select :: "case_tables \<Rightarrow> 'v relation_ref \<Rightarrow> 'v relation_ref list \<Rightarrow> 'v join list \<Rightarrow> 'v expression list \<Rightarrow> 'v projection list \<Rightarrow> validation_error + 'v select" where
  "new_correlated_joined_select T source correlations joins group_by projections =
     validated T (Select projections source correlations [] joins NilExpression group_by NilExpression [] None None False None False)"

definition new_joined_select :: "case_tables \<Rightarrow> 'v relation_ref \<Rightarrow> 'v join list \<Rightarrow> 'v expression list \<Rightarrow> 'v projection list \<Rightarrow> validation_error + 'v select" where
  "new_joined_select T source joins group_by projections = new_correlated_joined_select T source [] joins group_by projections"

definition new_select :: "case_tables \<Rightarrow> 'v relation_ref \<Rightarrow> 'v projection list \<Rightarrow> validation_error + 'v select" where
  "new_select T source projections = new_joined_select T source [] [] projections"

definition new_correlated_select :: "case_tables \<Rightarrow> 'v relation_ref \<Rightarrow> 'v relation_ref list \<Rightarrow> 'v projection list \<Rightarrow> validation_error + 'v select" where
  "new_correlated_select T source correlations projections = new_correlated_joined_select T source correlations [] [] projections"

definition new_grouped_select :: "case_tables \<Rightarrow> 'v relation_ref \<Rightarrow> 'v expression list \<Rightarrow> 'v projection list \<Rightarrow> validation_error + 'v select" where
  "new_grouped_select T source group_by projections = new_joined_select T source [] group_by projections"

definition with_correlation :: "case_tables \<Rightarrow> 'v relation_ref list \<Rightarrow> 'v select \<Rightarrow> validation_error + 'v select" where
  "with_correlation T tables s = (case s of Select pr fr co ct jo wh gr ha ob li os di lo ch \<Rightarrow>
     validated T (Select pr fr (co @ tables) ct jo wh gr ha ob li os di lo ch))"

definition with_ctes :: "case_tables \<Rightarrow> 'v cte list \<Rightarrow> 'v select \<Rightarrow> validation_error + 'v select" where
  "with_ctes T ctes s = (case s of Select pr fr co ct jo wh gr ha ob li os di lo ch \<Rightarrow>
     validated T (Select pr fr co (ct @ ctes) jo wh gr ha ob li os di lo ch))"

definition with_join :: "case_tables \<Rightarrow> 'v join \<Rightarrow> 'v select \<Rightarrow> validation_error + 'v select" where
  "with_join T j s = (case s of Select pr fr co ct jo wh gr ha ob li os di lo ch \<Rightarrow>
     validated T (Select pr fr co ct (jo @ [j]) wh gr ha ob li os di lo ch))"

definition with_where :: "case_tables \<Rightarrow> 'v expression \<Rightarrow> 'v select \<Rightarrow> validation_error + 'v select" where
  "with_where T expression s = (case s of Select pr fr co ct jo wh gr ha ob li os di lo ch \<Rightarrow>
     validated T (Select pr fr co ct jo expression gr ha ob li os di lo ch))"

definition with_group_by :: "case_tables \<Rightarrow> 'v expression list \<Rightarrow> 'v select \<Rightarrow> validation_error + 'v select" where
  "with_group_by T expressions s = (case s of Select pr fr co ct jo wh gr ha ob li os di lo ch \<Rightarrow>
     validated T (Select pr fr co ct jo wh (gr @ expressions) ha ob li os di lo ch))"

definition with_having :: "case_tables \<Rightarrow> 'v expression \<Rightarrow> 'v select \<Rightarrow> validation_error + 'v select" where
  "with_having T expression s = (case s of Select pr fr co ct jo wh gr ha ob li os di lo ch \<Rightarrow>
     validated T (Select pr fr co ct jo wh gr expression ob li os di lo ch))"

definition with_order :: "case_tables \<Rightarrow> 'v order list \<Rightarrow> 'v select \<Rightarrow> validation_error + 'v select" where
  "with_order T orders s = (case s of Select pr fr co ct jo wh gr ha ob li os di lo ch \<Rightarrow>
     validated T (Select pr fr co ct jo wh gr ha (ob @ orders) li os di lo ch))"

definition put_distinct :: "'v select \<Rightarrow> 'v select" where
  "put_distinct s = (case s of Select pr fr co ct jo wh gr ha ob li os di lo ch \<Rightarrow> Select pr fr co ct jo wh gr ha ob li os True lo ch)"

definition with_distinct :: "case_tables \<Rightarrow> 'v select \<Rightarrow> validation_error + 'v select" where
  "with_distinct T s = (if \<not> s_checked s then validated T (put_distinct s) else Inr (put_distinct s))"

definition put_limit :: "int \<Rightarrow> 'v select \<Rightarrow> 'v select" where
  "put_limit n s = (case s of Select pr fr co ct jo wh gr ha ob li os di lo ch \<Rightarrow> Select pr fr co ct jo wh gr ha ob (Some n) os di lo ch)"

definition with_limit :: "case_tables \<Rightarrow> int \<Rightarrow> 'v select \<Rightarrow> validation_error + 'v select" where
  "with_limit T n s = (if \<not> s_checked s then validated T (put_limit n s)
     else if n < 0 then invalid ''limit'' ''must not be negative'' [] else Inr (put_limit n s))"

definition put_offset :: "int \<Rightarrow> 'v select \<Rightarrow> 'v select" where
  "put_offset n s = (case s of Select pr fr co ct jo wh gr ha ob li os di lo ch \<Rightarrow> Select pr fr co ct jo wh gr ha ob li (Some n) di lo ch)"

definition with_offset :: "case_tables \<Rightarrow> int \<Rightarrow> 'v select \<Rightarrow> validation_error + 'v select" where
  "with_offset T n s = (if \<not> s_checked s then validated T (put_offset n s)
     else if n < 0 then invalid ''offset'' ''must not be negative'' [] else Inr (put_offset n s))"

definition put_lock :: "lock \<Rightarrow> 'v select \<Rightarrow> 'v select" where
  "put_lock l s = (case s of Select pr fr co ct jo wh gr ha ob li os di lo ch \<Rightarrow> Select pr fr co ct jo wh gr ha ob li os di (Some l) ch)"

definition with_lock :: "case_tables \<Rightarrow> lock \<Rightarrow> 'v select \<Rightarrow> validation_error + 'v select" where
  "with_lock T l s = (if \<not> s_checked s then validated T (put_lock l s)
     else rbind (validate_lock l (s_from s) (s_joins s)) (\<lambda>_. Inr (put_lock l s)))"

text \<open>
  \<open>ValidateCompilerExpression\<close>: the statement with one expression of a clause replaced,
  validated afresh. The replaced ORDER BY term keeps its direction and loses its NULL
  placement.
\<close>

definition replace_in_clause :: "'v expression \<Rightarrow> gostring \<Rightarrow> int \<Rightarrow> 'v select \<Rightarrow> validation_error + 'v select" where
  "replace_in_clause expression clause position s = (case s of Select pr fr co ct jo wh gr ha ob li os di lo ch \<Rightarrow>
     let i = nat position;
         out_of_range = invalid [] ''query: compiler expression %s position %d is out of range'' [QuotedArg clause, IntArg position] in
     if clause = ''projection'' then
       (if position < 0 \<or> position \<ge> int (length pr) then out_of_range
        else Inr (Select (pr[i := ExpressionProjection expression (result_alias (pr ! i))]) fr co ct jo wh gr ha ob li os di lo ch))
     else if clause = ''join'' then
       (if position < 0 \<or> position \<ge> int (length jo) then out_of_range
        else Inr (Select pr fr co ct (jo[i := Join (jn_type (jo ! i)) (jn_source (jo ! i)) expression]) wh gr ha ob li os di lo ch))
     else if clause = ''where'' then Inr (Select pr fr co ct jo expression gr ha ob li os di lo ch)
     else if clause = ''group'' then
       (if position < 0 \<or> position \<ge> int (length gr) then out_of_range
        else Inr (Select pr fr co ct jo wh (gr[i := expression]) ha ob li os di lo ch))
     else if clause = ''having'' then Inr (Select pr fr co ct jo wh gr expression ob li os di lo ch)
     else if clause = ''order'' then
       (if position < 0 \<or> position \<ge> int (length ob) then out_of_range
        else Inr (Select pr fr co ct jo wh gr ha (ob[i := if od_descending (ob ! i) then desc (Inr expression) else asc (Inr expression)]) li os di lo ch))
     else invalid [] ''query: unknown compiler expression clause %q'' [QuotedArg clause])"

definition validate_compiler_expression :: "case_tables \<Rightarrow> 'v expression \<Rightarrow> gostring \<Rightarrow> int \<Rightarrow> 'v select \<Rightarrow> validation_error + unit" where
  "validate_compiler_expression T expression clause position s =
     rbind (replace_in_clause expression clause position s) (\<lambda>copy. validate_statement T (set_checked False copy))"

subsection \<open>Result queries\<close>

definition native_result_of :: "case_tables \<Rightarrow> gostring \<Rightarrow> gostring \<Rightarrow> 'v list \<Rightarrow> validation_error + 'v query_body" where
  "native_result_of T engine sql args =
     (let engine = trim_space engine in rbind (validate_native T engine sql) (\<lambda>_. Inr (NativeResult engine sql args)))"

definition result_column_step :: "result_column list \<Rightarrow> nat \<times> result_column \<Rightarrow> unit \<Rightarrow> validation_error + unit" where
  "result_column_step columns p _ =
     (case validate_identifier (rc_name (snd p)) of
        Inl e \<Rightarrow> invalid [] ''result column %d: %w'' [IntArg (int (fst p)), ErrArg e]
      | Inr _ \<Rightarrow> (case validate_column_type (rc_type (snd p)) of
          Inl e \<Rightarrow> invalid [] ''result column %q: %w'' [QuotedArg (rc_name (snd p)), ErrArg e]
        | Inr _ \<Rightarrow>
            if list_ex (\<lambda>existing. rc_name existing = rc_name (snd p)) (take (fst p) columns)
              then invalid [] ''result columns contain duplicate name %q'' [QuotedArg (rc_name (snd p))]
            else Inr ()))"

definition body_width :: "'v query_body \<Rightarrow> nat option" where
  "body_width body = (case body of
       SelectBody s \<Rightarrow> Some (length (s_projections s))
     | Compound left left_columns operator right right_columns \<Rightarrow> Some (length left_columns)
     | _ \<Rightarrow> None)"

definition result_of :: "case_tables \<Rightarrow> 'v query_body \<Rightarrow> result_column list \<Rightarrow> validation_error + 'v result_query" where
  "result_of T body columns =
     (if body = NilBody then Inl (plain_error ''result query body must not be nil'')
      else rbind (validate_body T body) (\<lambda>_.
        rbind (rfold (result_column_step columns) (indexed columns) ()) (\<lambda>_.
        (case body_width body of
           Some n \<Rightarrow>
             if n \<noteq> length columns
               then invalid [] ''result columns count %d does not match projection or compound output count %d'' [IntArg (int (length columns)), IntArg (int n)]
             else Inr (body, columns)
         | None \<Rightarrow> Inr (body, columns)))))"


subsection \<open>The mark of a validated statement\<close>

lemma s_checked_set [simp]: "s_checked (set_checked c s) = c" "set_checked c (set_checked d s) = set_checked c s"
  by (cases s; simp add: set_checked_def)+

lemma checked_is_valid [simp]: "s_checked s \<Longrightarrow> validate_statement T s = Inr ()"
  by (cases s) simp

lemma validated_Inr: "validated T s = Inr t \<longleftrightarrow> validate_statement T (set_checked False s) = Inr () \<and> t = set_checked True s"
  by (auto simp: validated_def)

text \<open>A statement that the walk accepts and that says so.\<close>

definition marked_valid :: "case_tables \<Rightarrow> 'v select \<Rightarrow> bool" where
  "marked_valid T s = (s_checked s \<and> validate_statement T (set_checked False s) = Inr ())"

lemma marked_validated: "validated T s = Inr t \<Longrightarrow> marked_valid T t"
  by (auto simp: validated_Inr marked_valid_def)

lemma rbind_assoc: "rbind (rbind r f) g = rbind r (\<lambda>x. rbind (f x) g)"
  by (cases r) simp_all

lemma rbind_if: "rbind (if b then r else r') f = (if b then rbind r f else rbind r' f)"
  by simp

text \<open>Only the last rules of the walk read the bounds and the lock, and none reads \<open>distinct\<close>.\<close>

lemma validate_statement_split:
  "validate_statement T (Select pr fr co ct jo wh gr ha ob li os di lo False) =
   rbind (validate_statement T (Select pr fr co ct jo wh gr ha ob None None False None False)) (\<lambda>_.
     rbind (validate_bounds li os) (\<lambda>_. case lo of None \<Rightarrow> Inr () | Some l \<Rightarrow> validate_lock l fr jo))"
  by (simp add: rbind_assoc rbind_if validate_bounds_def [of None None] cong: if_cong)

lemma put_valid:
  assumes "validate_statement T (set_checked False s) = Inr ()"
  shows "validate_statement T (set_checked False (put_distinct s)) = Inr ()"
    and "validate_statement T (set_checked False (put_limit n s)) = (if n < 0 then invalid ''limit'' ''must not be negative'' [] else Inr ())"
    and "validate_statement T (set_checked False (put_offset n s)) = (if n < 0 then invalid ''offset'' ''must not be negative'' [] else Inr ())"
    and "validate_statement T (set_checked False (put_lock l s)) = validate_lock l (s_from s) (s_joins s)"
proof -
  obtain pr fr co ct jo wh gr ha ob li os di lo ch where s: "s = Select pr fr co ct jo wh gr ha ob li os di lo ch" by (rule select.exhaust)
  note d = s set_checked_def put_distinct_def put_limit_def put_offset_def put_lock_def
  have a: "validate_statement T (Select pr fr co ct jo wh gr ha ob None None False None False) = Inr ()"
      "validate_bounds li os = Inr ()" "(case lo of None \<Rightarrow> Inr () | Some l \<Rightarrow> validate_lock l fr jo) = Inr ()"
    using assms validate_statement_split [of T pr fr co ct jo wh gr ha ob li os di lo]
    by (simp_all add: s set_checked_def del: validate_statement.simps)
  note e = validate_statement_split [of T pr fr co ct jo wh gr ha ob]
  have b: "validate_bounds (Some n) os = (if n < 0 then invalid ''limit'' ''must not be negative'' [] else Inr ())"
      "validate_bounds li (Some n) = (if n < 0 then invalid ''offset'' ''must not be negative'' [] else Inr ())"
    using a(2) by (auto simp: validate_bounds_def split: option.splits if_splits)
  show "validate_statement T (set_checked False (put_distinct s)) = Inr ()"
    by (simp add: d e [of li os True lo] a del: validate_statement.simps)
  show "validate_statement T (set_checked False (put_limit n s)) = (if n < 0 then invalid ''limit'' ''must not be negative'' [] else Inr ())"
    by (simp add: d e [of "Some n"] a b del: validate_statement.simps)
  show "validate_statement T (set_checked False (put_offset n s)) = (if n < 0 then invalid ''offset'' ''must not be negative'' [] else Inr ())"
    by (simp add: d e [of li "Some n"] a b del: validate_statement.simps)
  show "validate_statement T (set_checked False (put_lock l s)) = validate_lock l (s_from s) (s_joins s)"
    by (simp add: d e [of li os di "Some l"] a del: validate_statement.simps)
qed


lemma put_checked [simp]:
  "s_checked (put_distinct s) = s_checked s" "s_checked (put_limit n s) = s_checked s"
  "s_checked (put_offset n s) = s_checked s" "s_checked (put_lock l s) = s_checked s"
  by (cases s; simp add: put_distinct_def put_limit_def put_offset_def put_lock_def)+

lemma set_checked_same: "s_checked s \<Longrightarrow> set_checked True s = s"
  by (cases s) (simp add: set_checked_def)

text \<open>
  C15. The methods that skip the walk decide as the walk would. On a statement that carries an
  honest mark, \<open>WithDistinct\<close>, \<open>WithLimit\<close>, \<open>WithOffset\<close> and \<open>WithLock\<close>, which look at one
  rule only, return exactly what a full validation of the changed statement returns, error
  or statement.
\<close>
theorem fast_paths_are_the_walk:
  assumes "marked_valid T s"
  shows "with_distinct T s = validated T (put_distinct s) \<and>
    with_limit T n s = validated T (put_limit n s) \<and>
    with_offset T n s = validated T (put_offset n s) \<and>
    with_lock T l s = validated T (put_lock l s)"
  using assms put_valid [of T s] unfolding marked_valid_def
  by (auto simp: with_distinct_def with_limit_def with_offset_def with_lock_def validated_def set_checked_same rbind_def
      split: sum.split)

lemma marked_fast_paths:
  assumes "marked_valid T s"
  shows "with_distinct T s = Inr t \<Longrightarrow> marked_valid T t" "with_limit T n s = Inr t \<Longrightarrow> marked_valid T t"
    "with_offset T n s = Inr t \<Longrightarrow> marked_valid T t" "with_lock T l s = Inr t \<Longrightarrow> marked_valid T t"
  using assms put_valid [of T s] unfolding marked_valid_def
  by (auto simp: with_distinct_def with_limit_def with_offset_def with_lock_def split: if_splits)

text \<open>The statements a caller can hold besides the zero value.\<close>

inductive built :: "case_tables \<Rightarrow> 'v select \<Rightarrow> bool" for T where
  new: "new_correlated_joined_select T source correlations joins group_by projections = Inr s \<Longrightarrow> built T s"
| correlation: "built T s \<Longrightarrow> with_correlation T tables s = Inr t \<Longrightarrow> built T t"
| ctes: "built T s \<Longrightarrow> with_ctes T cs s = Inr t \<Longrightarrow> built T t"
| jn: "built T s \<Longrightarrow> with_join T j s = Inr t \<Longrightarrow> built T t"
| whr: "built T s \<Longrightarrow> with_where T e s = Inr t \<Longrightarrow> built T t"
| group: "built T s \<Longrightarrow> with_group_by T es s = Inr t \<Longrightarrow> built T t"
| having: "built T s \<Longrightarrow> with_having T e s = Inr t \<Longrightarrow> built T t"
| order: "built T s \<Longrightarrow> with_order T os s = Inr t \<Longrightarrow> built T t"
| dist: "built T s \<Longrightarrow> with_distinct T s = Inr t \<Longrightarrow> built T t"
| limit: "built T s \<Longrightarrow> with_limit T n s = Inr t \<Longrightarrow> built T t"
| offset: "built T s \<Longrightarrow> with_offset T n s = Inr t \<Longrightarrow> built T t"
| lock: "built T s \<Longrightarrow> with_lock T l s = Inr t \<Longrightarrow> built T t"

lemmas with_walk_defs = new_correlated_joined_select_def with_correlation_def with_ctes_def with_join_def with_where_def
  with_group_by_def with_having_def with_order_def

lemma built_marked: "built T s \<Longrightarrow> marked_valid T s"
  by (induction rule: built.induct)
    (auto simp: with_walk_defs split: select.splits dest: marked_validated marked_fast_paths)

text \<open>
  The mark is honest. Every statement that the constructors and the \<open>With\<close> methods can
  build, in any order and with any arguments, is marked as validated and passes a full
  validation with the mark cleared.
\<close>
theorem built_is_validated:
  assumes "built T s"
  shows "s_checked s \<and> validate_statement T (set_checked False s) = Inr ()"
  using built_marked [OF assms] by (simp add: marked_valid_def)

subsection \<open>A sample statement\<close>

definition sample_table :: table_def where
  "sample_table = zero_table\<lparr>tb_name := ''users'', tb_columns := [zero_column\<lparr>col_name := ''id''\<rparr>, zero_column\<lparr>col_name := ''email''\<rparr>]\<rparr>"

definition users :: "'v relation_ref" where
  "users = relation (table_ref_from sample_table)"

definition sample_select :: "'v select" where
  "sample_select = Select [ColumnProjection users ''id''] users [] [] [] NilExpression [] NilExpression [] None None False None True"

lemma users_simps [simp]:
  "rel_validate users = Inr ()" "rel_cte_name users = []" "rel_alias users = []" "rel_table users = Some (table_ref_from sample_table)"
  by (simp_all add: users_def relation_def tr_validate_def table_ref_from_def)

lemma users_columns [simp]: "has_column users name \<longleftrightarrow> name = ''id'' \<or> name = ''email''"
  by (auto simp: has_column_def tr_column_def table_ref_from_def descriptor_column_fresh table_column_def sample_table_def)

lemma sample_select_valid: "validate_statement T (set_checked False (sample_select :: 'v select)) = Inr ()"
  by (simp add: sample_select_def set_checked_def validate_visible_cte_def err_at_def validate_ctes_def indexed_def
      validate_correlations_def validate_source_reference_def empty_scope_def validate_joins_def validate_group_by_def
      validate_projection_set_def validate_column_ref_def projection_context_def aggregate_clause_context_def clause_context_def
      scope_add_def usage_merge_def no_usage_def validate_having_def validate_order_by_def validate_bounds_def)

lemma sample_select_new: "new_correlated_joined_select T users [] [] [] [ColumnProjection users ''id''] = Inr (sample_select :: 'v select)"
proof -
  have "set_checked False sample_select = (Select [ColumnProjection users ''id''] users [] [] [] NilExpression [] NilExpression [] None None False None False :: 'v select)"
    by (simp add: sample_select_def set_checked_def)
  then have "validated T (Select [ColumnProjection users ''id''] users [] [] [] NilExpression [] NilExpression [] None None False None False :: 'v select) = Inr sample_select"
    using sample_select_valid [of T, where ?'v = 'v] by (simp add: validated_Inr del: validate_statement.simps) (simp add: set_checked_def sample_select_def)
  then show ?thesis by (simp add: new_correlated_joined_select_def)
qed

definition ascii_tables :: case_tables where
  "ascii_tables = \<lparr>ct_lower = id, ct_upper = id\<rparr>"

theorem fast_paths_are_the_walk_witness:
  "marked_valid ascii_tables (sample_select :: nat select) \<and>
   validated ascii_tables (put_limit (- 1) (sample_select :: nat select)) = invalid ''limit'' ''must not be negative'' []"
proof -
  have m: "marked_valid ascii_tables (sample_select :: nat select)" using sample_select_valid by (simp add: marked_valid_def sample_select_def)
  have "with_limit ascii_tables (- 1) (sample_select :: nat select) = invalid ''limit'' ''must not be negative'' []"
    by (simp add: with_limit_def sample_select_def)
  then show ?thesis using m fast_paths_are_the_walk [OF m, of "- 1"] by simp
qed

theorem built_is_validated_witness:
  "\<exists>s :: nat select. with_limit ascii_tables 5 sample_select = Inr s \<and> s_limit s = Some 5 \<and>
     validate_statement ascii_tables (set_checked False s) = Inr ()"
proof -
  have b: "built ascii_tables (sample_select :: nat select)" by (rule built.new [OF sample_select_new])
  have w: "with_limit ascii_tables 5 sample_select = Inr (put_limit 5 sample_select :: nat select)" by (simp add: with_limit_def sample_select_def)
  have "built ascii_tables (put_limit 5 sample_select :: nat select)" by (rule built.limit [OF b w])
  then show ?thesis using built_is_validated [of ascii_tables "put_limit 5 sample_select :: nat select"] w
    by (simp add: put_limit_def sample_select_def del: validate_statement.simps)
qed

end
