(* ===== verification/Dialect.thy ===== *)
theory Dialect
  imports Schema_Table Sql_Scan
begin

text \<open>
  The three built-in dialects of \<open>src/dialect/dialect.go\<close>: identifier quoting,
  placeholders, DDL type names, native type names, capabilities and identifier
  comparison, with what the SQL scanner makes of the text they produce.

  A \<open>Capability\<close> is a 32-bit flag word. \<open>U\<close> is the Unicode upper-case table used by
  \<open>strings.ToUpper\<close> on text that is not ASCII.
\<close>

subsection \<open>Capabilities\<close>

datatype capability_name = Returning | Upsert | ConflictTarget | DefaultValues | EmptyInsert
  | DefaultValuesUpsert | SubqueryLimit | WriteSubqueryTarget | QualifiedReference
  | QualifiedIndexTarget | QualifiedIndexName | PartialIndex | MatchOperator | AggregateFilter
  | SelectForUpdate | SelectForShare | SelectLockOf | SelectLockNoWait | SelectLockSkipLocked
  | UpsertConflictWhere | UpsertUpdateWhere | Savepoint

definition capability_names :: "capability_name list" where
  "capability_names = [Returning, Upsert, ConflictTarget, DefaultValues, EmptyInsert,
     DefaultValuesUpsert, SubqueryLimit, WriteSubqueryTarget, QualifiedReference,
     QualifiedIndexTarget, QualifiedIndexName, PartialIndex, MatchOperator, AggregateFilter,
     SelectForUpdate, SelectForShare, SelectLockOf, SelectLockNoWait, SelectLockSkipLocked,
     UpsertConflictWhere, UpsertUpdateWhere, Savepoint]"

text \<open>The value of \<open>iota\<close> at a constant of the block.\<close>

fun iota_of :: "'a list \<Rightarrow> 'a \<Rightarrow> nat" where
  "iota_of [] x = 0"
| "iota_of (y # ys) x = (if x = y then 0 else Suc (iota_of ys x))"

type_synonym capability = "32 word"

definition capability :: "capability_name \<Rightarrow> capability" where
  "capability c = push_bit (iota_of capability_names c) 1"

definition capabilities :: "capability_name list \<Rightarrow> capability" where
  "capabilities cs = foldr (\<lambda>c w. capability c OR w) cs 0"

subsection \<open>Dialects\<close>

datatype upsert_style = UpsertUnsupported | UpsertOnConflict | UpsertDuplicateKey

datatype dialect_error =
    InvalidIdentifier gostring validation_error
  | PositionNotPositive gostring
  | NilColumnType gostring
  | UnsupportedColumnType gostring column_type
  | NoUnsignedInteger gostring gostring
  | NoDecimalScale gostring gostring
  | PrecisionTooLarge gostring int int
  | ScaleTooLarge gostring int int
  | EmptyNativeName gostring
  | ArrayLacksElement gostring

record builtin =
  bd_name :: gostring
  bd_quote :: char
  bd_placeholder :: "int \<Rightarrow> gostring"
  bd_upsert :: upsert_style
  bd_capabilities :: capability
  bd_types :: "type_kind \<rightharpoonup> gostring"
  bd_decimal_name :: gostring
  bd_max_precision :: int
  bd_max_scale :: int
  bd_unsigned_integer :: gostring
  bd_varchar_text :: bool

definition dollar_placeholder_text :: "int \<Rightarrow> gostring" where
  "dollar_placeholder_text position = ''$'' @ dec_int position"

definition question_placeholder_text :: "int \<Rightarrow> gostring" where
  "question_placeholder_text _ = ''?''"

definition postgresql_capabilities :: "capability_name list" where
  "postgresql_capabilities = [Returning, Upsert, ConflictTarget, DefaultValues, DefaultValuesUpsert,
     SubqueryLimit, WriteSubqueryTarget, QualifiedReference, QualifiedIndexTarget, PartialIndex,
     AggregateFilter, SelectForUpdate, SelectForShare, SelectLockOf, SelectLockNoWait,
     SelectLockSkipLocked, UpsertConflictWhere, UpsertUpdateWhere, Savepoint]"

definition postgresql :: builtin where
  "postgresql = \<lparr>bd_name = ''postgresql'', bd_quote = CHR 0x22, bd_placeholder = dollar_placeholder_text,
     bd_upsert = UpsertOnConflict, bd_capabilities = capabilities postgresql_capabilities,
     bd_types = map_of [(KindBoolean, ''BOOLEAN''), (KindInteger, ''BIGINT''), (KindFloat, ''DOUBLE PRECISION''),
       (KindText, ''TEXT''), (KindBytes, ''BYTEA''), (KindTime, ''TIMESTAMPTZ''), (KindJSON, ''JSONB''), (KindUUID, ''UUID'')],
     bd_decimal_name = ''NUMERIC'', bd_max_precision = 1000, bd_max_scale = 1000,
     bd_unsigned_integer = [], bd_varchar_text = True\<rparr>"

definition mysql_capabilities :: "capability_name list" where
  "mysql_capabilities = [Upsert, DefaultValuesUpsert, EmptyInsert, QualifiedReference, QualifiedIndexTarget,
     SelectForUpdate, SelectForShare, SelectLockOf, SelectLockNoWait, SelectLockSkipLocked, Savepoint]"

definition mysql :: builtin where
  "mysql = \<lparr>bd_name = ''mysql'', bd_quote = CHR 0x60, bd_placeholder = question_placeholder_text,
     bd_upsert = UpsertDuplicateKey, bd_capabilities = capabilities mysql_capabilities,
     bd_types = map_of [(KindBoolean, ''BOOLEAN''), (KindInteger, ''BIGINT''), (KindFloat, ''DOUBLE''),
       (KindText, ''TEXT''), (KindBytes, ''BLOB''), (KindTime, ''DATETIME''), (KindJSON, ''JSON''), (KindUUID, ''CHAR(36)'')],
     bd_decimal_name = ''DECIMAL'', bd_max_precision = 65, bd_max_scale = 30,
     bd_unsigned_integer = ''BIGINT UNSIGNED'', bd_varchar_text = True\<rparr>"

definition sqlite_capabilities :: "capability_name list" where
  "sqlite_capabilities = [Returning, Upsert, ConflictTarget, DefaultValues, SubqueryLimit, WriteSubqueryTarget,
     QualifiedIndexName, PartialIndex, MatchOperator, AggregateFilter, UpsertConflictWhere, UpsertUpdateWhere, Savepoint]"

definition sqlite :: builtin where
  "sqlite = \<lparr>bd_name = ''sqlite'', bd_quote = CHR 0x22, bd_placeholder = question_placeholder_text,
     bd_upsert = UpsertOnConflict, bd_capabilities = capabilities sqlite_capabilities,
     bd_types = map_of [(KindBoolean, ''INTEGER''), (KindInteger, ''INTEGER''), (KindFloat, ''REAL''),
       (KindText, ''TEXT''), (KindBytes, ''BLOB''), (KindTime, ''TEXT''), (KindJSON, ''TEXT''), (KindUUID, ''TEXT'')],
     bd_decimal_name = ''TEXT'', bd_max_precision = 0, bd_max_scale = 0,
     bd_unsigned_integer = [], bd_varchar_text = False\<rparr>"

text \<open>\<open>sqliteBuiltin\<close> embeds \<open>builtin\<close> and adds \<open>IdentifiersEqual\<close>.\<close>

datatype dialect = Builtin builtin | SqliteBuiltin builtin

definition PostgreSQL :: dialect where "PostgreSQL = Builtin postgresql"
definition MySQL :: dialect where "MySQL = Builtin mysql"
definition SQLite :: dialect where "SQLite = SqliteBuiltin sqlite"

fun base :: "dialect \<Rightarrow> builtin" where
  "base (Builtin b) = b"
| "base (SqliteBuiltin b) = b"

lemmas dialect_consts = PostgreSQL_def MySQL_def SQLite_def postgresql_def mysql_def sqlite_def

subsection \<open>Identifiers and placeholders\<close>

text \<open>\<open>strings.ReplaceAll(s, c, r)\<close> for a one-byte \<open>c\<close>.\<close>

definition replace_byte :: "char \<Rightarrow> gostring \<Rightarrow> gostring \<Rightarrow> gostring" where
  "replace_byte c r s = concat (map (\<lambda>x. if x = c then r else [x]) s)"

lemma replace_byte_simps [simp]:
  "replace_byte c r [] = []"
  "replace_byte c r (x # s) = (if x = c then r else [x]) @ replace_byte c r s"
  by (simp_all add: replace_byte_def)

definition quote_identifier :: "builtin \<Rightarrow> gostring \<Rightarrow> dialect_error + gostring" where
  "quote_identifier d name = (case validate_identifier name of
       Inl e \<Rightarrow> Inl (InvalidIdentifier (bd_name d) e)
     | Inr _ \<Rightarrow> Inr ([bd_quote d] @ replace_byte (bd_quote d) [bd_quote d, bd_quote d] name @ [bd_quote d]))"

definition placeholder_text :: "builtin \<Rightarrow> int \<Rightarrow> dialect_error + gostring" where
  "placeholder_text d position =
     (if position < 1 then Inl (PositionNotPositive (bd_name d)) else Inr (bd_placeholder d position))"

text \<open>\<open>IdentifiersEqual\<close>: SQLite folds ASCII letters, the others compare exactly.\<close>

fun fold_equal_from :: "gostring \<Rightarrow> gostring \<Rightarrow> bool" where
  "fold_equal_from (l # ls) (r # rs) = (ascii_lower l = ascii_lower r \<and> fold_equal_from ls rs)"
| "fold_equal_from _ _ = True"

definition sqlite_identifiers_equal :: "gostring \<Rightarrow> gostring \<Rightarrow> bool" where
  "sqlite_identifiers_equal l r = (length l = length r \<and> fold_equal_from l r)"

fun identifiers_equal :: "dialect \<Rightarrow> gostring \<Rightarrow> gostring \<Rightarrow> bool" where
  "identifiers_equal (SqliteBuiltin _) l r = sqlite_identifiers_equal l r"
| "identifiers_equal (Builtin _) l r = (l = r)"

definition supports :: "builtin \<Rightarrow> capability \<Rightarrow> bool" where
  "supports d c = (bd_capabilities d AND c = c)"

subsection \<open>Type names\<close>

definition unsigned_type_name :: "builtin \<Rightarrow> column_def \<Rightarrow> dialect_error + gostring" where
  "unsigned_type_name d column =
     (if bd_unsigned_integer d = [] then Inl (NoUnsignedInteger (bd_name d) (col_name column))
      else Inr (bd_unsigned_integer d))"

text \<open>A missing key of a Go map reads as the empty string.\<close>

definition map_read :: "('k \<rightharpoonup> gostring) \<Rightarrow> 'k \<Rightarrow> gostring" where
  "map_read m k = (case m k of None \<Rightarrow> [] | Some v \<Rightarrow> v)"

definition text_type_name :: "builtin \<Rightarrow> text_width \<Rightarrow> bool \<Rightarrow> gostring" where
  "text_type_name d width fixed = (case width of
       Some w \<Rightarrow> (if \<not> bd_varchar_text d then map_read (bd_types d) KindText
                 else if fixed then ''CHAR('' @ dec_int w @ '')'' else ''VARCHAR('' @ dec_int w @ '')'')
     | None \<Rightarrow> map_read (bd_types d) KindText)"

definition decimal_type_name :: "builtin \<Rightarrow> column_def \<Rightarrow> int \<Rightarrow> decimal_scale \<Rightarrow> dialect_error + gostring" where
  "decimal_type_name d column precision sc = (case sc of
       None \<Rightarrow> Inl (NoDecimalScale (bd_name d) (col_name column))
     | Some s \<Rightarrow>
         (if bd_max_precision d = 0 \<and> bd_max_scale d = 0 then Inr (bd_decimal_name d)
          else if precision > bd_max_precision d then Inl (PrecisionTooLarge (bd_name d) precision (bd_max_precision d))
          else if s > bd_max_scale d then Inl (ScaleTooLarge (bd_name d) s (bd_max_scale d))
          else Inr (bd_decimal_name d @ ''('' @ dec_int precision @ '','' @ dec_int s @ '')'')))"

definition kind_type_name :: "builtin \<Rightarrow> column_type \<Rightarrow> dialect_error + gostring" where
  "kind_type_name d t = (case bd_types d (kind t) of
       None \<Rightarrow> Inl (UnsupportedColumnType (bd_name d) t) | Some n \<Rightarrow> Inr n)"

definition type_name :: "builtin \<Rightarrow> column_def \<Rightarrow> dialect_error + gostring" where
  "type_name d column = (case col_type column of
       None \<Rightarrow> Inl (NilColumnType (bd_name d))
     | Some t \<Rightarrow> (case t of
           IntegerType uns _ _ \<Rightarrow> if uns then unsigned_type_name d column else kind_type_name d t
         | DecimalType precision sc _ _ \<Rightarrow> decimal_type_name d column precision sc
         | TextType width fixed \<Rightarrow> Inr (text_type_name d width fixed)
         | OpaqueType \<Rightarrow> Inl (UnsupportedColumnType (bd_name d) t)
         | PointerTo _ \<Rightarrow> Inl (UnsupportedColumnType (bd_name d) t)
         | _ \<Rightarrow> kind_type_name d t))"

subsection \<open>Native type names\<close>

definition sqlite_unquoted_names :: "gostring list" where
  "sqlite_unquoted_names = [''INT'', ''INTEGER'', ''TINYINT'', ''SMALLINT'', ''MEDIUMINT'', ''BIGINT'',
     ''INT2'', ''INT8'', ''CHAR'', ''CHARACTER'', ''VARCHAR'', ''VARYING CHARACTER'', ''NCHAR'',
     ''NATIVE CHARACTER'', ''NVARCHAR'', ''TEXT'', ''CLOB'', ''BLOB'', ''REAL'', ''DOUBLE'', ''FLOAT'',
     ''NUMERIC'', ''DECIMAL'', ''BOOLEAN'', ''DATE'', ''DATETIME'', ''TIME'', ''JSON'']"

definition sqlite_native_name_unquoted :: "(gostring \<Rightarrow> gostring) \<Rightarrow> gostring \<Rightarrow> bool" where
  "sqlite_native_name_unquoted U value = (to_upper U (trim_space value) \<in> set sqlite_unquoted_names)"

definition all_digits :: "gostring \<Rightarrow> bool" where
  "all_digits s = list_all rune_digit (runes s)"

definition sqlite_native_declaration_supported :: "gostring \<Rightarrow> gostring list \<Rightarrow> bool" where
  "sqlite_native_declaration_supported value arguments =
     (let v = trim_space value in
      v \<noteq> [] \<and> list_all (\<lambda>r. rune_alpha r \<or> rune_digit r \<or> r = 32 \<or> r = 34) (runes v) \<and>
      list_all (\<lambda>a. a \<noteq> [] \<and> all_digits a) arguments)"

text \<open>\<open>qualified\<close>: the quoted name, after the quoted schema when there is one.\<close>

definition native_qualified :: "builtin \<Rightarrow> native_type_def \<Rightarrow> dialect_error + gostring" where
  "native_qualified d n =
     (if nt_schema n = [] then quote_identifier d (nt_name n)
      else rbind (quote_identifier d (nt_schema n)) (\<lambda>s.
           rbind (quote_identifier d (nt_name n)) (\<lambda>m. Inr (s @ ''.'' @ m))))"

definition mysql_literal :: "gostring \<Rightarrow> gostring" where
  "mysql_literal value =
     [CHR 0x27] @ replace_byte (CHR 0x27) [CHR 0x27, CHR 0x27] (replace_byte (CHR 0x5C) [CHR 0x5C, CHR 0x5C] value) @ [CHR 0x27]"

text \<open>\<open>None\<close> is the result \<open>supported = false\<close>.\<close>

fun native_type_name :: "(gostring \<Rightarrow> gostring) \<Rightarrow> builtin \<Rightarrow> native_type_def \<Rightarrow> dialect_error + gostring option" where
  "native_type_name U d (NativeTypeDef dialect schema name nkind args element) =
     (let n = NativeTypeDef dialect schema name nkind args element;
          arguments = (case args of None \<Rightarrow> [] | Some xs \<Rightarrow> xs);
          some = (\<lambda>r. rbind r (\<lambda>s. Inr (Some s))) in
      if dialect \<noteq> bd_name d then Inr None
      else if name = [] then Inl (EmptyNativeName (bd_name d))
      else if nkind = ''other'' \<or> nkind = ''builtin'' then
        (if bd_name d = ''sqlite'' then
           (if \<not> sqlite_native_declaration_supported name arguments then Inr None
            else if arguments = [] then
              (if sqlite_native_name_unquoted U name then Inr (Some name) else some (quote_identifier d name))
            else if \<not> sqlite_native_name_unquoted U name then Inr None
            else Inr (Some (name @ ''('' @ join '', '' arguments @ '')'')))
         else if bd_name d = ''postgresql'' \<and> nkind = ''builtin'' \<and> arguments \<noteq> [] then
           (if length arguments \<noteq> 1 \<or> arguments ! 0 = [] then Inr None
            else if \<not> all_digits (arguments ! 0) then Inr None
            else if name \<noteq> ''time'' \<and> name \<noteq> ''timetz'' \<and> name \<noteq> ''timestamp'' \<and> name \<noteq> ''timestamptz'' then Inr None
            else some (rbind (native_qualified d n) (\<lambda>q. Inr (q @ ''('' @ arguments ! 0 @ '')''))))
         else some (native_qualified d n))
      else if nkind = ''array'' then
        (case element of
           None \<Rightarrow> Inl (ArrayLacksElement (bd_name d))
         | Some el \<Rightarrow>
             (if bd_name d \<noteq> ''postgresql'' then Inr None
              else rbind (native_type_name U d el) (\<lambda>r. case r of None \<Rightarrow> Inr None | Some s \<Rightarrow> Inr (Some (s @ ''[]'')))))
      else if nkind = ''enum'' \<or> nkind = ''set'' then
        (if bd_name d \<noteq> ''mysql'' then
           (if nkind = ''enum'' \<and> bd_name d = ''postgresql'' then some (native_qualified d n) else Inr None)
         else Inr (Some ((if nkind = ''set'' then ''SET'' else ''ENUM'') @ ''('' @
                          join '', '' (map mysql_literal arguments) @ '')'')))
      else some (native_qualified d n))"

subsection \<open>Reading a quoted identifier back\<close>

text \<open>
  How SQL reads a delimited identifier with quote character \<open>q\<close>: a doubled quote stands
  for one, a single quote ends it. The result is the identifier and the rest of the text.
\<close>

fun read_quoted_body :: "char \<Rightarrow> gostring \<Rightarrow> (gostring \<times> gostring) option" where
  "read_quoted_body q [] = None"
| "read_quoted_body q [c] = (if c = q then Some ([], []) else None)"
| "read_quoted_body q (c # c' # s) =
     (if c = q then
        (if c' = q then map_option (\<lambda>(n, r). (q # n, r)) (read_quoted_body q s) else Some ([], c' # s))
      else map_option (\<lambda>(n, r). (c # n, r)) (read_quoted_body q (c' # s)))"

definition read_quoted :: "char \<Rightarrow> gostring \<Rightarrow> (gostring \<times> gostring) option" where
  "read_quoted q s = (case s of [] \<Rightarrow> None | c # t \<Rightarrow> if c = q then read_quoted_body q t else None)"

text \<open>What follows a quoted identifier must not begin with the quote character.\<close>

definition not_quote_next :: "char \<Rightarrow> gostring \<Rightarrow> bool" where
  "not_quote_next q rest = (rest = [] \<or> hd rest \<noteq> q)"

lemma read_quoted_body_replace:
  "not_quote_next q rest \<Longrightarrow> read_quoted_body q (replace_byte q [q, q] name @ q # rest) = Some (name, rest)"
proof (induction name)
  case Nil
  then show ?case by (cases rest) (auto simp: not_quote_next_def)
next
  case (Cons c name)
  obtain x xs where tail: "replace_byte q [q, q] name @ q # rest = x # xs"
    by (cases "replace_byte q [q, q] name @ q # rest") auto
  show ?case using Cons tail by (cases "c = q") auto
qed

lemma quote_identifier_Inr:
  "quote_identifier d name = Inr s \<longleftrightarrow> identifier_ok name \<and>
     s = bd_quote d # replace_byte (bd_quote d) [bd_quote d, bd_quote d] name @ [bd_quote d]"
  by (auto simp: quote_identifier_def split: sum.splits dest: sym)
     (metis Inl_Inr_False validate_identifier_iff)+

text \<open>
  The contract of identifier quoting that the renderers rely on: a quoted identifier is
  read back whatever text follows it, as long as that text does not continue the quote.
\<close>

locale identifier_quoting =
  fixes quote :: "gostring \<Rightarrow> 'e + gostring"
    and read :: "gostring \<Rightarrow> (gostring \<times> gostring) option"
    and follows :: "gostring \<Rightarrow> bool"
  assumes read_back: "quote name = Inr s \<Longrightarrow> follows rest \<Longrightarrow> read (s @ rest) = Some (name, rest)"
    and follows_Nil: "follows []"
    and follows_dot: "follows (CHR ''.'' # rest)"
begin

lemma quote_inj: "quote a = Inr s \<Longrightarrow> quote b = Inr s \<Longrightarrow> a = b"
  using read_back [OF _ follows_Nil] by (metis fst_conv option.inject)

lemma quote_prefix_free:
  assumes "quote a = Inr s" "quote b = Inr t" "follows x" "follows y" "s @ x = t @ y"
  shows "a = b \<and> x = y"
  using read_back [OF assms(1,3)] read_back [OF assms(2,4)] assms(5) by simp

text \<open>A dotted path of quoted identifiers determines its components.\<close>

lemma quoted_path_inj:
  assumes "list_all2 (\<lambda>n s. quote n = Inr s) ns ss" "list_all2 (\<lambda>n s. quote n = Inr s) ms ts"
    and "ns \<noteq> []" "ms \<noteq> []" "join ''.'' ss = join ''.'' ts"
  shows "ns = ms"
  using assms
proof (induction ns arbitrary: ss ms ts)
  case Nil
  then show ?case by simp
next
  case (Cons n ns)
  obtain s ss' where ss: "ss = s # ss'" "quote n = Inr s" "list_all2 (\<lambda>n s. quote n = Inr s) ns ss'"
    using Cons.prems(1) by (auto simp: list_all2_Cons1)
  obtain m ms' where ms: "ms = m # ms'" using Cons.prems(4) by (cases ms) auto
  obtain t ts' where ts: "ts = t # ts'" "quote m = Inr t" "list_all2 (\<lambda>n s. quote n = Inr s) ms' ts'"
    using Cons.prems(2) ms by (auto simp: list_all2_Cons1)
  define x where "x = (if ss' = [] then [] else ''.'' @ join ''.'' ss')"
  define y where "y = (if ts' = [] then [] else ''.'' @ join ''.'' ts')"
  have jx: "join ''.'' ss = s @ x" unfolding ss x_def by (cases ss') auto
  have jy: "join ''.'' ts = t @ y" unfolding ts y_def by (cases ts') auto
  have "follows x" "follows y" by (auto simp: x_def y_def follows_Nil follows_dot)
  then have eq: "n = m" "x = y"
    using quote_prefix_free [OF ss(2) ts(2)] Cons.prems(5) jx jy by auto
  have "ns = ms'"
  proof (cases "ss' = []")
    case True
    then show ?thesis using eq(2) ss(3) ts(3) by (auto simp: x_def y_def split: if_splits)
  next
    case False
    then have "ts' \<noteq> []" "join ''.'' ss' = join ''.'' ts'"
      using eq(2) by (auto simp: x_def y_def split: if_splits)
    moreover have "ns \<noteq> []" "ms' \<noteq> []" using False \<open>ts' \<noteq> []\<close> ss(3) ts(3) by auto
    ultimately show ?thesis using Cons.IH [OF ss(3) ts(3)] by blast
  qed
  then show ?case using eq ms by simp
qed

end

lemma quote_identifier_read_back:
  assumes "quote_identifier d name = Inr s" "not_quote_next (bd_quote d) rest"
  shows "read_quoted (bd_quote d) (s @ rest) = Some (name, rest)"
  using assms read_quoted_body_replace [of "bd_quote d" rest name]
  by (auto simp: quote_identifier_Inr read_quoted_def)

interpretation pg_quoting: identifier_quoting "quote_identifier postgresql" "read_quoted (CHR 0x22)" "not_quote_next (CHR 0x22)"
  using quote_identifier_read_back [of postgresql]
  by unfold_locales (auto simp: postgresql_def not_quote_next_def)

interpretation mysql_quoting: identifier_quoting "quote_identifier mysql" "read_quoted (CHR 0x60)" "not_quote_next (CHR 0x60)"
  using quote_identifier_read_back [of mysql]
  by unfold_locales (auto simp: mysql_def not_quote_next_def)

interpretation sqlite_quoting: identifier_quoting "quote_identifier sqlite" "read_quoted (CHR 0x22)" "not_quote_next (CHR 0x22)"
  using quote_identifier_read_back [of sqlite]
  by unfold_locales (auto simp: sqlite_def not_quote_next_def)

subsection \<open>Quoted identifiers under the scanner\<close>

lemma code_backslash [simp]: "code c = 92 \<longleftrightarrow> c = CHR 0x5C"
  using of_char_eq_iff [where 'a = nat, of c "CHR 0x5C"] by simp

lemma scan_quoted_replace:
  assumes "q \<noteq> CHR 0x5C" "escapes \<longrightarrow> CHR 0x5C \<notin> set name" "not_quote_next q rest"
  shows "scan_quoted_from (pre @ replace_byte q [q, q] name @ q # rest) (length pre) q escapes =
    Inr (length pre + length (replace_byte q [q, q] name) + 1)"
  using assms
proof (induction name arbitrary: pre)
  case Nil
  then show ?case
    by (cases rest) (auto simp: scan_quoted_from.simps [of _ "length pre"] nth_append not_quote_next_def)
next
  case (Cons c name)
  show ?case
  proof (cases "c = q")
    case True
    then show ?thesis
      using Cons.IH [of "pre @ [q, q]"] Cons.prems
      by (subst scan_quoted_from.simps) (simp add: nth_append)
  next
    case False
    then show ?thesis
      using Cons.IH [of "pre @ [c]"] Cons.prems
      by (subst scan_quoted_from.simps) (auto simp: nth_append)
  qed
qed

lemma engine_names [simp]:
  "engine_name L (Some ''postgresql'') = ''postgresql''"
  "engine_name L (Some ''mysql'') = ''mysql''"
  "engine_name L (Some ''sqlite'') = ''sqlite''"
  by (simp_all add: engine_name_def byte_eval)

lemma dialect_fields [simp]:
  "bd_name postgresql = ''postgresql''" "bd_quote postgresql = CHR 0x22"
  "bd_name mysql = ''mysql''" "bd_quote mysql = CHR 0x60"
  "bd_name sqlite = ''sqlite''" "bd_quote sqlite = CHR 0x22"
  by (simp_all add: dialect_consts)

lemma quoted_scan:
  assumes name: "quote_identifier d name = Inr s"
    and d: "d \<in> {postgresql, mysql, sqlite}"
    and bs: "bd_name d = ''mysql'' \<longrightarrow> CHR 0x5C \<notin> set name"
  shows "scan L s (Some (bd_name d)) = Inr \<lparr>protected = [\<lparr>span_start = 0, span_end = length s\<rparr>],
     placeholders = [], semicolons = []\<rparr>"
proof -
  obtain e q where eq: "bd_name d = e" "bd_quote d = q"
    "e = ''postgresql'' \<and> q = CHR 0x22 \<or> e = ''mysql'' \<and> q = CHR 0x60 \<or> e = ''sqlite'' \<and> q = CHR 0x22"
    using d by auto
  have s: "s = q # replace_byte q [q, q] name @ [q]"
    using name eq by (simp add: quote_identifier_Inr)
  have eng: "engine_name L (Some e) = e" using eq(3) by auto
  have quoted: "scan_quoted s 0 q escapes = Inr (length s)" if "escapes \<longrightarrow> e = ''mysql''" for escapes
    using scan_quoted_replace [of q escapes name "[]" "[q]"] that bs eq
    by (auto simp: s scan_quoted_def not_quote_next_def)
  have step: "scan_step e s 0 empty_result = Inr (length s, protect 0 (length s) empty_result)"
    using eq(3) quoted [of False] quoted [of True]
    by (elim disjE conjE) (simp_all add: scan_step_def Let_def s)
  have fin: "scan_loop e s (length s) r = Inr r" for r
    by (subst scan_loop.simps) simp
  have "s \<noteq> []" by (simp add: s)
  then have "scan_loop e s 0 empty_result = Inr (protect 0 (length s) empty_result)"
    using step fin by (subst scan_loop.simps) simp
  then show ?thesis
    unfolding scan_def eq eng by (simp add: protect_def empty_result_def)
qed

lemma scan_quoted_passes:
  assumes "q \<noteq> CHR 0x5C" "escapes \<longrightarrow> CHR 0x5C \<notin> set name" "s = pre @ replace_byte q [q, q] name @ rest" "i = length pre"
  shows "scan_quoted_from s i q escapes = scan_quoted_from s (i + length (replace_byte q [q, q] name)) q escapes"
  using assms(2-4)
proof (induction name arbitrary: pre i)
  case (Cons c name)
  show ?case
  proof (cases "c = q")
    case True
    have "scan_quoted_from s i q escapes = scan_quoted_from s (i + 2) q escapes"
      using True assms(1) Cons.prems by (subst scan_quoted_from.simps) (simp add: nth_append)
    then show ?thesis using Cons.IH [of "pre @ [q, q]" "i + 2"] Cons.prems True by simp
  next
    case False
    have "scan_quoted_from s i q escapes = scan_quoted_from s (i + 1) q escapes"
      using False Cons.prems by (subst scan_quoted_from.simps) (auto simp: nth_append)
    then show ?thesis using Cons.IH [of "pre @ [c]" "i + 1"] Cons.prems False by simp
  qed
qed simp

lemma replace_byte_absent: "q \<notin> set t \<Longrightarrow> replace_byte q r t = t"
  by (induction t) auto

lemma escaped_close:
  assumes "CHR 0x5C \<notin> set body" "CHR 0x5C \<notin> set t" "CHR 0x60 \<notin> set t"
    and "s = CHR 0x60 # replace_byte (CHR 0x60) [CHR 0x60, CHR 0x60] body @ [CHR 0x5C, CHR 0x60]"
  shows "scan_quoted (s @ t) 0 (CHR 0x60) True = Inl UnterminatedQuoted"
    and "scan_quoted (s @ t @ [CHR 0x60]) 0 (CHR 0x60) True = Inr (length (s @ t @ [CHR 0x60]))"
proof -
  let ?q = "CHR 0x60" and ?b = "replace_byte (CHR 0x60) [CHR 0x60, CHR 0x60] body"
  have walk: "scan_quoted (s @ t @ u) 0 ?q True = scan_quoted_from (s @ t @ u) (length (s @ t)) ?q True" for u
  proof -
    have "scan_quoted (s @ t @ u) 0 ?q True = scan_quoted_from (s @ t @ u) (1 + length ?b) ?q True"
      unfolding scan_quoted_def by (subst scan_quoted_passes [where pre = "[?q]" and name = body and rest = "[CHR 0x5C, ?q] @ t @ u"])
        (use assms in auto)
    also have "\<dots> = scan_quoted_from (s @ t @ u) (length s) ?q True"
      by (subst scan_quoted_from.simps) (simp add: assms(4) nth_append)
    also have "\<dots> = scan_quoted_from (s @ t @ u) (length s + length (replace_byte ?q [?q, ?q] t)) ?q True"
      by (rule scan_quoted_passes [where pre = s and rest = u]) (use assms in \<open>auto simp: replace_byte_absent\<close>)
    finally show ?thesis by (simp add: replace_byte_absent assms(3))
  qed
  show "scan_quoted (s @ t) 0 ?q True = Inl UnterminatedQuoted" using walk [of "[]"] by (simp add: scan_quoted_from.simps)
  show "scan_quoted (s @ t @ [?q]) 0 ?q True = Inr (length (s @ t @ [?q]))"
    unfolding walk by (subst scan_quoted_from.simps) (simp add: nth_append)
qed

subsection \<open>Capabilities as sets\<close>

lemma iota_of_less: "x \<in> set xs \<Longrightarrow> iota_of xs x < length xs"
  by (induction xs) auto

lemma iota_of_inj: "x \<in> set xs \<Longrightarrow> y \<in> set xs \<Longrightarrow> iota_of xs x = iota_of xs y \<longleftrightarrow> x = y"
  by (induction xs) (auto split: if_splits)

lemma capability_names_all: "c \<in> set capability_names"
  by (cases c) (simp_all add: capability_names_def)

lemma bit_capability: "bit (capability c) n \<longleftrightarrow> n = iota_of capability_names c"
proof -
  have "iota_of capability_names c < 22"
    using iota_of_less [OF capability_names_all [of c]] by (simp add: capability_names_def)
  then show ?thesis by (auto simp: capability_def bit_simps)
qed

lemma bit_capabilities: "bit (capabilities cs) n \<longleftrightarrow> (\<exists>c\<in>set cs. n = iota_of capability_names c)"
  by (induction cs) (auto simp: capabilities_def bit_simps bit_capability)

lemma and_absorb_iff: "a AND b = b \<longleftrightarrow> (\<forall>n. bit b n \<longrightarrow> bit a n)" for a b :: capability
proof
  assume "a AND b = b"
  then have "bit b n \<longleftrightarrow> bit a n \<and> bit b n" for n by (metis bit_and_iff)
  then show "\<forall>n. bit b n \<longrightarrow> bit a n" by blast
next
  assume "\<forall>n. bit b n \<longrightarrow> bit a n"
  then show "a AND b = b" by (intro bit_eqI) (auto simp: bit_and_iff)
qed

lemma and_capabilities:
  "capabilities as AND capabilities bs = capabilities bs \<longleftrightarrow> set bs \<subseteq> set as"
proof -
  have "capabilities as AND capabilities bs = capabilities bs \<longleftrightarrow> (\<forall>b\<in>set bs. \<exists>a\<in>set as. iota_of capability_names b = iota_of capability_names a)"
    unfolding and_absorb_iff bit_capabilities by blast
  also have "\<dots> \<longleftrightarrow> set bs \<subseteq> set as"
    by (simp add: iota_of_inj [OF capability_names_all capability_names_all] subset_eq)
  finally show ?thesis .
qed

subsection \<open>Properties\<close>

text \<open>
  C7. An identifier that a built-in dialect quotes is read back by the SQL rule for
  delimited identifiers, whatever follows it (short of another quote character), and a
  dotted path of quoted identifiers, such as a schema-qualified column, determines its
  components: no two different paths render to the same text.\<close>

theorem quote_identifier_roundtrip:
  assumes "d \<in> {postgresql, mysql, sqlite}"
  shows "(\<forall>name s rest. quote_identifier d name = Inr s \<longrightarrow> not_quote_next (bd_quote d) rest \<longrightarrow>
      read_quoted (bd_quote d) (s @ rest) = Some (name, rest)) \<and>
    (\<forall>ns ss ms ts. list_all2 (\<lambda>n s. quote_identifier d n = Inr s) ns ss \<longrightarrow>
      list_all2 (\<lambda>n s. quote_identifier d n = Inr s) ms ts \<longrightarrow> ns \<noteq> [] \<longrightarrow> ms \<noteq> [] \<longrightarrow>
      join ''.'' ss = join ''.'' ts \<longrightarrow> ns = ms)"
proof (intro conjI allI impI)
  fix name s rest
  assume "quote_identifier d name = Inr s" "not_quote_next (bd_quote d) rest"
  then show "read_quoted (bd_quote d) (s @ rest) = Some (name, rest)" by (rule quote_identifier_read_back)
next
  fix ns ss ms ts
  assume paths: "list_all2 (\<lambda>n s. quote_identifier d n = Inr s) ns ss"
    "list_all2 (\<lambda>n s. quote_identifier d n = Inr s) ms ts" "ns \<noteq> []" "ms \<noteq> []" "join ''.'' ss = join ''.'' ts"
  from assms consider "d = postgresql" | "d = mysql" | "d = sqlite" by blast
  then show "ns = ms"
  proof cases
    case 1
    show ?thesis by (rule pg_quoting.quoted_path_inj [OF paths [unfolded 1]])
  next
    case 2
    show ?thesis by (rule mysql_quoting.quoted_path_inj [OF paths [unfolded 2]])
  next
    case 3
    show ?thesis by (rule sqlite_quoting.quoted_path_inj [OF paths [unfolded 3]])
  qed
qed

theorem quote_identifier_roundtrip_witness:
  "postgresql \<in> {postgresql, mysql, sqlite} \<and>
   read_quoted (CHR 0x22) ([CHR 0x22, CHR ''a'', CHR 0x22, CHR 0x22, CHR ''b'', CHR 0x22] @ ''.c'')
     = Some ([CHR ''a'', CHR 0x22, CHR ''b''], ''.c'')"
proof -
  have d: "postgresql \<in> {postgresql, mysql, sqlite}" by simp
  have q: "quote_identifier postgresql [CHR ''a'', CHR 0x22, CHR ''b''] =
      Inr [CHR 0x22, CHR ''a'', CHR 0x22, CHR 0x22, CHR ''b'', CHR 0x22]"
    by (simp add: quote_identifier_Inr identifier_ok_def decode_rune_ascii)
  have n: "not_quote_next (bd_quote postgresql) ''.c''" by (simp add: not_quote_next_def)
  show ?thesis
    using conjunct1 [OF quote_identifier_roundtrip [OF d], rule_format, OF q n] by simp
qed

text \<open>
  C28. The scanner sees a quoted identifier of PostgreSQL or SQLite, and one of MySQL
  without a backslash, as one protected span: nothing in an identifier is ever taken for
  a placeholder, a comment or a statement separator.\<close>

theorem quoted_identifier_protected:
  assumes "quote_identifier d name = Inr s" "d \<in> {postgresql, mysql, sqlite}"
    and "bd_name d = ''mysql'' \<longrightarrow> CHR 0x5C \<notin> set name"
  shows "scan L s (Some (bd_name d)) = Inr \<lparr>protected = [\<lparr>span_start = 0, span_end = length s\<rparr>],
     placeholders = [], semicolons = []\<rparr>"
  using assms by (rule quoted_scan)

theorem quoted_identifier_protected_witness:
  "\<exists>s. quote_identifier mysql ''a;?'' = Inr s \<and>
     scan id s (Some ''mysql'') = Inr \<lparr>protected = [\<lparr>span_start = 0, span_end = length s\<rparr>],
       placeholders = [], semicolons = []\<rparr>"
proof -
  obtain s where s: "quote_identifier mysql ''a;?'' = Inr s"
    by (simp add: quote_identifier_def validate_identifier_def check_def decode_rune_ascii)
  have d: "mysql \<in> {postgresql, mysql, sqlite}" by simp
  have b: "bd_name mysql = ''mysql'' \<longrightarrow> CHR 0x5C \<notin> set ''a;?''" by simp
  show ?thesis using s quoted_identifier_protected [OF s d b, of id] by auto
qed

text \<open>
  C27. A MySQL identifier whose only backslash is its last character is not closed for the
  scanner, which takes the backslash for an escape of the closing backtick. Whatever text
  without backslash and backtick stands behind the quoted identifier, the scan reports it as
  unterminated; and when a backtick follows that text, the scan succeeds and protects it all,
  so that no placeholder and no semicolon in it is recorded.
\<close>
theorem mysql_backtick_backslash_not_closed:
  assumes "quote_identifier mysql (body @ [CHR 0x5C]) = Inr s" "CHR 0x5C \<notin> set body" "CHR 0x5C \<notin> set t" "CHR 0x60 \<notin> set t"
  shows "scan L (s @ t) (Some ''mysql'') = Inl UnterminatedQuoted \<and>
    scan L (s @ t @ [CHR 0x60]) (Some ''mysql'') =
      Inr \<lparr>protected = [\<lparr>span_start = 0, span_end = length s + length t + 1\<rparr>], placeholders = [], semicolons = []\<rparr>"
proof -
  have replace: "replace_byte q r (xs @ ys) = replace_byte q r xs @ replace_byte q r ys" for q r xs ys
    by (induction xs) auto
  have s: "s = CHR 0x60 # replace_byte (CHR 0x60) [CHR 0x60, CHR 0x60] body @ [CHR 0x5C, CHR 0x60]"
    using assms(1) by (simp add: quote_identifier_Inr replace)
  note quoted = escaped_close [OF assms(2-4) s]
  let ?u = "s @ t @ [CHR 0x60]"
  have first: "(s @ x) ! 0 = CHR 0x60" for x by (simp add: s)
  have unterminated: "scan_step ''mysql'' (s @ t) 0 empty_result = Inl UnterminatedQuoted"
    using quoted(1) by (simp add: scan_step_def Let_def first)
  have step: "scan_step ''mysql'' ?u 0 empty_result = Inr (length ?u, protect 0 (length ?u) empty_result)"
    using quoted(2) by (simp add: scan_step_def Let_def first)
  have "scan_loop ''mysql'' (s @ t) 0 empty_result = Inl UnterminatedQuoted"
    using unterminated by (subst scan_loop.simps) (simp add: s)
  moreover have "scan_loop ''mysql'' ?u 0 empty_result = Inr (protect 0 (length ?u) empty_result)"
  proof -
    have done_loop: "scan_loop ''mysql'' ?u (length ?u) r = Inr r" for r by (subst scan_loop.simps) simp
    have "0 < length ?u" by simp
    then show ?thesis using step done_loop by (subst scan_loop.simps) (simp del: length_append)
  qed
  ultimately show ?thesis by (simp add: scan_def protect_def empty_result_def)
qed

theorem mysql_backtick_backslash_not_closed_witness:
  "scan id ([CHR 0x60, CHR ''a'', CHR 0x5C, CHR 0x60] @ ''=?; -- '' @ [CHR 0x60]) (Some ''mysql'') =
     Inr \<lparr>protected = [\<lparr>span_start = 0, span_end = 12\<rparr>], placeholders = [], semicolons = []\<rparr>"
proof -
  have q: "quote_identifier mysql (''a'' @ [CHR 0x5C]) = Inr [CHR 0x60, CHR ''a'', CHR 0x5C, CHR 0x60]"
    by (simp add: quote_identifier_Inr identifier_ok_def decode_rune_ascii)
  show ?thesis using mysql_backtick_backslash_not_closed [OF q, of "''=?; -- ''" id] by simp
qed

text \<open>
  \<open>Supports\<close> on a combination of capability flags answers whether the dialect lists
  every one of them; the 22 flags are pairwise different bits of the 32-bit word.\<close>

theorem supports_capabilities:
  "(supports postgresql (capabilities cs) \<longleftrightarrow> set cs \<subseteq> set postgresql_capabilities) \<and>
   (supports mysql (capabilities cs) \<longleftrightarrow> set cs \<subseteq> set mysql_capabilities) \<and>
   (supports sqlite (capabilities cs) \<longleftrightarrow> set cs \<subseteq> set sqlite_capabilities) \<and>
   (capability a = capability b \<longleftrightarrow> a = b)"
proof -
  have "a = b" if "capability a = capability b"
  proof -
    have "iota_of capability_names a = iota_of capability_names b"
      using that bit_capability [of a "iota_of capability_names a"]
        bit_capability [of b "iota_of capability_names a"] by simp
    then show ?thesis using iota_of_inj [OF capability_names_all capability_names_all] by blast
  qed
  then show ?thesis
    unfolding supports_def postgresql_def mysql_def sqlite_def by (auto simp: and_capabilities)
qed

lemma skip_while_all: "list_all p s \<Longrightarrow> skip_while p (pre @ s) (length pre) = length pre + length s"
proof (induction s arbitrary: pre)
  case Nil
  then show ?case by (subst skip_while.simps) simp
next
  case (Cons c s)
  then show ?case using Cons.IH [of "pre @ [c]"] by (subst skip_while.simps) (simp add: nth_append)
qed

lemma digit_not_start: "is_digit c \<Longrightarrow> c \<noteq> CHR ''$'' \<and> c \<noteq> CHR ''_'' \<and> \<not> is_letter c"
  by (auto simp: is_digit_def is_letter_def Let_def)

text \<open>
  The placeholder a dialect writes for an argument position is the placeholder the
  scanner finds: PostgreSQL's \<open>$n\<close> is scanned as dollar placeholder number \<open>n\<close>, for
  every position of Go's \<open>int\<close>, and MySQL's and SQLite's \<open>?\<close> as a question mark;
  positions below 1 are refused.\<close>

theorem placeholder_text_scanned:
  assumes "1 \<le> n" "nat n \<le> max_int"
  shows "(\<exists>s. placeholder_text postgresql n = Inr s \<and> scan L s (Some ''postgresql'') =
      Inr \<lparr>protected = [], placeholders = [\<lparr>ph_start = 0, ph_end = length s, ph_kind = Dollar,
        ph_number = nat n, ph_invalid = False\<rparr>], semicolons = []\<rparr>) \<and>
    (\<forall>d\<in>{mysql, sqlite}. \<exists>s. placeholder_text d n = Inr s \<and> scan L s (Some (bd_name d)) =
      Inr \<lparr>protected = [], placeholders = [\<lparr>ph_start = 0, ph_end = length s, ph_kind = Question,
        ph_number = 0, ph_invalid = False\<rparr>], semicolons = []\<rparr>) \<and>
    (\<forall>d p. p < 1 \<longrightarrow> placeholder_text d p = Inl (PositionNotPositive (bd_name d)))"
proof -
  let ?s = "CHR ''$'' # dec (nat n)"
  have ph: "placeholder_text postgresql n = Inr ?s"
    using assms(1) by (simp add: placeholder_text_def postgresql_def dollar_placeholder_text_def dec_int_def)
  obtain c t where ct: "dec (nat n) = c # t" by (cases "dec (nat n)") auto
  have digits: "list_all is_digit (dec (nat n))" by (rule dec_digits)
  then have c: "is_digit c" using ct by simp
  note nc = digit_not_start [OF c]
  have len: "skip_while is_digit ?s (Suc 0) = length ?s"
    using skip_while_all [OF digits, of "[CHR ''$'']"] by simp
  have noquote: "dollar_quote_start ?s 0 = None"
    using nc ct by (simp add: dollar_quote_start_def Let_def)
  have dollar: "dollar_placeholder ?s 0 = Some (nat n, length ?s, False)"
  proof -
    have "Suc 0 < length ?s" "?s ! Suc 0 = c" "Go_Base.slice ?s (Suc 0) (length ?s) = dec (nat n)"
      using ct by (simp_all add: Go_Base.slice_def)
    then show ?thesis
      using assms(2) len c unfolding dollar_placeholder_def Let_def by auto
  qed
  have step: "scan_step ''postgresql'' ?s 0 empty_result = Inr (length ?s,
      add_placeholder \<lparr>ph_start = 0, ph_end = length ?s, ph_kind = Dollar, ph_number = nat n, ph_invalid = False\<rparr> empty_result)"
    using noquote dollar by (simp add: scan_step_def Let_def scan_dollar_def)
  have fin: "scan_loop e s (length s) r = Inr r" for e s r
    by (subst scan_loop.simps) simp
  have "scan_loop ''postgresql'' ?s 0 empty_result = Inr
      (add_placeholder \<lparr>ph_start = 0, ph_end = length ?s, ph_kind = Dollar, ph_number = nat n, ph_invalid = False\<rparr> empty_result)"
    using step fin [of "''postgresql''" ?s] by (subst scan_loop.simps) simp
  then have pg: "scan L ?s (Some ''postgresql'') =
      Inr \<lparr>protected = [], placeholders = [\<lparr>ph_start = 0, ph_end = length ?s, ph_kind = Dollar,
        ph_number = nat n, ph_invalid = False\<rparr>], semicolons = []\<rparr>"
    by (simp add: scan_def add_placeholder_def empty_result_def)
  have my: "\<exists>s. placeholder_text d n = Inr s \<and> scan L s (Some (bd_name d)) =
      Inr \<lparr>protected = [], placeholders = [\<lparr>ph_start = 0, ph_end = length s, ph_kind = Question,
        ph_number = 0, ph_invalid = False\<rparr>], semicolons = []\<rparr>" if "d \<in> {mysql, sqlite}" for d
  proof -
    have "placeholder_text d n = Inr ''?''"
      using assms(1) that by (auto simp: placeholder_text_def question_placeholder_text_def mysql_def sqlite_def)
    moreover have "scan L ''?'' (Some (bd_name d)) =
      Inr \<lparr>protected = [], placeholders = [\<lparr>ph_start = 0, ph_end = 1, ph_kind = Question,
        ph_number = 0, ph_invalid = False\<rparr>], semicolons = []\<rparr>"
      using that by (elim insertE emptyE)
        (simp_all add: scan_def scan_loop.simps scan_step_def Let_def add_placeholder_def empty_result_def)
    ultimately show ?thesis by simp
  qed
  show ?thesis using ph pg my by (auto simp: placeholder_text_def)
qed

theorem placeholder_text_scanned_witness:
  "\<exists>s. placeholder_text postgresql 12 = Inr s \<and>
     (\<exists>r. scan id s (Some ''postgresql'') = Inr r \<and> map ph_number (placeholders r) = [12])"
proof -
  have h: "(1 :: int) \<le> 12" "nat 12 \<le> max_int" by (simp_all add: max_int_def)
  show ?thesis using conjunct1 [OF placeholder_text_scanned [OF h, of id]] by auto
qed

text \<open>The column types a built-in dialect can name.\<close>

fun nameable :: "builtin \<Rightarrow> column_type \<Rightarrow> bool" where
  "nameable d (IntegerType uns w z) = (uns \<longrightarrow> bd_name d = ''mysql'')"
| "nameable d (DecimalType p s u z) =
     (bd_name d = ''sqlite'' \<or> (bd_name d = ''postgresql'' \<and> p \<le> 1000) \<or>
      (bd_name d = ''mysql'' \<and> p \<le> 65 \<and> the s \<le> 30))"
| "nameable d OpaqueType = False"
| "nameable d (PointerTo t) = False"
| "nameable d t = True"

text \<open>
  For a well-formed column type, \<open>TypeName\<close> of a built-in dialect succeeds exactly
  when the type is not opaque, not an unsigned integer outside MySQL, and not a decimal
  beyond the dialect's precision (1000 for PostgreSQL, 65 for MySQL) or scale (30 for
  MySQL; PostgreSQL's bound of 1000 follows from its precision); the name is never empty.\<close>

theorem type_name_iff:
  assumes "d \<in> {postgresql, mysql, sqlite}" "column_type_ok (col_type c)" "col_type c = Some t"
  shows "((\<exists>n. type_name d c = Inr n) \<longleftrightarrow> nameable d t) \<and> (\<forall>n. type_name d c = Inr n \<longrightarrow> n \<noteq> [])"
proof -
  have dec: "dec_int i \<noteq> []" for i by (simp add: dec_int_def)
  from assms(1) consider "d = postgresql" | "d = mysql" | "d = sqlite" by blast
  then show ?thesis
  proof cases
    case 1
    show ?thesis using assms(2,3) unfolding 1 type_name_def
      by (cases t) (auto simp: postgresql_def unsigned_type_name_def kind_type_name_def text_type_name_def
          decimal_type_name_def map_read_def split: option.splits if_splits)
  next
    case 2
    show ?thesis using assms(2,3) unfolding 2 type_name_def
      by (cases t) (auto simp: mysql_def unsigned_type_name_def kind_type_name_def text_type_name_def
          decimal_type_name_def map_read_def split: option.splits if_splits)
  next
    case 3
    show ?thesis using assms(2,3) unfolding 3 type_name_def
      by (cases t) (auto simp: sqlite_def unsigned_type_name_def kind_type_name_def text_type_name_def
          decimal_type_name_def map_read_def split: option.splits if_splits)
  qed
qed

theorem type_name_iff_witness:
  "\<not> (\<exists>n. type_name sqlite (zero_column\<lparr>col_type := Some (IntegerType True None False)\<rparr>) = Inr n) \<and>
   (\<exists>n. type_name mysql (zero_column\<lparr>col_type := Some (DecimalType 65 (Some 30) False False)\<rparr>) = Inr n)"
  using type_name_iff [of sqlite "zero_column\<lparr>col_type := Some (IntegerType True None False)\<rparr>" "IntegerType True None False"]
    type_name_iff [of mysql "zero_column\<lparr>col_type := Some (DecimalType 65 (Some 30) False False)\<rparr>" "DecimalType 65 (Some 30) False False"]
  by (simp add: zero_column_def)

lemma fold_equal_from_iff: "length l = length r \<Longrightarrow> fold_equal_from l r \<longleftrightarrow> map ascii_lower l = map ascii_lower r"
  by (induction l r rule: fold_equal_from.induct) auto

text \<open>
  \<open>IdentifiersEqual\<close> of every dialect is an equivalence that identifies equal names;
  for SQLite two names are equal exactly when their ASCII lower-case foldings are.\<close>

theorem identifiers_equal_equivalence:
  "equivp (identifiers_equal d) \<and>
   (identifiers_equal SQLite l r \<longleftrightarrow> map ascii_lower l = map ascii_lower r) \<and>
   (identifiers_equal PostgreSQL l r \<longleftrightarrow> l = r) \<and> (identifiers_equal MySQL l r \<longleftrightarrow> l = r)"
proof -
  have sq: "sqlite_identifiers_equal l r \<longleftrightarrow> map ascii_lower l = map ascii_lower r" for l r
    unfolding sqlite_identifiers_equal_def using fold_equal_from_iff by (metis length_map)
  have "equivp (identifiers_equal d)"
    by (cases d) (auto intro!: equivpI reflpI sympI transpI simp: sq)
  then show ?thesis by (simp add: sq SQLite_def PostgreSQL_def MySQL_def)
qed

text \<open>
  \<open>QuoteIdentifier\<close> accepts the dotted display name of a schema-qualified table and
  quotes it as one identifier, although the comment on \<open>TableDef.QualifiedName\<close> says that
  it rejects that string; two different tables can have the same display name.\<close>

theorem dotted_name_is_quoted:
  "\<exists>t u. table_object_name t \<noteq> table_object_name u \<and> qualified_name t = qualified_name u \<and>
     identifier_ok (tb_name t) \<and> identifier_ok (tb_schema t) \<and> identifier_ok (tb_name u) \<and> identifier_ok (tb_schema u) \<and>
     (\<exists>s. quote_identifier postgresql (qualified_name t) = Inr s) \<and>
     (\<exists>s. quote_identifier mysql (qualified_name t) = Inr s) \<and>
     (\<exists>s. quote_identifier sqlite (qualified_name t) = Inr s)"
proof -
  let ?t = "zero_table\<lparr>tb_schema := ''a'', tb_name := ''b.c''\<rparr>"
  let ?u = "zero_table\<lparr>tb_schema := ''a.b'', tb_name := ''c''\<rparr>"
  have "table_object_name ?t \<noteq> table_object_name ?u" "qualified_name ?t = qualified_name ?u"
    "identifier_ok (tb_name ?t)" "identifier_ok (tb_schema ?t)" "identifier_ok (tb_name ?u)" "identifier_ok (tb_schema ?u)"
    "\<exists>s. quote_identifier postgresql (qualified_name ?t) = Inr s"
    "\<exists>s. quote_identifier mysql (qualified_name ?t) = Inr s"
    "\<exists>s. quote_identifier sqlite (qualified_name ?t) = Inr s"
    by (simp_all add: table_object_name_def qualified_name_def zero_table_def identifier_ok_def
        quote_identifier_Inr decode_rune_ascii)
  then show ?thesis by blast
qed

end
