(* ===== verification/Render_Core.thy ===== *)
theory Render_Core
  imports Query_Select Dialect
begin

text \<open>
  The renderer of package \<open>render\<close> (\<open>render/select.go\<close>): its state, the writers it is made
  of, and the parts that do not recurse through a statement: identifiers, arguments, tables,
  row locks, native SQL and the check of a statement's sources. The dialect is one of the
  three built-in ones, which supply no compiler of their own.

  A writer takes the renderer and returns it changed, or the error at which rendering stops.
  The renderer's text and arguments only ever grow.
\<close>

subsection \<open>State and errors\<close>

datatype 'v arg = BoundArg 'v | IntegerArg int

record 'v renderer =
  rr_text :: gostring
  rr_args :: "'v arg list"
  rr_excluded_style :: upsert_style
  rr_in_excluded :: bool
  rr_cte_scope :: "(gostring \<times> nat) list"

datatype render_error =
    NilDialect
  | InvalidStatement gostring validation_error
  | IdentifierError gostring dialect_error
  | PlaceholderError dialect_error
  | TypeNameError dialect_error
  | UnsupportedMatchOperator gostring
  | UnsupportedAggregateFilter gostring
  | UnsupportedSelectLock gostring gostring
  | UnsupportedUpsertPredicate gostring gostring
  | SubqueryReadsWriteTarget gostring gostring gostring
  | NativeEngineMismatch gostring gostring
  | NativeScan scan_error
  | InvalidPlaceholder gostring "message_arg list"
  | RenderFailure gostring "message_arg list"

type_synonym 'v writer = "'v renderer \<Rightarrow> render_error + 'v renderer"

definition emit :: "gostring \<Rightarrow> 'v writer" where
  "emit s r = Inr (r\<lparr>rr_text := rr_text r @ s\<rparr>)"

definition fail :: "render_error \<Rightarrow> 'v writer" where
  "fail e r = Inl e"

definition seq :: "'v writer \<Rightarrow> 'v writer \<Rightarrow> 'v writer" where
  "seq w w' r = rbind (w r) w'"

definition nothing :: "'v writer" where
  "nothing r = Inr r"

fun write_all :: "'v writer list \<Rightarrow> 'v writer" where
  "write_all [] = nothing"
| "write_all (w # ws) = seq w (write_all ws)"

fun write_tail :: "gostring \<Rightarrow> 'v writer list \<Rightarrow> 'v writer" where
  "write_tail sep [] = nothing"
| "write_tail sep (w # ws) = seq (emit sep) (seq w (write_tail sep ws))"

text \<open>The loops that write a separator before every item but the first.\<close>

fun write_separated :: "gostring \<Rightarrow> 'v writer list \<Rightarrow> 'v writer" where
  "write_separated sep [] = nothing"
| "write_separated sep (w # ws) = seq w (write_tail sep ws)"

definition write_if :: "bool \<Rightarrow> 'v writer \<Rightarrow> 'v writer" where
  "write_if b w = (if b then w else nothing)"

definition require :: "bool \<Rightarrow> render_error \<Rightarrow> 'v writer \<Rightarrow> 'v writer" where
  "require b e w = (if b then w else fail e)"

subsection \<open>Identifiers and arguments\<close>

definition quote_ident :: "dialect \<Rightarrow> gostring \<Rightarrow> render_error + gostring" where
  "quote_ident d name = (case quote_identifier (base d) name of
       Inl e \<Rightarrow> Inl (IdentifierError name e)
     | Inr q \<Rightarrow> Inr q)"

definition quote_qualified :: "dialect \<Rightarrow> gostring \<Rightarrow> gostring \<Rightarrow> render_error + gostring" where
  "quote_qualified d schema name = rbind (quote_ident d name) (\<lambda>quoted.
     if schema = [] then Inr quoted
     else rbind (quote_ident d schema) (\<lambda>s. Inr (s @ ''.'' @ quoted)))"

definition emit_result :: "render_error + gostring \<Rightarrow> 'v writer" where
  "emit_result res r = rbind res (\<lambda>s. emit s r)"

definition write_ident :: "dialect \<Rightarrow> gostring \<Rightarrow> 'v writer" where
  "write_ident d name = emit_result (quote_ident d name)"

definition write_argument :: "dialect \<Rightarrow> 'v arg \<Rightarrow> 'v writer" where
  "write_argument d value r = (case placeholder_text (base d) (int (length (rr_args r)) + 1) of
       Inl e \<Rightarrow> Inl (PlaceholderError e)
     | Inr p \<Rightarrow> Inr (r\<lparr>rr_text := rr_text r @ p, rr_args := rr_args r @ [value]\<rparr>))"

definition dialect_name :: "dialect \<Rightarrow> gostring" where
  "dialect_name d = bd_name (base d)"

definition dialect_supports :: "dialect \<Rightarrow> capability_name \<Rightarrow> bool" where
  "dialect_supports d c = supports (base d) (capability c)"

definition write_column_ref :: "dialect \<Rightarrow> 'v relation_ref \<Rightarrow> gostring \<Rightarrow> 'v writer" where
  "write_column_ref d source name r = rbind (quote_qualified d (rel_qualifier_schema source) (rel_qualifier source)) (\<lambda>qualifier.
     rbind (quote_ident d name) (\<lambda>column. emit (qualifier @ ''.'' @ column) r))"

definition write_table_identifier :: "dialect \<Rightarrow> 'v relation_ref \<Rightarrow> 'v writer" where
  "write_table_identifier d source = write_ident d (case rel_table source of Some t \<Rightarrow> tr_qualifier t | None \<Rightarrow> [])"

definition write_excluded_column :: "dialect \<Rightarrow> gostring \<Rightarrow> 'v writer" where
  "write_excluded_column d name r =
     (if \<not> rr_in_excluded r then Inl (RenderFailure ''references the excluded column %q outside an upsert conflict-update assignment'' [QuotedArg name])
      else rbind (quote_ident d name) (\<lambda>quoted.
        case rr_excluded_style r of
          UpsertOnConflict \<Rightarrow> emit (''EXCLUDED.'' @ quoted) r
        | UpsertDuplicateKey \<Rightarrow> emit (''VALUES('' @ quoted @ '')'') r
        | UpsertUnsupported \<Rightarrow> Inl (RenderFailure ''excluded columns are not supported'' [])))"

text \<open>The scope in which excluded columns may be written.\<close>

definition in_excluded_scope :: "upsert_style \<Rightarrow> 'v writer \<Rightarrow> 'v writer" where
  "in_excluded_scope style w r = rbind (w (r\<lparr>rr_excluded_style := style, rr_in_excluded := True\<rparr>)) (\<lambda>r'. Inr (r'\<lparr>rr_in_excluded := False\<rparr>))"

definition write_physical_table :: "dialect \<Rightarrow> table_ref \<Rightarrow> 'v writer" where
  "write_physical_table d table = seq (emit_result (quote_qualified d (tr_schema table) (tr_name table)))
     (write_if (tr_alias table \<noteq> []) (\<lambda>r. rbind (quote_ident d (tr_alias table)) (\<lambda>alias. emit ('' AS '' @ alias) r)))"

subsection \<open>Row locks\<close>

definition lock_clause :: "lock \<Rightarrow> gostring" where
  "lock_clause lock = (if lk_strength lock = 2 then ''FOR NO KEY UPDATE''
     else if lk_strength lock = 3 then ''FOR SHARE''
     else if lk_strength lock = 4 then ''FOR KEY SHARE''
     else ''FOR UPDATE'')"

definition write_lock :: "dialect \<Rightarrow> lock \<Rightarrow> 'v writer" where
  "write_lock d lock =
     require (\<not> (lk_strength lock \<in> {2, 4} \<and> dialect_name d \<noteq> ''postgresql'')) (UnsupportedSelectLock (dialect_name d) (lock_clause lock))
     (require (dialect_supports d (if lk_strength lock \<in> {3, 4} then SelectForShare else SelectForUpdate))
        (UnsupportedSelectLock (dialect_name d) (lock_clause lock))
     (require (lk_of lock = [] \<or> dialect_supports d SelectLockOf) (UnsupportedSelectLock (dialect_name d) ''FOR ... OF'')
     (require (lk_wait lock = 1 \<longrightarrow> dialect_supports d SelectLockNoWait) (UnsupportedSelectLock (dialect_name d) ''FOR ... NOWAIT'')
     (require (lk_wait lock = 2 \<longrightarrow> dialect_supports d SelectLockSkipLocked) (UnsupportedSelectLock (dialect_name d) ''FOR ... SKIP LOCKED'')
     (seq (emit ('' '' @ lock_clause lock))
     (seq (write_if (lk_of lock \<noteq> []) (seq (emit '' OF '') (write_separated '', '' (map (\<lambda>t. write_ident d (tr_qualifier t)) (lk_of lock)))))
       (emit (if lk_wait lock = 1 then '' NOWAIT'' else if lk_wait lock = 2 then '' SKIP LOCKED'' else []))))))))"


subsection \<open>Native SQL\<close>

record native_state =
  ns_used :: "nat set"
  ns_next :: nat
  ns_last :: nat

definition native_step :: "dialect \<Rightarrow> gostring \<Rightarrow> 'v list \<Rightarrow> placeholder \<Rightarrow> native_state \<times> 'v renderer \<Rightarrow> render_error + (native_state \<times> 'v renderer)" where
  "native_step d sql args ph = (\<lambda>(st, r).
     if ph_kind ph \<noteq> (if dialect_name d = ''postgresql'' then Dollar else Question) \<or> ph_invalid ph
       then Inl (InvalidPlaceholder ''native placeholder syntax does not match %s'' [QuotedArg (dialect_name d)])
     else if ph_start ph < ns_last st then Inl (InvalidPlaceholder ''native placeholder scan is out of order'' [])
     else if dialect_name d = ''postgresql'' \<and> (ph_number ph = 0 \<or> length args < ph_number ph)
       then Inl (InvalidPlaceholder ''native PostgreSQL placeholder $%d is out of range'' [IntArg (int (ph_number ph))])
     else if dialect_name d \<noteq> ''postgresql'' \<and> length args \<le> ns_next st
       then Inl (InvalidPlaceholder ''native placeholder count exceeds argument count'' [])
     else (let index = (if dialect_name d = ''postgresql'' then ph_number ph - 1 else ns_next st) in
       rbind (seq (emit (Go_Base.slice sql (ns_last st) (ph_start ph))) (write_argument d (BoundArg (args ! index))) r) (\<lambda>r'.
         Inr (\<lparr>ns_used = (if dialect_name d = ''postgresql'' then insert index (ns_used st) else ns_used st),
               ns_next = (if dialect_name d = ''postgresql'' then ns_next st else ns_next st + 1), ns_last = ph_end ph\<rparr>, r'))))"

definition native_finish :: "dialect \<Rightarrow> gostring \<Rightarrow> 'v list \<Rightarrow> native_state \<Rightarrow> 'v renderer \<Rightarrow> render_error + 'v renderer" where
  "native_finish d sql args st r = rbind (emit (drop (ns_last st) sql) r) (\<lambda>r'.
     if dialect_name d = ''postgresql'' then
       (case find (\<lambda>i. i \<notin> ns_used st) [0..<length args] of
          Some i \<Rightarrow> Inl (InvalidPlaceholder ''native PostgreSQL argument %d is not referenced'' [IntArg (int i + 1)])
        | None \<Rightarrow> Inr r')
     else if ns_next st \<noteq> length args
       then Inl (InvalidPlaceholder ''native placeholder count %d does not match argument count %d'' [IntArg (int (ns_next st)), IntArg (int (length args))])
     else Inr r')"

definition write_native_result :: "(gostring \<Rightarrow> gostring) \<Rightarrow> dialect \<Rightarrow> gostring \<Rightarrow> gostring \<Rightarrow> 'v list \<Rightarrow> 'v writer" where
  "write_native_result L d engine sql args r =
     (if engine \<noteq> dialect_name d then Inl (NativeEngineMismatch engine (dialect_name d))
      else (case scan L sql (Some engine) of
          Inl e \<Rightarrow> Inl (NativeScan e)
        | Inr res \<Rightarrow>
            if semicolons res \<noteq> [] then Inl (RenderFailure ''embedded SQL must not contain an executable semicolon'' [])
            else rbind (rfold (native_step d sql args) (placeholders res) (\<lparr>ns_used = {}, ns_next = 0, ns_last = 0\<rparr>, r))
              (\<lambda>(st, r'). native_finish d sql args st r')))"

subsection \<open>Sources\<close>

record visible_source =
  vs_qualifier :: gostring
  vs_schema :: gostring
  vs_descriptor :: gostring

definition visible_source_from_table :: "'v relation_ref \<Rightarrow> visible_source" where
  "visible_source_from_table table = \<lparr>vs_qualifier = rel_qualifier table, vs_schema = rel_qualifier_schema table,
     vs_descriptor = qualified_name (rel_definition table)\<rparr>"

definition source_identifiers_conflict :: "dialect \<Rightarrow> visible_source \<Rightarrow> visible_source \<Rightarrow> bool" where
  "source_identifiers_conflict d left right =
     (if \<not> identifiers_equal d (vs_qualifier left) (vs_qualifier right) then False
      else if vs_schema left \<noteq> [] \<and> vs_schema right \<noteq> [] then identifiers_equal d (vs_schema left) (vs_schema right)
      else True)"

definition add_source :: "dialect \<Rightarrow> (gostring \<times> nat) list \<Rightarrow> 'v relation_ref \<Rightarrow> visible_source list \<Rightarrow> render_error + visible_source list" where
  "add_source d ctes table sources =
     (if rel_cte_name table \<noteq> [] \<and> (rel_cte_name table, rel_cte_identity table) \<notin> set ctes
        then Inl (RenderFailure ''CTE %q is not defined by this SELECT'' [QuotedArg (rel_cte_name table)])
      else (let candidate = visible_source_from_table table in
        case find (\<lambda>existing. source_identifiers_conflict d existing candidate) sources of
          Some existing \<Rightarrow> Inl (RenderFailure ''sources %q and %q share the rendered qualifier %q in the %s dialect; use a distinct alias''
            [QuotedArg (vs_descriptor existing), QuotedArg (vs_descriptor candidate), QuotedArg (vs_qualifier candidate), QuotedArg (dialect_name d)])
        | None \<Rightarrow> Inr (sources @ [candidate])))"

definition cte_names_collide :: "dialect \<Rightarrow> 'v cte list \<Rightarrow> (gostring \<times> gostring) option" where
  "cte_names_collide d ctes =
     find (\<lambda>(left, name). identifiers_equal d left name)
       (concat (map (\<lambda>i. map (\<lambda>j. (cte_name (ctes ! j), cte_name (ctes ! i))) [0..<i]) [0..<length ctes]))"

definition validate_select_sources :: "dialect \<Rightarrow> (gostring \<times> nat) list \<Rightarrow> 'v cte list \<Rightarrow> 'v relation_ref list \<Rightarrow> render_error + unit" where
  "validate_select_sources d scope ctes sources = (case cte_names_collide d ctes of
       Some (left, name) \<Rightarrow> Inl (RenderFailure ''CTE names %q and %q collide in the %s dialect'' [QuotedArg left, QuotedArg name, QuotedArg (dialect_name d)])
     | None \<Rightarrow> rbind (rfold (add_source d (scope @ map (\<lambda>c. (cte_name c, cte_id c)) ctes)) sources []) (\<lambda>_. Inr ()))"

end
