(* ===== verification/Render_Schema.thy ===== *)
theory Render_Schema
  imports Render_Core
begin

text \<open>
  \<open>CREATE TABLE\<close> and \<open>CREATE INDEX\<close> statements of package \<open>render\<close> (\<open>render/schema.go\<close>). A
  descriptor can say more than these statements can: the facts about columns, keys, constraints,
  references, indexes and table options that a dialect cannot express are refused with an error
  of their own, while the kind of the table is not looked at. What a writer appends to the builder is returned as text: on an error
  the statement is discarded.
\<close>

subsection \<open>Errors\<close>

text \<open>One constructor per error type, with its fields; grouped by what the fact is about.\<close>

datatype index_error =
    IndexMethodError gostring gostring
  | PartialIndexError gostring sql_text gostring
  | ExpressionIndexError gostring "sql_text list"
  | IndexIncludeColumnsError gostring "gostring list"
  | IndexInvisibleError gostring
  | IndexKeyDetailsError gostring "index_key_def list"
  | IndexNotValidError gostring
  | IndexStorageParametersError gostring "(gostring \<times> gostring) list"
  | IndexTablespaceError gostring gostring
  | IndexReplicaIdentityError gostring
  | IndexNullsNotDistinctError gostring

datatype foreign_key_error =
    ForeignKeyMatchError gostring match_type
  | ForeignKeyDeferrabilityError gostring deferrability
  | ForeignKeyNotValidError gostring
  | ForeignKeyNotEnforcedError gostring
  | ForeignKeyTemporalError gostring
  | ForeignKeyDeleteSetColumnsError gostring "gostring list"

datatype check_error =
    CheckNoInheritError gostring
  | CheckNotValidError gostring
  | CheckNotEnforcedError gostring

datatype unique_error =
    UniqueDeferrabilityError gostring deferrability
  | UniqueNullsNotDistinctError gostring
  | UniqueIncludeColumnsError gostring "gostring list"
  | UniqueConflictResolutionError gostring conflict_resolution
  | UniqueKeyDetailsError gostring "index_key_def list"
  | UniqueTemporalError gostring
  | UniqueStorageParametersError gostring "(gostring \<times> gostring) list"
  | UniqueTablespaceError gostring gostring
  | UniqueReplicaIdentityError gostring
  | UniqueCollationsError gostring "(gostring \<times> gostring) list"

datatype table_error =
    TableStrictError gostring
  | TableWithoutRowIDError gostring
  | VirtualTableError gostring gostring
  | PrimaryKeyAutoincrementError gostring
  | PrimaryKeyConflictResolutionError gostring conflict_resolution
  | ExclusionConstraintError gostring

datatype column_error =
    GeneratedColumnError gostring sql_text generated_storage
  | IdentityColumnError gostring identity_generation gostring gostring
  | IntegerDisplayWidthError gostring int
  | IntegerZeroFillError gostring
  | DecimalUnsignedError gostring
  | DecimalZeroFillError gostring
  | NativeTypeUnsupported gostring gostring gostring native_type_def
  | ColumnTypeError gostring dialect_error
  | NativeTypeError dialect_error

datatype schema_error =
    NoDialect
  | InvalidTable gostring validation_error
  | NameError gostring render_error
  | IndexError gostring index_error
  | ForeignKeyError gostring foreign_key_error
  | CheckError gostring check_error
  | UniqueError gostring unique_error
  | TableError gostring table_error
  | ColumnError gostring column_error
  | UnboundedText gostring gostring gostring
  | IndexSchemaError gostring gostring gostring
  | CrossSchemaReference gostring gostring gostring gostring

subsection \<open>Names\<close>

definition ddl_name :: "dialect \<Rightarrow> gostring \<Rightarrow> schema_error + gostring" where
  "ddl_name d name = map_sum (NameError (dialect_name d)) id (quote_ident d name)"

definition ddl_qualified :: "dialect \<Rightarrow> gostring \<Rightarrow> gostring \<Rightarrow> schema_error + gostring" where
  "ddl_qualified d schema name = map_sum (NameError (dialect_name d)) id (quote_qualified d schema name)"

fun quoted_names :: "dialect \<Rightarrow> gostring list \<Rightarrow> schema_error + gostring list" where
  "quoted_names d [] = Inr []"
| "quoted_names d (name # names) = rbind (ddl_name d name) (\<lambda>q. rbind (quoted_names d names) (\<lambda>qs. Inr (q # qs)))"

text \<open>A definition under a constraint name, when there is one.\<close>

definition named_constraint :: "dialect \<Rightarrow> gostring \<Rightarrow> gostring \<Rightarrow> schema_error + gostring" where
  "named_constraint d name def =
     (if name = [] then Inr def else rbind (ddl_name d name) (\<lambda>q. Inr (''CONSTRAINT '' @ q @ '' '' @ def)))"

subsection \<open>Columns\<close>

definition identity_clause :: "dialect \<Rightarrow> column_def \<Rightarrow> schema_error + gostring" where
  "identity_clause d c = (let e = dialect_name d; refuse = (\<lambda>reason. Inl (ColumnError e (IdentityColumnError (col_name c) (col_identity c) e reason))) in
     if e = ''postgresql'' \<and> col_identity c = ''ALWAYS'' then Inr '' GENERATED ALWAYS AS IDENTITY''
     else if e = ''postgresql'' \<and> col_identity c = ''BY DEFAULT'' then Inr '' GENERATED BY DEFAULT AS IDENTITY''
     else if e = ''mysql'' then
       (if col_identity c = ''BY DEFAULT'' then Inr '' AUTO_INCREMENT''
        else refuse (''MySQL'' @ [CHR 0x27] @ ''s AUTO_INCREMENT has no form that rejects an explicit value''))
     else refuse ''this dialect has no identity column feature'')"

definition column_facts :: "column_def \<Rightarrow> column_error + unit" where
  "column_facts c =
     (if col_generated_expression c \<noteq> [] then Inl (GeneratedColumnError (col_name c) (col_generated_expression c) (col_generated_storage c))
      else (case col_type c of
          Some (IntegerType u w z) \<Rightarrow>
            (case w of
               Some n \<Rightarrow> Inl (IntegerDisplayWidthError (col_name c) n)
             | None \<Rightarrow> if z then Inl (IntegerZeroFillError (col_name c)) else Inr ())
        | Some (DecimalType p s u z) \<Rightarrow>
            (if z then Inl (DecimalZeroFillError (col_name c))
             else if u then Inl (DecimalUnsignedError (col_name c)) else Inr ())
        | _ \<Rightarrow> Inr ()))"

definition column_type_text :: "(gostring \<Rightarrow> gostring) \<Rightarrow> dialect \<Rightarrow> gostring \<Rightarrow> column_def \<Rightarrow> column_error + gostring" where
  "column_type_text U d table_name c = (case col_native_type c of
       Some n \<Rightarrow> (case native_type_name U (base d) n of
            Inl e \<Rightarrow> Inl (NativeTypeError e)
          | Inr None \<Rightarrow> Inl (NativeTypeUnsupported (dialect_name d) table_name (col_name c) n)
          | Inr (Some s) \<Rightarrow> Inr s)
     | None \<Rightarrow> map_sum (ColumnTypeError (col_name c)) id (type_name (base d) c))"

definition collation_clause :: "dialect \<Rightarrow> column_def \<Rightarrow> schema_error + gostring" where
  "collation_clause d c = (if col_collation c = [] then Inr []
     else rbind (ddl_name d (col_collation c)) (\<lambda>q. Inr ('' COLLATE '' @ q)))"

definition column_definition :: "(gostring \<Rightarrow> gostring) \<Rightarrow> dialect \<Rightarrow> gostring \<Rightarrow> column_def \<Rightarrow> schema_error + gostring" where
  "column_definition U d table_name c = (let at = ColumnError (dialect_name d) in
     rbind (map_sum at id (column_facts c)) (\<lambda>_.
     rbind (ddl_name d (col_name c)) (\<lambda>name.
     rbind (map_sum at id (column_type_text U d table_name c)) (\<lambda>typ.
     rbind (collation_clause d c) (\<lambda>collation.
     rbind (if col_identity c = [] then Inr [] else identity_clause d c) (\<lambda>identity.
     Inr (name @ '' '' @ typ @ collation @ (if col_nullable c then [] else '' NOT NULL'') @
       (if col_default c = [] then [] else '' DEFAULT '' @ col_default c) @ identity)))))))"

definition reject_unbounded_mysql_text :: "dialect \<Rightarrow> table_def \<Rightarrow> gostring list \<Rightarrow> gostring \<Rightarrow> schema_error + unit" where
  "reject_unbounded_mysql_text d t names place =
     (if dialect_name d \<noteq> ''mysql'' then Inr ()
      else rfold (\<lambda>name _. case table_column t name of
          None \<Rightarrow> Inr ()
        | Some c \<Rightarrow> (case col_type c of
             Some (TextType None f) \<Rightarrow> Inl (UnboundedText (dialect_name d) name place)
           | _ \<Rightarrow> Inr ())) names ())"

subsection \<open>Constraints\<close>

definition unique_facts :: "unique_def \<Rightarrow> unique_error + unit" where
  "unique_facts u = (let n = uq_name u in
     rbind (check (uq_deferrable u = []) (UniqueDeferrabilityError n (uq_deferrable u))) (\<lambda>_.
     rbind (check (\<not> uq_nulls_not_distinct u) (UniqueNullsNotDistinctError n)) (\<lambda>_.
     rbind (check (uq_include_columns u = []) (UniqueIncludeColumnsError n (uq_include_columns u))) (\<lambda>_.
     rbind (check (uq_on_conflict u = []) (UniqueConflictResolutionError n (uq_on_conflict u))) (\<lambda>_.
     rbind (check (uq_keys u = []) (UniqueKeyDetailsError n (uq_keys u))) (\<lambda>_.
     rbind (check (\<not> uq_temporal u) (UniqueTemporalError n)) (\<lambda>_.
     rbind (check (uq_storage_parameters u = []) (UniqueStorageParametersError n (uq_storage_parameters u))) (\<lambda>_.
     rbind (check (uq_tablespace u = []) (UniqueTablespaceError n (uq_tablespace u))) (\<lambda>_.
     rbind (check (\<not> uq_replica_identity u) (UniqueReplicaIdentityError n)) (\<lambda>_.
     check (uq_collations u = []) (UniqueCollationsError n (uq_collations u))))))))))))"

definition unique_definition :: "dialect \<Rightarrow> table_def \<Rightarrow> unique_def \<Rightarrow> schema_error + gostring" where
  "unique_definition d t u =
     rbind (map_sum (UniqueError (dialect_name d)) id (unique_facts u)) (\<lambda>_.
     rbind (reject_unbounded_mysql_text d t (uq_columns u) ''a unique constraint'') (\<lambda>_.
     rbind (quoted_names d (uq_columns u)) (\<lambda>columns.
     named_constraint d (uq_name u) (''UNIQUE ('' @ join '', '' columns @ '')''))))"

definition check_facts :: "check_def \<Rightarrow> check_error + unit" where
  "check_facts k =
     rbind (check (\<not> ck_no_inherit k) (CheckNoInheritError (ck_name k))) (\<lambda>_.
     rbind (check (\<not> ck_not_valid k) (CheckNotValidError (ck_name k))) (\<lambda>_.
     check (\<not> ck_not_enforced k) (CheckNotEnforcedError (ck_name k))))"

definition check_definition :: "dialect \<Rightarrow> check_def \<Rightarrow> schema_error + gostring" where
  "check_definition d k =
     rbind (map_sum (CheckError (dialect_name d)) id (check_facts k)) (\<lambda>_.
     named_constraint d (ck_name k) (''CHECK ('' @ ck_expression k @ '')''))"

definition qualified_referenced_table :: "dialect \<Rightarrow> table_def \<Rightarrow> foreign_key_def \<Rightarrow> schema_error + gostring" where
  "qualified_referenced_table d t f =
     (if fk_referenced_schema f = [] then ddl_name d (fk_referenced_table f)
      else if dialect_supports d QualifiedReference then ddl_qualified d (fk_referenced_schema f) (fk_referenced_table f)
      else if fk_referenced_schema f = tb_schema t then ddl_name d (fk_referenced_table f)
      else Inl (CrossSchemaReference (dialect_name d) (tb_name t) (fk_referenced_table f) (fk_referenced_schema f)))"

definition foreign_key_facts :: "foreign_key_def \<Rightarrow> foreign_key_error + unit" where
  "foreign_key_facts f = (let n = fk_name f in
     rbind (check (fk_match f = []) (ForeignKeyMatchError n (fk_match f))) (\<lambda>_.
     rbind (check (fk_deferrable f = []) (ForeignKeyDeferrabilityError n (fk_deferrable f))) (\<lambda>_.
     rbind (check (\<not> fk_not_valid f) (ForeignKeyNotValidError n)) (\<lambda>_.
     rbind (check (\<not> fk_not_enforced f) (ForeignKeyNotEnforcedError n)) (\<lambda>_.
     rbind (check (\<not> fk_temporal f) (ForeignKeyTemporalError n)) (\<lambda>_.
     check (fk_delete_set_columns f = []) (ForeignKeyDeleteSetColumnsError n (fk_delete_set_columns f))))))))"

definition action_clause :: "dialect \<Rightarrow> gostring \<Rightarrow> reference_action \<Rightarrow> gostring" where
  "action_clause d clause act =
     (if act \<noteq> [] \<and> (act \<noteq> ''NO ACTION'' \<or> dialect_name d \<noteq> ''sqlite'') then clause @ act else [])"

definition foreign_key_definition :: "dialect \<Rightarrow> table_def \<Rightarrow> foreign_key_def \<Rightarrow> schema_error + gostring" where
  "foreign_key_definition d t f =
     rbind (map_sum (ForeignKeyError (dialect_name d)) id (foreign_key_facts f)) (\<lambda>_.
     rbind (quoted_names d (fk_columns f)) (\<lambda>columns.
     rbind (qualified_referenced_table d t f) (\<lambda>target.
     rbind (quoted_names d (fk_referenced_columns f)) (\<lambda>referenced.
     rbind (named_constraint d (fk_name f) (''FOREIGN KEY ('' @ join '', '' columns @ '') REFERENCES '' @ target @ '' ('' @ join '', '' referenced @ '')'')) (\<lambda>def.
     Inr (def @ action_clause d '' ON DELETE '' (fk_on_delete f) @ action_clause d '' ON UPDATE '' (fk_on_update f)))))))"

subsection \<open>Tables\<close>

definition sqlite_autoincrement_column :: "dialect \<Rightarrow> table_def \<Rightarrow> schema_error + gostring" where
  "sqlite_autoincrement_column d t = (let unsupported = Inl (TableError (dialect_name d) (PrimaryKeyAutoincrementError (tb_name t))) in
     if dialect_name d \<noteq> ''sqlite'' \<or> length (tb_primary_key t) \<noteq> 1 \<or> tb_primary_key_on_conflict t \<noteq> [] then unsupported
     else (case table_column t (tb_primary_key t ! 0) of
         None \<Rightarrow> unsupported
       | Some c \<Rightarrow>
           if col_type c \<noteq> Some (IntegerType False None False) \<or> col_nullable c \<or> col_default c \<noteq> [] \<or> col_native_type c \<noteq> None \<or>
              col_identity c \<noteq> [] \<or> col_generated_expression c \<noteq> [] \<or> col_collation c \<noteq> [] then unsupported
           else Inr (tb_primary_key t ! 0)))"

definition mysql_identity_column_leads_a_key :: "table_def \<Rightarrow> gostring \<Rightarrow> bool" where
  "mysql_identity_column_leads_a_key t name =
     ((tb_primary_key t \<noteq> [] \<and> tb_primary_key t ! 0 = name) \<or>
      list_ex (\<lambda>u. uq_columns u \<noteq> [] \<and> uq_columns u ! 0 = name) (tb_unique_constraints t))"

definition check_mysql_identity_keyness :: "dialect \<Rightarrow> table_def \<Rightarrow> schema_error + unit" where
  "check_mysql_identity_keyness d t = (let e = dialect_name d; refuse = (\<lambda>c reason. Inl (ColumnError e (IdentityColumnError (col_name c) (col_identity c) e reason))) in
     case filter (\<lambda>c. col_identity c \<noteq> []) (tb_columns t) of
       [] \<Rightarrow> Inr ()
     | [c] \<Rightarrow> if mysql_identity_column_leads_a_key t (col_name c) then Inr ()
              else refuse c ''MySQL requires an auto-increment column to be the leading column of a key''
     | _ # c # _ \<Rightarrow> refuse c ''MySQL allows only one auto-increment column per table'')"

fun definitions_of :: "('x \<Rightarrow> schema_error + gostring) \<Rightarrow> 'x list \<Rightarrow> schema_error + gostring list" where
  "definitions_of define [] = Inr []"
| "definitions_of define (x # xs) = rbind (define x) (\<lambda>def. rbind (definitions_of define xs) (\<lambda>defs. Inr (def # defs)))"

definition auto_column_definition :: "(gostring \<Rightarrow> gostring) \<Rightarrow> dialect \<Rightarrow> gostring \<Rightarrow> gostring \<Rightarrow> column_def \<Rightarrow> schema_error + gostring" where
  "auto_column_definition U d table_name auto_column c = rbind (column_definition U d table_name c) (\<lambda>def.
     Inr (if col_name c = auto_column then def @ '' PRIMARY KEY AUTOINCREMENT'' else def))"

definition primary_key_definition :: "dialect \<Rightarrow> table_def \<Rightarrow> gostring \<Rightarrow> schema_error + gostring list" where
  "primary_key_definition d t auto_column =
     (if tb_primary_key t = [] then Inr []
      else if tb_primary_key_on_conflict t \<noteq> []
        then Inl (TableError (dialect_name d) (PrimaryKeyConflictResolutionError (tb_name t) (tb_primary_key_on_conflict t)))
      else rbind (reject_unbounded_mysql_text d t (tb_primary_key t) ''a primary key'') (\<lambda>_.
        if auto_column \<noteq> [] then Inr []
        else rbind (quoted_names d (tb_primary_key t)) (\<lambda>columns. Inr [''PRIMARY KEY ('' @ join '', '' columns @ '')''])))"

definition table_facts :: "table_def \<Rightarrow> table_error + unit" where
  "table_facts t =
     rbind (check (tb_virtual_table_module t = []) (VirtualTableError (tb_name t) (tb_virtual_table_module t))) (\<lambda>_.
     rbind (check (\<not> tb_strict t) (TableStrictError (tb_name t))) (\<lambda>_.
     rbind (check (\<not> tb_without_rowid t) (TableWithoutRowIDError (tb_name t))) (\<lambda>_.
     check (\<not> (tb_primary_key_autoincrement t \<and> tb_primary_key_on_conflict t \<noteq> []))
       (PrimaryKeyConflictResolutionError (tb_name t) (tb_primary_key_on_conflict t)))))"

definition write_create_table :: "(gostring \<Rightarrow> gostring) \<Rightarrow> dialect \<Rightarrow> table_def \<Rightarrow> schema_error + gostring" where
  "write_create_table U d t =
     rbind (map_sum (TableError (dialect_name d)) id (table_facts t)) (\<lambda>_.
     rbind (if dialect_name d = ''mysql'' then check_mysql_identity_keyness d t else Inr ()) (\<lambda>_.
     rbind (if tb_primary_key_autoincrement t then sqlite_autoincrement_column d t else Inr []) (\<lambda>auto_column.
     rbind (ddl_qualified d (tb_schema t) (tb_name t)) (\<lambda>name.
     rbind (definitions_of (auto_column_definition U d (tb_name t) auto_column) (tb_columns t)) (\<lambda>columns.
     rbind (primary_key_definition d t auto_column) (\<lambda>key.
     rbind (definitions_of (unique_definition d t) (tb_unique_constraints t)) (\<lambda>uniques.
     rbind (definitions_of (check_definition d) (tb_checks t)) (\<lambda>checks.
     rbind (case tb_exclusion_constraints t of [] \<Rightarrow> Inr () | x # _ \<Rightarrow> Inl (TableError (dialect_name d) (ExclusionConstraintError (ex_name x)))) (\<lambda>_.
     rbind (definitions_of (foreign_key_definition d t) (tb_foreign_keys t)) (\<lambda>keys.
     Inr (''CREATE TABLE '' @ name @ '' ('' @ join '', '' (columns @ key @ uniques @ checks @ keys) @ '')'')))))))))))"

definition create_table :: "unicode_tables \<Rightarrow> (gostring \<Rightarrow> gostring) \<Rightarrow> dialect option \<Rightarrow> table_def \<Rightarrow> schema_error + gostring" where
  "create_table T U d t = (case d of
       None \<Rightarrow> Inl NoDialect
     | Some d \<Rightarrow> rbind (map_sum (InvalidTable (dialect_name d)) id (table_validate T t)) (\<lambda>_. write_create_table U d t))"

subsection \<open>Indexes\<close>

definition index_facts :: "dialect \<Rightarrow> index_def \<Rightarrow> index_error + unit" where
  "index_facts d x = (let n = ix_name x in
     rbind (check (ix_method x = []) (IndexMethodError n (ix_method x))) (\<lambda>_.
     rbind (check (ix_predicate x = [] \<or> dialect_supports d PartialIndex) (PartialIndexError n (ix_predicate x) (dialect_name d))) (\<lambda>_.
     rbind (check (ix_expressions x = []) (ExpressionIndexError n (ix_expressions x))) (\<lambda>_.
     rbind (check (ix_include_columns x = []) (IndexIncludeColumnsError n (ix_include_columns x))) (\<lambda>_.
     rbind (check (\<not> ix_invisible x) (IndexInvisibleError n)) (\<lambda>_.
     rbind (check (ix_keys x = []) (IndexKeyDetailsError n (ix_keys x))) (\<lambda>_.
     rbind (check (\<not> ix_not_valid x) (IndexNotValidError n)) (\<lambda>_.
     rbind (check (ix_storage_parameters x = []) (IndexStorageParametersError n (ix_storage_parameters x))) (\<lambda>_.
     rbind (check (ix_tablespace x = []) (IndexTablespaceError n (ix_tablespace x))) (\<lambda>_.
     rbind (check (\<not> ix_replica_identity x) (IndexReplicaIdentityError n)) (\<lambda>_.
     check (\<not> ix_nulls_not_distinct x) (IndexNullsNotDistinctError n))))))))))))"

definition qualified_index_names :: "dialect \<Rightarrow> table_def \<Rightarrow> index_def \<Rightarrow> schema_error + (gostring \<times> gostring)" where
  "qualified_index_names d t x =
     (if tb_schema t = [] then rbind (ddl_name d (ix_name x)) (\<lambda>i. rbind (ddl_name d (tb_name t)) (\<lambda>n. Inr (i, n)))
      else if dialect_supports d QualifiedIndexTarget
        then rbind (ddl_name d (ix_name x)) (\<lambda>i. rbind (ddl_qualified d (tb_schema t) (tb_name t)) (\<lambda>n. Inr (i, n)))
      else if dialect_supports d QualifiedIndexName
        then rbind (ddl_qualified d (tb_schema t) (ix_name x)) (\<lambda>i. rbind (ddl_name d (tb_name t)) (\<lambda>n. Inr (i, n)))
      else Inl (IndexSchemaError (dialect_name d) (tb_name t) (tb_schema t)))"

definition write_create_index :: "dialect \<Rightarrow> table_def \<Rightarrow> index_def \<Rightarrow> schema_error + gostring" where
  "write_create_index d t x =
     rbind (map_sum (IndexError (dialect_name d)) id (index_facts d x)) (\<lambda>_.
     rbind (reject_unbounded_mysql_text d t (ix_columns x) ''an index'') (\<lambda>_.
     rbind (qualified_index_names d t x) (\<lambda>names.
     rbind (quoted_names d (ix_columns x)) (\<lambda>columns.
     Inr (''CREATE '' @ (if ix_unique x then ''UNIQUE '' else []) @ ''INDEX '' @ fst names @ '' ON '' @ snd names @ '' ('' @ join '', '' columns @ '')'' @
       (if ix_predicate x = [] then [] else '' WHERE '' @ ix_predicate x))))))"

definition create_indexes :: "unicode_tables \<Rightarrow> dialect option \<Rightarrow> table_def \<Rightarrow> schema_error + gostring list" where
  "create_indexes T d t = (case d of
       None \<Rightarrow> Inl NoDialect
     | Some d \<Rightarrow> rbind (map_sum (InvalidTable (dialect_name d)) id (table_validate T t)) (\<lambda>_.
         definitions_of (write_create_index d t) (tb_indexes t)))"

subsection \<open>What can be rendered\<close>

definition plain_unique :: "unique_def \<Rightarrow> bool" where
  "plain_unique u = (uq_deferrable u = [] \<and> \<not> uq_nulls_not_distinct u \<and> uq_include_columns u = [] \<and> uq_on_conflict u = [] \<and> uq_keys u = [] \<and>
     \<not> uq_temporal u \<and> uq_storage_parameters u = [] \<and> uq_tablespace u = [] \<and> \<not> uq_replica_identity u \<and> uq_collations u = [])"

definition plain_check :: "check_def \<Rightarrow> bool" where
  "plain_check k = (\<not> ck_no_inherit k \<and> \<not> ck_not_valid k \<and> \<not> ck_not_enforced k)"

definition plain_foreign_key :: "foreign_key_def \<Rightarrow> bool" where
  "plain_foreign_key f = (fk_match f = [] \<and> fk_deferrable f = [] \<and> \<not> fk_not_valid f \<and> \<not> fk_not_enforced f \<and> \<not> fk_temporal f \<and> fk_delete_set_columns f = [])"

definition plain_index :: "index_def \<Rightarrow> bool" where
  "plain_index x = (ix_method x = [] \<and> ix_expressions x = [] \<and> ix_include_columns x = [] \<and> \<not> ix_invisible x \<and> ix_keys x = [] \<and> \<not> ix_not_valid x \<and>
     ix_storage_parameters x = [] \<and> ix_tablespace x = [] \<and> \<not> ix_replica_identity x \<and> \<not> ix_nulls_not_distinct x)"

text \<open>A type this dialect has a name for, without a display width, zero fill or unsigned decimals.\<close>

definition nameable :: "(gostring \<Rightarrow> gostring) \<Rightarrow> dialect \<Rightarrow> column_def \<Rightarrow> bool" where
  "nameable U d c = ((case col_type c of
       Some (IntegerType u w z) \<Rightarrow> w = None \<and> \<not> z
     | Some (DecimalType p s u z) \<Rightarrow> \<not> z \<and> \<not> u
     | _ \<Rightarrow> True) \<and>
     (case col_native_type c of
       Some n \<Rightarrow> \<exists>s. native_type_name U (base d) n = Inr (Some s)
     | None \<Rightarrow> \<exists>s. type_name (base d) c = Inr s))"

definition identity_known :: "dialect \<Rightarrow> column_def \<Rightarrow> bool" where
  "identity_known d c = (col_identity c = [] \<or> dialect_name d = ''postgresql'' \<and> col_identity c \<in> {''ALWAYS'', ''BY DEFAULT''} \<or>
     dialect_name d = ''mysql'' \<and> col_identity c = ''BY DEFAULT'')"

definition column_renderable :: "(gostring \<Rightarrow> gostring) \<Rightarrow> dialect \<Rightarrow> column_def \<Rightarrow> bool" where
  "column_renderable U d c = (col_generated_expression c = [] \<and> nameable U d c \<and> identity_known d c)"

text \<open>MySQL builds no key over a text column without a width.\<close>

definition key_bounded :: "dialect \<Rightarrow> table_def \<Rightarrow> gostring list \<Rightarrow> bool" where
  "key_bounded d t names = (dialect_name d = ''mysql'' \<longrightarrow> (\<forall>name \<in> set names. \<forall>c f. table_column t name = Some c \<longrightarrow> col_type c \<noteq> Some (TextType None f)))"

definition reference_reachable :: "dialect \<Rightarrow> table_def \<Rightarrow> foreign_key_def \<Rightarrow> bool" where
  "reference_reachable d t f = (fk_referenced_schema f = [] \<or> dialect_supports d QualifiedReference \<or> fk_referenced_schema f = tb_schema t)"

definition autoincrement_ok :: "dialect \<Rightarrow> table_def \<Rightarrow> bool" where
  "autoincrement_ok d t = (dialect_name d = ''sqlite'' \<and> (\<exists>name c. tb_primary_key t = [name] \<and> table_column t name = Some c \<and>
     col_type c = Some (IntegerType False None False) \<and> \<not> col_nullable c \<and> col_default c = [] \<and> col_native_type c = None \<and> col_identity c = [] \<and>
     col_generated_expression c = [] \<and> col_collation c = []))"

definition identity_keyed :: "table_def \<Rightarrow> bool" where
  "identity_keyed t = (case filter (\<lambda>c. col_identity c \<noteq> []) (tb_columns t) of
       [] \<Rightarrow> True
     | [c] \<Rightarrow> mysql_identity_column_leads_a_key t (col_name c)
     | _ \<Rightarrow> False)"

definition table_renderable :: "(gostring \<Rightarrow> gostring) \<Rightarrow> dialect \<Rightarrow> table_def \<Rightarrow> bool" where
  "table_renderable U d t = (tb_virtual_table_module t = [] \<and> \<not> tb_strict t \<and> \<not> tb_without_rowid t \<and> tb_primary_key_on_conflict t = [] \<and>
     tb_exclusion_constraints t = [] \<and> (tb_primary_key_autoincrement t \<longrightarrow> autoincrement_ok d t) \<and>
     (dialect_name d = ''mysql'' \<longrightarrow> identity_keyed t) \<and> list_all (column_renderable U d) (tb_columns t) \<and> key_bounded d t (tb_primary_key t) \<and>
     list_all (\<lambda>u. plain_unique u \<and> key_bounded d t (uq_columns u)) (tb_unique_constraints t) \<and> list_all plain_check (tb_checks t) \<and>
     list_all (\<lambda>f. plain_foreign_key f \<and> reference_reachable d t f) (tb_foreign_keys t))"

definition index_renderable :: "dialect \<Rightarrow> table_def \<Rightarrow> index_def \<Rightarrow> bool" where
  "index_renderable d t x = (plain_index x \<and> (ix_predicate x = [] \<or> dialect_supports d PartialIndex) \<and> key_bounded d t (ix_columns x) \<and>
     (tb_schema t = [] \<or> dialect_supports d QualifiedIndexTarget \<or> dialect_supports d QualifiedIndexName))"

lemma map_sum_Inr [simp]: "map_sum f id r = Inr y \<longleftrightarrow> r = Inr y"
  by (cases r) auto

text \<open>The text of a quoted name and of a name behind its schema.\<close>

definition quoted :: "dialect \<Rightarrow> gostring \<Rightarrow> gostring" where
  "quoted d n = bd_quote (base d) # replace_byte (bd_quote (base d)) [bd_quote (base d), bd_quote (base d)] n @ [bd_quote (base d)]"

definition schema_qualified :: "dialect \<Rightarrow> gostring \<Rightarrow> gostring \<Rightarrow> gostring" where
  "schema_qualified d schema n = (if schema = [] then quoted d n else quoted d schema @ ''.'' @ quoted d n)"

lemma quote_ident_Inr: "quote_ident d n = Inr q \<longleftrightarrow> identifier_ok n \<and> q = quoted d n"
  unfolding quoted_def quote_identifier_Inr [symmetric] quote_ident_def by (auto split: sum.split)

lemma ddl_name_Inr [simp]: "ddl_name d n = Inr q \<longleftrightarrow> identifier_ok n \<and> q = quoted d n"
  by (simp add: ddl_name_def quote_ident_Inr)

lemma ddl_qualified_Inr [simp]: "ddl_qualified d schema n = Inr q \<longleftrightarrow> identifier_ok n \<and> name_ok schema \<and> q = schema_qualified d schema n"
  by (auto simp: ddl_qualified_def quote_qualified_def quote_ident_Inr schema_qualified_def name_ok_def)

lemma quoted_names_Inr [simp]: "quoted_names d names = Inr qs \<longleftrightarrow> list_all identifier_ok names \<and> qs = map (quoted d) names"
  by (induction names arbitrary: qs) auto

definition under_name :: "dialect \<Rightarrow> gostring \<Rightarrow> gostring \<Rightarrow> gostring" where
  "under_name d n def = (if n = [] then def else ''CONSTRAINT '' @ quoted d n @ '' '' @ def)"

lemma named_constraint_Inr [simp]: "named_constraint d n def = Inr s \<longleftrightarrow> name_ok n \<and> s = under_name d n def"
  by (auto simp: named_constraint_def name_ok_def under_name_def)

lemma definitions_of_returns [simp]: "(\<exists>ds. definitions_of f xs = Inr ds) \<longleftrightarrow> list_all (\<lambda>x. \<exists>y. f x = Inr y) xs"
  by (induction xs) auto

lemma facts_iff [simp]:
  "unique_facts u = Inr v \<longleftrightarrow> plain_unique u"
  "check_facts k = Inr v \<longleftrightarrow> plain_check k"
  "foreign_key_facts f = Inr v \<longleftrightarrow> plain_foreign_key f"
  "index_facts d x = Inr v \<longleftrightarrow> plain_index x \<and> (ix_predicate x = [] \<or> dialect_supports d PartialIndex)"
  by (auto simp: unique_facts_def check_facts_def foreign_key_facts_def index_facts_def plain_unique_def plain_check_def plain_foreign_key_def
      plain_index_def Let_def)

lemma reject_unbounded_iff [simp]: "reject_unbounded_mysql_text d t names place = Inr v \<longleftrightarrow> key_bounded d t names"
proof -
  have "rfold (\<lambda>name _. case table_column t name of None \<Rightarrow> Inr () | Some c \<Rightarrow> (case col_type c of
             Some (TextType None f) \<Rightarrow> Inl (UnboundedText (dialect_name d) name place) | _ \<Rightarrow> Inr ())) names () = Inr v \<longleftrightarrow>
      (\<forall>name \<in> set names. \<forall>c f. table_column t name = Some c \<longrightarrow> col_type c \<noteq> Some (TextType None f))"
    by (induction names) (auto split: option.splits column_type.splits)
  then show ?thesis by (simp add: reject_unbounded_mysql_text_def key_bounded_def)
qed


subsection \<open>The texts of the definitions\<close>

lemma unique_definition_Inr [simp]:
  "unique_definition d t u = Inr s \<longleftrightarrow> plain_unique u \<and> key_bounded d t (uq_columns u) \<and> list_all identifier_ok (uq_columns u) \<and> name_ok (uq_name u) \<and>
     s = under_name d (uq_name u) (''UNIQUE ('' @ join '', '' (map (quoted d) (uq_columns u)) @ '')'')"
  by (auto simp: unique_definition_def)

lemma check_definition_Inr [simp]:
  "check_definition d k = Inr s \<longleftrightarrow> plain_check k \<and> name_ok (ck_name k) \<and> s = under_name d (ck_name k) (''CHECK ('' @ ck_expression k @ '')'')"
  by (auto simp: check_definition_def)

definition reference_text :: "dialect \<Rightarrow> table_def \<Rightarrow> foreign_key_def \<Rightarrow> gostring" where
  "reference_text d t f = (if dialect_supports d QualifiedReference then schema_qualified d (fk_referenced_schema f) (fk_referenced_table f)
     else quoted d (fk_referenced_table f))"

lemma qualified_referenced_table_Inr:
  "name_ok (fk_referenced_schema f) \<Longrightarrow> qualified_referenced_table d t f = Inr s \<longleftrightarrow>
     reference_reachable d t f \<and> identifier_ok (fk_referenced_table f) \<and> s = reference_text d t f"
  by (auto simp: qualified_referenced_table_def reference_reachable_def reference_text_def schema_qualified_def)

text \<open>SQLite writes the default action \<open>NO ACTION\<close> as no clause.\<close>

definition action_text :: "dialect \<Rightarrow> gostring \<Rightarrow> reference_action \<Rightarrow> gostring" where
  "action_text d keyword act = (if act = [] then []
     else if act = ''NO ACTION'' \<and> dialect_name d = ''sqlite'' then [] else '' ON '' @ keyword @ '' '' @ act)"

lemma action_clauses:
  "action_clause d '' ON DELETE '' act = action_text d ''DELETE'' act" "action_clause d '' ON UPDATE '' act = action_text d ''UPDATE'' act"
  by (simp_all add: action_clause_def action_text_def)

definition foreign_key_text :: "dialect \<Rightarrow> table_def \<Rightarrow> foreign_key_def \<Rightarrow> gostring" where
  "foreign_key_text d t f = under_name d (fk_name f) (''FOREIGN KEY ('' @ join '', '' (map (quoted d) (fk_columns f)) @ '') REFERENCES '' @ reference_text d t f @
     '' ('' @ join '', '' (map (quoted d) (fk_referenced_columns f)) @ '')'') @
     action_text d ''DELETE'' (fk_on_delete f) @ action_text d ''UPDATE'' (fk_on_update f)"

lemma foreign_key_definition_Inr:
  assumes "foreign_key_ok columns f" "\<forall>c \<in> columns. identifier_ok c"
  shows "foreign_key_definition d t f = Inr s \<longleftrightarrow> plain_foreign_key f \<and> reference_reachable d t f \<and> s = foreign_key_text d t f"
proof -
  have ok: "name_ok (fk_name f)" "name_ok (fk_referenced_schema f)" "identifier_ok (fk_referenced_table f)" "list_all identifier_ok (fk_referenced_columns f)"
    "list_all identifier_ok (fk_columns f)"
    using assms by (auto simp: foreign_key_ok_def key_columns_ok_def list_all_iff)
  show ?thesis
    by (auto simp: foreign_key_definition_def qualified_referenced_table_Inr [OF ok(2)] ok foreign_key_text_def action_clauses)
qed

definition type_text :: "(gostring \<Rightarrow> gostring) \<Rightarrow> dialect \<Rightarrow> column_def \<Rightarrow> gostring" where
  "type_text U d c = (case col_native_type c of
       Some n \<Rightarrow> (case native_type_name U (base d) n of Inr (Some s) \<Rightarrow> s | _ \<Rightarrow> [])
     | None \<Rightarrow> (case type_name (base d) c of Inr s \<Rightarrow> s | _ \<Rightarrow> []))"

definition identity_text :: "dialect \<Rightarrow> column_def \<Rightarrow> gostring" where
  "identity_text d c = (if col_identity c = [] then []
     else if dialect_name d = ''mysql'' then '' AUTO_INCREMENT''
     else '' GENERATED '' @ col_identity c @ '' AS IDENTITY'')"

definition column_text :: "(gostring \<Rightarrow> gostring) \<Rightarrow> dialect \<Rightarrow> column_def \<Rightarrow> gostring" where
  "column_text U d c = quoted d (col_name c) @ '' '' @ type_text U d c @ (if col_collation c = [] then [] else '' COLLATE '' @ quoted d (col_collation c)) @
     (if col_nullable c then [] else '' NOT NULL'') @ (if col_default c = [] then [] else '' DEFAULT '' @ col_default c) @ identity_text d c"

lemma column_facts_iff:
  "column_facts c = Inr v \<longleftrightarrow> col_generated_expression c = [] \<and> (case col_type c of
       Some (IntegerType u w z) \<Rightarrow> w = None \<and> \<not> z
     | Some (DecimalType p s u z) \<Rightarrow> \<not> z \<and> \<not> u
     | _ \<Rightarrow> True)"
  by (auto simp: column_facts_def split: option.splits column_type.splits)

lemma column_type_text_Inr:
  "column_type_text U d table_name c = Inr s \<longleftrightarrow> (case col_native_type c of
       Some n \<Rightarrow> native_type_name U (base d) n = Inr (Some s)
     | None \<Rightarrow> type_name (base d) c = Inr s)"
  by (auto simp: column_type_text_def split: option.splits sum.splits)

lemma identity_clause_Inr:
  "(if col_identity c = [] then Inr [] else identity_clause d c) = Inr s \<longleftrightarrow> identity_known d c \<and> s = identity_text d c"
  by (auto simp: identity_clause_def identity_known_def identity_text_def Let_def)

lemma column_definition_Inr:
  assumes "identifier_ok (col_name c)" "name_ok (col_collation c)"
  shows "column_definition U d table_name c = Inr s \<longleftrightarrow> column_renderable U d c \<and> s = column_text U d c"
proof -
  have collation: "collation_clause d c = Inr q \<longleftrightarrow> q = (if col_collation c = [] then [] else '' COLLATE '' @ quoted d (col_collation c))" for q
    using assms(2) by (auto simp: collation_clause_def name_ok_def)
  have typed: "column_type_text U d table_name c = Inr q \<longleftrightarrow> (\<exists>q'. column_type_text U d table_name c = Inr q') \<and> q = type_text U d c" for q
    by (auto simp: column_type_text_Inr type_text_def split: option.splits)
  have "column_definition U d table_name c = Inr s \<longleftrightarrow> (\<exists>v. column_facts c = Inr v) \<and> (\<exists>q. column_type_text U d table_name c = Inr q) \<and> identity_known d c \<and> s = column_text U d c"
    unfolding column_definition_def Let_def rbind_eq_Inr map_sum_Inr ddl_name_Inr collation identity_clause_Inr
    by (subst typed) (auto simp: assms(1) column_text_def)
  also have "\<dots> \<longleftrightarrow> column_renderable U d c \<and> s = column_text U d c"
    by (auto simp: column_facts_iff column_type_text_Inr column_renderable_def nameable_def split: option.splits)
  finally show ?thesis .
qed

subsection \<open>The texts of the statements\<close>

lemma definitions_of_Inr:
  assumes "\<And>x y. x \<in> set xs \<Longrightarrow> f x = Inr y \<longleftrightarrow> P x \<and> y = g x"
  shows "definitions_of f xs = Inr ds \<longleftrightarrow> list_all P xs \<and> ds = map g xs"
  using assms by (induction xs arbitrary: ds) auto

lemma table_facts_iff [simp]:
  "table_facts t = Inr v \<longleftrightarrow> tb_virtual_table_module t = [] \<and> \<not> tb_strict t \<and> \<not> tb_without_rowid t \<and>
     (tb_primary_key_autoincrement t \<longrightarrow> tb_primary_key_on_conflict t = [])"
  by (auto simp: table_facts_def)

lemma identity_keyness_iff [simp]: "check_mysql_identity_keyness d t = Inr v \<longleftrightarrow> identity_keyed t"
  by (auto simp: check_mysql_identity_keyness_def identity_keyed_def Let_def split: list.splits)

lemma autoincrement_column_Inr:
  "sqlite_autoincrement_column d t = Inr a \<longleftrightarrow> autoincrement_ok d t \<and> tb_primary_key_on_conflict t = [] \<and> a = tb_primary_key t ! 0"
  by (auto simp: sqlite_autoincrement_column_def autoincrement_ok_def Let_def length_Suc_conv split: option.splits if_splits)

definition key_text :: "dialect \<Rightarrow> table_def \<Rightarrow> gostring list" where
  "key_text d t = (if tb_primary_key t = [] \<or> tb_primary_key_autoincrement t then []
     else [''PRIMARY KEY ('' @ join '', '' (map (quoted d) (tb_primary_key t)) @ '')''])"

definition create_table_text :: "(gostring \<Rightarrow> gostring) \<Rightarrow> dialect \<Rightarrow> table_def \<Rightarrow> gostring" where
  "create_table_text U d t = ''CREATE TABLE '' @ schema_qualified d (tb_schema t) (tb_name t) @ '' ('' @ join '', '' (
     map (\<lambda>c. column_text U d c @ (if tb_primary_key_autoincrement t \<and> tb_primary_key t = [col_name c] then '' PRIMARY KEY AUTOINCREMENT'' else [])) (tb_columns t) @
     key_text d t @
     map (\<lambda>u. under_name d (uq_name u) (''UNIQUE ('' @ join '', '' (map (quoted d) (uq_columns u)) @ '')'')) (tb_unique_constraints t) @
     map (\<lambda>k. under_name d (ck_name k) (''CHECK ('' @ ck_expression k @ '')'')) (tb_checks t) @
     map (foreign_key_text d t) (tb_foreign_keys t)) @ '')''"

definition create_index_text :: "dialect \<Rightarrow> table_def \<Rightarrow> index_def \<Rightarrow> gostring" where
  "create_index_text d t x = (let target = tb_schema t = [] \<or> dialect_supports d QualifiedIndexTarget in
     ''CREATE '' @ (if ix_unique x then ''UNIQUE '' else []) @ ''INDEX '' @
     schema_qualified d (if target then [] else tb_schema t) (ix_name x) @ '' ON '' @
     schema_qualified d (if target then tb_schema t else []) (tb_name t) @ '' ('' @ join '', '' (map (quoted d) (ix_columns x)) @ '')'' @
     (if ix_predicate x = [] then [] else '' WHERE '' @ ix_predicate x))"

lemma table_names_ok:
  assumes "table_ok T t"
  shows "\<forall>c \<in> set (tb_columns t). identifier_ok (col_name c) \<and> name_ok (col_collation c)" "list_all identifier_ok (tb_primary_key t)"
    "identifier_ok (tb_name t)" "name_ok (tb_schema t)"
    "\<forall>f \<in> set (tb_foreign_keys t). foreign_key_ok (set (map col_name (tb_columns t))) f"
    "\<forall>u \<in> set (tb_unique_constraints t). plain_unique u \<longrightarrow> name_ok (uq_name u) \<and> list_all identifier_ok (uq_columns u)"
    "\<forall>k \<in> set (tb_checks t). name_ok (ck_name k)"
    "\<forall>x \<in> set (tb_indexes t). identifier_ok (ix_name x) \<and> (plain_index x \<longrightarrow> list_all identifier_ok (ix_columns x))"
proof -
  let ?columns = "set (map col_name (tb_columns t))"
  have parts: "list_all (column_ok (tb_virtual_table_module t)) (tb_columns t)" "list_all (unique_ok ?columns) (tb_unique_constraints t)"
    "list_all check_ok (tb_checks t)" "list_all (index_ok ?columns) (tb_indexes t)" "list_all (foreign_key_ok ?columns) (tb_foreign_keys t)"
    and key: "set (tb_primary_key t) \<subseteq> ?columns"
    and table: "identifier_ok (tb_name t)" "name_ok (tb_schema t)"
    using assms by (simp_all add: table_ok_def Let_def)
  show columns: "\<forall>c \<in> set (tb_columns t). identifier_ok (col_name c) \<and> name_ok (col_collation c)"
    using parts(1) by (simp add: column_ok_def list_all_iff)
  then have names: "\<forall>n \<in> ?columns. identifier_ok n" by simp
  then have inside: "list_all identifier_ok ns" if "set ns \<subseteq> ?columns" for ns using that unfolding list_all_iff by blast
  show "list_all identifier_ok (tb_primary_key t)" by (rule inside [OF key])
  show "identifier_ok (tb_name t)" "name_ok (tb_schema t)" by (fact table)+
  show "\<forall>f \<in> set (tb_foreign_keys t). foreign_key_ok ?columns f" using parts(5) by (simp add: list_all_iff)
  show "\<forall>k \<in> set (tb_checks t). name_ok (ck_name k)" using parts(3) by (simp add: list_all_iff check_ok_def)
  have unique: "set (uq_columns u) \<subseteq> ?columns \<and> name_ok (uq_name u)" if "unique_ok ?columns u" "plain_unique u" for u
    using that by (simp add: unique_ok_def plain_unique_def key_columns_ok_def)
  then show "\<forall>u \<in> set (tb_unique_constraints t). plain_unique u \<longrightarrow> name_ok (uq_name u) \<and> list_all identifier_ok (uq_columns u)"
    using parts(2) inside unfolding list_all_iff [of "unique_ok ?columns"] by blast
  have index: "set (ix_columns x) \<subseteq> ?columns" if "index_ok ?columns x" "plain_index x" for x
    using that by (simp add: index_ok_def plain_index_def key_columns_ok_def)
  have "identifier_ok (ix_name x)" if "index_ok ?columns x" for x using that by (simp add: index_ok_def)
  then show "\<forall>x \<in> set (tb_indexes t). identifier_ok (ix_name x) \<and> (plain_index x \<longrightarrow> list_all identifier_ok (ix_columns x))"
    using parts(4) inside index unfolding list_all_iff [of "index_ok ?columns"] by blast
qed

lemma columns_written:
  assumes "table_ok T t" "auto = (if tb_primary_key_autoincrement t then tb_primary_key t ! 0 else [])" "tb_primary_key_autoincrement t \<longrightarrow> length (tb_primary_key t) = 1"
  shows "definitions_of (auto_column_definition U d (tb_name t) auto) (tb_columns t) = Inr ds \<longleftrightarrow> list_all (column_renderable U d) (tb_columns t) \<and>
    ds = map (\<lambda>c. column_text U d c @ (if tb_primary_key_autoincrement t \<and> tb_primary_key t = [col_name c] then '' PRIMARY KEY AUTOINCREMENT'' else [])) (tb_columns t)"
proof (rule definitions_of_Inr)
  fix c y
  assume "c \<in> set (tb_columns t)"
  then have c: "identifier_ok (col_name c)" "name_ok (col_collation c)" using table_names_ok(1) [OF assms(1)] by auto
  then have "col_name c = auto \<longleftrightarrow> tb_primary_key_autoincrement t \<and> tb_primary_key t = [col_name c]"
    using assms(2,3) by (cases "tb_primary_key t") (auto simp: identifier_ok_def)
  then show "auto_column_definition U d (tb_name t) auto c = Inr y \<longleftrightarrow> column_renderable U d c \<and>
      y = column_text U d c @ (if tb_primary_key_autoincrement t \<and> tb_primary_key t = [col_name c] then '' PRIMARY KEY AUTOINCREMENT'' else [])"
    by (auto simp: auto_column_definition_def column_definition_Inr [OF c])
qed

lemma keys_written:
  assumes "table_ok T t" "auto = (if tb_primary_key_autoincrement t then tb_primary_key t ! 0 else [])" "tb_primary_key_autoincrement t \<longrightarrow> length (tb_primary_key t) = 1"
  shows "primary_key_definition d t auto = Inr k \<longleftrightarrow> tb_primary_key_on_conflict t = [] \<and> key_bounded d t (tb_primary_key t) \<and> k = key_text d t"
proof -
  have stated: "tb_primary_key t = [] \<Longrightarrow> tb_primary_key_on_conflict t = [] \<and> \<not> tb_primary_key_autoincrement t"
    using assms(1) by (simp add: table_ok_def Let_def)
  have "auto = [] \<longleftrightarrow> \<not> tb_primary_key_autoincrement t"
    using assms(2,3) table_names_ok(2) [OF assms(1)] by (cases "tb_primary_key t") (auto simp: identifier_ok_def)
  then show ?thesis using stated table_names_ok(2) [OF assms(1)]
    by (auto simp: primary_key_definition_def key_text_def key_bounded_def)
qed

lemma write_create_table_Inr:
  assumes "table_ok T t"
  shows "write_create_table U d t = Inr sql \<longleftrightarrow> table_renderable U d t \<and> sql = create_table_text U d t"
proof -
  let ?auto = "if tb_primary_key_autoincrement t then tb_primary_key t ! 0 else []"
  note names = table_names_ok [OF assms]
  have auto: "(if tb_primary_key_autoincrement t then sqlite_autoincrement_column d t else Inr []) = Inr a \<longleftrightarrow>
      (tb_primary_key_autoincrement t \<longrightarrow> autoincrement_ok d t \<and> tb_primary_key_on_conflict t = []) \<and> a = ?auto" for a
    by (auto simp: autoincrement_column_Inr)
  have one: "autoincrement_ok d t \<Longrightarrow> length (tb_primary_key t) = 1" by (auto simp: autoincrement_ok_def)
  have uniques: "definitions_of (unique_definition d t) (tb_unique_constraints t) = Inr ds \<longleftrightarrow>
      list_all (\<lambda>u. plain_unique u \<and> key_bounded d t (uq_columns u)) (tb_unique_constraints t) \<and>
      ds = map (\<lambda>u. under_name d (uq_name u) (''UNIQUE ('' @ join '', '' (map (quoted d) (uq_columns u)) @ '')'')) (tb_unique_constraints t)" for ds
    by (rule definitions_of_Inr) (use names(6) in auto)
  have checks: "definitions_of (check_definition d) (tb_checks t) = Inr ds \<longleftrightarrow> list_all plain_check (tb_checks t) \<and>
      ds = map (\<lambda>k. under_name d (ck_name k) (''CHECK ('' @ ck_expression k @ '')'')) (tb_checks t)" for ds
    by (rule definitions_of_Inr) (use names(7) in auto)
  have keys: "definitions_of (foreign_key_definition d t) (tb_foreign_keys t) = Inr ds \<longleftrightarrow>
      list_all (\<lambda>f. plain_foreign_key f \<and> reference_reachable d t f) (tb_foreign_keys t) \<and> ds = map (foreign_key_text d t) (tb_foreign_keys t)" for ds
    by (rule definitions_of_Inr) (use foreign_key_definition_Inr names(1,5) in auto)
  have exclusions: "(case tb_exclusion_constraints t of [] \<Rightarrow> Inr () | x # _ \<Rightarrow> Inl (TableError (dialect_name d) (ExclusionConstraintError (ex_name x)))) = Inr v \<longleftrightarrow>
      tb_exclusion_constraints t = []" for v by (cases "tb_exclusion_constraints t") auto
  have identity: "(if dialect_name d = ''mysql'' then check_mysql_identity_keyness d t else Inr ()) = Inr v \<longleftrightarrow> (dialect_name d = ''mysql'' \<longrightarrow> identity_keyed t)" for v
    by simp
  show ?thesis
  proof (cases "tb_primary_key_autoincrement t \<longrightarrow> autoincrement_ok d t")
    case True
    then have "tb_primary_key_autoincrement t \<longrightarrow> length (tb_primary_key t) = 1" using one by blast
    note written = columns_written [OF assms refl this] keys_written [OF assms refl this]
    show ?thesis
      unfolding write_create_table_def rbind_eq_Inr map_sum_Inr table_facts_iff identity auto ddl_qualified_Inr uniques checks keys exclusions
      using True names(3,4) by (auto simp: written table_renderable_def create_table_text_def)
  next
    case False
    then show ?thesis
      unfolding write_create_table_def rbind_eq_Inr map_sum_Inr table_facts_iff identity auto by (auto simp: table_renderable_def)
  qed
qed

lemma write_create_index_Inr:
  assumes "table_ok T t" "x \<in> set (tb_indexes t)"
  shows "write_create_index d t x = Inr sql \<longleftrightarrow> index_renderable d t x \<and> sql = create_index_text d t x"
proof -
  have index: "identifier_ok (ix_name x)" "plain_index x \<Longrightarrow> list_all identifier_ok (ix_columns x)" using table_names_ok(8) [OF assms(1)] assms(2) by auto
  note table = table_names_ok(3,4) [OF assms(1)]
  have "qualified_index_names d t x = Inr names \<longleftrightarrow> (tb_schema t = [] \<or> dialect_supports d QualifiedIndexTarget \<or> dialect_supports d QualifiedIndexName) \<and>
      (let target = tb_schema t = [] \<or> dialect_supports d QualifiedIndexTarget in
       names = (schema_qualified d (if target then [] else tb_schema t) (ix_name x), schema_qualified d (if target then tb_schema t else []) (tb_name t)))" for names
    using index(1) table by (auto simp: qualified_index_names_def schema_qualified_def Let_def)
  then show ?thesis using index
    by (auto simp: write_create_index_def index_renderable_def create_index_text_def Let_def)
qed

text \<open>
  C17. \<open>CreateTable\<close> and \<open>CreateIndexes\<close> against a declarative reading. They succeed exactly on a
  valid descriptor that meets the stated conditions: a table that is not virtual, strict or
  without row IDs, columns whose type and identity the dialect has, an autoincrement key only
  in SQLite's form, for MySQL at most one identity column, leading a key, and no key over text
  of unbounded width, constraints and indexes without the details they cannot write, and
  references the dialect can qualify. The statements are then the texts \<open>create_table_text\<close> and
  \<open>create_index_text\<close>: the columns, the primary key, the unique constraints, the checks and the
  foreign keys each in the order declared. The kind of the descriptor, its operations and row
  name, and a column's Go binding and hidden flag are not among the conditions and do not
  occur in the texts: a view is created as a table.
\<close>
theorem create_statements_exact:
  "(create_table T U (Some d) t = Inr sql \<longleftrightarrow> table_ok T t \<and> table_renderable U d t \<and> sql = create_table_text U d t) \<and>
   (create_indexes T (Some d) t = Inr sqls \<longleftrightarrow> table_ok T t \<and> list_all (index_renderable d t) (tb_indexes t) \<and> sqls = map (create_index_text d t) (tb_indexes t))"
proof (cases "table_ok T t")
  case True
  then have "table_validate T t = Inr ()" by (simp add: validate_spec)
  moreover have "definitions_of (write_create_index d t) (tb_indexes t) = Inr sqls \<longleftrightarrow>
      list_all (index_renderable d t) (tb_indexes t) \<and> sqls = map (create_index_text d t) (tb_indexes t)"
    by (rule definitions_of_Inr) (rule write_create_index_Inr [OF True])
  ultimately show ?thesis using True by (simp add: create_table_def create_indexes_def write_create_table_Inr)
next
  case False
  then have "table_validate T t \<noteq> Inr u" for u using validate_spec [of T t] by (cases u) auto
  then show ?thesis using False by (simp add: create_table_def create_indexes_def)
qed

text \<open>The kind is not looked at: for a descriptor of a view the text of the table is returned.\<close>

lemma parts_kind [simp]:
  "table_facts (t\<lparr>tb_kind := k\<rparr>) = table_facts t"
  "check_mysql_identity_keyness d (t\<lparr>tb_kind := k\<rparr>) = check_mysql_identity_keyness d t"
  "sqlite_autoincrement_column d (t\<lparr>tb_kind := k\<rparr>) = sqlite_autoincrement_column d t"
  "primary_key_definition d (t\<lparr>tb_kind := k\<rparr>) = primary_key_definition d t"
  "unique_definition d (t\<lparr>tb_kind := k\<rparr>) = unique_definition d t"
  "foreign_key_definition d (t\<lparr>tb_kind := k\<rparr>) = foreign_key_definition d t"
  by (simp_all add: fun_eq_iff table_facts_def check_mysql_identity_keyness_def sqlite_autoincrement_column_def
      primary_key_definition_def unique_definition_def reject_unbounded_mysql_text_def foreign_key_definition_def qualified_referenced_table_def
      mysql_identity_column_leads_a_key_def table_column_def Let_def cong: if_cong option.case_cong list.case_cong)

lemma write_create_table_kind: "write_create_table U d (t\<lparr>tb_kind := k\<rparr>) = write_create_table U d t"
  unfolding write_create_table_def by simp

theorem view_is_created_as_a_table:
  assumes "table_validate T (t\<lparr>tb_kind := ''view''\<rparr>) = Inr ()"
  shows "create_table T U (Some d) (t\<lparr>tb_kind := ''view''\<rparr>) = write_create_table U d t"
  using assms by (simp add: create_table_def write_create_table_kind)

end
