(* ===== verification/Schema_Options.thy ===== *)
theory Schema_Options
  imports Schema_Table
begin

text \<open>
  The option form of a table descriptor: \<open>NewTableDef\<close> with the table options
  (\<open>table_options.go\<close>), the column constructors and options (\<open>column_options.go\<close>) and
  the foreign key options (\<open>foreign_key_options.go\<close>). An option value is a constructor of
  a datatype; its \<open>apply\<close> method is a branch of the apply function. A nil option, which
  the code tests for, is a constructor of its own.
\<close>

subsection \<open>Columns\<close>

datatype column_option = NilColumnOption | Nullable | Default sql_text | Identity identity_generation
  | Unsigned | Width int | Fixed

definition apply_column :: "column_option \<Rightarrow> column_def \<Rightarrow> validation_error + column_def" where
  "apply_column opt c = (case opt of
       NilColumnOption \<Rightarrow> Inl (ValidationError ''columns'' ''option for column %q must not be nil'' [QuotedArg (col_name c)])
     | Nullable \<Rightarrow> Inr (c\<lparr>col_nullable := True\<rparr>)
     | Default expr \<Rightarrow> Inr (c\<lparr>col_default := expr\<rparr>)
     | Identity g \<Rightarrow> Inr (c\<lparr>col_identity := g\<rparr>)
     | Unsigned \<Rightarrow> (case col_type c of
           Some (IntegerType u w z) \<Rightarrow> Inr (c\<lparr>col_type := Some (IntegerType True w z)\<rparr>)
         | _ \<Rightarrow> Inl (ValidationError ''columns'' ''column %q: Unsigned only applies to integer columns'' [QuotedArg (col_name c)]))
     | Width n \<Rightarrow> (case col_type c of
           Some (TextType w f) \<Rightarrow> Inr (c\<lparr>col_type := Some (TextType (Some n) f)\<rparr>)
         | _ \<Rightarrow> Inl (ValidationError ''columns'' ''column %q: Width only applies to text columns'' [QuotedArg (col_name c)]))
     | Fixed \<Rightarrow> (case col_type c of
           Some (TextType w f) \<Rightarrow> Inr (c\<lparr>col_type := Some (TextType w True)\<rparr>)
         | _ \<Rightarrow> Inl (ValidationError ''columns'' ''column %q: Fixed only applies to text columns'' [QuotedArg (col_name c)])))"

text \<open>\<open>column\<close>: the column, or the first error an option reported.\<close>

definition build_column :: "gostring \<Rightarrow> column_type \<Rightarrow> column_option list \<Rightarrow> validation_error + column_def" where
  "build_column name ct opts = rfold apply_column opts (zero_column\<lparr>col_name := name, col_type := Some ct\<rparr>)"

subsection \<open>Foreign keys\<close>

datatype foreign_key_option = NilForeignKeyOption | Named gostring
  | ReferencesIn gostring gostring "gostring list" | OnDelete reference_action | OnUpdate reference_action

definition apply_foreign_key :: "foreign_key_option \<Rightarrow> foreign_key_def \<Rightarrow> validation_error + foreign_key_def" where
  "apply_foreign_key opt k = (case opt of
       NilForeignKeyOption \<Rightarrow> Inl (ValidationError ''foreign_keys'' ''option for columns %v must not be nil'' (map QuotedArg (fk_columns k)))
     | Named name \<Rightarrow> Inr (k\<lparr>fk_name := name\<rparr>)
     | ReferencesIn schema table columns \<Rightarrow>
         Inr (k\<lparr>fk_referenced_schema := schema, fk_referenced_table := table, fk_referenced_columns := columns\<rparr>)
     | OnDelete a \<Rightarrow> Inr (k\<lparr>fk_on_delete := a\<rparr>)
     | OnUpdate a \<Rightarrow> Inr (k\<lparr>fk_on_update := a\<rparr>))"

definition build_foreign_key :: "gostring list \<Rightarrow> foreign_key_option list \<Rightarrow> validation_error + foreign_key_def" where
  "build_foreign_key columns opts = rfold apply_foreign_key opts (zero_foreign_key\<lparr>fk_columns := columns\<rparr>)"

definition References :: "gostring \<Rightarrow> gostring list \<Rightarrow> foreign_key_option" where
  "References table columns = ReferencesIn [] table columns"

subsection \<open>Tables\<close>

datatype table_option =
    NilTableOption
  | InSchema gostring
  | RowNamed gostring
  | PrimaryKey "gostring list"
  | UniqueOption unique_def
  | CheckOption check_def
  | IndexOption index_def
  | ColumnOption "validation_error + column_def"
  | ForeignKeyOption "validation_error + foreign_key_def"

definition Column :: "gostring \<Rightarrow> column_type \<Rightarrow> column_option list \<Rightarrow> table_option" where
  "Column name ct opts = ColumnOption (build_column name ct opts)"

definition Boolean where "Boolean name opts = Column name BooleanType opts"
definition Integer where "Integer name opts = Column name (IntegerType False None False) opts"
definition Float where "Float name opts = Column name FloatType opts"
definition Text where "Text name opts = Column name (TextType None False) opts"
definition Bytes where "Bytes name opts = Column name BytesType opts"
definition Time where "Time name opts = Column name TimeType opts"
definition JSON where "JSON name opts = Column name JSONType opts"
definition UUID where "UUID name opts = Column name UUIDType opts"
definition Decimal where
  "Decimal name precision sc opts = Column name (DecimalType precision (Some sc) False False) opts"

definition ForeignKeyOn :: "gostring list \<Rightarrow> foreign_key_option list \<Rightarrow> table_option" where
  "ForeignKeyOn columns opts = ForeignKeyOption (build_foreign_key columns opts)"

definition ForeignKey :: "gostring \<Rightarrow> foreign_key_option list \<Rightarrow> table_option" where
  "ForeignKey column opts = ForeignKeyOn [column] opts"

definition UniqueNamed :: "gostring \<Rightarrow> gostring list \<Rightarrow> table_option" where
  "UniqueNamed name columns = UniqueOption (zero_unique\<lparr>uq_name := name, uq_columns := columns\<rparr>)"

definition Unique :: "gostring list \<Rightarrow> table_option" where
  "Unique columns = UniqueOption (zero_unique\<lparr>uq_columns := columns\<rparr>)"

definition CheckNamed :: "gostring \<Rightarrow> sql_text \<Rightarrow> table_option" where
  "CheckNamed name expression = CheckOption (zero_check\<lparr>ck_name := name, ck_expression := expression\<rparr>)"

definition Check :: "sql_text \<Rightarrow> table_option" where
  "Check expression = CheckOption (zero_check\<lparr>ck_expression := expression\<rparr>)"

definition Index :: "gostring \<Rightarrow> gostring list \<Rightarrow> table_option" where
  "Index name columns = IndexOption (zero_index\<lparr>ix_name := name, ix_columns := columns\<rparr>)"

definition UniqueIndex :: "gostring \<Rightarrow> gostring list \<Rightarrow> table_option" where
  "UniqueIndex name columns = IndexOption (zero_index\<lparr>ix_name := name, ix_columns := columns, ix_unique := True\<rparr>)"

record table_builder =
  bl_schema_name :: gostring
  bl_row_name :: gostring
  bl_columns :: "column_def list"
  bl_primary_key :: "gostring list"
  bl_primary_key_set :: bool
  bl_unique_constraints :: "unique_def list"
  bl_checks :: "check_def list"
  bl_indexes :: "index_def list"
  bl_foreign_keys :: "foreign_key_def list"

definition empty_builder :: table_builder where
  "empty_builder = \<lparr>bl_schema_name = [], bl_row_name = [], bl_columns = [], bl_primary_key = [],
     bl_primary_key_set = False, bl_unique_constraints = [], bl_checks = [], bl_indexes = [],
     bl_foreign_keys = []\<rparr>"

fun apply_table :: "table_option \<Rightarrow> table_builder \<Rightarrow> validation_error + table_builder" where
  "apply_table NilTableOption b = Inl (ValidationError ''table'' ''option must not be nil'' [])"
| "apply_table (InSchema name) b = Inr (b\<lparr>bl_schema_name := name\<rparr>)"
| "apply_table (RowNamed name) b =
     (if name = [] then Inl (ValidationError ''row_name'' ''RowNamed name must not be empty'' [])
      else Inr (b\<lparr>bl_row_name := name\<rparr>))"
| "apply_table (PrimaryKey columns) b =
     (if bl_primary_key_set b then Inl (ValidationError ''primary_key'' ''declared more than once'' [])
      else Inr (b\<lparr>bl_primary_key_set := True, bl_primary_key := columns\<rparr>))"
| "apply_table (UniqueOption u) b = Inr (b\<lparr>bl_unique_constraints := bl_unique_constraints b @ [u]\<rparr>)"
| "apply_table (CheckOption c) b = Inr (b\<lparr>bl_checks := bl_checks b @ [c]\<rparr>)"
| "apply_table (IndexOption i) b = Inr (b\<lparr>bl_indexes := bl_indexes b @ [i]\<rparr>)"
| "apply_table (ColumnOption (Inl e)) b = Inl e"
| "apply_table (ColumnOption (Inr c)) b = Inr (b\<lparr>bl_columns := bl_columns b @ [c]\<rparr>)"
| "apply_table (ForeignKeyOption (Inl e)) b = Inl e"
| "apply_table (ForeignKeyOption (Inr k)) b = Inr (b\<lparr>bl_foreign_keys := bl_foreign_keys b @ [k]\<rparr>)"

definition assemble :: "gostring \<Rightarrow> table_builder \<Rightarrow> table_def" where
  "assemble name b = zero_table\<lparr>tb_schema := bl_schema_name b, tb_name := name, tb_row_name := bl_row_name b,
     tb_columns := bl_columns b, tb_primary_key := bl_primary_key b,
     tb_unique_constraints := bl_unique_constraints b, tb_checks := bl_checks b,
     tb_indexes := bl_indexes b, tb_foreign_keys := bl_foreign_keys b\<rparr>"

definition new_table_def :: "unicode_tables \<Rightarrow> gostring \<Rightarrow> table_option list \<Rightarrow> validation_error + table_def" where
  "new_table_def U name opts =
     rbind (rfold apply_table opts empty_builder) (\<lambda>b.
     rbind (table_validate U (assemble name b)) (\<lambda>_. Inr (assemble name b)))"

subsection \<open>Order of options\<close>

fun option_kind :: "table_option \<Rightarrow> nat" where
  "option_kind NilTableOption = 0"
| "option_kind (InSchema _) = 1"
| "option_kind (RowNamed _) = 2"
| "option_kind (PrimaryKey _) = 3"
| "option_kind (UniqueOption _) = 4"
| "option_kind (CheckOption _) = 5"
| "option_kind (IndexOption _) = 6"
| "option_kind (ColumnOption _) = 7"
| "option_kind (ForeignKeyOption _) = 8"

lemma apply_table_commute:
  assumes "option_kind x \<noteq> option_kind y"
  shows "rfold apply_table [x, y] b = Inr c \<longleftrightarrow> rfold apply_table [y, x] b = Inr c"
  using assms
  by (cases "(x, b)" rule: apply_table.cases; cases "(y, b)" rule: apply_table.cases; cases b) simp_all

lemma apply_table_move_front:
  assumes "\<forall>y\<in>set ys. option_kind y \<noteq> option_kind x"
  shows "rfold apply_table (ys @ x # zs) b = Inr c \<longleftrightarrow> rfold apply_table (x # ys @ zs) b = Inr c"
  using assms
proof (induction ys arbitrary: b)
  case Nil
  then show ?case by simp
next
  case (Cons y ys)
  have swap: "(\<exists>d. rfold apply_table [y, x] b = Inr d \<and> rfold apply_table (ys @ zs) d = Inr c) \<longleftrightarrow>
      (\<exists>d. rfold apply_table [x, y] b = Inr d \<and> rfold apply_table (ys @ zs) d = Inr c)"
    using apply_table_commute [of y x b] Cons.prems by simp
  have "rfold apply_table (y # ys @ x # zs) b = Inr c \<longleftrightarrow> rfold apply_table (y # x # ys @ zs) b = Inr c"
    using Cons by auto
  also have "\<dots> \<longleftrightarrow> rfold apply_table (x # y # ys @ zs) b = Inr c"
    using swap by auto
  finally show ?case by simp
qed

lemma same_kind_order:
  assumes "\<And>k. filter (\<lambda>x. option_kind x = k) opts = filter (\<lambda>x. option_kind x = k) opts'"
  shows "rfold apply_table opts b = Inr c \<longleftrightarrow> rfold apply_table opts' b = Inr c"
  using assms
proof (induction opts arbitrary: opts' b)
  case Nil
  have "opts' = []"
  proof (rule ccontr)
    assume "opts' \<noteq> []"
    then obtain x xs where "opts' = x # xs" by (cases opts') auto
    then show False using Nil [of "option_kind x"] by simp
  qed
  then show ?case by simp
next
  case (Cons x xs)
  let ?k = "option_kind x"
  have "x # filter (\<lambda>y. option_kind y = ?k) xs = filter (\<lambda>y. option_kind y = ?k) opts'"
    using Cons.prems [of ?k] by simp
  then obtain ys zs where split: "opts' = ys @ x # zs" "\<forall>y\<in>set ys. option_kind y \<noteq> ?k"
      "filter (\<lambda>y. option_kind y = ?k) xs = filter (\<lambda>y. option_kind y = ?k) zs"
    by (auto simp: filter_eq_Cons_iff Cons_eq_filter_iff)
  have rest: "filter (\<lambda>y. option_kind y = k) xs = filter (\<lambda>y. option_kind y = k) (ys @ zs)" for k
    using Cons.prems [of k] split by (cases "k = ?k") (auto simp: filter_empty_conv)
  have "rfold apply_table (x # xs) b = Inr c \<longleftrightarrow> rfold apply_table (x # ys @ zs) b = Inr c"
    using Cons.IH [OF rest] by auto
  then show ?case using apply_table_move_front [OF split(2)] split(1) by simp
qed

text \<open>
  The order in which options are given to \<open>NewTableDef\<close> matters only among options
  of the same kind: two lists that agree on the options of each kind build the same
  descriptor, so a primary key may come before the columns it names.\<close>

theorem new_table_def_order:
  assumes "\<And>k. filter (\<lambda>x. option_kind x = k) opts = filter (\<lambda>x. option_kind x = k) opts'"
  shows "new_table_def U name opts = Inr t \<longleftrightarrow> new_table_def U name opts' = Inr t"
  using same_kind_order [OF assms] by (simp add: new_table_def_def)

theorem new_table_def_order_witness:
  "new_table_def \<lparr>ut_letter = \<lambda>_. False, ut_digit = \<lambda>_. False, ut_upper = \<lambda>_. False\<rparr> ''users''
     [PrimaryKey [''id''], Integer ''id'' [Unsigned]] =
   Inr (zero_table\<lparr>tb_name := ''users'',
      tb_columns := [zero_column\<lparr>col_name := ''id'', col_type := Some (IntegerType True None False)\<rparr>],
      tb_primary_key := [''id'']\<rparr>) \<and>
   new_table_def \<lparr>ut_letter = \<lambda>_. False, ut_digit = \<lambda>_. False, ut_upper = \<lambda>_. False\<rparr> ''users''
     [Integer ''id'' [Unsigned], PrimaryKey [''id'']] =
   Inr (zero_table\<lparr>tb_name := ''users'',
      tb_columns := [zero_column\<lparr>col_name := ''id'', col_type := Some (IntegerType True None False)\<rparr>],
      tb_primary_key := [''id'']\<rparr>)"
  (is "?A \<and> ?B")
proof -
  have kinds: "filter (\<lambda>x. option_kind x = k) [PrimaryKey [''id''], Integer ''id'' [Unsigned]] =
      filter (\<lambda>x. option_kind x = k) [Integer ''id'' [Unsigned], PrimaryKey [''id'']]" for k
    by (auto simp: Integer_def Column_def)
  have a: ?A
    by (simp add: new_table_def_def Integer_def Column_def build_column_def apply_column_def assemble_def
        empty_builder_def validate_spec table_ok_eval)
  show ?thesis using a new_table_def_order [OF kinds] by blast
qed

text \<open>
  What \<open>NewTableDef\<close> returns is a valid descriptor of the given name whose columns,
  constraints, indexes and foreign keys are those of the options, each list in the order
  the options state it.\<close>

theorem new_table_def_contents:
  assumes "new_table_def U name opts = Inr t"
  shows "table_ok U t \<and> tb_name t = name \<and>
    tb_columns t = [c. ColumnOption (Inr c) \<leftarrow> opts] \<and>
    tb_unique_constraints t = [u. UniqueOption u \<leftarrow> opts] \<and>
    tb_checks t = [c. CheckOption c \<leftarrow> opts] \<and>
    tb_indexes t = [i. IndexOption i \<leftarrow> opts] \<and>
    tb_foreign_keys t = [k. ForeignKeyOption (Inr k) \<leftarrow> opts]"
proof -
  have run: "bl_columns c = bl_columns b @ [c. ColumnOption (Inr c) \<leftarrow> os] \<and>
      bl_unique_constraints c = bl_unique_constraints b @ [u. UniqueOption u \<leftarrow> os] \<and>
      bl_checks c = bl_checks b @ [c. CheckOption c \<leftarrow> os] \<and>
      bl_indexes c = bl_indexes b @ [i. IndexOption i \<leftarrow> os] \<and>
      bl_foreign_keys c = bl_foreign_keys b @ [k. ForeignKeyOption (Inr k) \<leftarrow> os]"
    if "rfold apply_table os b = Inr c" for os b c
    using that
  proof (induction os arbitrary: b)
    case Nil
    then show ?case by simp
  next
    case (Cons x xs)
    then obtain d where d: "apply_table x b = Inr d" "rfold apply_table xs d = Inr c" by auto
    show ?case
      using Cons.IH [OF d(2)] d(1)
      by (cases "(x, b)" rule: apply_table.cases) (auto split: if_splits)
  qed
  obtain b where b: "rfold apply_table opts empty_builder = Inr b" "table_ok U (assemble name b)" "t = assemble name b"
    using assms by (auto simp: new_table_def_def validate_spec)
  show ?thesis using run [OF b(1)] b by (simp add: assemble_def empty_builder_def)
qed

theorem new_table_def_contents_witness:
  "\<exists>t. new_table_def \<lparr>ut_letter = \<lambda>_. False, ut_digit = \<lambda>_. False, ut_upper = \<lambda>_. False\<rparr> ''users''
     [Index ''ix'' [''id''], Integer ''id'' []] = Inr t \<and> map ix_name (tb_indexes t) = [''ix'']"
proof -
  have "\<exists>t. new_table_def \<lparr>ut_letter = \<lambda>_. False, ut_digit = \<lambda>_. False, ut_upper = \<lambda>_. False\<rparr> ''users''
     [Index ''ix'' [''id''], Integer ''id'' []] = Inr t"
    by (simp add: new_table_def_def Integer_def Column_def Index_def build_column_def assemble_def
        empty_builder_def validate_spec table_ok_eval)
  then obtain t where h: "new_table_def \<lparr>ut_letter = \<lambda>_. False, ut_digit = \<lambda>_. False, ut_upper = \<lambda>_. False\<rparr> ''users''
     [Index ''ix'' [''id''], Integer ''id'' []] = Inr t" by blast
  show ?thesis using h new_table_def_contents [OF h] by (auto simp: Index_def Integer_def Column_def zero_index_def)
qed

end
