(* ===== verification/Migration_Order.thy ===== *)
theory Migration_Order
  imports Go_Base "HOL-Library.Multiset"
begin

text \<open>
  \<open>OrderTables\<close> of \<open>src/internal/migrationorder/tables.go\<close>: the creation order of newly
  added tables by foreign key dependency, an implementation of Kahn's algorithm with a
  sorted ready list.

  The maps of the code are functions on the table keys. Two loops range over a Go map,
  whose order is open; both are followed by \<open>sort.Strings\<close>, and the model visits the keys
  in the order the tables were given. The main loop is a \<open>partial_function (option)\<close>,
  \<open>None\<close> meaning that it does not return; it is proved to return.
\<close>

record table_dependency =
  td_key :: gostring
  td_display :: gostring
  td_depends_on :: "gostring list"

datatype order_error = EmptyKey | DuplicateKey gostring | ForeignKeyCycle "gostring list"

definition index_tables :: "table_dependency list \<Rightarrow> order_error + gostring set" where
  "index_tables tables = rfold (\<lambda>t keys.
     rbind (check (td_key t \<noteq> []) EmptyKey) (\<lambda>_.
     rbind (check (td_key t \<notin> keys) (DuplicateKey (td_key t))) (\<lambda>_.
     Inr (insert (td_key t) keys)))) tables {}"

text \<open>The dependencies of one table that count: other tables of the added set, each once.\<close>

definition added_dependencies :: "gostring set \<Rightarrow> table_dependency \<Rightarrow> gostring list" where
  "added_dependencies keys t =
     remdups (filter (\<lambda>d. d \<noteq> td_key t \<and> d \<in> keys) (td_depends_on t))"

definition initial_indegree :: "table_dependency list \<Rightarrow> gostring set \<Rightarrow> gostring \<Rightarrow> int" where
  "initial_indegree tables keys key = (case find (\<lambda>t. td_key t = key) tables of
     None \<Rightarrow> 0 | Some t \<Rightarrow> int (length (added_dependencies keys t)))"

definition dependents :: "table_dependency list \<Rightarrow> gostring set \<Rightarrow> gostring \<Rightarrow> gostring list" where
  "dependents tables keys key = map td_key (filter (\<lambda>t. key \<in> set (added_dependencies keys t)) tables)"

text \<open>One dependent of the table just placed: its count goes down, and at zero it is ready.\<close>

definition release :: "gostring \<Rightarrow> gostring list \<times> (gostring \<Rightarrow> int) \<Rightarrow> gostring list \<times> (gostring \<Rightarrow> int)" where
  "release k st = (let indegree = (snd st)(k := snd st k - 1) in
     (if indegree k = 0 then fst st @ [k] else fst st, indegree))"

partial_function (option) place :: "(gostring \<Rightarrow> gostring list) \<Rightarrow> gostring list \<Rightarrow> (gostring \<Rightarrow> int) \<Rightarrow> gostring list
    \<Rightarrow> (gostring list \<times> (gostring \<Rightarrow> int)) option" where
  "place deps ready indegree ordered = (case ready of
       [] \<Rightarrow> Some (ordered, indegree)
     | key # rest \<Rightarrow>
         (let st = fold release (deps key) (rest, indegree) in
          place deps (sort (fst st)) (snd st) (ordered @ [key])))"

declare place.simps [code]

definition order_tables :: "table_dependency list \<Rightarrow> (order_error + gostring list) option" where
  "order_tables tables = (case index_tables tables of
       Inl e \<Rightarrow> Some (Inl e)
     | Inr keys \<Rightarrow>
         (let indegree = initial_indegree tables keys;
              ready = sort (filter (\<lambda>k. indegree k = 0) (map td_key tables)) in
          (case place (dependents tables keys) ready indegree [] of
             None \<Rightarrow> None
           | Some (ordered, final) \<Rightarrow>
               if length ordered = length tables then Some (Inr ordered)
               else Some (Inl (ForeignKeyCycle
                 (sort (map td_display (filter (\<lambda>t. final (td_key t) > 0) tables))))))))"

subsection \<open>Indexing\<close>

lemma index_tables_iff:
  "index_tables tables = Inr keys \<longleftrightarrow>
     [] \<notin> set (map td_key tables) \<and> distinct (map td_key tables) \<and> keys = set (map td_key tables)"
proof -
  have gen: "rfold (\<lambda>t keys. rbind (check (td_key t \<noteq> []) EmptyKey) (\<lambda>_.
       rbind (check (td_key t \<notin> keys) (DuplicateKey (td_key t))) (\<lambda>_.
       Inr (insert (td_key t) keys)))) tables K = Inr keys \<longleftrightarrow>
     [] \<notin> set (map td_key tables) \<and> distinct (map td_key tables) \<and>
     set (map td_key tables) \<inter> K = {} \<and> keys = K \<union> set (map td_key tables)" for K
    by (induction tables arbitrary: K) auto
  show ?thesis unfolding index_tables_def using gen [of "{}"] by auto
qed

subsection \<open>The greedy order\<close>

text \<open>
  The specification: \<open>D k\<close> is the set of tables that \<open>k\<close> depends on. The next table is the
  least one, in string order, all of whose dependencies have been placed.
\<close>

definition available :: "gostring set \<Rightarrow> (gostring \<Rightarrow> gostring set) \<Rightarrow> gostring list \<Rightarrow> gostring set" where
  "available K D placed = {k \<in> K - set placed. D k \<subseteq> set placed}"

inductive greedy :: "gostring set \<Rightarrow> (gostring \<Rightarrow> gostring set) \<Rightarrow> gostring list \<Rightarrow> bool"
  for K D where
  greedy_Nil: "greedy K D []"
| greedy_snoc: "greedy K D placed \<Longrightarrow> available K D placed \<noteq> {} \<Longrightarrow> k = Min (available K D placed) \<Longrightarrow>
    greedy K D (placed @ [k])"

inductive_cases greedy_snocE: "greedy K D (placed @ [k])"

lemma available_finite: "finite K \<Longrightarrow> finite (available K D placed)"
  by (simp add: available_def)

lemma greedy_facts:
  assumes "greedy K D placed" "finite K"
  shows "distinct placed \<and> set placed \<subseteq> K \<and>
    (\<forall>i < length placed. D (placed ! i) \<subseteq> set (take i placed))"
  using assms
proof (induction rule: greedy.induct)
  case greedy_Nil
  then show ?case by simp
next
  case (greedy_snoc placed k)
  have "k \<in> available K D placed"
    using greedy_snoc available_finite [of K D placed] Min_in by metis
  then show ?case using greedy_snoc.IH [OF greedy_snoc.prems]
    by (auto simp: available_def nth_append less_Suc_eq)
qed

text \<open>Two greedy orders of the same length are equal: the order is determined by \<open>K\<close> and \<open>D\<close>.\<close>

lemma greedy_unique:
  "greedy K D p \<Longrightarrow> greedy K D q \<Longrightarrow> length p = length q \<Longrightarrow> p = q"
proof (induction arbitrary: q rule: greedy.induct)
  case greedy_Nil
  then show ?case by simp
next
  case (greedy_snoc placed k)
  from greedy_snoc.prems(2) obtain q' k' where q: "q = q' @ [k']" by (cases q rule: rev_cases) auto
  from greedy_snoc.prems(1) [unfolded q] have "greedy K D q'" "k' = Min (available K D q')"
    by (auto elim: greedy_snocE)
  moreover have "placed = q'" using greedy_snoc.IH [of q'] greedy_snoc.prems q calculation by simp
  ultimately show ?case using greedy_snoc.hyps q by simp
qed

text \<open>A greedy order that cannot be extended is complete exactly when there is no cycle.\<close>

definition dep_rel :: "gostring set \<Rightarrow> (gostring \<Rightarrow> gostring set) \<Rightarrow> (gostring \<times> gostring) set" where
  "dep_rel K D = {(d, k). k \<in> K \<and> d \<in> D k}"

definition behind_cycle :: "gostring set \<Rightarrow> (gostring \<Rightarrow> gostring set) \<Rightarrow> gostring \<Rightarrow> bool" where
  "behind_cycle K D k \<longleftrightarrow> (\<exists>c. (c, c) \<in> (dep_rel K D)\<^sup>+ \<and> (c, k) \<in> (dep_rel K D)\<^sup>*)"

lemma greedy_position:
  assumes "greedy K D placed" "finite K"
  shows "\<exists>pos :: gostring \<Rightarrow> nat. \<forall>k \<in> set placed. \<forall>d \<in> D k. d \<in> set placed \<and> pos d < pos k"
proof -
  have facts: "distinct placed" "\<And>i. i < length placed \<Longrightarrow> D (placed ! i) \<subseteq> set (take i placed)"
    using greedy_facts [OF assms] by auto
  define pos where "pos k = (LEAST i. i < length placed \<and> placed ! i = k)" for k
  have pos: "pos (placed ! i) = i" if "i < length placed" for i
    unfolding pos_def using that facts(1) by (intro Least_equality) (auto simp: nth_eq_iff_index_eq)
  have "d \<in> set placed \<and> pos d < pos k" if "k \<in> set placed" "d \<in> D k" for d k
  proof -
    obtain i where i: "i < length placed" "placed ! i = k" using \<open>k \<in> set placed\<close> by (metis in_set_conv_nth)
    have "d \<in> set (take i placed)" using facts(2) [OF i(1)] i that by auto
    then obtain j where "j < i" "placed ! j = d" using i(1) by (auto simp: in_set_conv_nth)
    then show ?thesis using pos [of i] pos [of j] i by auto
  qed
  then show ?thesis by blast
qed

text \<open>A table that was placed is not behind a cycle, and one that never becomes available is.\<close>

lemma placed_not_behind_cycle:
  assumes "greedy K D placed" "finite K" "k \<in> set placed"
  shows "\<not> behind_cycle K D k"
proof
  obtain pos :: "gostring \<Rightarrow> nat" where pos: "\<And>k d. k \<in> set placed \<Longrightarrow> d \<in> D k \<Longrightarrow> d \<in> set placed \<and> pos d < pos k"
    using greedy_position [OF assms(1,2)] by blast
  assume "behind_cycle K D k"
  then obtain c where c: "(c, c) \<in> (dep_rel K D)\<^sup>+" "(c, k) \<in> (dep_rel K D)\<^sup>*" by (auto simp: behind_cycle_def)
  have placed: "c \<in> set placed" using c(2)
    by (induction rule: converse_rtrancl_induct) (use assms(3) pos in \<open>auto simp: dep_rel_def\<close>)
  have "x \<in> set placed \<and> pos x < pos c" if "(x, c) \<in> (dep_rel K D)\<^sup>+" for x
    using that
  proof (induction rule: converse_trancl_induct)
    case (base y)
    then show ?case using placed pos by (auto simp: dep_rel_def)
  next
    case (step y z)
    then show ?case using pos [of z y] by (auto simp: dep_rel_def)
  qed
  from this [OF c(1)] show False by simp
qed

lemma stuck_behind_cycle:
  assumes "finite K" "\<And>k. k \<in> K \<Longrightarrow> D k \<subseteq> K" "available K D placed = {}" "k \<in> K" "k \<notin> set placed"
  shows "behind_cycle K D k"
proof (rule ccontr)
  let ?r = "dep_rel K D"
  assume none: "\<not> behind_cycle K D k"
  define A where "A = {x \<in> K - set placed. (x, k) \<in> ?r\<^sup>*}"
  have "finite (?r \<inter> A \<times> A)" using assms(1) by (auto simp: A_def intro: finite_subset [of _ "K \<times> K"])
  moreover have "acyclic (?r \<inter> A \<times> A)"
  proof (rule acyclicI, intro allI notI)
    fix x
    assume x: "(x, x) \<in> (?r \<inter> A \<times> A)\<^sup>+"
    then have "x \<in> A" by (auto elim: converse_tranclE)
    moreover have "(x, x) \<in> ?r\<^sup>+" by (rule trancl_mono [OF x]) simp
    ultimately show False using none by (auto simp: behind_cycle_def A_def)
  qed
  ultimately have "wf (?r \<inter> A \<times> A)" by (rule finite_acyclic_wf)
  moreover have "k \<in> A" using assms(4,5) by (simp add: A_def)
  ultimately obtain x where x: "x \<in> A" "\<And>d. (d, x) \<in> ?r \<inter> A \<times> A \<Longrightarrow> d \<notin> A" by (rule wfE_min) blast
  then obtain d where d: "d \<in> D x" "d \<notin> set placed" using assms(3) by (auto simp: A_def available_def)
  have "(d, x) \<in> ?r" "d \<in> K" using d(1) x(1) assms(2) by (auto simp: A_def dep_rel_def)
  then have "d \<in> A" using x(1) d(2) by (auto simp: A_def intro: converse_rtrancl_into_rtrancl)
  with x(2) [of d] \<open>(d, x) \<in> ?r\<close> x(1) show False by simp
qed

lemma stuck_complete_iff:
  assumes "greedy K D placed" "finite K" "\<And>k. k \<in> K \<Longrightarrow> D k \<subseteq> K" "available K D placed = {}"
  shows "set placed = K \<longleftrightarrow> acyclic (dep_rel K D)"
proof
  assume all: "set placed = K"
  show "acyclic (dep_rel K D)"
  proof (rule acyclicI, intro allI notI)
    fix x
    assume x: "(x, x) \<in> (dep_rel K D)\<^sup>+"
    then have "x \<in> K" by (auto elim: tranclE simp: dep_rel_def)
    then show False using placed_not_behind_cycle [OF assms(1,2), of x] x all by (auto simp: behind_cycle_def)
  qed
next
  assume "acyclic (dep_rel K D)"
  then have "\<not> behind_cycle K D k" for k by (auto simp: behind_cycle_def acyclic_def)
  then show "set placed = K" using stuck_behind_cycle [OF assms(2,3,4)] greedy_facts [OF assms(1,2)] by blast
qed

subsection \<open>The loop\<close>

text \<open>The loop's state agrees with the set of placed tables.\<close>

definition loop_inv :: "gostring set \<Rightarrow> (gostring \<Rightarrow> gostring set) \<Rightarrow> gostring list \<Rightarrow> (gostring \<Rightarrow> int) \<Rightarrow> gostring list \<Rightarrow> bool" where
  "loop_inv K D ready indegree ordered =
     (ready = sorted_list_of_set (available K D ordered) \<and>
      (\<forall>k\<in>K. indegree k = int (card (D k - set ordered))) \<and> greedy K D ordered)"

lemma fold_release:
  assumes "distinct ks"
  shows "fold release ks (ready, indegree) =
    (ready @ filter (\<lambda>k. indegree k = 1) ks, \<lambda>k. if k \<in> set ks then indegree k - 1 else indegree k)"
  using assms
proof (induction ks arbitrary: ready indegree)
  case Nil
  then show ?case by simp
next
  case (Cons k ks)
  then show ?case
    by (auto simp: release_def Let_def fun_eq_iff intro!: filter_cong)
qed

locale dependency_graph =
  fixes K :: "gostring set" and D :: "gostring \<Rightarrow> gostring set" and deps :: "gostring \<Rightarrow> gostring list"
  assumes finite_K: "finite K"
    and D_sub: "k \<in> K \<Longrightarrow> D k \<subseteq> K - {k}"
    and deps_distinct: "distinct (deps d)"
    and deps_set: "d \<in> K \<Longrightarrow> set (deps d) = {k \<in> K. d \<in> D k}"
begin

lemma D_finite: "k \<in> K \<Longrightarrow> finite (D k)"
  using D_sub finite_K by (meson finite_Diff finite_subset)

lemma loop_step:
  assumes inv: "loop_inv K D (key # rest) indegree ordered"
  shows "loop_inv K D (sort (fst (fold release (deps key) (rest, indegree))))
    (snd (fold release (deps key) (rest, indegree))) (ordered @ [key])"
proof -
  let ?A = "available K D ordered"
  have fin: "finite ?A" by (rule available_finite [OF finite_K])
  have list: "sorted_list_of_set ?A = key # rest" using inv by (simp add: loop_inv_def)
  then have "?A \<noteq> {}" using fin by (metis list.distinct(1) sorted_list_of_set_empty)
  then have key: "key = Min ?A" "rest = sorted_list_of_set (?A - {Min ?A})"
    using list sorted_list_of_set_nonempty [OF fin] by auto
  have keyA: "key \<in> ?A" using key(1) Min_in [OF fin \<open>?A \<noteq> {}\<close>] by simp
  then have keyK: "key \<in> K" "key \<notin> set ordered" by (auto simp: available_def)
  have greedy': "greedy K D (ordered @ [key])"
    using inv \<open>?A \<noteq> {}\<close> key(1) by (auto simp: loop_inv_def intro: greedy_snoc)
  have deg: "card (D k - set (ordered @ [key])) = card (D k - set ordered) - (if key \<in> D k then 1 else 0)" if "k \<in> K" for k
  proof -
    have "D k - set (ordered @ [key]) = (D k - set ordered) - {key}" by auto
    then show ?thesis using keyK D_finite [OF that] by (auto simp: card_Diff_singleton_if)
  qed
  have pos: "0 < card (D k - set ordered)" if "k \<in> K" "key \<in> D k" for k
    using that keyK D_finite [OF that(1)] by (metis DiffI card_gt_0_iff empty_iff finite_Diff)
  let ?st = "fold release (deps key) (rest, indegree)"
  note st = fold_release [OF deps_distinct, of key rest indegree]
  have ind: "\<forall>k\<in>K. snd ?st k = int (card (D k - set (ordered @ [key])))"
  proof
    fix k assume k: "k \<in> K"
    then have "indegree k = int (card (D k - set ordered))" using inv by (simp add: loop_inv_def)
    then show "snd ?st k = int (card (D k - set (ordered @ [key])))"
      using deg [OF k] pos [OF k] deps_set [OF keyK(1)] k by (cases "key \<in> D k") (simp_all add: st)
  qed
  have one: "k \<in> K \<Longrightarrow> key \<in> D k \<Longrightarrow> indegree k = 1 \<longleftrightarrow> D k \<subseteq> set (ordered @ [key])" for k
  proof -
    assume k: "k \<in> K" "key \<in> D k"
    have "indegree k = 1 \<longleftrightarrow> card (D k - set (ordered @ [key])) = 0"
      using inv k deg [OF k(1)] pos [OF k] by (auto simp: loop_inv_def)
    also have "\<dots> \<longleftrightarrow> D k - set (ordered @ [key]) = {}"
      using D_finite [OF k(1)] by simp
    finally show "indegree k = 1 \<longleftrightarrow> D k \<subseteq> set (ordered @ [key])" by auto
  qed
  have newly: "set (filter (\<lambda>k. indegree k = 1) (deps key)) = available K D (ordered @ [key]) - (?A - {key})"
    (is "?N = ?R")
  proof -
    have closed: "D k \<subseteq> set ordered" if "k \<in> set ordered" for k
      using that greedy_facts [of K D ordered] inv finite_K
      by (metis in_set_conv_nth loop_inv_def order_trans set_take_subset)
    have N: "k \<in> ?N \<longleftrightarrow> k \<in> K \<and> key \<in> D k \<and> D k \<subseteq> set (ordered @ [key])" for k
      using one [of k] deps_set [OF keyK(1)] by auto
    have R: "k \<in> ?R \<longleftrightarrow> k \<in> K \<and> k \<notin> set ordered \<and> k \<noteq> key \<and> D k \<subseteq> set (ordered @ [key]) \<and> \<not> D k \<subseteq> set ordered" for k
      using D_sub [of k] by (auto simp: available_def)
    have "k \<in> ?N \<longleftrightarrow> k \<in> ?R" for k
    proof
      assume "k \<in> ?N"
      then show "k \<in> ?R" unfolding N R using closed [of k] D_sub [of k] keyK(2) by auto
    next
      assume "k \<in> ?R"
      then show "k \<in> ?N" unfolding N R by auto
    qed
    then show ?thesis by blast
  qed
  have old: "?A - {key} \<subseteq> available K D (ordered @ [key])" by (auto simp: available_def)
  have rest: "set rest = ?A - {key}" "distinct rest" using key fin by auto
  have fst_st: "fst ?st = rest @ filter (\<lambda>k. indegree k = 1) (deps key)" by (simp add: st)
  have "set (fst ?st) = available K D (ordered @ [key])"
    unfolding fst_st set_append newly rest using old by blast
  moreover have "distinct (fst ?st)"
    unfolding fst_st distinct_append newly rest(1) using rest(2) deps_distinct by simp
  ultimately have "sort (fst ?st) = sorted_list_of_set (available K D (ordered @ [key]))"
    by (metis distinct_remdups_id sorted_list_of_set_sort_remdups)
  then show ?thesis using ind greedy' by (simp add: loop_inv_def)
qed

lemma loop_returns:
  assumes "loop_inv K D ready indegree ordered"
  shows "\<exists>placed final. place deps ready indegree ordered = Some (placed, final) \<and>
    loop_inv K D [] final placed"
  using assms
proof (induction "card (K - set ordered)" arbitrary: ready indegree ordered rule: less_induct)
  case less
  show ?case
  proof (cases ready)
    case Nil
    then show ?thesis using less.prems by (subst place.simps) simp
  next
    case (Cons key rest)
    have avail: "key \<in> available K D ordered"
      using less.prems Cons available_finite [OF finite_K, of D ordered]
      by (metis list.set_intros(1) loop_inv_def set_sorted_list_of_set)
    then have "card (K - set (ordered @ [key])) < card (K - set ordered)"
      using finite_K by (intro psubset_card_mono) (auto simp: available_def)
    from less.hyps [OF this loop_step [OF less.prems [unfolded Cons]]]
    show ?thesis unfolding Cons by (subst place.simps) (simp add: Let_def)
  qed
qed

end

subsection \<open>The code's tables as a dependency graph\<close>

text \<open>The tables that pass the key checks: all of them, or none.\<close>

definition accepted :: "table_dependency list \<Rightarrow> table_dependency list" where
  "accepted tables = (case index_tables tables of Inl _ \<Rightarrow> [] | Inr _ \<Rightarrow> tables)"

definition keys_of :: "table_dependency list \<Rightarrow> gostring set" where
  "keys_of tables = set (map td_key tables)"

definition needs :: "table_dependency list \<Rightarrow> gostring \<Rightarrow> gostring set" where
  "needs tables key = (\<Union>t\<in>{t \<in> set tables. td_key t = key}. set (added_dependencies (keys_of tables) t))"

lemma accepted_distinct: "distinct (map td_key (accepted tables))"
proof (cases "index_tables tables")
  case (Inr keys)
  then have "distinct (map td_key tables)" using index_tables_iff [of tables keys] by simp
  then show ?thesis using Inr by (simp add: accepted_def)
qed (simp add: accepted_def)

lemma needs_unique:
  assumes "distinct (map td_key tables)" "t \<in> set tables"
  shows "needs tables (td_key t) = set (added_dependencies (keys_of tables) t)"
proof -
  have "{u \<in> set tables. td_key u = td_key t} = {t}"
    using assms by (auto simp: distinct_map dest: inj_onD)
  then show ?thesis by (simp add: needs_def)
qed

interpretation added: dependency_graph "keys_of (accepted tables)" "needs (accepted tables)"
  "dependents (accepted tables) (keys_of (accepted tables))" for tables
proof
  let ?ts = "accepted tables"
  show "finite (keys_of ?ts)" by (simp add: keys_of_def)
  show "needs ?ts k \<subseteq> keys_of ?ts - {k}" if "k \<in> keys_of ?ts" for k
    by (auto simp: needs_def added_dependencies_def)
  show "distinct (dependents ?ts (keys_of ?ts) d)" for d
    unfolding dependents_def using accepted_distinct [of tables] by (simp add: distinct_map_filter)
  show "set (dependents ?ts (keys_of ?ts) d) = {k \<in> keys_of ?ts. d \<in> needs ?ts k}" if "d \<in> keys_of ?ts" for d
    using needs_unique [OF accepted_distinct] by (auto simp: dependents_def keys_of_def)
qed

lemma accepted_id: "index_tables tables = Inr keys \<Longrightarrow> accepted tables = tables \<and> keys = keys_of tables"
  using index_tables_iff [of tables keys] by (simp add: accepted_def keys_of_def)

lemma initial_indegree_card:
  assumes "distinct (map td_key tables)" "k \<in> keys_of tables"
  shows "initial_indegree tables (keys_of tables) k = int (card (needs tables k))"
proof -
  obtain t where t: "t \<in> set tables" "td_key t = k" using assms(2) by (auto simp: keys_of_def)
  have "find (\<lambda>t. td_key t = k) tables = Some t"
    using assms(1) t by (induction tables) auto
  moreover have "length (added_dependencies (keys_of tables) t) = card (needs tables k)"
    unfolding needs_unique [OF assms(1) t(1), unfolded t(2)] added_dependencies_def
    by (rule distinct_card [symmetric]) simp
  ultimately show ?thesis by (simp add: initial_indegree_def)
qed

lemma initial_inv:
  assumes "index_tables tables = Inr keys"
  shows "loop_inv keys (needs tables)
    (sort (filter (\<lambda>k. initial_indegree tables keys k = 0) (map td_key tables))) (initial_indegree tables keys) []"
proof -
  have d: "distinct (map td_key tables)" using assms by (simp add: index_tables_iff)
  note k = conjunct2 [OF accepted_id [OF assms]]
  have fin: "finite (needs tables x)" for x by (auto simp: needs_def)
  have "set (filter (\<lambda>k. initial_indegree tables keys k = 0) (map td_key tables)) = available keys (needs tables) []"
    using initial_indegree_card [OF d] fin unfolding k by (auto simp: available_def keys_of_def)
  then have "sort (filter (\<lambda>k. initial_indegree tables keys k = 0) (map td_key tables)) =
      sorted_list_of_set (available keys (needs tables) [])"
    using d by (metis distinct_filter distinct_remdups_id sorted_list_of_set_sort_remdups)
  then show ?thesis
    using initial_indegree_card [OF d] k by (auto simp: loop_inv_def intro: greedy_Nil)
qed

text \<open>What \<open>OrderTables\<close> computes, in terms of the greedy order.\<close>

lemma order_tables_greedy:
  assumes idx: "index_tables tables = Inr keys"
  shows "\<exists>placed names. greedy keys (needs tables) placed \<and> available keys (needs tables) placed = {} \<and>
    names = sort (map td_display (filter (\<lambda>t. behind_cycle keys (needs tables) (td_key t)) tables)) \<and>
    order_tables tables = Some (if set placed = keys then Inr placed else Inl (ForeignKeyCycle names))"
proof -
  have acc: "accepted tables = tables" "keys = keys_of tables" using accepted_id [OF idx] by auto
  have d: "distinct (map td_key tables)" using idx by (simp add: index_tables_iff)
  obtain placed final where run: "place (dependents tables keys)
      (sort (filter (\<lambda>k. initial_indegree tables keys k = 0) (map td_key tables))) (initial_indegree tables keys) []
      = Some (placed, final)" "loop_inv keys (needs tables) [] final placed"
    using added.loop_returns [of tables] initial_inv [OF idx] unfolding acc by blast
  have fin: "finite keys" by (simp add: acc keys_of_def)
  have inv: "greedy keys (needs tables) placed" "available keys (needs tables) placed = {}"
    "\<forall>k\<in>keys. final k = int (card (needs tables k - set placed))"
    using run(2) sorted_list_of_set_eq_Nil_iff [OF available_finite [OF fin, of "needs tables" placed]]
    by (simp_all add: loop_inv_def)
  have "length placed = length tables \<longleftrightarrow> set placed = keys"
  proof -
    have "length placed = card (set placed)" "set placed \<subseteq> keys"
      using greedy_facts [OF inv(1) fin] by (auto simp: distinct_card)
    moreover have "card keys = length tables" using d acc(2) by (metis distinct_card keys_of_def length_map)
    ultimately show ?thesis using fin by (metis card_subset_eq)
  qed
  then have "order_tables tables = Some (if set placed = keys then Inr placed
      else Inl (ForeignKeyCycle (sort (map td_display (filter (\<lambda>t. final (td_key t) > 0) tables)))))"
    using run(1) by (simp add: order_tables_def idx Let_def)
  moreover have "filter (\<lambda>t. final (td_key t) > 0) tables = filter (\<lambda>t. behind_cycle keys (needs tables) (td_key t)) tables"
  proof (rule filter_cong [OF refl])
    fix t
    assume "t \<in> set tables"
    then have t: "td_key t \<in> keys" "finite (needs tables (td_key t))" by (auto simp: acc keys_of_def needs_def)
    have sub: "needs tables k \<subseteq> keys" for k by (auto simp: acc needs_def added_dependencies_def)
    obtain pos :: "gostring \<Rightarrow> nat" where "\<forall>k \<in> set placed. \<forall>d \<in> needs tables k. d \<in> set placed \<and> pos d < pos k"
      using greedy_position [OF inv(1) fin] by blast
    then have "needs tables (td_key t) \<subseteq> set placed \<longleftrightarrow> td_key t \<in> set placed"
      using inv(2) t(1) by (auto simp: available_def)
    moreover have "td_key t \<in> set placed \<longleftrightarrow> \<not> behind_cycle keys (needs tables) (td_key t)"
      using placed_not_behind_cycle [OF inv(1) fin] stuck_behind_cycle [OF fin sub inv(2) t(1)] by blast
    ultimately show "final (td_key t) > 0 \<longleftrightarrow> behind_cycle keys (needs tables) (td_key t)"
      using inv(3) t by (auto simp: card_gt_0_iff)
  qed
  ultimately show ?thesis using inv(1,2)
    by (intro exI [of _ placed] exI [of _ "sort (map td_display (filter (\<lambda>t. behind_cycle keys (needs tables) (td_key t)) tables))"] conjI) simp_all
qed

lemma index_tables_Inl:
  "index_tables tables = Inl EmptyKey \<Longrightarrow> [] \<in> keys_of tables"
  "index_tables tables = Inl (DuplicateKey k) \<Longrightarrow> \<exists>before t after. tables = before @ t # after \<and> td_key t = k \<and> k \<in> keys_of before"
  "index_tables tables \<noteq> Inl (ForeignKeyCycle names)"
proof -
  let ?f = "\<lambda>t keys. rbind (check (td_key t \<noteq> []) EmptyKey) (\<lambda>_. rbind (check (td_key t \<notin> keys) (DuplicateKey (td_key t))) (\<lambda>_. Inr (insert (td_key t) keys)))"
  have empty: "rfold ?f ts K = Inl EmptyKey \<Longrightarrow> [] \<in> keys_of ts" for ts K
    by (induction ts arbitrary: K) (auto simp: keys_of_def check_def split: if_splits)
  have cycle: "rfold ?f ts K \<noteq> Inl (ForeignKeyCycle names)" for ts K
    by (induction ts arbitrary: K) (auto simp: check_def)
  have duplicate: "rfold ?f ts (keys_of before) = Inl (DuplicateKey k) \<Longrightarrow>
      \<exists>a t b. before @ ts = a @ t # b \<and> td_key t = k \<and> k \<in> keys_of a" for ts before
  proof (induction ts arbitrary: before)
    case (Cons t ts)
    show ?case
    proof (cases "td_key t = k \<and> k \<in> keys_of before")
      case False
      then have "rfold ?f ts (keys_of (before @ [t])) = Inl (DuplicateKey k)"
        using Cons.prems by (auto simp: check_def keys_of_def split: if_splits)
      from Cons.IH [OF this] show ?thesis by simp
    qed blast
  qed simp
  show "index_tables tables = Inl EmptyKey \<Longrightarrow> [] \<in> keys_of tables" "index_tables tables \<noteq> Inl (ForeignKeyCycle names)"
    "index_tables tables = Inl (DuplicateKey k) \<Longrightarrow> \<exists>before t after. tables = before @ t # after \<and> td_key t = k \<and> k \<in> keys_of before"
    using empty [of tables "{}"] cycle [of tables "{}"] duplicate [of tables "[]"] by (simp_all add: index_tables_def keys_of_def)
qed

text \<open>What the answer of \<open>OrderTables\<close> says about the tables.\<close>

definition explains :: "table_dependency list \<Rightarrow> order_error + gostring list \<Rightarrow> bool" where
  "explains tables r = (case r of
       Inr ordered \<Rightarrow> [] \<notin> keys_of tables \<and> distinct (map td_key tables) \<and> acyclic (dep_rel (keys_of tables) (needs tables))
     | Inl EmptyKey \<Rightarrow> [] \<in> keys_of tables
     | Inl (DuplicateKey k) \<Rightarrow> (\<exists>before t after. tables = before @ t # after \<and> td_key t = k \<and> k \<in> keys_of before)
     | Inl (ForeignKeyCycle names) \<Rightarrow> [] \<notin> keys_of tables \<and> distinct (map td_key tables) \<and> \<not> acyclic (dep_rel (keys_of tables) (needs tables)) \<and>
         names = sort (map td_display (filter (\<lambda>t. behind_cycle (keys_of tables) (needs tables) (td_key t)) tables)))"

text \<open>
  C29. \<open>OrderTables\<close> always returns, and its answer is right. An order is returned only when the
  keys are non-empty and distinct and the dependencies among the added tables have no cycle.
  The error for an empty key means that there is one, the error for a repeated key names a
  key that occurs twice, and the error for a cycle means that there is one and names, in
  order, the tables on a cycle together with the tables that depend on one, directly or not.
\<close>

theorem order_tables_total:
  "\<exists>r. order_tables tables = Some r \<and> explains tables r"
proof (cases "index_tables tables")
  case (Inl e)
  have "explains tables (Inl e)" using index_tables_Inl [of tables] Inl by (cases e) (auto simp: explains_def)
  then show ?thesis using Inl by (simp add: order_tables_def)
next
  case (Inr keys)
  obtain placed names where p: "greedy keys (needs tables) placed" "available keys (needs tables) placed = {}"
      "names = sort (map td_display (filter (\<lambda>t. behind_cycle keys (needs tables) (td_key t)) tables))"
      "order_tables tables = Some (if set placed = keys then Inr placed else Inl (ForeignKeyCycle names))"
    using order_tables_greedy [OF Inr] by blast
  have k: "keys = keys_of tables" using accepted_id [OF Inr] by simp
  have sub: "needs tables x \<subseteq> keys" for x
    by (auto simp: k needs_def added_dependencies_def)
  have "finite keys" by (simp add: k keys_of_def)
  from stuck_complete_iff [OF p(1) this sub p(2)]
  have "set placed = keys \<longleftrightarrow> acyclic (dep_rel keys (needs tables))" .
  moreover have "[] \<notin> keys_of tables" "distinct (map td_key tables)"
    using Inr by (auto simp: index_tables_iff keys_of_def)
  ultimately show ?thesis using p(3,4) k by (auto simp: explains_def)
qed

text \<open>
  C16. The order lists every added table once, and every table comes after all the added
  tables its foreign keys refer to, itself apart.\<close>

theorem order_tables_sound:
  assumes "order_tables tables = Some (Inr ordered)"
  shows "distinct ordered \<and> set ordered = keys_of tables \<and>
    (\<forall>i < length ordered. \<forall>t\<in>set tables. td_key t = ordered ! i \<longrightarrow>
      (\<forall>d\<in>set (td_depends_on t). d \<in> keys_of tables \<longrightarrow> d = td_key t \<or> d \<in> set (take i ordered)))"
proof -
  obtain keys where idx: "index_tables tables = Inr keys"
    using assms by (cases "index_tables tables") (auto simp: order_tables_def)
  obtain placed where p: "greedy keys (needs tables) placed" "set placed = keys" "ordered = placed"
    using order_tables_greedy [OF idx] assms by (auto split: if_splits)
  have k: "keys = keys_of tables" using accepted_id [OF idx] by simp
  have d: "distinct (map td_key tables)" using idx by (simp add: index_tables_iff)
  have facts: "distinct placed" "\<And>i. i < length placed \<Longrightarrow> needs tables (placed ! i) \<subseteq> set (take i placed)"
    using greedy_facts [OF p(1)] by (auto simp: k keys_of_def)
  have "x = td_key t \<or> x \<in> set (take i placed)"
    if "i < length placed" "t \<in> set tables" "td_key t = placed ! i" "x \<in> set (td_depends_on t)" "x \<in> keys_of tables" for i t x
    using facts(2) [OF that(1)] needs_unique [OF d that(2)] that by (auto simp: added_dependencies_def)
  then show ?thesis using facts(1) p k by blast
qed

theorem order_tables_sound_witness:
  "\<exists>ordered. order_tables [\<lparr>td_key = ''b'', td_display = ''b'', td_depends_on = [''a'', ''b'', ''x'']\<rparr>,
      \<lparr>td_key = ''a'', td_display = ''a'', td_depends_on = []\<rparr>] = Some (Inr ordered) \<and>
    distinct ordered \<and> set ordered = {''a'', ''b''} \<and> ''a'' \<in> set (take 1 ordered)"
proof -
  have h: "order_tables [\<lparr>td_key = ''b'', td_display = ''b'', td_depends_on = [''a'', ''b'', ''x'']\<rparr>,
      \<lparr>td_key = ''a'', td_display = ''a'', td_depends_on = []\<rparr>] = Some (Inr [''a'', ''b''])"
    by (simp add: order_tables_def index_tables_def check_def added_dependencies_def initial_indegree_def
        dependents_def place.simps release_def Let_def)
  show ?thesis using h order_tables_sound [OF h] by (auto simp: keys_of_def)
qed

text \<open>
  The order does not depend on the order in which the tables are given, nor on the
  order or repetition of their dependencies: permuting the tables gives the same result.\<close>

theorem order_tables_stable:
  assumes "order_tables tables = Some (Inr ordered)" "mset tables = mset tables'"
  shows "order_tables tables' = Some (Inr ordered)"
proof -
  obtain keys where idx: "index_tables tables = Inr keys"
    using assms by (cases "index_tables tables") (auto simp: order_tables_def)
  have same: "set tables = set tables'" using assms(2) by (rule mset_eq_setD)
  have "distinct (map td_key tables) \<longleftrightarrow> distinct (map td_key tables')"
    using assms(2) by (metis mset_map mset_eq_imp_distinct_iff)
  then have idx': "index_tables tables' = Inr keys"
    using idx same by (simp add: index_tables_iff)
  have kk: "keys_of tables = keys_of tables'" using same by (simp add: keys_of_def)
  have needs: "needs tables = needs tables'" unfolding needs_def kk same ..
  obtain p where p: "greedy keys (needs tables) p" "available keys (needs tables) p = {}" "set p = keys" "ordered = p"
    using order_tables_greedy [OF idx] assms(1) by (auto split: if_splits)
  obtain q names where q: "greedy keys (needs tables) q" "available keys (needs tables) q = {}"
      "order_tables tables' = Some (if set q = keys then Inr q else Inl (ForeignKeyCycle names))"
    using order_tables_greedy [OF idx'] unfolding needs by blast
  have fin: "finite keys" using p(3) by auto
  have sub: "needs tables x \<subseteq> keys" for x
    using accepted_id [OF idx] by (auto simp: needs_def added_dependencies_def)
  have "set q = keys"
    using stuck_complete_iff [OF q(1) fin sub q(2)] stuck_complete_iff [OF p(1) fin sub p(2)] p(3) by blast
  moreover have "length p = length q"
    using greedy_facts [OF p(1) fin] greedy_facts [OF q(1) fin] p(3) calculation by (metis distinct_card)
  ultimately show ?thesis using greedy_unique [OF p(1) q(1)] p q(3) by simp
qed

theorem order_tables_stable_witness:
  "order_tables [\<lparr>td_key = ''b'', td_display = ''b'', td_depends_on = []\<rparr>,
      \<lparr>td_key = ''a'', td_display = ''a'', td_depends_on = []\<rparr>] = Some (Inr [''a'', ''b'']) \<and>
   order_tables [\<lparr>td_key = ''a'', td_display = ''a'', td_depends_on = []\<rparr>,
      \<lparr>td_key = ''b'', td_display = ''b'', td_depends_on = []\<rparr>] = Some (Inr [''a'', ''b''])"
proof -
  have h: "order_tables [\<lparr>td_key = ''b'', td_display = ''b'', td_depends_on = []\<rparr>,
      \<lparr>td_key = ''a'', td_display = ''a'', td_depends_on = []\<rparr>] = Some (Inr [''a'', ''b''])"
    by (simp add: order_tables_def index_tables_def check_def added_dependencies_def initial_indegree_def
        dependents_def place.simps release_def Let_def)
  have m: "mset [\<lparr>td_key = ''b'', td_display = ''b'', td_depends_on = []\<rparr>,
      \<lparr>td_key = ''a'', td_display = ''a'', td_depends_on = []\<rparr>] =
    mset [\<lparr>td_key = ''a'', td_display = ''a'', td_depends_on = []\<rparr>,
      \<lparr>td_key = ''b'', td_display = ''b'', td_depends_on = []\<rparr>]" by simp
  show ?thesis using h order_tables_stable [OF h m] by blast
qed

end
