(* ===== verification/Migrate_Plan.thy ===== *)
theory Migrate_Plan
  imports Go_Base "HOL-Library.Multiset"
begin

text \<open>
  The planning half of package \<open>migrate\<close>: migrations, their validation and checksum
  (\<open>migration.go\<close>), preparation and sorting (\<open>runner.go\<close>), the choice of what to apply
  (\<open>apply.go\<close>) and to revert (\<open>revert.go\<close>), and the status report (\<open>status.go\<close>).

  The applied history that a plan is resolved against is a Go map from migration ID to
  checksum; it is an association list with distinct keys, in the order a \<open>range\<close> loop
  happens to visit it. \<open>sha\<close> is the hex digest of \<open>crypto/sha256\<close>, a parameter.
\<close>

subsection \<open>Migrations\<close>

text \<open>
  An error the driver returned: the MySQL driver's own error value with the server's
  error number, any other error, or an error that wraps others.
\<close>

datatype db_error = MySQLError nat | OtherError gostring | Unwraps db_error | UnwrapsAll "db_error list"

record statement =
  st_source :: gostring
  st_sql :: gostring

record migration =
  mg_id :: gostring
  mg_mode :: gostring
  mg_statements :: "statement list"
  mg_down :: "statement list"

datatype migrate_error =
    InvalidRunner
  | InvalidMode gostring gostring
  | EmptyID
  | InvalidID gostring
  | NoSources gostring
  | InvalidSource gostring nat
  | DuplicateSource gostring gostring
  | EmptySource gostring gostring
  | DuplicateMigration gostring
  | NotSupplied gostring
  | CannotApplyThrough gostring
  | ChecksumMismatch gostring
  | RecordedAfterMissing gostring
  | CannotRevertThrough gostring
  | StepsNotPositive int
  | StepsTooMany int nat
  | NoReverseSource gostring
  | NoRevertTarget
  | NotRecorded gostring
  | DuplicateHistory gostring
  | OpenConnection db_error
  | CreateHistory db_error
  | ReadHistory db_error
  | ExecuteSource gostring gostring db_error
  | ExecuteReverse gostring gostring db_error
  | RecordMigration gostring db_error
  | RemoveRecord gostring db_error
  | BeginFailed db_error
  | CommitFailed db_error
  | AcquireLock "db_error option"
  | ReleaseLock "db_error option"
  | MarkedBad
  | CouldNotMarkBad db_error
  | UnsupportedDialect gostring

definition mode_atomic :: gostring where "mode_atomic = ''''"
definition mode_nontransactional :: gostring where "mode_nontransactional = ''nontransactional''"

definition statement_step :: "gostring \<Rightarrow> nat \<times> statement \<Rightarrow> gostring set \<Rightarrow> migrate_error + gostring set" where
  "statement_step mid p sources =
     (let s = snd p in
     rbind (check (st_source s \<noteq> [] \<and> valid_utf8 (st_source s) \<and> CHR 0x00 \<notin> set (st_source s))
              (InvalidSource mid (fst p + 1))) (\<lambda>_.
     rbind (check (st_source s \<notin> sources) (DuplicateSource mid (st_source s))) (\<lambda>_.
     rbind (check (trim_space (st_sql s) \<noteq> []) (EmptySource mid (st_source s))) (\<lambda>_.
     Inr (insert (st_source s) sources)))))"

definition validate_statements :: "gostring \<Rightarrow> statement list \<Rightarrow> migrate_error + unit" where
  "validate_statements mid ss = rbind (rfold (statement_step mid) (indexed ss) {}) (\<lambda>_. Inr ())"

definition validate_migration_id :: "gostring \<Rightarrow> migrate_error + unit" where
  "validate_migration_id mid =
     rbind (check (mid \<noteq> []) EmptyID) (\<lambda>_.
     check (valid_utf8 mid \<and> length mid \<le> 255 \<and> CHR 0x00 \<notin> set mid) (InvalidID mid))"

definition migration_validate :: "migration \<Rightarrow> migrate_error + unit" where
  "migration_validate m =
     rbind (check (mg_mode m = mode_atomic \<or> mg_mode m = mode_nontransactional) (InvalidMode (mg_id m) (mg_mode m))) (\<lambda>_.
     rbind (validate_migration_id (mg_id m)) (\<lambda>_.
     rbind (check (mg_statements m \<noteq> []) (NoSources (mg_id m))) (\<lambda>_.
     rbind (validate_statements (mg_id m) (mg_statements m)) (\<lambda>_.
     validate_statements (mg_id m) (mg_down m)))))"

text \<open>The bytes written to the hash.\<close>

definition mode_prefix :: "gostring \<Rightarrow> gostring" where
  "mode_prefix mode = (if mode = mode_nontransactional
     then ''rasql-execution-mode'' @ [CHR 0x00] @ ''nontransactional'' @ [CHR 0x00] else [])"

definition statement_bytes :: "statement \<Rightarrow> gostring" where
  "statement_bytes s = st_source s @ [CHR 0x00] @ st_sql s @ [CHR 0x00]"

definition checksum_input :: "gostring \<Rightarrow> statement list \<Rightarrow> gostring" where
  "checksum_input mode ss = mode_prefix mode @ concat (map statement_bytes ss)"

definition checksum_mode :: "(gostring \<Rightarrow> gostring) \<Rightarrow> gostring \<Rightarrow> statement list \<Rightarrow> gostring" where
  "checksum_mode sha mode ss = sha (checksum_input mode ss)"

definition migration_checksum :: "(gostring \<Rightarrow> gostring) \<Rightarrow> migration \<Rightarrow> migrate_error + gostring" where
  "migration_checksum sha m =
     rbind (migration_validate m) (\<lambda>_. Inr (checksum_mode sha (mg_mode m) (mg_statements m)))"

record prepared_migration =
  pm_id :: gostring
  pm_mode :: gostring
  pm_statements :: "statement list"
  pm_down :: "statement list"
  pm_checksum :: gostring

definition prepare :: "(gostring \<Rightarrow> gostring) \<Rightarrow> migration \<Rightarrow> prepared_migration" where
  "prepare sha m = \<lparr>pm_id = mg_id m, pm_mode = mg_mode m, pm_statements = mg_statements m,
     pm_down = mg_down m, pm_checksum = checksum_mode sha (mg_mode m) (mg_statements m)\<rparr>"

definition prepare_migrations :: "(gostring \<Rightarrow> gostring) \<Rightarrow> migration list \<Rightarrow> migrate_error + prepared_migration list" where
  "prepare_migrations sha ms =
     rbind (rfold (\<lambda>m ids.
       rbind (check (mg_id m \<notin> ids) (DuplicateMigration (mg_id m))) (\<lambda>_.
       rbind (migration_validate m) (\<lambda>_. Inr (insert (mg_id m) ids)))) ms {}) (\<lambda>_.
     Inr (sort_key pm_id (map (prepare sha) ms)))"

definition export_migration :: "prepared_migration \<Rightarrow> migration" where
  "export_migration p = \<lparr>mg_id = pm_id p, mg_mode = pm_mode p, mg_statements = pm_statements p, mg_down = pm_down p\<rparr>"

definition export_migrations :: "prepared_migration list \<Rightarrow> migration list" where
  "export_migrations ps = map export_migration ps"

subsection \<open>Targets\<close>

datatype apply_target = AllPending | ApplyThrough gostring

datatype revert_target = RevertNothing | Through gostring | Steps int

text \<open>\<open>sort.Search\<close>: binary search for the first index at which \<open>f\<close> holds.\<close>

function search_between :: "(nat \<Rightarrow> bool) \<Rightarrow> nat \<Rightarrow> nat \<Rightarrow> nat" where
  "search_between f i j = (if i < j then
     (let h = (i + j) div 2 in if \<not> f h then search_between f (h + 1) j else search_between f i h) else i)"
  by pat_completeness auto
termination
  by (relation "measure (\<lambda>(f, i, j). j - i)") auto

declare search_between.simps [simp del]

definition sort_search :: "nat \<Rightarrow> (nat \<Rightarrow> bool) \<Rightarrow> nat" where
  "sort_search n f = search_between f 0 n"

definition apply_limit :: "prepared_migration list \<Rightarrow> apply_target \<Rightarrow> migrate_error + nat" where
  "apply_limit ms target = (case target of
       ApplyThrough mid \<Rightarrow>
         (let index = sort_search (length ms) (\<lambda>p. mid \<le> pm_id (ms ! p)) in
          if index = length ms \<or> pm_id (ms ! index) \<noteq> mid then Inl (CannotApplyThrough mid) else Inr (index + 1))
     | AllPending \<Rightarrow> Inr (length ms))"

type_synonym history_map = "(gostring \<times> gostring) list"

definition check_supplied :: "history_map \<Rightarrow> prepared_migration list \<Rightarrow> migrate_error + unit" where
  "check_supplied applied ms = rfold (\<lambda>r _. check (fst r \<in> set (map pm_id ms)) (NotSupplied (fst r))) applied ()"

text \<open>One supplied migration: state is whether a pending one was met, and the selection.\<close>

definition apply_step :: "history_map \<Rightarrow> nat \<Rightarrow> nat \<times> prepared_migration \<Rightarrow> bool \<times> prepared_migration list
    \<Rightarrow> migrate_error + bool \<times> prepared_migration list" where
  "apply_step applied limit p st =
     (case map_of applied (pm_id (snd p)) of
        Some recorded \<Rightarrow>
          if recorded \<noteq> pm_checksum (snd p) then Inl (ChecksumMismatch (pm_id (snd p)))
          else if fst st then Inl (RecordedAfterMissing (pm_id (snd p)))
          else Inr st
      | None \<Rightarrow> Inr (True, if fst p \<ge> limit then snd st else snd st @ [snd p]))"

definition select_applies :: "history_map \<Rightarrow> prepared_migration list \<Rightarrow> apply_target \<Rightarrow> migrate_error + prepared_migration list" where
  "select_applies applied ms target =
     rbind (check_supplied applied ms) (\<lambda>_.
     rbind (apply_limit ms target) (\<lambda>limit.
     rbind (rfold (apply_step applied limit) (indexed ms) (False, [])) (\<lambda>st. Inr (snd st))))"

definition revert_count :: "prepared_migration list \<Rightarrow> revert_target \<Rightarrow> migrate_error + nat" where
  "revert_count in_order target = (case target of
       Through mid \<Rightarrow>
         (let index = sort_search (length in_order) (\<lambda>p. mid \<le> pm_id (in_order ! p)) in
          if index = length in_order \<or> pm_id (in_order ! index) \<noteq> mid then Inl (CannotRevertThrough mid)
          else Inr (length in_order - index - 1))
     | Steps n \<Rightarrow>
         if n \<le> 0 then Inl (StepsNotPositive n)
         else if n > int (length in_order) then Inl (StepsTooMany n (length in_order))
         else Inr (nat n)
     | RevertNothing \<Rightarrow> Inl NoRevertTarget)"

definition applied_step :: "history_map \<Rightarrow> prepared_migration \<Rightarrow> bool \<times> prepared_migration list
    \<Rightarrow> migrate_error + bool \<times> prepared_migration list" where
  "applied_step applied m st =
     (case map_of applied (pm_id m) of
        None \<Rightarrow> Inr (True, snd st)
      | Some _ \<Rightarrow> if fst st then Inl (RecordedAfterMissing (pm_id m)) else Inr (False, snd st @ [m]))"

definition revert_step :: "history_map \<Rightarrow> prepared_migration \<Rightarrow> prepared_migration list \<Rightarrow> migrate_error + prepared_migration list" where
  "revert_step applied m selected =
     (if map_of applied (pm_id m) \<noteq> Some (pm_checksum m) then Inl (ChecksumMismatch (pm_id m))
      else if pm_down m = [] then Inl (NoReverseSource (pm_id m))
      else Inr (selected @ [m]))"

definition select_reverts :: "history_map \<Rightarrow> prepared_migration list \<Rightarrow> revert_target \<Rightarrow> migrate_error + prepared_migration list" where
  "select_reverts applied ms target =
     rbind (check_supplied applied ms) (\<lambda>_.
     rbind (rfold (applied_step applied) ms (False, [])) (\<lambda>st.
     rbind (revert_count (snd st) target) (\<lambda>count.
     rfold (revert_step applied) (take count (rev (snd st))) [])))"

subsection \<open>Status\<close>

datatype status_state = StatusApplied | StatusPending | StatusChanged | StatusOutOfOrder | StatusUnknown

record status_entry =
  se_id :: gostring
  se_state :: status_state
  se_reversible :: bool

fun status_loop :: "history_map \<Rightarrow> bool \<Rightarrow> prepared_migration list \<Rightarrow> status_entry list" where
  "status_loop applied pending [] = []"
| "status_loop applied pending (m # ms) = (case map_of applied (pm_id m) of
       None \<Rightarrow> \<lparr>se_id = pm_id m, se_state = StatusPending, se_reversible = pm_down m \<noteq> []\<rparr> # status_loop applied True ms
     | Some recorded \<Rightarrow>
         \<lparr>se_id = pm_id m,
          se_state = (if recorded \<noteq> pm_checksum m then StatusChanged else if pending then StatusOutOfOrder else StatusApplied),
          se_reversible = pm_down m \<noteq> []\<rparr> # status_loop applied pending ms)"

definition status_entries :: "history_map \<Rightarrow> prepared_migration list \<Rightarrow> status_entry list" where
  "status_entries applied ms =
     map (\<lambda>mid. \<lparr>se_id = mid, se_state = StatusUnknown, se_reversible = False\<rparr>)
       (sort (filter (\<lambda>mid. mid \<notin> set (map pm_id ms)) (map fst applied))) @
     status_loop applied False ms"

subsection \<open>Search\<close>

lemma search_between_least:
  assumes "i \<le> j" "\<And>a b. a \<le> b \<Longrightarrow> b < j \<Longrightarrow> f a \<Longrightarrow> f b" "\<And>a. a < i \<Longrightarrow> \<not> f a"
  shows "search_between f i j \<le> j \<and> (\<forall>a < search_between f i j. \<not> f a) \<and>
    (search_between f i j < j \<longrightarrow> f (search_between f i j))"
  using assms
proof (induction f i j rule: search_between.induct)
  case (1 f i j)
  show ?case
  proof (cases "i < j")
    case False
    then have "search_between f i j = i" by (subst search_between.simps) simp
    then show ?thesis using "1.prems"(1,3) False by simp
  next
    case True
    define h where "h = (i + j) div 2"
    have h: "i \<le> h" "h < j" using True by (auto simp: h_def)
    show ?thesis
    proof (cases "f h")
      case True
      have eq: "search_between f i j = search_between f i h"
        using \<open>i < j\<close> True by (subst search_between.simps) (simp add: h_def Let_def)
      have "search_between f i h \<le> h \<and> (\<forall>a < search_between f i h. \<not> f a) \<and>
          (search_between f i h < h \<longrightarrow> f (search_between f i h))"
      proof (rule "1.IH"(2) [OF \<open>i < j\<close> h_def])
        show "\<not> \<not> f h" using True by simp
        show "i \<le> h" by (rule h)
        show "f b" if "a \<le> b" "b < h" "f a" for a b
          using "1.prems"(2) that h(2) by (meson less_trans)
        show "\<not> f a" if "a < i" for a using "1.prems"(3) that .
      qed
      then show ?thesis unfolding eq using h True
        by (cases "search_between f i h < h") auto
    next
      case False
      have eq: "search_between f i j = search_between f (h + 1) j"
        using \<open>i < j\<close> False by (subst search_between.simps) (simp add: h_def Let_def)
      have "\<not> f a" if "a < h + 1" for a
        using that False "1.prems"(2) [of a h] h by auto
      note low = this
      show ?thesis unfolding eq
      proof (rule "1.IH"(1) [OF \<open>i < j\<close> h_def])
        show "\<not> f h" by (rule False)
        show "h + 1 \<le> j" using h by simp
        show "f b" if "a \<le> b" "b < j" "f a" for a b using "1.prems"(2) that by blast
        show "\<not> f a" if "a < h + 1" for a using low that .
      qed
    qed
  qed
qed

text \<open>Prepared migrations are strictly sorted by ID.\<close>

definition by_id :: "prepared_migration list \<Rightarrow> bool" where
  "by_id ms = sorted_wrt (<) (map pm_id ms)"

lemma by_id_less: "by_id ms \<Longrightarrow> i < j \<Longrightarrow> j < length ms \<Longrightarrow> pm_id (ms ! i) < pm_id (ms ! j)"
  by (auto simp: by_id_def sorted_wrt_iff_nth_less)

lemma by_id_distinct: "by_id ms \<Longrightarrow> distinct (map pm_id ms)"
  unfolding by_id_def by (simp add: strict_sorted_iff)

lemma by_id_take: "by_id ms \<Longrightarrow> by_id (take k ms)"
  unfolding by_id_def by (metis sorted_wrt_take take_map)

lemma by_id_inj: "by_id ms \<Longrightarrow> i < length ms \<Longrightarrow> j < length ms \<Longrightarrow> pm_id (ms ! i) = pm_id (ms ! j) \<Longrightarrow> i = j"
  by (metis by_id_less less_irrefl linorder_neqE_nat)

lemma sort_search_id:
  assumes "by_id ms"
  shows "sort_search (length ms) (\<lambda>p. mid \<le> pm_id (ms ! p)) < length ms \<and>
      pm_id (ms ! sort_search (length ms) (\<lambda>p. mid \<le> pm_id (ms ! p))) = mid \<longleftrightarrow> mid \<in> set (map pm_id ms)"
proof -
  define s where "s = sort_search (length ms) (\<lambda>p. mid \<le> pm_id (ms ! p))"
  have mono: "mid \<le> pm_id (ms ! a) \<Longrightarrow> mid \<le> pm_id (ms ! b)" if "a \<le> b" "b < length ms" for a b
    using by_id_less [OF assms, of a b] that by (cases "a = b") auto
  have "s \<le> length ms \<and> (\<forall>a < s. \<not> mid \<le> pm_id (ms ! a)) \<and> (s < length ms \<longrightarrow> mid \<le> pm_id (ms ! s))"
    unfolding s_def sort_search_def by (rule search_between_least) (use mono in auto)
  then have s: "s \<le> length ms" "\<And>a. a < s \<Longrightarrow> \<not> mid \<le> pm_id (ms ! a)" "s < length ms \<Longrightarrow> mid \<le> pm_id (ms ! s)"
    by auto
  have "s < length ms \<and> pm_id (ms ! s) = mid" if member: "mid \<in> set (map pm_id ms)"
  proof -
    obtain m where "m \<in> set ms" "pm_id m = mid" using member by auto
    then obtain i where i: "i < length ms" "pm_id (ms ! i) = mid" by (auto simp: in_set_conv_nth)
    then have "s \<le> i" using s(2) [of i] by (metis not_le order_refl)
    then show ?thesis using s(3) i by_id_less [OF assms, of s i] by (cases "s = i") auto
  qed
  moreover have "mid \<in> set (map pm_id ms)" if "s < length ms" "pm_id (ms ! s) = mid" for s
    using that nth_mem [of s ms] by auto
  ultimately show ?thesis unfolding s_def by blast
qed

lemma apply_limit_through:
  assumes "by_id ms"
  shows "apply_limit ms (ApplyThrough mid) = Inr limit \<longleftrightarrow>
    0 < limit \<and> limit \<le> length ms \<and> pm_id (ms ! (limit - 1)) = mid"
proof -
  define s where "s = sort_search (length ms) (\<lambda>p. mid \<le> pm_id (ms ! p))"
  have iff: "s < length ms \<and> pm_id (ms ! s) = mid \<longleftrightarrow> mid \<in> set (map pm_id ms)"
    unfolding s_def by (rule sort_search_id [OF assms])
  have le: "s \<le> length ms"
  proof -
    have "mid \<le> pm_id (ms ! a) \<Longrightarrow> mid \<le> pm_id (ms ! b)" if "a \<le> b" "b < length ms" for a b
      using by_id_less [OF assms, of a b] that by (cases "a = b") auto
    then show ?thesis
      unfolding s_def sort_search_def
      using search_between_least [of 0 "length ms" "\<lambda>p. mid \<le> pm_id (ms ! p)"] by blast
  qed
  have lim: "apply_limit ms (ApplyThrough mid) = Inr limit \<longleftrightarrow> s < length ms \<and> pm_id (ms ! s) = mid \<and> limit = s + 1"
    using le by (auto simp: apply_limit_def Let_def s_def [symmetric])
  show ?thesis
  proof
    assume "apply_limit ms (ApplyThrough mid) = Inr limit"
    then show "0 < limit \<and> limit \<le> length ms \<and> pm_id (ms ! (limit - 1)) = mid" using lim by auto
  next
    assume l: "0 < limit \<and> limit \<le> length ms \<and> pm_id (ms ! (limit - 1)) = mid"
    then have "limit - 1 < length ms" by auto
    then have "mid \<in> set (map pm_id ms)" using l nth_mem [of "limit - 1" ms] by auto
    then have s: "s < length ms" "pm_id (ms ! s) = mid" using iff by auto
    then have "s = limit - 1" using by_id_inj [OF assms] l \<open>limit - 1 < length ms\<close> by metis
    then show "apply_limit ms (ApplyThrough mid) = Inr limit" using lim s l by auto
  qed
qed

lemma prepare_migrations_Inr:
  assumes "prepare_migrations sha ms = Inr ps"
  shows "by_id ps \<and> set ps = prepare sha ` set ms \<and> length ps = length ms \<and>
    (\<forall>m\<in>set ms. migration_validate m = Inr ())"
proof -
  have gen: "set (map mg_id ms) \<inter> K = {} \<and> distinct (map mg_id ms) \<and> (\<forall>m\<in>set ms. migration_validate m = Inr ())"
    if "rfold (\<lambda>m ids. rbind (check (mg_id m \<notin> ids) (DuplicateMigration (mg_id m))) (\<lambda>_.
       rbind (migration_validate m) (\<lambda>_. Inr (insert (mg_id m) ids)))) ms K = Inr L" for K L
    using that by (induction ms arbitrary: K) auto
  from assms obtain L where L: "rfold (\<lambda>m ids. rbind (check (mg_id m \<notin> ids) (DuplicateMigration (mg_id m))) (\<lambda>_.
       rbind (migration_validate m) (\<lambda>_. Inr (insert (mg_id m) ids)))) ms {} = Inr L"
    and ps: "ps = sort_key pm_id (map (prepare sha) ms)"
    by (auto simp: prepare_migrations_def)
  have ids: "map pm_id (map (prepare sha) ms) = map mg_id ms" by (simp add: prepare_def)
  have "distinct (map pm_id ps)"
    using gen [OF L] ids unfolding ps by (metis mset_map mset_sort mset_eq_imp_distinct_iff)
  then have "by_id ps" unfolding by_id_def strict_sorted_iff by (simp add: ps)
  then show ?thesis using gen [OF L] ps by auto
qed

subsection \<open>The history as a prefix\<close>

definition row_of :: "prepared_migration \<Rightarrow> gostring \<times> gostring" where
  "row_of m = (pm_id m, pm_checksum m)"

text \<open>The history records exactly the first \<open>k\<close> migrations, with their checksums.\<close>

definition history_prefix :: "history_map \<Rightarrow> prepared_migration list \<Rightarrow> nat \<Rightarrow> bool" where
  "history_prefix applied ms k = (k \<le> length ms \<and> map_of applied = map_of (map row_of (take k ms)))"

definition recorded :: "history_map \<Rightarrow> prepared_migration \<Rightarrow> bool" where
  "recorded applied m = (map_of applied (pm_id m) = Some (pm_checksum m))"

definition absent :: "history_map \<Rightarrow> prepared_migration \<Rightarrow> bool" where
  "absent applied m = (map_of applied (pm_id m) = None)"

lemma check_supplied_iff: "check_supplied applied ms = Inr u \<longleftrightarrow> fst ` set applied \<subseteq> pm_id ` set ms"
proof -
  have "check_supplied applied ms = Inr u \<longleftrightarrow> (\<forall>r\<in>set applied. fst r \<in> set (map pm_id ms))"
    unfolding check_supplied_def
    using rfold_check_all [of "\<lambda>r _. check (fst r \<in> set (map pm_id ms)) (NotSupplied (fst r))"
        "\<lambda>r. fst r \<in> set (map pm_id ms)" applied "()" u] by simp
  then show ?thesis by auto
qed

text \<open>A history split of the supplied list: recorded ones, then absent ones.\<close>

definition split_at :: "history_map \<Rightarrow> prepared_migration list \<Rightarrow> nat \<Rightarrow> bool" where
  "split_at applied ms k = (k \<le> length ms \<and> list_all (recorded applied) (take k ms) \<and> list_all (absent applied) (drop k ms))"

lemma split_at_Cons:
  "split_at applied (m # ms) k \<longleftrightarrow>
     (case k of 0 \<Rightarrow> absent applied m \<and> split_at applied ms 0
      | Suc j \<Rightarrow> recorded applied m \<and> split_at applied ms j)"
  by (cases k) (auto simp: split_at_def)

lemma split_at_unique: "split_at applied ms k \<Longrightarrow> split_at applied ms j \<Longrightarrow> k = j"
proof (induction ms arbitrary: k j)
  case (Cons m ms)
  then show ?case by (cases k; cases j) (auto simp: split_at_Cons recorded_def absent_def)
qed (simp add: split_at_def)

lemma map_of_rows:
  assumes "by_id ms"
  shows "map_of (map row_of (take k ms)) mid = Some c \<longleftrightarrow> (\<exists>m\<in>set (take k ms). pm_id m = mid \<and> pm_checksum m = c)"
proof -
  have "distinct (map fst (map row_of (take k ms)))"
    using by_id_distinct [OF by_id_take [OF assms]] by (simp add: row_of_def comp_def)
  then have "map_of (map row_of (take k ms)) mid = Some c \<longleftrightarrow> (mid, c) \<in> set (map row_of (take k ms))"
    by (rule map_of_eq_Some_iff)
  then show ?thesis by (auto simp: row_of_def)
qed

lemma history_prefix_split:
  assumes "by_id ms" "distinct (map fst applied)"
  shows "history_prefix applied ms k \<longleftrightarrow> fst ` set applied \<subseteq> pm_id ` set ms \<and> split_at applied ms k"
proof
  assume h: "history_prefix applied ms k"
  have eq: "map_of applied = map_of (map row_of (take k ms))" "k \<le> length ms"
    using h by (auto simp: history_prefix_def)
  have "fst ` set applied = fst ` set (map row_of (take k ms))"
    using eq(1) by (metis dom_map_of_conv_image_fst)
  then have sub: "fst ` set applied \<subseteq> pm_id ` set ms"
    using set_take_subset [of k ms] by (auto simp: row_of_def)
  have "recorded applied m" if "m \<in> set (take k ms)" for m
    unfolding recorded_def eq(1) using map_of_rows [OF assms(1)] that by blast
  moreover have "absent applied m" if "m \<in> set (drop k ms)" for m
  proof -
    have "pm_id m \<notin> pm_id ` set (take k ms)"
      using by_id_distinct [OF assms(1)] that
      by (metis append_take_drop_id distinct_append disjoint_iff imageI image_set list.set_map map_append)
    then have "map_of (map row_of (take k ms)) (pm_id m) = None"
      by (auto simp: map_of_eq_None_iff row_of_def)
    then show ?thesis by (simp add: absent_def eq(1))
  qed
  ultimately show "fst ` set applied \<subseteq> pm_id ` set ms \<and> split_at applied ms k"
    using sub eq(2) by (auto simp: split_at_def list_all_iff)
next
  assume h: "fst ` set applied \<subseteq> pm_id ` set ms \<and> split_at applied ms k"
  have "map_of applied mid = map_of (map row_of (take k ms)) mid" for mid
  proof (cases "map_of applied mid")
    case None
    have "pm_id m \<noteq> mid" if "m \<in> set (take k ms)" for m
      using that h None by (auto simp: split_at_def list_all_iff recorded_def)
    then have "mid \<notin> fst ` set (map row_of (take k ms))"
      by (fastforce simp: row_of_def)
    then have "map_of (map row_of (take k ms)) mid = None" by (simp only: map_of_eq_None_iff not_False_eq_True)
    then show ?thesis using None by simp
  next
    case (Some c)
    then have "mid \<in> fst ` set applied" by (metis domI dom_map_of_conv_image_fst)
    then obtain m where m: "m \<in> set ms" "pm_id m = mid" using h by auto
    have "m \<notin> set (drop k ms)" using h Some m by (auto simp: split_at_def list_all_iff absent_def)
    then have "m \<in> set (take k ms)" using m by (metis Un_iff append_take_drop_id set_append)
    moreover from this have "pm_checksum m = c"
      using h Some m by (auto simp: split_at_def list_all_iff recorded_def)
    ultimately show ?thesis using Some map_of_rows [OF assms(1)] m by (metis (no_types))
  qed
  then show "history_prefix applied ms k" using h by (auto simp: history_prefix_def split_at_def)
qed

subsection \<open>Choosing what to apply\<close>

lemma apply_loop:
  "rfold (apply_step applied limit) (zip [i..<i + length ms] ms) (pending, sel) = Inr (p', sel') \<longleftrightarrow>
     (\<exists>k. split_at applied ms k \<and> (pending \<longrightarrow> k = 0) \<and> p' = (pending \<or> k < length ms) \<and>
       sel' = sel @ take (limit - (i + k)) (drop k ms))"
proof (induction ms arbitrary: i pending sel)
  case Nil
  then show ?case by (auto simp: split_at_def)
next
  case (Cons m ms)
  have zip: "zip [i..<i + length (m # ms)] (m # ms) = (i, m) # zip [Suc i..<Suc i + length ms] ms"
    by (simp add: upt_conv_Cons del: upt_Suc)
  show ?case
  proof (cases "map_of applied (pm_id m)")
    case None
    let ?sel = "if limit \<le> i then sel else sel @ [m]"
    have "rfold (apply_step applied limit) (zip [i..<i + length (m # ms)] (m # ms)) (pending, sel) = Inr (p', sel') \<longleftrightarrow>
        rfold (apply_step applied limit) (zip [Suc i..<Suc i + length ms] ms) (True, ?sel) = Inr (p', sel')"
      unfolding zip rfold.simps by (simp add: apply_step_def None del: upt_Suc)
    also have "\<dots> \<longleftrightarrow> split_at applied ms 0 \<and> p' \<and> sel' = ?sel @ take (limit - Suc i) ms"
      using Cons.IH [of "Suc i" True ?sel] by auto
    also have "\<dots> \<longleftrightarrow> split_at applied (m # ms) 0 \<and> p' \<and> sel' = sel @ take (limit - i) (m # ms)"
      using None by (auto simp: split_at_Cons absent_def take_Cons')
    also have "\<dots> \<longleftrightarrow> (\<exists>k. split_at applied (m # ms) k \<and> (pending \<longrightarrow> k = 0) \<and> p' = (pending \<or> k < length (m # ms)) \<and>
       sel' = sel @ take (limit - (i + k)) (drop k (m # ms)))"
    proof -
      have "k = 0" if "split_at applied (m # ms) k" for k
        using that None by (cases k) (auto simp: split_at_Cons recorded_def)
      then show ?thesis by fastforce
    qed
    finally show ?thesis .
  next
    case (Some c)
    show ?thesis
    proof (cases "c = pm_checksum m \<and> \<not> pending")
      case True
      have "rfold (apply_step applied limit) (zip [i..<i + length (m # ms)] (m # ms)) (pending, sel) = Inr (p', sel') \<longleftrightarrow>
          rfold (apply_step applied limit) (zip [Suc i..<Suc i + length ms] ms) (pending, sel) = Inr (p', sel')"
        unfolding zip rfold.simps using True by (simp add: apply_step_def Some del: upt_Suc)
      also have "\<dots> \<longleftrightarrow> (\<exists>k. split_at applied ms k \<and> p' = (k < length ms) \<and>
          sel' = sel @ take (limit - (Suc i + k)) (drop k ms))"
        using Cons.IH [of "Suc i" pending sel] True by simp
      also have "\<dots> \<longleftrightarrow> (\<exists>k. split_at applied (m # ms) (Suc k) \<and> p' = (Suc k < length (m # ms)) \<and>
          sel' = sel @ take (limit - (i + Suc k)) (drop (Suc k) (m # ms)))"
        using Some True by (simp add: split_at_Cons recorded_def)
      also have "\<dots> \<longleftrightarrow> (\<exists>k. split_at applied (m # ms) k \<and> (pending \<longrightarrow> k = 0) \<and> p' = (pending \<or> k < length (m # ms)) \<and>
          sel' = sel @ take (limit - (i + k)) (drop k (m # ms)))"
      proof -
        have "k \<noteq> 0" if "split_at applied (m # ms) k" for k
          using that Some by (cases k) (auto simp: split_at_Cons absent_def)
        then show ?thesis using True by (metis not0_implies_Suc)
      qed
      finally show ?thesis .
    next
      case False
      have "rfold (apply_step applied limit) (zip [i..<i + length (m # ms)] (m # ms)) (pending, sel) \<noteq> Inr (p', sel')"
        unfolding zip rfold.simps using False Some by (auto simp: apply_step_def)
      moreover have "\<not> (split_at applied (m # ms) k \<and> (pending \<longrightarrow> k = 0))" for k
        using False Some by (cases k) (auto simp: split_at_Cons absent_def recorded_def)
      ultimately show ?thesis by blast
    qed
  qed
qed

lemma select_applies_Inr:
  assumes "by_id ms" "distinct (map fst applied)"
  shows "select_applies applied ms target = Inr sel \<longleftrightarrow>
    (\<exists>k limit. history_prefix applied ms k \<and> apply_limit ms target = Inr limit \<and> sel = drop k (take limit ms))"
proof -
  have loop: "(\<exists>p'. rfold (apply_step applied limit) (indexed ms) (False, []) = Inr (p', sel)) \<longleftrightarrow>
      (\<exists>k. split_at applied ms k \<and> sel = drop k (take limit ms))" for limit
    using apply_loop [of applied limit 0 ms False "[]" _ sel] by (simp add: indexed_def drop_take)
  have "select_applies applied ms target = Inr sel \<longleftrightarrow> fst ` set applied \<subseteq> pm_id ` set ms \<and>
      (\<exists>limit. apply_limit ms target = Inr limit \<and>
        (\<exists>p'. rfold (apply_step applied limit) (indexed ms) (False, []) = Inr (p', sel)))"
    by (auto simp: select_applies_def check_supplied_iff)
  then show ?thesis unfolding loop history_prefix_split [OF assms] by blast
qed

subsection \<open>Choosing what to revert\<close>

text \<open>The history names exactly the first \<open>k\<close> migrations, whatever their checksums.\<close>

definition present_prefix :: "history_map \<Rightarrow> prepared_migration list \<Rightarrow> nat \<Rightarrow> bool" where
  "present_prefix applied ms k = (k \<le> length ms \<and> list_all (\<lambda>m. \<not> absent applied m) (take k ms) \<and>
     list_all (absent applied) (drop k ms))"

lemma applied_loop:
  "rfold (applied_step applied) ms (pending, acc) = Inr (p', ord) \<longleftrightarrow>
     (\<exists>k. present_prefix applied ms k \<and> (pending \<longrightarrow> k = 0) \<and> p' = (pending \<or> k < length ms) \<and> ord = acc @ take k ms)"
proof (induction ms arbitrary: pending acc)
  case Nil
  then show ?case by (auto simp: present_prefix_def)
next
  case (Cons m ms)
  have cons0: "present_prefix applied (m # ms) 0 \<longleftrightarrow> absent applied m \<and> present_prefix applied ms 0"
    by (simp add: present_prefix_def)
  have consS: "present_prefix applied (m # ms) (Suc k) \<longleftrightarrow> \<not> absent applied m \<and> present_prefix applied ms k" for k
    by (auto simp: present_prefix_def)
  show ?case
  proof (cases "map_of applied (pm_id m)")
    case None
    then have "absent applied m" by (simp add: absent_def)
    then have "k = 0" if "present_prefix applied (m # ms) k" for k
      using that consS by (cases k) auto
    then show ?thesis
      using None cons0 \<open>absent applied m\<close> Cons.IH [of True acc] by (auto simp: applied_step_def)
  next
    case (Some c)
    then have p: "\<not> absent applied m" by (simp add: absent_def)
    then have k: "k \<noteq> 0" if "present_prefix applied (m # ms) k" for k using that cons0 by metis
    show ?thesis
    proof (cases pending)
      case True
      then show ?thesis using Some k by (auto simp: applied_step_def)
    next
      case False
      then have "applied_step applied m (pending, acc) = Inr (False, acc @ [m])"
        using Some by (simp add: applied_step_def)
      then have "rfold (applied_step applied) (m # ms) (pending, acc) = Inr (p', ord) \<longleftrightarrow>
          (\<exists>k. present_prefix applied ms k \<and> p' = (k < length ms) \<and> ord = (acc @ [m]) @ take k ms)"
        using Cons.IH [of False "acc @ [m]"] by simp
      also have "\<dots> \<longleftrightarrow> (\<exists>k. present_prefix applied (m # ms) (Suc k) \<and> p' = (Suc k < length (m # ms)) \<and>
          ord = acc @ take (Suc k) (m # ms))"
        using consS p by simp
      finally show ?thesis using k False by (metis not0_implies_Suc)
    qed
  qed
qed

lemma revert_loop:
  "rfold (revert_step applied) xs acc = Inr sel \<longleftrightarrow>
     list_all (\<lambda>m. recorded applied m \<and> pm_down m \<noteq> []) xs \<and> sel = acc @ xs"
  by (induction xs arbitrary: acc) (auto simp: revert_step_def recorded_def)

lemma present_prefix_names:
  assumes "by_id ms"
  shows "fst ` set applied \<subseteq> pm_id ` set ms \<and> present_prefix applied ms k \<longleftrightarrow>
    k \<le> length ms \<and> fst ` set applied = pm_id ` set (take k ms)"
proof -
  have dist: "pm_id ` set (take k ms) \<inter> pm_id ` set (drop k ms) = {}"
    using by_id_distinct [OF assms]
    by (metis append_take_drop_id distinct_append image_set map_append)
  have all: "pm_id ` set ms = pm_id ` set (take k ms) \<union> pm_id ` set (drop k ms)"
    by (metis append_take_drop_id image_Un set_append)
  have ab: "absent applied m \<longleftrightarrow> pm_id m \<notin> fst ` set applied" for m
    by (simp add: absent_def map_of_eq_None_iff)
  have pre: "present_prefix applied ms k \<longleftrightarrow> k \<le> length ms \<and> pm_id ` set (take k ms) \<subseteq> fst ` set applied \<and>
      pm_id ` set (drop k ms) \<inter> fst ` set applied = {}"
    unfolding present_prefix_def list_all_iff ab by blast
  have split: "S \<subseteq> T \<union> R \<and> b \<and> T \<subseteq> S \<and> R \<inter> S = {} \<longleftrightarrow> b \<and> S = T" if "T \<inter> R = {}" for S T R :: "gostring set" and b
    using that by blast
  show ?thesis unfolding pre all by (rule split [OF dist])
qed

lemma select_reverts_Inr:
  assumes "by_id ms"
  shows "select_reverts applied ms target = Inr sel \<longleftrightarrow>
    (\<exists>k count. k \<le> length ms \<and> fst ` set applied = pm_id ` set (take k ms) \<and>
      revert_count (take k ms) target = Inr count \<and> sel = take count (rev (take k ms)) \<and>
      (\<forall>m\<in>set sel. recorded applied m \<and> pm_down m \<noteq> []))"
proof -
  have "select_reverts applied ms target = Inr sel \<longleftrightarrow> fst ` set applied \<subseteq> pm_id ` set ms \<and>
      (\<exists>k count. present_prefix applied ms k \<and> revert_count (take k ms) target = Inr count \<and>
        rfold (revert_step applied) (take count (rev (take k ms))) [] = Inr sel)"
    by (auto simp: select_reverts_def check_supplied_iff applied_loop)
  also have "\<dots> \<longleftrightarrow> (\<exists>k count. (fst ` set applied \<subseteq> pm_id ` set ms \<and> present_prefix applied ms k) \<and>
      revert_count (take k ms) target = Inr count \<and> sel = take count (rev (take k ms)) \<and>
      (\<forall>m\<in>set sel. recorded applied m \<and> pm_down m \<noteq> []))"
    unfolding revert_loop list_all_iff by auto
  finally show ?thesis unfolding present_prefix_names [OF assms] by blast
qed

lemma revert_count_steps:
  "revert_count xs (Steps n) = Inr cnt \<longleftrightarrow> 0 < n \<and> n \<le> int (length xs) \<and> cnt = nat n"
  by (auto simp: revert_count_def)

lemma revert_count_through:
  assumes "by_id xs"
  shows "revert_count xs (Through mid) = Inr cnt \<longleftrightarrow>
    cnt < length xs \<and> pm_id (xs ! (length xs - cnt - 1)) = mid"
proof -
  define s where "s = sort_search (length xs) (\<lambda>p. mid \<le> pm_id (xs ! p))"
  have rev: "revert_count xs (Through mid) = Inr cnt \<longleftrightarrow>
      \<not> (s = length xs \<or> pm_id (xs ! s) \<noteq> mid) \<and> cnt = length xs - s - 1"
    by (auto simp: revert_count_def Let_def s_def [symmetric])
  have lim: "apply_limit xs (ApplyThrough mid) = Inr (s + 1) \<longleftrightarrow> \<not> (s = length xs \<or> pm_id (xs ! s) \<noteq> mid)"
    by (auto simp: apply_limit_def Let_def s_def [symmetric])
  have s: "\<not> (s = length xs \<or> pm_id (xs ! s) \<noteq> mid) \<longleftrightarrow> s < length xs \<and> pm_id (xs ! s) = mid"
    using apply_limit_through [OF assms, of mid "s + 1"] lim by auto
  show ?thesis
  proof
    assume "revert_count xs (Through mid) = Inr cnt"
    then show "cnt < length xs \<and> pm_id (xs ! (length xs - cnt - 1)) = mid" using rev s by auto
  next
    assume c: "cnt < length xs \<and> pm_id (xs ! (length xs - cnt - 1)) = mid"
    then have "mid \<in> set (map pm_id xs)" using nth_mem [of "length xs - cnt - 1" xs] by auto
    then have s': "s < length xs" "pm_id (xs ! s) = mid"
      using sort_search_id [OF assms, of mid] by (auto simp: s_def)
    have "length xs - cnt - 1 < length xs" using c by linarith
    then have "s = length xs - cnt - 1" using by_id_inj [OF assms s'(1)] s'(2) c by simp
    then show "revert_count xs (Through mid) = Inr cnt" using rev s s' c by auto
  qed
qed

lemma newest_first:
  "k \<le> length ms \<Longrightarrow> take c (rev (take k ms)) = rev (drop (k - c) (take k ms))"
  by (simp add: take_rev min_absorb2)

lemma revert_count_through_prefix:
  assumes "by_id ms" "k \<le> length ms"
  shows "revert_count (take k ms) (Through mid) = Inr c \<longleftrightarrow> (\<exists>i < k. pm_id (ms ! i) = mid \<and> c = k - Suc i)"
proof -
  have "revert_count (take k ms) (Through mid) = Inr c \<longleftrightarrow> c < k \<and> pm_id (ms ! (k - c - 1)) = mid"
    using revert_count_through [OF by_id_take [OF assms(1)]] assms(2) by (auto simp: min_absorb2)
  also have "\<dots> \<longleftrightarrow> (\<exists>i < k. pm_id (ms ! i) = mid \<and> c = k - Suc i)"
  proof
    assume "c < k \<and> pm_id (ms ! (k - c - 1)) = mid"
    then show "\<exists>i < k. pm_id (ms ! i) = mid \<and> c = k - Suc i"
      by (intro exI [of _ "k - c - 1"]) auto
  qed auto
  finally show ?thesis .
qed

lemma select_reverts_steps:
  assumes "by_id ms"
  shows "select_reverts applied ms (Steps n) = Inr sel \<longleftrightarrow>
    (\<exists>k. k \<le> length ms \<and> fst ` set applied = pm_id ` set (take k ms) \<and> 0 < n \<and> n \<le> int k \<and>
      sel = rev (drop (k - nat n) (take k ms)) \<and> (\<forall>m\<in>set sel. recorded applied m \<and> pm_down m \<noteq> []))"
proof -
  have "(\<exists>c. revert_count (take k ms) (Steps n) = Inr c \<and> sel = take c (rev (take k ms)) \<and> Q) \<longleftrightarrow>
      0 < n \<and> n \<le> int k \<and> sel = rev (drop (k - nat n) (take k ms)) \<and> Q" if "k \<le> length ms" for k Q
    unfolding revert_count_steps using newest_first [OF that] that by (auto simp: min_absorb2)
  note per_k = this
  show ?thesis unfolding select_reverts_Inr [OF assms] ex_simps(1,2) [symmetric]
    using per_k by (metis (no_types))
qed

lemma select_reverts_through:
  assumes "by_id ms"
  shows "select_reverts applied ms (Through mid) = Inr sel \<longleftrightarrow>
    (\<exists>k i. k \<le> length ms \<and> fst ` set applied = pm_id ` set (take k ms) \<and> i < k \<and> pm_id (ms ! i) = mid \<and>
      sel = rev (drop (Suc i) (take k ms)) \<and> (\<forall>m\<in>set sel. recorded applied m \<and> pm_down m \<noteq> []))"
proof -
  have eq: "take (k - Suc i) (rev (take k ms)) = rev (drop (Suc i) (take k ms))" if "i < k" "k \<le> length ms" for i k
    using newest_first [OF that(2)] that(1) by simp
  have "(\<exists>c. revert_count (take k ms) (Through mid) = Inr c \<and> sel = take c (rev (take k ms)) \<and> Q) \<longleftrightarrow>
      (\<exists>i. i < k \<and> pm_id (ms ! i) = mid \<and> sel = rev (drop (Suc i) (take k ms)) \<and> Q)" if "k \<le> length ms" for k Q
    unfolding revert_count_through_prefix [OF assms that] using eq [OF _ that] by auto
  note per_k = this
  show ?thesis unfolding select_reverts_Inr [OF assms] using per_k by (metis (no_types))
qed

subsection \<open>Properties of the plan\<close>

text \<open>
  C10. An apply plan exists exactly when the history records a prefix of the supplied
  migrations, in ID order, with unchanged checksums. It then selects, in order, exactly
  the unrecorded migrations: all of them, or those up to and including the named one.\<close>

theorem select_applies_plan:
  assumes "prepare_migrations sha migs = Inr ms" "distinct (map fst applied)"
  shows "(select_applies applied ms AllPending = Inr sel \<longleftrightarrow> (\<exists>k. history_prefix applied ms k \<and> sel = drop k ms)) \<and>
    (select_applies applied ms (ApplyThrough mid) = Inr sel \<longleftrightarrow>
      (\<exists>k i. history_prefix applied ms k \<and> i < length ms \<and> pm_id (ms ! i) = mid \<and> sel = drop k (take (Suc i) ms)))"
proof -
  have ord: "by_id ms" using prepare_migrations_Inr [OF assms(1)] by simp
  have all: "apply_limit ms AllPending = Inr l \<longleftrightarrow> l = length ms" for l by (auto simp: apply_limit_def)
  have thr: "apply_limit ms (ApplyThrough mid) = Inr l \<longleftrightarrow> (\<exists>i < length ms. pm_id (ms ! i) = mid \<and> l = Suc i)" for l
    unfolding apply_limit_through [OF ord] by (cases l) auto
  show ?thesis
    unfolding select_applies_Inr [OF ord assms(2)] all thr by auto
qed

text \<open>
  A revert plan exists exactly when the history names a prefix of the supplied
  migrations and every selected migration has an unchanged checksum and reverse sources.
  It then selects, newest first, the last \<open>n\<close> recorded migrations, or those after the
  named one; without a target there is no plan.\<close>

theorem select_reverts_plan:
  assumes "prepare_migrations sha migs = Inr ms"
  shows "(select_reverts applied ms (Steps n) = Inr sel \<longleftrightarrow>
      (\<exists>k. k \<le> length ms \<and> fst ` set applied = pm_id ` set (take k ms) \<and> 0 < n \<and> n \<le> int k \<and>
        sel = rev (drop (k - nat n) (take k ms)) \<and> (\<forall>m\<in>set sel. recorded applied m \<and> pm_down m \<noteq> []))) \<and>
    (select_reverts applied ms (Through mid) = Inr sel \<longleftrightarrow>
      (\<exists>k i. k \<le> length ms \<and> fst ` set applied = pm_id ` set (take k ms) \<and> i < k \<and> pm_id (ms ! i) = mid \<and>
        sel = rev (drop (Suc i) (take k ms)) \<and> (\<forall>m\<in>set sel. recorded applied m \<and> pm_down m \<noteq> []))) \<and>
    (\<forall>r. select_reverts applied ms RevertNothing \<noteq> Inr r)"
proof -
  have ord: "by_id ms" using prepare_migrations_Inr [OF assms] by simp
  show ?thesis
    by (intro conjI allI select_reverts_steps [OF ord] select_reverts_through [OF ord])
      (simp add: select_reverts_Inr [OF ord] revert_count_def)
qed

text \<open>Two migrations, the first recorded, on which the plans evaluate.\<close>

definition sample_migrations :: "migration list" where
  "sample_migrations =
     [\<lparr>mg_id = ''2'', mg_mode = '''', mg_statements = [\<lparr>st_source = ''b'', st_sql = ''Y''\<rparr>], mg_down = []\<rparr>,
      \<lparr>mg_id = ''1'', mg_mode = '''', mg_statements = [\<lparr>st_source = ''a'', st_sql = ''X''\<rparr>],
       mg_down = [\<lparr>st_source = ''a'', st_sql = ''Z''\<rparr>]\<rparr>]"

lemmas plan_eval = prepare_migrations_def migration_validate_def validate_statements_def statement_step_def
  validate_migration_id_def mode_atomic_def mode_nontransactional_def indexed_def check_def Let_def
  decode_rune_ascii prepare_def checksum_mode_def checksum_input_def mode_prefix_def statement_bytes_def
  trim_space_def trim_left.simps trim_right.simps space_width_def space_width_end_def is_ascii_def ascii_space_def

lemma sample_prepared:
  "prepare_migrations (\<lambda>s. s) sample_migrations = Inr
     [\<lparr>pm_id = ''1'', pm_mode = '''', pm_statements = [\<lparr>st_source = ''a'', st_sql = ''X''\<rparr>],
       pm_down = [\<lparr>st_source = ''a'', st_sql = ''Z''\<rparr>], pm_checksum = [CHR ''a'', CHR 0x00, CHR ''X'', CHR 0x00]\<rparr>,
      \<lparr>pm_id = ''2'', pm_mode = '''', pm_statements = [\<lparr>st_source = ''b'', st_sql = ''Y''\<rparr>], pm_down = [],
       pm_checksum = [CHR ''b'', CHR 0x00, CHR ''Y'', CHR 0x00]\<rparr>]"
  by (simp add: sample_migrations_def plan_eval)

theorem select_applies_plan_witness:
  "\<exists>ms. prepare_migrations (\<lambda>s. s) sample_migrations = Inr ms \<and>
     select_applies [(''1'', [CHR ''a'', CHR 0x00, CHR ''X'', CHR 0x00])] ms AllPending = Inr [ms ! 1]"
proof -
  have d: "distinct (map fst [(''1'', [CHR ''a'', CHR 0x00, CHR ''X'', CHR 0x00])])" by simp
  show ?thesis
    using sample_prepared select_applies_plan [OF sample_prepared d]
    by (auto simp: history_prefix_def row_of_def intro!: exI [of _ 1])
qed

theorem select_reverts_plan_witness:
  "\<exists>ms. prepare_migrations (\<lambda>s. s) sample_migrations = Inr ms \<and>
     select_reverts [(''1'', [CHR ''a'', CHR 0x00, CHR ''X'', CHR 0x00])] ms (Steps 1) = Inr [ms ! 0]"
  using sample_prepared
    select_reverts_plan [OF sample_prepared, of "[(''1'', [CHR ''a'', CHR 0x00, CHR ''X'', CHR 0x00])]" 1]
  by (auto simp: recorded_def intro!: exI [of _ 1])

subsection \<open>Status\<close>

definition settled :: "status_entry \<Rightarrow> bool" where
  "settled e = (se_state e = StatusApplied \<or> se_state e = StatusPending)"

lemma settled_entry [simp]:
  "settled \<lparr>se_id = i, se_state = s, se_reversible = r\<rparr> \<longleftrightarrow> s = StatusApplied \<or> s = StatusPending"
  by (simp add: settled_def)

lemma status_loop_settled:
  "list_all settled (status_loop applied p ms) \<longleftrightarrow> (\<exists>k. split_at applied ms k \<and> (p \<longrightarrow> k = 0))"
proof (induction ms arbitrary: p)
  case Nil
  then show ?case by (auto simp: split_at_def)
next
  case (Cons m ms)
  show ?case
  proof (cases "map_of applied (pm_id m)")
    case None
    then have "list_all settled (status_loop applied p (m # ms)) \<longleftrightarrow> split_at applied ms 0"
      using Cons.IH [of True] by auto
    also have "\<dots> \<longleftrightarrow> (\<exists>k. split_at applied (m # ms) k \<and> (p \<longrightarrow> k = 0))"
    proof -
      have zero: "split_at applied (m # ms) 0 \<longleftrightarrow> split_at applied ms 0" using None by (simp add: split_at_Cons absent_def)
      have "\<not> split_at applied (m # ms) (Suc k)" for k using None by (simp add: split_at_Cons recorded_def)
      then show ?thesis using zero by (metis not0_implies_Suc)
    qed
    finally show ?thesis .
  next
    case (Some c)
    then have "list_all settled (status_loop applied p (m # ms)) \<longleftrightarrow>
        c = pm_checksum m \<and> \<not> p \<and> (\<exists>k. split_at applied ms k)"
      using Cons.IH [of p] by auto
    also have "\<dots> \<longleftrightarrow> (\<exists>k. split_at applied (m # ms) k \<and> (p \<longrightarrow> k = 0))"
    proof -
      have zero: "\<not> split_at applied (m # ms) 0" using Some by (simp add: split_at_Cons absent_def)
      have succ: "split_at applied (m # ms) (Suc k) \<longleftrightarrow> c = pm_checksum m \<and> split_at applied ms k" for k
        using Some by (auto simp: split_at_Cons recorded_def)
      show ?thesis using zero succ by (metis not0_implies_Suc old.nat.distinct(1))
    qed
    finally show ?thesis .
  qed
qed

lemma status_loop_pending:
  "map se_id (filter (\<lambda>e. se_state e = StatusPending) (status_loop applied p ms)) = map pm_id (filter (absent applied) ms)"
  by (induction ms arbitrary: p) (auto simp: absent_def split: option.splits)

lemma status_unknown_settled:
  "list_all settled (status_entries applied ms) \<longleftrightarrow> fst ` set applied \<subseteq> pm_id ` set ms \<and>
     list_all settled (status_loop applied False ms)"
proof -
  have "list_all settled (map (\<lambda>mid. \<lparr>se_id = mid, se_state = StatusUnknown, se_reversible = False\<rparr>) xs) \<longleftrightarrow> xs = []" for xs
    by (cases xs) auto
  moreover have "sort (filter (\<lambda>mid. mid \<notin> set (map pm_id ms)) (map fst applied)) = [] \<longleftrightarrow>
      (\<forall>x\<in>set (map fst applied). x \<in> set (map pm_id ms))"
    by (metis (no_types, lifting) filter_empty_conv set_empty set_sort)
  ultimately show ?thesis by (auto simp: status_entries_def)
qed

text \<open>
  C30. \<open>Status\<close> and \<open>Apply\<close> agree: the report has no changed, out-of-order or unknown
  entry exactly when an apply of everything pending would not be refused, and then the
  pending entries are, in order, the migrations that apply would run.\<close>

theorem status_agrees_with_apply:
  assumes "prepare_migrations sha migs = Inr ms" "distinct (map fst applied)"
  shows "(list_all settled (status_entries applied ms) \<longleftrightarrow> (\<exists>sel. select_applies applied ms AllPending = Inr sel)) \<and>
    (\<forall>sel. select_applies applied ms AllPending = Inr sel \<longrightarrow>
      map se_id (filter (\<lambda>e. se_state e = StatusPending) (status_entries applied ms)) = map pm_id sel)"
proof -
  have ord: "by_id ms" using prepare_migrations_Inr [OF assms(1)] by simp
  have sel: "select_applies applied ms AllPending = Inr sel \<longleftrightarrow> (\<exists>k. history_prefix applied ms k \<and> sel = drop k ms)" for sel
    unfolding select_applies_Inr [OF ord assms(2)] by (auto simp: apply_limit_def)
  have a: "list_all settled (status_entries applied ms) \<longleftrightarrow> (\<exists>k. history_prefix applied ms k)"
    unfolding status_unknown_settled status_loop_settled history_prefix_split [OF ord assms(2)] by auto
  have absent: "filter (absent applied) ms = drop k ms" if "history_prefix applied ms k" for k
  proof -
    have "list_all (recorded applied) (take k ms)" "list_all (absent applied) (drop k ms)"
      using that by (auto simp: history_prefix_split [OF ord assms(2)] split_at_def)
    then have "filter (absent applied) (take k ms @ drop k ms) = drop k ms"
      unfolding filter_append by (auto simp: list_all_iff recorded_def absent_def filter_empty_conv)
    then show ?thesis by simp
  qed
  have unk: "filter (\<lambda>e. se_state e = StatusPending) (status_entries applied ms) =
      filter (\<lambda>e. se_state e = StatusPending) (status_loop applied False ms)"
    by (simp add: status_entries_def filter_map comp_def)
  show ?thesis
    unfolding unk status_loop_pending a sel using absent by auto
qed

theorem status_agrees_with_apply_witness:
  "\<exists>ms. prepare_migrations (\<lambda>s. s) sample_migrations = Inr ms \<and>
     (\<exists>sel. select_applies [] ms AllPending = Inr sel) \<and> list_all settled (status_entries [] ms)"
proof -
  have d: "distinct (map fst ([] :: history_map))" by simp
  show ?thesis
    using sample_prepared status_agrees_with_apply [OF sample_prepared d]
    by (simp add: status_entries_def settled_def)
qed

subsection \<open>Checksums\<close>

definition no_nul :: "statement \<Rightarrow> bool" where
  "no_nul s = (CHR 0x00 \<notin> set (st_source s) \<and> CHR 0x00 \<notin> set (st_sql s))"

lemma nul_split:
  assumes "CHR 0x00 \<notin> set x" "CHR 0x00 \<notin> set y"
  shows "x @ CHR 0x00 # r = y @ CHR 0x00 # r' \<longleftrightarrow> x = y \<and> r = r'"
  using assms
proof (induction x arbitrary: y)
  case Nil
  then show ?case by (cases y) auto
next
  case (Cons c x)
  then show ?case by (cases y) auto
qed

lemma statement_bytes_inj:
  assumes "list_all no_nul ss" "list_all no_nul ts" "concat (map statement_bytes ss) = concat (map statement_bytes ts)"
  shows "ss = ts"
  using assms
proof (induction ss arbitrary: ts)
  case Nil
  then show ?case by (cases ts) (auto simp: statement_bytes_def)
next
  case (Cons s ss)
  then obtain t ts' where ts: "ts = t # ts'" by (cases ts) (auto simp: statement_bytes_def)
  have "st_source s @ CHR 0x00 # (st_sql s @ CHR 0x00 # concat (map statement_bytes ss)) =
      st_source t @ CHR 0x00 # (st_sql t @ CHR 0x00 # concat (map statement_bytes ts'))"
    using Cons.prems(3) ts by (simp add: statement_bytes_def [of s] statement_bytes_def [of t])
  then have "st_source s = st_source t \<and> st_sql s = st_sql t \<and>
      concat (map statement_bytes ss) = concat (map statement_bytes ts')"
    using Cons.prems ts nul_split by (auto simp: no_nul_def)
  then show ?case using Cons ts by auto
qed

text \<open>
  Two lists of sources of the same execution mode, with no NUL byte in a name or in
  the SQL, are given the same bytes to hash only if they are equal: names, order and text
  all count.\<close>

theorem checksum_input_injective:
  assumes "list_all no_nul ss" "list_all no_nul ts"
  shows "checksum_input mode ss = checksum_input mode ts \<longleftrightarrow> ss = ts"
  using statement_bytes_inj [OF assms] by (auto simp: checksum_input_def)

theorem checksum_input_injective_witness:
  "checksum_input '''' [\<lparr>st_source = ''a'', st_sql = ''bc''\<rparr>] \<noteq> checksum_input '''' [\<lparr>st_source = ''ab'', st_sql = ''c''\<rparr>]"
proof -
  have h: "list_all no_nul [\<lparr>st_source = ''a'', st_sql = ''bc''\<rparr>]" "list_all no_nul [\<lparr>st_source = ''ab'', st_sql = ''c''\<rparr>]"
    by (simp_all add: no_nul_def)
  show ?thesis using checksum_input_injective [OF h, of "''''"] by simp
qed

text \<open>
  The checksum does not separate all valid migrations: a NUL byte is allowed in the
  SQL, so one source can have the bytes of two; and the prefix of the nontransactional
  mode is also the encoding of an ordinary source. Whatever the hash function, such
  migrations have the same checksum.\<close>

theorem checksum_collisions:
  "(\<exists>m n. migration_validate m = Inr () \<and> migration_validate n = Inr () \<and> mg_mode m = mg_mode n \<and>
      mg_statements m \<noteq> mg_statements n \<and> migration_checksum sha m = migration_checksum sha n) \<and>
   (\<exists>m n. migration_validate m = Inr () \<and> migration_validate n = Inr () \<and> mg_mode m \<noteq> mg_mode n \<and>
      list_all no_nul (mg_statements m) \<and> list_all no_nul (mg_statements n) \<and>
      migration_checksum sha m = migration_checksum sha n)"
proof (intro conjI)
  let ?m = "\<lparr>mg_id = ''1'', mg_mode = '''', mg_statements =
    [\<lparr>st_source = ''a'', st_sql = [CHR ''X'', CHR 0x00, CHR ''b'', CHR 0x00, CHR ''Y'']\<rparr>], mg_down = []\<rparr>"
  let ?n = "\<lparr>mg_id = ''1'', mg_mode = '''', mg_statements =
    [\<lparr>st_source = ''a'', st_sql = ''X''\<rparr>, \<lparr>st_source = ''b'', st_sql = ''Y''\<rparr>], mg_down = []\<rparr>"
  have "migration_validate ?m = Inr ()" "migration_validate ?n = Inr ()"
    by (simp_all add: plan_eval)
  moreover have "checksum_input '''' (mg_statements ?m) = checksum_input '''' (mg_statements ?n)"
    by (simp add: checksum_input_def statement_bytes_def)
  ultimately have "migration_validate ?m = Inr () \<and> migration_validate ?n = Inr () \<and> mg_mode ?m = mg_mode ?n \<and>
      mg_statements ?m \<noteq> mg_statements ?n \<and> migration_checksum sha ?m = migration_checksum sha ?n"
    by (simp add: migration_checksum_def checksum_mode_def)
  then show "\<exists>m n. migration_validate m = Inr () \<and> migration_validate n = Inr () \<and> mg_mode m = mg_mode n \<and>
      mg_statements m \<noteq> mg_statements n \<and> migration_checksum sha m = migration_checksum sha n" by blast
next
  let ?m = "\<lparr>mg_id = ''1'', mg_mode = ''nontransactional'', mg_statements = [\<lparr>st_source = ''a'', st_sql = ''X''\<rparr>], mg_down = []\<rparr>"
  let ?n = "\<lparr>mg_id = ''1'', mg_mode = '''', mg_statements =
    [\<lparr>st_source = ''rasql-execution-mode'', st_sql = ''nontransactional''\<rparr>, \<lparr>st_source = ''a'', st_sql = ''X''\<rparr>], mg_down = []\<rparr>"
  have "migration_validate ?m = Inr ()" "migration_validate ?n = Inr ()"
    by (simp_all add: plan_eval)
  moreover have "checksum_input ''nontransactional'' (mg_statements ?m) = checksum_input '''' (mg_statements ?n)"
    by (simp add: checksum_input_def statement_bytes_def mode_prefix_def mode_nontransactional_def)
  ultimately have "migration_validate ?m = Inr () \<and> migration_validate ?n = Inr () \<and> mg_mode ?m \<noteq> mg_mode ?n \<and>
      list_all no_nul (mg_statements ?m) \<and> list_all no_nul (mg_statements ?n) \<and>
      migration_checksum sha ?m = migration_checksum sha ?n"
    by (simp add: migration_checksum_def checksum_mode_def no_nul_def)
  then show "\<exists>m n. migration_validate m = Inr () \<and> migration_validate n = Inr () \<and> mg_mode m \<noteq> mg_mode n \<and>
      list_all no_nul (mg_statements m) \<and> list_all no_nul (mg_statements n) \<and>
      migration_checksum sha m = migration_checksum sha n" by blast
qed

end
