(* ===== verification/Migrate_Run.thy ===== *)
theory Migrate_Run
  imports Migrate_Plan
begin

text \<open>
  The executing half of package \<open>migrate\<close>: \<open>Apply\<close>, \<open>Revert\<close>, \<open>ApplyPlan\<close>, \<open>RevertPlan\<close>
  and \<open>Status\<close> of a \<open>Runner\<close> on PostgreSQL, MySQL and SQLite, with their locks and
  transactions (\<open>apply.go\<close>, \<open>revert.go\<close>, \<open>status.go\<close>, \<open>runner.go\<close>,
  \<open>mysql_already_applied.go\<close>, \<open>postgresql_lock.go\<close>).

  The database server and its driver are not part of the repository. They are the
  parameter \<open>server\<close>: what a source does to the data it can reach (\<open>sv_exec\<close>, which may
  fail and still have had an effect), which MySQL statements commit implicitly, and a
  fault oracle. Every call to the database asks the oracle at the current value of a
  clock, so a fault can strike at any call, before or after the call took effect; the
  theorems hold for every oracle. Migration sources are assumed not to touch the
  history table, which the type of \<open>sv_exec\<close> expresses. A transaction is the saved state
  that a rollback returns to; \<open>Rollback\<close> and \<open>ROLLBACK\<close> succeed, as the server also rolls
  back when it loses the session. A \<open>BEGIN\<close> that reports an error has not begun a transaction.
  Sources do not end the transaction they run in, except where MySQL commits implicitly, and
  the history table compares IDs byte by byte. The notices the runner writes are kept as a list.
\<close>

datatype fault = NoFault | FaultBefore db_error | FaultAfter db_error

record 'd server =
  sv_engine :: gostring
  sv_exec :: "gostring \<Rightarrow> 'd \<Rightarrow> db_error option \<times> 'd"
  sv_commits :: "gostring \<Rightarrow> bool"
  sv_fault :: "nat \<Rightarrow> fault"
  sv_missing_table :: db_error
  sv_duplicate_key :: db_error
  sv_get_lock :: "nat \<Rightarrow> int option"
  sv_release_lock :: "nat \<Rightarrow> int option"
  sv_unlock :: "nat \<Rightarrow> bool"
  sv_grab :: "nat \<Rightarrow> db_error option"

record 'd world =
  wd_user :: 'd
  wd_history :: "history_map option"
  wd_saved :: "('d \<times> history_map option) option"
  wd_clock :: nat
  wd_notices :: "(gostring \<times> gostring) list"
  wd_locked :: bool
  wd_bad :: bool

subsection \<open>Database calls\<close>

definition db_call :: "'d server \<Rightarrow> ('d world \<Rightarrow> db_error option \<times> 'd world) \<Rightarrow> 'd world \<Rightarrow> db_error option \<times> 'd world" where
  "db_call sv f w = (let w0 = w\<lparr>wd_clock := wd_clock w + 1\<rparr> in
     (case sv_fault sv (wd_clock w) of
        NoFault \<Rightarrow> f w0
      | FaultBefore e \<Rightarrow> (Some e, w0)
      | FaultAfter e \<Rightarrow> (Some e, snd (f w0))))"

definition exec_source :: "'d server \<Rightarrow> gostring \<Rightarrow> 'd world \<Rightarrow> db_error option \<times> 'd world" where
  "exec_source sv sql = db_call sv (\<lambda>w. case sv_exec sv sql (wd_user w) of (e, d) \<Rightarrow>
     (e, w\<lparr>wd_user := d,
           wd_saved := (if sv_engine sv = ''mysql'' \<and> sv_commits sv sql then None else wd_saved w)\<rparr>))"

definition ensure_history :: "'d server \<Rightarrow> 'd world \<Rightarrow> migrate_error option \<times> 'd world" where
  "ensure_history sv w = (case db_call sv (\<lambda>w. (None, w\<lparr>wd_history :=
       Some (case wd_history w of None \<Rightarrow> [] | Some h \<Rightarrow> h)\<rparr>)) w of
     (e, w') \<Rightarrow> (map_option CreateHistory e, w'))"

text \<open>\<open>applied\<close>: the rows of the history table as a map, refusing a repeated ID.\<close>

definition rows_to_map :: "history_map \<Rightarrow> migrate_error + history_map" where
  "rows_to_map rows = rfold (\<lambda>r acc. if fst r \<in> fst ` set acc then Inl (DuplicateHistory (fst r)) else Inr (acc @ [r])) rows []"

definition read_applied :: "'d server \<Rightarrow> 'd world \<Rightarrow> (migrate_error + history_map) \<times> 'd world" where
  "read_applied sv w = (case db_call sv (\<lambda>w. (case wd_history w of None \<Rightarrow> Some (sv_missing_table sv) | Some _ \<Rightarrow> None, w)) w of
     (Some e, w') \<Rightarrow> (Inl (ReadHistory e), w')
   | (None, w') \<Rightarrow> (rows_to_map (case wd_history w of None \<Rightarrow> [] | Some h \<Rightarrow> h), w'))"

definition record_migration :: "'d server \<Rightarrow> prepared_migration \<Rightarrow> 'd world \<Rightarrow> migrate_error option \<times> 'd world" where
  "record_migration sv m w = (case db_call sv (\<lambda>w. case wd_history w of
         None \<Rightarrow> (Some (sv_missing_table sv), w)
       | Some h \<Rightarrow> if pm_id m \<in> fst ` set h then (Some (sv_duplicate_key sv), w)
                  else (None, w\<lparr>wd_history := Some (h @ [row_of m])\<rparr>)) w of
     (e, w') \<Rightarrow> (map_option (RecordMigration (pm_id m)) e, w'))"

definition forget :: "'d server \<Rightarrow> gostring \<Rightarrow> 'd world \<Rightarrow> migrate_error option \<times> 'd world" where
  "forget sv mid w = (case db_call sv (\<lambda>w. case wd_history w of
         None \<Rightarrow> (Some (sv_missing_table sv), w)
       | Some h \<Rightarrow> (None, w\<lparr>wd_history := Some (filter (\<lambda>r. fst r \<noteq> mid) h)\<rparr>)) w of
     (e, w') \<Rightarrow> (map_option (RemoveRecord mid) e, w'))"

definition begin_tx :: "'d server \<Rightarrow> 'd world \<Rightarrow> db_error option \<times> 'd world" where
  "begin_tx sv w = (let w0 = w\<lparr>wd_clock := wd_clock w + 1\<rparr> in
     (case sv_fault sv (wd_clock w) of
        NoFault \<Rightarrow> (None, w0\<lparr>wd_saved := Some (wd_user w, wd_history w)\<rparr>)
      | FaultBefore e \<Rightarrow> (Some e, w0)
      | FaultAfter e \<Rightarrow> (Some e, w0)))"

definition rollback_tx :: "'d world \<Rightarrow> 'd world" where
  "rollback_tx w = (case wd_saved w of
       None \<Rightarrow> w
     | Some (u, h) \<Rightarrow> w\<lparr>wd_user := u, wd_history := h, wd_saved := None\<rparr>)"

definition commit_tx :: "'d server \<Rightarrow> 'd world \<Rightarrow> db_error option \<times> 'd world" where
  "commit_tx sv w = db_call sv (\<lambda>w. (None, w\<lparr>wd_saved := None\<rparr>)) w"

subsection \<open>Errors that mean the work was already done\<close>

fun error_number :: "db_error \<Rightarrow> nat option" where
  "error_number (MySQLError n) = Some n"
| "error_number (OtherError s) = None"
| "error_number (Unwraps e) = error_number e"
| "error_number (UnwrapsAll es) = (case filter (\<lambda>r. r \<noteq> None) (map error_number es) of [] \<Rightarrow> None | r # _ \<Rightarrow> r)"

definition already_applied_numbers :: "nat set" where
  "already_applied_numbers = {1050, 1060, 1061, 1091, 3821, 3940}"

definition tolerate_already_done :: "'d server \<Rightarrow> db_error \<Rightarrow> bool" where
  "tolerate_already_done sv err = (sv_engine sv = ''mysql'' \<and>
     (case error_number err of None \<Rightarrow> False | Some n \<Rightarrow> n \<in> already_applied_numbers))"

text \<open>A loop over sources; \<open>tolerant\<close> says whether the loop consults the tolerated errors.\<close>

fun run_sources :: "'d server \<Rightarrow> bool \<Rightarrow> (gostring \<Rightarrow> gostring \<Rightarrow> db_error \<Rightarrow> migrate_error) \<Rightarrow> gostring
    \<Rightarrow> statement list \<Rightarrow> 'd world \<Rightarrow> migrate_error option \<times> 'd world" where
  "run_sources sv tolerant mk mid [] w = (None, w)"
| "run_sources sv tolerant mk mid (s # ss) w =
     (case exec_source sv (st_sql s) w of
        (None, w') \<Rightarrow> run_sources sv tolerant mk mid ss w'
      | (Some e, w') \<Rightarrow>
          if tolerant \<and> tolerate_already_done sv e
          then run_sources sv tolerant mk mid ss (w'\<lparr>wd_notices := wd_notices w' @ [(mid, st_source s)]\<rparr>)
          else (Some (mk mid (st_source s) e), w'))"

subsection \<open>One migration\<close>

text \<open>
  What a call returns: the migrations completed (or, for the calls that only read, what
  their closure found), the joined errors, and the world.
\<close>

type_synonym ('a, 'd) reply = "('a list \<times> migrate_error list) \<times> 'd world"
type_synonym 'd outcome = "(migration, 'd) reply"

definition finish_tx :: "'d server \<Rightarrow> prepared_migration \<Rightarrow> migrate_error option \<times> 'd world \<Rightarrow> 'd outcome" where
  "finish_tx sv m r = (case r of
       (Some e, w) \<Rightarrow> (([], [e]), rollback_tx w)
     | (None, w) \<Rightarrow> (case commit_tx sv w of
           (Some e, w') \<Rightarrow> (([], [CommitFailed e]), rollback_tx w')
         | (None, w') \<Rightarrow> ((export_migrations [m], []), w')))"

definition then_run :: "(migrate_error option \<times> 'd world) \<Rightarrow> ('d world \<Rightarrow> migrate_error option \<times> 'd world) \<Rightarrow> migrate_error option \<times> 'd world" where
  "then_run r f = (case r of (Some e, w) \<Rightarrow> (Some e, w) | (None, w) \<Rightarrow> f w)"

definition apply_atomic_postgresql :: "'d server \<Rightarrow> prepared_migration \<Rightarrow> 'd world \<Rightarrow> 'd outcome" where
  "apply_atomic_postgresql sv m w = (case begin_tx sv w of
       (Some e, w1) \<Rightarrow> (([], [BeginFailed e]), w1)
     | (None, w1) \<Rightarrow> finish_tx sv m
         (then_run (run_sources sv False ExecuteSource (pm_id m) (pm_statements m) w1) (record_migration sv m)))"

definition apply_atomic_mysql :: "'d server \<Rightarrow> prepared_migration \<Rightarrow> 'd world \<Rightarrow> 'd outcome" where
  "apply_atomic_mysql sv m w = (case begin_tx sv w of
       (Some e, w1) \<Rightarrow> (([], [BeginFailed e]), w1)
     | (None, w1) \<Rightarrow> (case read_applied sv w1 of
           (Inl e, w2) \<Rightarrow> (([], [e]), rollback_tx w2)
         | (Inr applied, w2) \<Rightarrow> (case map_of applied (pm_id m) of
               Some c \<Rightarrow> if c \<noteq> pm_checksum m then (([], [ChecksumMismatch (pm_id m)]), rollback_tx w2)
                         else (([], []), rollback_tx w2)
             | None \<Rightarrow> finish_tx sv m
                 (then_run (run_sources sv True ExecuteSource (pm_id m) (pm_statements m) w2) (record_migration sv m)))))"

definition apply_non_transactional :: "'d server \<Rightarrow> prepared_migration \<Rightarrow> 'd world \<Rightarrow> 'd outcome" where
  "apply_non_transactional sv m w =
     (case then_run (run_sources sv True ExecuteSource (pm_id m) (pm_statements m) w) (record_migration sv m) of
        (Some e, w') \<Rightarrow> (([], [e]), w')
      | (None, w') \<Rightarrow> ((export_migrations [m], []), w'))"

definition revert_atomic_postgresql :: "'d server \<Rightarrow> prepared_migration \<Rightarrow> 'd world \<Rightarrow> 'd outcome" where
  "revert_atomic_postgresql sv m w = (case begin_tx sv w of
       (Some e, w1) \<Rightarrow> (([], [BeginFailed e]), w1)
     | (None, w1) \<Rightarrow> finish_tx sv m
         (then_run (run_sources sv False ExecuteReverse (pm_id m) (pm_down m) w1) (forget sv (pm_id m))))"

definition revert_atomic_mysql :: "'d server \<Rightarrow> prepared_migration \<Rightarrow> 'd world \<Rightarrow> 'd outcome" where
  "revert_atomic_mysql sv m w = (case begin_tx sv w of
       (Some e, w1) \<Rightarrow> (([], [BeginFailed e]), w1)
     | (None, w1) \<Rightarrow> (case read_applied sv w1 of
           (Inl e, w2) \<Rightarrow> (([], [e]), rollback_tx w2)
         | (Inr applied, w2) \<Rightarrow> (case map_of applied (pm_id m) of
               None \<Rightarrow> (([], [NotRecorded (pm_id m)]), rollback_tx w2)
             | Some c \<Rightarrow> if c \<noteq> pm_checksum m then (([], [ChecksumMismatch (pm_id m)]), rollback_tx w2)
                 else finish_tx sv m
                   (then_run (run_sources sv True ExecuteReverse (pm_id m) (pm_down m) w2) (forget sv (pm_id m))))))"

definition revert_non_transactional :: "'d server \<Rightarrow> prepared_migration \<Rightarrow> 'd world \<Rightarrow> 'd outcome" where
  "revert_non_transactional sv m w =
     (case then_run (run_sources sv True ExecuteReverse (pm_id m) (pm_down m) w) (forget sv (pm_id m)) of
        (Some e, w') \<Rightarrow> (([], [e]), w')
      | (None, w') \<Rightarrow> ((export_migrations [m], []), w'))"

text \<open>The loop over the selected migrations; it stops at the first error.\<close>

fun migrate_each :: "(prepared_migration \<Rightarrow> 'd world \<Rightarrow> 'd outcome) \<Rightarrow> prepared_migration list \<Rightarrow> migration list \<Rightarrow> 'd world \<Rightarrow> 'd outcome" where
  "migrate_each step [] completed w = ((completed, []), w)"
| "migrate_each step (m # ms) completed w =
     (case step m w of ((c, errs), w') \<Rightarrow>
        if errs \<noteq> [] then ((completed @ c, errs), w') else migrate_each step ms (completed @ c) w')"

subsection \<open>Locks\<close>

text \<open>
  After a release that failed, \<open>connection.Raw\<close> is given a function that returns
  \<open>driver.ErrBadConn\<close>. \<open>Raw\<close> first takes the driver's connection, which fails when the
  connection is closed already (\<open>sv_grab\<close>); then the function does not run and nothing is marked.
  Otherwise \<open>Raw\<close> returns the function's error, never nil, and the pool discards the connection.
\<close>

definition mark_bad :: "'d server \<Rightarrow> db_error option \<Rightarrow> 'd world \<Rightarrow> migrate_error list \<times> 'd world" where
  "mark_bad sv e w = (case sv_grab sv (wd_clock w) of
       None \<Rightarrow> ([ReleaseLock e, MarkedBad], w\<lparr>wd_bad := True\<rparr>)
     | Some g \<Rightarrow> ([ReleaseLock e, CouldNotMarkBad g], w))"

definition release_postgresql_lock :: "'d server \<Rightarrow> 'd world \<Rightarrow> migrate_error list \<times> 'd world" where
  "release_postgresql_lock sv w =
     (case db_call sv (\<lambda>w'. (None, if sv_unlock sv (wd_clock w) then w'\<lparr>wd_locked := False\<rparr> else w')) w of
        (None, w') \<Rightarrow> if sv_unlock sv (wd_clock w) then ([], w') else mark_bad sv None w'
      | (Some e, w') \<Rightarrow> mark_bad sv (Some e) w')"

definition with_postgresql_lock :: "'d server \<Rightarrow> ('d world \<Rightarrow> ('a, 'd) reply) \<Rightarrow> 'd world \<Rightarrow> ('a, 'd) reply" where
  "with_postgresql_lock sv run w =
     (case db_call sv (\<lambda>w. (None, w\<lparr>wd_locked := True\<rparr>)) w of
        (Some e, w') \<Rightarrow> (([], [AcquireLock (Some e)]), w')
      | (None, w') \<Rightarrow> (case run w' of ((completed, errs), w2) \<Rightarrow>
           (case release_postgresql_lock sv w2 of (cleanup, w3) \<Rightarrow> ((completed, errs @ cleanup), w3))))"

definition release_mysql_lock :: "'d server \<Rightarrow> 'd world \<Rightarrow> migrate_error list \<times> 'd world" where
  "release_mysql_lock sv w =
     (let released = sv_release_lock sv (wd_clock w) in
      case db_call sv (\<lambda>w'. (None, if released = Some 1 then w'\<lparr>wd_locked := False\<rparr> else w')) w of
        (None, w') \<Rightarrow> if released = Some 1 then ([], w') else mark_bad sv None w'
      | (Some e, w') \<Rightarrow> mark_bad sv (Some e) w')"

text \<open>\<open>GET_LOCK\<close> answers 1, 0 on a timeout, or NULL, which \<open>Scan\<close> into an \<open>int\<close> refuses.\<close>

definition with_mysql_lock :: "'d server \<Rightarrow> ('d world \<Rightarrow> ('a, 'd) reply) \<Rightarrow> 'd world \<Rightarrow> ('a, 'd) reply" where
  "with_mysql_lock sv run w =
     (let acquired = sv_get_lock sv (wd_clock w) in
      case db_call sv (\<lambda>w'. (if acquired = None then Some (OtherError ''converting NULL to int is unsupported'') else None,
                             if acquired = Some 1 then w'\<lparr>wd_locked := True\<rparr> else w')) w of
        (Some e, w') \<Rightarrow> (([], [AcquireLock (Some e)]), w')
      | (None, w') \<Rightarrow>
          if acquired \<noteq> Some 1 then (([], [AcquireLock None]), w')
          else (case run w' of ((completed, errs), w2) \<Rightarrow>
            (case release_mysql_lock sv w2 of (cleanup, w3) \<Rightarrow> ((completed, errs @ cleanup), w3))))"

subsection \<open>Apply and Revert\<close>

text \<open>
  What every run does first on its connection: create the history table when it is
  missing, read it, and resolve the target against it.
\<close>

definition resolve :: "'d server \<Rightarrow> (history_map \<Rightarrow> migrate_error + 'a) \<Rightarrow> 'd world \<Rightarrow> (migrate_error + 'a) \<times> 'd world" where
  "resolve sv select w = (case ensure_history sv w of
       (Some e, w1) \<Rightarrow> (Inl e, w1)
     | (None, w1) \<Rightarrow> (case read_applied sv w1 of
           (Inl e, w2) \<Rightarrow> (Inl e, w2)
         | (Inr applied, w2) \<Rightarrow> (select applied, w2)))"

definition run_selected :: "'d server \<Rightarrow> (history_map \<Rightarrow> migrate_error + prepared_migration list)
    \<Rightarrow> (prepared_migration \<Rightarrow> 'd world \<Rightarrow> 'd outcome) \<Rightarrow> 'd world \<Rightarrow> 'd outcome" where
  "run_selected sv select step w = (case resolve sv select w of
       (Inl e, w') \<Rightarrow> (([], [e]), w')
     | (Inr selected, w') \<Rightarrow> migrate_each step selected [] w')"

definition apply_postgresql :: "'d server \<Rightarrow> apply_target \<Rightarrow> prepared_migration list \<Rightarrow> 'd world \<Rightarrow> 'd outcome" where
  "apply_postgresql sv target ms = with_postgresql_lock sv (run_selected sv (\<lambda>h. select_applies h ms target)
     (\<lambda>m. if pm_mode m = mode_nontransactional then apply_non_transactional sv m else apply_atomic_postgresql sv m))"

definition apply_mysql :: "'d server \<Rightarrow> apply_target \<Rightarrow> prepared_migration list \<Rightarrow> 'd world \<Rightarrow> 'd outcome" where
  "apply_mysql sv target ms = with_mysql_lock sv (run_selected sv (\<lambda>h. select_applies h ms target)
     (\<lambda>m. if pm_mode m = mode_nontransactional then apply_non_transactional sv m else apply_atomic_mysql sv m))"

definition revert_postgresql :: "'d server \<Rightarrow> revert_target \<Rightarrow> prepared_migration list \<Rightarrow> 'd world \<Rightarrow> 'd outcome" where
  "revert_postgresql sv target ms = with_postgresql_lock sv (run_selected sv (\<lambda>h. select_reverts h ms target)
     (\<lambda>m. if pm_mode m = mode_nontransactional then revert_non_transactional sv m else revert_atomic_postgresql sv m))"

definition revert_mysql :: "'d server \<Rightarrow> revert_target \<Rightarrow> prepared_migration list \<Rightarrow> 'd world \<Rightarrow> 'd outcome" where
  "revert_mysql sv target ms = with_mysql_lock sv (run_selected sv (\<lambda>h. select_reverts h ms target)
     (\<lambda>m. if pm_mode m = mode_nontransactional then revert_non_transactional sv m else revert_atomic_mysql sv m))"

text \<open>SQLite runs the whole call in one transaction, whatever the mode of a migration.\<close>

fun apply_prepared :: "'d server \<Rightarrow> prepared_migration list \<Rightarrow> 'd world \<Rightarrow> migrate_error option \<times> 'd world" where
  "apply_prepared sv [] w = (None, w)"
| "apply_prepared sv (m # ms) w =
     then_run (then_run (run_sources sv False ExecuteSource (pm_id m) (pm_statements m) w) (record_migration sv m))
       (apply_prepared sv ms)"

fun revert_prepared :: "'d server \<Rightarrow> prepared_migration list \<Rightarrow> 'd world \<Rightarrow> migrate_error option \<times> 'd world" where
  "revert_prepared sv [] w = (None, w)"
| "revert_prepared sv (m # ms) w =
     then_run (then_run (run_sources sv False ExecuteReverse (pm_id m) (pm_down m) w) (forget sv (pm_id m)))
       (revert_prepared sv ms)"

definition sqlite_transaction :: "'d server \<Rightarrow> (history_map \<Rightarrow> migrate_error + prepared_migration list)
    \<Rightarrow> (prepared_migration list \<Rightarrow> 'd world \<Rightarrow> migrate_error option \<times> 'd world) \<Rightarrow> 'd world \<Rightarrow> 'd outcome" where
  "sqlite_transaction sv select work w = (case begin_tx sv w of
       (Some e, w1) \<Rightarrow> (([], [BeginFailed e]), w1)
     | (None, w1) \<Rightarrow> (case resolve sv select w1 of
           (Inl e, w2) \<Rightarrow> (([], [e]), rollback_tx w2)
         | (Inr selected, w2) \<Rightarrow> (case work selected w2 of
               (Some e, w3) \<Rightarrow> (([], [e]), rollback_tx w3)
             | (None, w3) \<Rightarrow> (case commit_tx sv w3 of
                   (Some e, w4) \<Rightarrow> (([], [CommitFailed e]), rollback_tx w4)
                 | (None, w4) \<Rightarrow> ((export_migrations selected, []), w4)))))"

definition apply_sqlite :: "'d server \<Rightarrow> apply_target \<Rightarrow> prepared_migration list \<Rightarrow> 'd world \<Rightarrow> 'd outcome" where
  "apply_sqlite sv target ms = sqlite_transaction sv (\<lambda>h. select_applies h ms target) (apply_prepared sv)"

definition revert_sqlite :: "'d server \<Rightarrow> revert_target \<Rightarrow> prepared_migration list \<Rightarrow> 'd world \<Rightarrow> 'd outcome" where
  "revert_sqlite sv target ms = sqlite_transaction sv (\<lambda>h. select_reverts h ms target) (revert_prepared sv)"

text \<open>Opening the connection is a database call with no effect on the state.\<close>

definition on_connection :: "'d server \<Rightarrow> ('d world \<Rightarrow> ('a, 'd) reply) \<Rightarrow> 'd world \<Rightarrow> ('a, 'd) reply" where
  "on_connection sv run w = (case db_call sv (\<lambda>w. (None, w)) w of
       (Some e, w') \<Rightarrow> (([], [OpenConnection e]), w')
     | (None, w') \<Rightarrow> run w')"

definition runner_apply :: "(gostring \<Rightarrow> gostring) \<Rightarrow> 'd server \<Rightarrow> apply_target \<Rightarrow> migration list \<Rightarrow> 'd world \<Rightarrow> 'd outcome" where
  "runner_apply sha sv target migs w = (case prepare_migrations sha migs of
       Inl e \<Rightarrow> (([], [e]), w)
     | Inr ms \<Rightarrow> on_connection sv (\<lambda>w.
         if sv_engine sv = ''postgresql'' then apply_postgresql sv target ms w
         else if sv_engine sv = ''mysql'' then apply_mysql sv target ms w
         else if sv_engine sv = ''sqlite'' then apply_sqlite sv target ms w
         else (([], [UnsupportedDialect (sv_engine sv)]), w)) w)"

definition runner_revert :: "(gostring \<Rightarrow> gostring) \<Rightarrow> 'd server \<Rightarrow> revert_target \<Rightarrow> migration list \<Rightarrow> 'd world \<Rightarrow> 'd outcome" where
  "runner_revert sha sv target migs w = (case prepare_migrations sha migs of
       Inl e \<Rightarrow> (([], [e]), w)
     | Inr ms \<Rightarrow> on_connection sv (\<lambda>w.
         if sv_engine sv = ''postgresql'' then revert_postgresql sv target ms w
         else if sv_engine sv = ''mysql'' then revert_mysql sv target ms w
         else if sv_engine sv = ''sqlite'' then revert_sqlite sv target ms w
         else (([], [UnsupportedDialect (sv_engine sv)]), w)) w)"

text \<open>A read under the lock of the engine: \<open>ApplyPlan\<close>, \<open>RevertPlan\<close> and \<open>Status\<close>.\<close>

definition plan_outcome :: "(migrate_error + 'a list) \<times> 'd world \<Rightarrow> ('a, 'd) reply" where
  "plan_outcome r = (case r of (Inl e, w) \<Rightarrow> (([], [e]), w) | (Inr ms, w) \<Rightarrow> ((ms, []), w))"

definition read_locked :: "'d server \<Rightarrow> ('d world \<Rightarrow> ('a, 'd) reply) \<Rightarrow> 'd world \<Rightarrow> ('a, 'd) reply" where
  "read_locked sv run w =
     (case (if sv_engine sv = ''mysql'' then with_mysql_lock sv run w
            else if sv_engine sv = ''postgresql'' then with_postgresql_lock sv run w else run w) of
        ((result, errs), w') \<Rightarrow> ((if errs = [] then result else [], errs), w'))"

definition runner_apply_plan :: "(gostring \<Rightarrow> gostring) \<Rightarrow> 'd server \<Rightarrow> apply_target \<Rightarrow> migration list \<Rightarrow> 'd world \<Rightarrow> 'd outcome" where
  "runner_apply_plan sha sv target migs w = (case prepare_migrations sha migs of
       Inl e \<Rightarrow> (([], [e]), w)
     | Inr ms \<Rightarrow> on_connection sv (read_locked sv (\<lambda>w. plan_outcome
         (resolve sv (\<lambda>h. rbind (select_applies h ms target) (\<lambda>sel. Inr (export_migrations sel))) w))) w)"

definition runner_revert_plan :: "(gostring \<Rightarrow> gostring) \<Rightarrow> 'd server \<Rightarrow> revert_target \<Rightarrow> migration list \<Rightarrow> 'd world \<Rightarrow> 'd outcome" where
  "runner_revert_plan sha sv target migs w = (case prepare_migrations sha migs of
       Inl e \<Rightarrow> (([], [e]), w)
     | Inr ms \<Rightarrow> on_connection sv (read_locked sv (\<lambda>w. plan_outcome
         (resolve sv (\<lambda>h. rbind (select_reverts h ms target) (\<lambda>sel. Inr (export_migrations sel))) w))) w)"

definition runner_status :: "(gostring \<Rightarrow> gostring) \<Rightarrow> 'd server \<Rightarrow> migration list \<Rightarrow> 'd world \<Rightarrow> (status_entry, 'd) reply" where
  "runner_status sha sv migs w = (case prepare_migrations sha migs of
       Inl e \<Rightarrow> (([], [e]), w)
     | Inr ms \<Rightarrow> on_connection sv (read_locked sv (\<lambda>w. plan_outcome
         (resolve sv (\<lambda>h. Inr (status_entries h ms)) w))) w)"

subsection \<open>What the primitives change\<close>

text \<open>The state outside a session's own bookkeeping.\<close>

definition same_session :: "'d world \<Rightarrow> 'd world \<Rightarrow> bool" where
  "same_session w w' = (wd_locked w' = wd_locked w \<and> wd_bad w' = wd_bad w)"

lemma same_session_refl [simp]: "same_session w w"
  by (simp add: same_session_def)

lemma same_session_trans: "same_session a b \<Longrightarrow> same_session b c \<Longrightarrow> same_session a c"
  by (simp add: same_session_def)

lemma exec_source_facts:
  assumes "exec_source sv sql w = (e, w')"
  shows "wd_history w' = wd_history w \<and> same_session w w' \<and> (wd_saved w' = wd_saved w \<or> wd_saved w' = None) \<and>
    (sv_engine sv \<noteq> ''mysql'' \<longrightarrow> wd_saved w' = wd_saved w) \<and>
    (e = None \<longrightarrow> sv_exec sv sql (wd_user w) = (None, wd_user w'))"
  using assms
  by (auto simp: exec_source_def db_call_def Let_def same_session_def split: fault.splits prod.splits if_splits)

text \<open>The data after a list of sources, each of which runs to its end.\<close>

fun run_user :: "'d server \<Rightarrow> statement list \<Rightarrow> 'd \<Rightarrow> 'd" where
  "run_user sv [] d = d"
| "run_user sv (s # ss) d = run_user sv ss (snd (sv_exec sv (st_sql s) d))"

lemma run_sources_facts:
  assumes "run_sources sv tolerant mk mid ss w = (e, w')"
  shows "wd_history w' = wd_history w \<and> same_session w w' \<and> (wd_saved w' = wd_saved w \<or> wd_saved w' = None) \<and>
    (sv_engine sv \<noteq> ''mysql'' \<longrightarrow> wd_saved w' = wd_saved w) \<and>
    (\<not> tolerant \<longrightarrow> e = None \<longrightarrow> wd_user w' = run_user sv ss (wd_user w))"
  using assms
proof (induction ss arbitrary: w)
  case Nil
  then show ?case by auto
next
  case (Cons s ss)
  obtain x w1 where x: "exec_source sv (st_sql s) w = (x, w1)" by (cases "exec_source sv (st_sql s) w")
  note f = exec_source_facts [OF x]
  show ?case
  proof (cases x)
    case None
    then have "run_sources sv tolerant mk mid ss w1 = (e, w')" using Cons.prems x by simp
    from Cons.IH [OF this] f None show ?thesis by (auto simp: same_session_def)
  next
    case (Some err)
    show ?thesis
    proof (cases "tolerant \<and> tolerate_already_done sv err")
      case True
      then have "run_sources sv tolerant mk mid ss (w1\<lparr>wd_notices := wd_notices w1 @ [(mid, st_source s)]\<rparr>) = (e, w')"
        using Cons.prems x Some by simp
      from Cons.IH [OF this] f True show ?thesis by (auto simp: same_session_def)
    next
      case False
      then have "w' = w1" "e \<noteq> None" using Cons.prems x Some by auto
      then show ?thesis using f by auto
    qed
  qed
qed

lemma record_migration_facts:
  assumes "record_migration sv m w = (e, w')"
  shows "wd_user w' = wd_user w \<and> wd_saved w' = wd_saved w \<and> same_session w w' \<and>
    (wd_history w' = wd_history w \<or>
     (\<exists>h. wd_history w = Some h \<and> pm_id m \<notin> fst ` set h \<and> wd_history w' = Some (h @ [row_of m]))) \<and>
    (e = None \<longrightarrow> (\<exists>h. wd_history w = Some h \<and> pm_id m \<notin> fst ` set h \<and> wd_history w' = Some (h @ [row_of m])))"
  using assms
  by (auto simp: record_migration_def db_call_def Let_def same_session_def split: fault.splits prod.splits option.splits if_splits)

lemma forget_facts:
  assumes "forget sv mid w = (e, w')"
  shows "wd_user w' = wd_user w \<and> wd_saved w' = wd_saved w \<and> same_session w w' \<and>
    (wd_history w' = wd_history w \<or> wd_history w' = map_option (filter (\<lambda>r. fst r \<noteq> mid)) (wd_history w)) \<and>
    (e = None \<longrightarrow> wd_history w \<noteq> None \<and> wd_history w' = map_option (filter (\<lambda>r. fst r \<noteq> mid)) (wd_history w))"
  using assms
  by (auto simp: forget_def db_call_def Let_def same_session_def split: fault.splits prod.splits option.splits)

lemma begin_tx_facts:
  assumes "begin_tx sv w = (e, w')"
  shows "wd_user w' = wd_user w \<and> wd_history w' = wd_history w \<and> same_session w w' \<and>
    wd_saved w' = (if e = None then Some (wd_user w, wd_history w) else wd_saved w)"
  using assms by (auto simp: begin_tx_def Let_def same_session_def split: fault.splits)

lemma commit_tx_facts:
  assumes "commit_tx sv w = (e, w')"
  shows "wd_user w' = wd_user w \<and> wd_history w' = wd_history w \<and> same_session w w' \<and>
    (wd_saved w' = None \<or> e \<noteq> None \<and> wd_saved w' = wd_saved w)"
  using assms by (auto simp: commit_tx_def db_call_def Let_def same_session_def split: fault.splits)

lemma rollback_tx_facts:
  "wd_saved (rollback_tx w) = None \<and> same_session w (rollback_tx w) \<and>
   (wd_saved w = None \<longrightarrow> rollback_tx w = w) \<and>
   (\<forall>u h. wd_saved w = Some (u, h) \<longrightarrow> wd_user (rollback_tx w) = u \<and> wd_history (rollback_tx w) = h)"
  by (auto simp: rollback_tx_def same_session_def split: option.splits)

lemma rows_to_map_distinct: "distinct (map fst rows) \<Longrightarrow> rows_to_map rows = Inr rows"
proof -
  have "distinct (map fst (acc @ rows)) \<Longrightarrow>
      rfold (\<lambda>r acc. if fst r \<in> fst ` set acc then Inl (DuplicateHistory (fst r)) else Inr (acc @ [r])) rows acc = Inr (acc @ rows)" for acc
    by (induction rows arbitrary: acc) auto
  from this [of "[]"] show "distinct (map fst rows) \<Longrightarrow> ?thesis" by (simp add: rows_to_map_def)
qed

lemma read_applied_facts:
  assumes "read_applied sv w = (r, w')" "wd_history w = Some h" "distinct (map fst h)"
  shows "wd_user w' = wd_user w \<and> wd_history w' = Some h \<and> wd_saved w' = wd_saved w \<and> same_session w w' \<and>
    (\<forall>a. r = Inr a \<longrightarrow> a = h)"
  using assms rows_to_map_distinct [OF assms(3)]
  by (auto simp: read_applied_def db_call_def Let_def same_session_def split: fault.splits prod.splits option.splits)

text \<open>
  A transaction that runs some work and finishes: when it reports an error, nothing is
  listed as completed and the history is the old one or the new one, the latter only
  when an implicit commit ended the transaction early or the failed commit took effect.
\<close>

lemma finish_tx_history:
  assumes "finish_tx sv m (e, w) = ((c, errs), w')"
    and "wd_saved w = Some (u, h0) \<or> wd_saved w = None"
  shows "wd_saved w' = None \<and> same_session w w' \<and>
    (errs = [] \<and> e = None \<and> c = [export_migration m] \<and> wd_history w' = wd_history w \<and> wd_user w' = wd_user w \<or>
     errs \<noteq> [] \<and> c = [] \<and> ((wd_history w' = h0 \<and> wd_user w' = u \<and> wd_saved w \<noteq> None) \<or>
       (wd_history w' = wd_history w \<and> wd_user w' = wd_user w \<and> (e = None \<or> wd_saved w = None))))"
proof (cases e)
  case (Some x)
  then show ?thesis
    using assms rollback_tx_facts [of w] by (auto simp: finish_tx_def)
next
  case None
  obtain x w1 where x: "commit_tx sv w = (x, w1)" by (cases "commit_tx sv w")
  note f = commit_tx_facts [OF x]
  show ?thesis
    using assms None x f rollback_tx_facts [of w1]
    by (cases x) (auto simp: finish_tx_def export_migrations_def same_session_def)
qed

subsection \<open>The contract of one migration, and the loop over it\<close>

text \<open>
  What the loop over the selected migrations relies on, for a view of the database (its
  history, or its history and its data): from a connection with no open transaction, one
  migration leaves none open, and either succeeds, lists itself and changes the view, or
  fails, lists nothing and leaves the view as it was or as it would have become.
\<close>

definition step_result :: "('v \<Rightarrow> 'v) \<Rightarrow> migration \<Rightarrow> 'v \<Rightarrow> migration list \<Rightarrow> migrate_error list \<Rightarrow> 'v \<Rightarrow> bool" where
  "step_result change m v c errs v' \<longleftrightarrow>
     errs = [] \<and> c = [m] \<and> v' = change v \<or> errs \<noteq> [] \<and> c = [] \<and> (v' = v \<or> v' = change v)"

definition loop_result :: "(prepared_migration \<Rightarrow> 'v \<Rightarrow> 'v) \<Rightarrow> prepared_migration list \<Rightarrow> 'v \<Rightarrow> migration list \<Rightarrow> migrate_error list \<Rightarrow> 'v \<Rightarrow> bool" where
  "loop_result change sel v c errs v' \<longleftrightarrow>
     errs = [] \<and> c = export_migrations sel \<and> v' = fold change sel v \<or>
     errs \<noteq> [] \<and> (\<exists>i < length sel. c = export_migrations (take i sel) \<and>
       (v' = fold change (take i sel) v \<or> v' = fold change (take (Suc i) sel) v))"

lemma loop_result_Cons:
  assumes "loop_result change sel (change m v) c errs v'"
  shows "loop_result change (m # sel) v (export_migration m # c) errs v'"
proof (cases "errs = []")
  case True
  then show ?thesis using assms by (simp add: loop_result_def export_migrations_def)
next
  case False
  then obtain i where i: "i < length sel" "c = export_migrations (take i sel)"
      "v' = fold change (take i sel) (change m v) \<or> v' = fold change (take (Suc i) sel) (change m v)"
    using assms unfolding loop_result_def by blast
  then have "Suc i < length (m # sel)" "export_migration m # c = export_migrations (take (Suc i) (m # sel))"
      "v' = fold change (take (Suc i) (m # sel)) v \<or> v' = fold change (take (Suc (Suc i)) (m # sel)) v"
    by (simp_all add: export_migrations_def)
  then show ?thesis using False unfolding loop_result_def by blast
qed

lemma migrate_each_completed:
  "migrate_each step sel completed w =
     (case migrate_each step sel [] w of ((c, errs), w') \<Rightarrow> ((completed @ c, errs), w'))"
proof (induction sel arbitrary: completed w)
  case (Cons m sel)
  obtain c1 e1 w1 where s: "step m w = ((c1, e1), w1)" by (metis prod.exhaust)
  show ?case using Cons.IH [of "completed @ c1" w1] Cons.IH [of c1 w1] s
    by (simp split: prod.splits)
qed simp

text \<open>The rows of the history table, none when the table does not exist.\<close>

definition rows :: "'d world \<Rightarrow> history_map" where
  "rows w = (case wd_history w of None \<Rightarrow> [] | Some h \<Rightarrow> h)"

definition idle :: "'d world \<Rightarrow> bool" where
  "idle w \<longleftrightarrow> wd_saved w = None \<and> wd_history w \<noteq> None"

lemma idle_history: "idle w \<Longrightarrow> wd_saved w = None \<and> wd_history w = Some (rows w)"
  by (auto simp: idle_def rows_def)

locale migration_step =
  fixes step :: "prepared_migration \<Rightarrow> 'd world \<Rightarrow> 'd outcome"
    and view :: "'d world \<Rightarrow> 'v"
    and change :: "prepared_migration \<Rightarrow> 'v \<Rightarrow> 'v"
    and ok :: "prepared_migration \<Rightarrow> 'v \<Rightarrow> bool"
  assumes step_sound: "step m w = ((c, errs), w') \<Longrightarrow> idle w \<Longrightarrow> ok m (view w) \<Longrightarrow>
      idle w' \<and> same_session w w' \<and>
      step_result (change m) (export_migration m) (view w) c errs (view w')"
    and ok_change: "ok m v \<Longrightarrow> ok m' v \<Longrightarrow> pm_id m \<noteq> pm_id m' \<Longrightarrow> ok m' (change m v)"
begin

lemma each_sound:
  assumes "migrate_each step sel [] w = ((c, errs), w')" "idle w"
    and "\<forall>m\<in>set sel. ok m (view w)" "distinct (map pm_id sel)"
  shows "idle w' \<and> same_session w w' \<and> loop_result change sel (view w) c errs (view w')"
  using assms
proof (induction sel arbitrary: w c)
  case Nil
  then show ?case by (auto simp: loop_result_def export_migrations_def)
next
  case (Cons m sel)
  obtain c1 e1 w1 where s: "step m w = ((c1, e1), w1)" by (metis prod.exhaust)
  have r: "idle w1" "same_session w w1"
      "step_result (change m) (export_migration m) (view w) c1 e1 (view w1)"
    using step_sound [OF s Cons.prems(2)] Cons.prems(3) by auto
  show ?case
  proof (cases "e1 = []")
    case False
    then have "c = c1" "errs = e1" "w' = w1" using Cons.prems(1) s by auto
    then show ?thesis
      using r False by (fastforce simp: step_result_def loop_result_def export_migrations_def)
  next
    case True
    then have v: "c1 = [export_migration m]" "view w1 = change m (view w)" using r(3) by (auto simp: step_result_def)
    obtain c2 where rest: "migrate_each step sel [] w1 = ((c2, errs), w')" "c = export_migration m # c2"
      using Cons.prems(1) s True v migrate_each_completed [of step sel "[export_migration m]" w1]
      by (auto split: prod.splits)
    have "\<forall>m'\<in>set sel. ok m' (view w1)"
      using Cons.prems(3,4) ok_change [of m "view w"] unfolding v by auto
    from Cons.IH [OF rest(1) r(1) this] Cons.prems(4)
    have e: "idle w'" "same_session w1 w'" "loop_result change sel (change m (view w)) c2 errs (view w')"
      unfolding v by auto
    show ?thesis
      unfolding rest(2) by (intro conjI e(1) loop_result_Cons [OF e(3)] same_session_trans [OF r(2) e(2)])
  qed
qed

end

subsection \<open>The engines keep the contract\<close>

abbreviation apply_change :: "prepared_migration \<Rightarrow> history_map \<Rightarrow> history_map" where
  "apply_change m h \<equiv> h @ [row_of m]"

abbreviation revert_change :: "prepared_migration \<Rightarrow> history_map \<Rightarrow> history_map" where
  "revert_change m h \<equiv> filter (\<lambda>r. fst r \<noteq> pm_id m) h"

lemma then_run_cases:
  assumes "then_run (r, w1) f = (e, w2)"
  shows "(\<exists>x. r = Some x \<and> e = Some x \<and> w2 = w1) \<or> (r = None \<and> f w1 = (e, w2))"
  using assms by (cases r) (auto simp: then_run_def)

lemma apply_work_facts:
  assumes "then_run (run_sources sv tolerant mk (pm_id m) ss w) (record_migration sv m) = (e, w')"
    and "wd_history w = Some h" "pm_id m \<notin> fst ` set h"
  shows "same_session w w' \<and> (wd_saved w' = wd_saved w \<or> wd_saved w' = None) \<and>
    (sv_engine sv \<noteq> ''mysql'' \<longrightarrow> wd_saved w' = wd_saved w) \<and>
    (wd_history w' = Some h \<or> wd_history w' = Some (apply_change m h)) \<and>
    (e = None \<longrightarrow> wd_history w' = Some (apply_change m h)) \<and>
    (e = None \<longrightarrow> \<not> tolerant \<longrightarrow> wd_user w' = run_user sv ss (wd_user w))"
proof -
  obtain r w1 where r: "run_sources sv tolerant mk (pm_id m) ss w = (r, w1)" by (cases "run_sources sv tolerant mk (pm_id m) ss w")
  note f = run_sources_facts [OF r]
  from then_run_cases [OF assms(1) [unfolded r]] show ?thesis
  proof
    assume "\<exists>x. r = Some x \<and> e = Some x \<and> w' = w1"
    then show ?thesis using f assms by auto
  next
    assume n: "r = None \<and> record_migration sv m w1 = (e, w')"
    from record_migration_facts [OF conjunct2 [OF n]] show ?thesis
      using n f assms by (auto simp: same_session_def)
  qed
qed

lemma revert_work_facts:
  assumes "then_run (run_sources sv tolerant mk (pm_id m) ss w) (forget sv (pm_id m)) = (e, w')"
    and "wd_history w = Some h"
  shows "same_session w w' \<and> (wd_saved w' = wd_saved w \<or> wd_saved w' = None) \<and>
    (sv_engine sv \<noteq> ''mysql'' \<longrightarrow> wd_saved w' = wd_saved w) \<and>
    (wd_history w' = Some h \<or> wd_history w' = Some (revert_change m h)) \<and>
    (e = None \<longrightarrow> wd_history w' = Some (revert_change m h)) \<and>
    (e = None \<longrightarrow> \<not> tolerant \<longrightarrow> wd_user w' = run_user sv ss (wd_user w))"
proof -
  obtain r w1 where r: "run_sources sv tolerant mk (pm_id m) ss w = (r, w1)" by (cases "run_sources sv tolerant mk (pm_id m) ss w")
  note f = run_sources_facts [OF r]
  from then_run_cases [OF assms(1) [unfolded r]] show ?thesis
  proof
    assume "\<exists>x. r = Some x \<and> e = Some x \<and> w' = w1"
    then show ?thesis using f assms by auto
  next
    assume n: "r = None \<and> forget sv (pm_id m) w1 = (e, w')"
    from forget_facts [OF conjunct2 [OF n]] show ?thesis
      using n f assms by (auto simp: same_session_def)
  qed
qed

text \<open>An atomic migration on either engine: the work between begin and commit.\<close>

lemma in_transaction_sound:
  assumes fin: "finish_tx sv m (e, w2) = ((c, errs), w')"
    and w1: "wd_saved w1 = Some (u, Some h)" "same_session w w1"
    and work: "same_session w1 w2" "wd_saved w2 = wd_saved w1 \<or> wd_saved w2 = None"
      "wd_history w2 = Some h \<or> wd_history w2 = Some h'" "e = None \<longrightarrow> wd_history w2 = Some h'"
  shows "wd_saved w' = None \<and> same_session w w' \<and>
    (errs = [] \<and> c = [export_migration m] \<and> wd_history w' = Some h' \<or>
     errs \<noteq> [] \<and> c = [] \<and> (wd_history w' = Some h \<or> wd_history w' = Some h'))"
proof -
  have "wd_saved w2 = Some (u, Some h) \<or> wd_saved w2 = None" using w1 work by auto
  from finish_tx_history [OF fin this] work w1 show ?thesis
    by (auto simp: same_session_def)
qed

lemma apply_atomic_postgresql_sound:
  assumes "apply_atomic_postgresql sv m w = ((c, errs), w')" "wd_saved w = None" "wd_history w = Some h" "pm_id m \<notin> fst ` set h"
  shows "wd_saved w' = None \<and> same_session w w' \<and>
    (errs = [] \<and> c = [export_migration m] \<and> wd_history w' = Some (apply_change m h) \<or>
     errs \<noteq> [] \<and> c = [] \<and> (wd_history w' = Some h \<or> wd_history w' = Some (apply_change m h)))"
proof -
  obtain b w1 where b: "begin_tx sv w = (b, w1)" by (cases "begin_tx sv w")
  note bf = begin_tx_facts [OF b]
  show ?thesis
  proof (cases b)
    case (Some x)
    then show ?thesis using assms b bf by (auto simp: apply_atomic_postgresql_def)
  next
    case None
    obtain e w2 where t: "then_run (run_sources sv False ExecuteSource (pm_id m) (pm_statements m) w1) (record_migration sv m) = (e, w2)"
      by (metis prod.exhaust)
    have fin: "finish_tx sv m (e, w2) = ((c, errs), w')" using assms(1) b None t by (simp add: apply_atomic_postgresql_def)
    have h1: "wd_history w1 = Some h" using bf assms(3) by simp
    note work = apply_work_facts [OF t h1 assms(4)]
    show ?thesis
      by (rule in_transaction_sound [OF fin, of w1 "wd_user w"]) (use bf None assms(3) work in auto)
  qed
qed

lemma apply_atomic_mysql_sound:
  assumes "apply_atomic_mysql sv m w = ((c, errs), w')" "wd_saved w = None" "wd_history w = Some h" "distinct (map fst h)" "pm_id m \<notin> fst ` set h"
  shows "wd_saved w' = None \<and> same_session w w' \<and>
    (errs = [] \<and> c = [export_migration m] \<and> wd_history w' = Some (apply_change m h) \<or>
     errs \<noteq> [] \<and> c = [] \<and> (wd_history w' = Some h \<or> wd_history w' = Some (apply_change m h)))"
proof -
  obtain b w1 where b: "begin_tx sv w = (b, w1)" by (cases "begin_tx sv w")
  note bf = begin_tx_facts [OF b]
  show ?thesis
  proof (cases b)
    case (Some x)
    then show ?thesis using assms b bf by (auto simp: apply_atomic_mysql_def)
  next
    case None
    obtain r w2 where r: "read_applied sv w1 = (r, w2)" by (cases "read_applied sv w1")
    have h1: "wd_history w1 = Some h" using bf assms(3) by simp
    note rf = read_applied_facts [OF r h1 assms(4)]
    show ?thesis
    proof (cases r)
      case (Inl x)
      then show ?thesis using assms b bf None r rf rollback_tx_facts [of w2]
        by (auto simp: apply_atomic_mysql_def same_session_def)
    next
      case (Inr a)
      then have a: "map_of a (pm_id m) = None" using rf assms(5) by (simp add: map_of_eq_None_iff)
      obtain e w3 where t: "then_run (run_sources sv True ExecuteSource (pm_id m) (pm_statements m) w2) (record_migration sv m) = (e, w3)"
        by (metis prod.exhaust)
      have fin: "finish_tx sv m (e, w3) = ((c, errs), w')" using assms(1) b None r Inr a t by (simp add: apply_atomic_mysql_def)
      have h2: "wd_history w2 = Some h" using rf by simp
      note work = apply_work_facts [OF t h2 assms(5)]
      have "same_session w w2" using bf rf same_session_trans by blast
      then show ?thesis
        by (intro in_transaction_sound [OF fin, of w2 "wd_user w"]) (use bf rf None assms(3) work in auto)
    qed
  qed
qed

lemma apply_non_transactional_sound:
  assumes "apply_non_transactional sv m w = ((c, errs), w')" "wd_saved w = None" "wd_history w = Some h" "pm_id m \<notin> fst ` set h"
  shows "wd_saved w' = None \<and> same_session w w' \<and>
    (errs = [] \<and> c = [export_migration m] \<and> wd_history w' = Some (apply_change m h) \<or>
     errs \<noteq> [] \<and> c = [] \<and> (wd_history w' = Some h \<or> wd_history w' = Some (apply_change m h)))"
proof -
  obtain e w1 where t: "then_run (run_sources sv True ExecuteSource (pm_id m) (pm_statements m) w) (record_migration sv m) = (e, w1)"
    by (metis prod.exhaust)
  note work = apply_work_facts [OF t assms(3,4)]
  show ?thesis using assms(1,2) t work
    by (cases e) (auto simp: apply_non_transactional_def export_migrations_def)
qed

lemma revert_atomic_postgresql_sound:
  assumes "revert_atomic_postgresql sv m w = ((c, errs), w')" "wd_saved w = None" "wd_history w = Some h"
  shows "wd_saved w' = None \<and> same_session w w' \<and>
    (errs = [] \<and> c = [export_migration m] \<and> wd_history w' = Some (revert_change m h) \<or>
     errs \<noteq> [] \<and> c = [] \<and> (wd_history w' = Some h \<or> wd_history w' = Some (revert_change m h)))"
proof -
  obtain b w1 where b: "begin_tx sv w = (b, w1)" by (cases "begin_tx sv w")
  note bf = begin_tx_facts [OF b]
  show ?thesis
  proof (cases b)
    case (Some x)
    then show ?thesis using assms b bf by (auto simp: revert_atomic_postgresql_def)
  next
    case None
    obtain e w2 where t: "then_run (run_sources sv False ExecuteReverse (pm_id m) (pm_down m) w1) (forget sv (pm_id m)) = (e, w2)"
      by (metis prod.exhaust)
    have fin: "finish_tx sv m (e, w2) = ((c, errs), w')" using assms(1) b None t by (simp add: revert_atomic_postgresql_def)
    have h1: "wd_history w1 = Some h" using bf assms(3) by simp
    note work = revert_work_facts [OF t h1]
    show ?thesis
      by (rule in_transaction_sound [OF fin, of w1 "wd_user w"]) (use bf None assms(3) work in auto)
  qed
qed

lemma revert_atomic_mysql_sound:
  assumes "revert_atomic_mysql sv m w = ((c, errs), w')" "wd_saved w = None" "wd_history w = Some h" "distinct (map fst h)"
    and "map_of h (pm_id m) = Some (pm_checksum m)"
  shows "wd_saved w' = None \<and> same_session w w' \<and>
    (errs = [] \<and> c = [export_migration m] \<and> wd_history w' = Some (revert_change m h) \<or>
     errs \<noteq> [] \<and> c = [] \<and> (wd_history w' = Some h \<or> wd_history w' = Some (revert_change m h)))"
proof -
  obtain b w1 where b: "begin_tx sv w = (b, w1)" by (cases "begin_tx sv w")
  note bf = begin_tx_facts [OF b]
  show ?thesis
  proof (cases b)
    case (Some x)
    then show ?thesis using assms b bf by (auto simp: revert_atomic_mysql_def)
  next
    case None
    obtain r w2 where r: "read_applied sv w1 = (r, w2)" by (cases "read_applied sv w1")
    have h1: "wd_history w1 = Some h" using bf assms(3) by simp
    note rf = read_applied_facts [OF r h1 assms(4)]
    show ?thesis
    proof (cases r)
      case (Inl x)
      then show ?thesis using assms b bf None r rf rollback_tx_facts [of w2]
        by (auto simp: revert_atomic_mysql_def same_session_def)
    next
      case (Inr a)
      then have a: "map_of a (pm_id m) = Some (pm_checksum m)" using rf assms(5) by simp
      obtain e w3 where t: "then_run (run_sources sv True ExecuteReverse (pm_id m) (pm_down m) w2) (forget sv (pm_id m)) = (e, w3)"
        by (metis prod.exhaust)
      have fin: "finish_tx sv m (e, w3) = ((c, errs), w')" using assms(1) b None r Inr a t by (simp add: revert_atomic_mysql_def)
      have h2: "wd_history w2 = Some h" using rf by simp
      note work = revert_work_facts [OF t h2]
      have "same_session w w2" using bf rf same_session_trans by blast
      then show ?thesis
        by (intro in_transaction_sound [OF fin, of w2 "wd_user w"]) (use bf rf None assms(3) work in auto)
    qed
  qed
qed

lemma revert_non_transactional_sound:
  assumes "revert_non_transactional sv m w = ((c, errs), w')" "wd_saved w = None" "wd_history w = Some h"
  shows "wd_saved w' = None \<and> same_session w w' \<and>
    (errs = [] \<and> c = [export_migration m] \<and> wd_history w' = Some (revert_change m h) \<or>
     errs \<noteq> [] \<and> c = [] \<and> (wd_history w' = Some h \<or> wd_history w' = Some (revert_change m h)))"
proof -
  obtain e w1 where t: "then_run (run_sources sv True ExecuteReverse (pm_id m) (pm_down m) w) (forget sv (pm_id m)) = (e, w1)"
    by (metis prod.exhaust)
  note work = revert_work_facts [OF t assms(3)]
  show ?thesis using assms(1,2) t work
    by (cases e) (auto simp: revert_non_transactional_def export_migrations_def)
qed

lemma map_of_revert_change:
  "pm_id m \<noteq> i \<Longrightarrow> map_of (revert_change m h) i = map_of h i"
  by (induction h) auto

text \<open>
  The two views: the history alone, kept by every step of every engine, and the history
  with the data, kept by the steps that a transaction makes atomic.
\<close>

definition fresh :: "prepared_migration \<Rightarrow> history_map \<Rightarrow> bool" where
  "fresh m h \<longleftrightarrow> distinct (map fst h) \<and> pm_id m \<notin> fst ` set h"

definition held :: "prepared_migration \<Rightarrow> history_map \<Rightarrow> bool" where
  "held m h \<longleftrightarrow> distinct (map fst h) \<and> map_of h (pm_id m) = Some (pm_checksum m)"

lemma fresh_change: "fresh m h \<Longrightarrow> fresh m' h \<Longrightarrow> pm_id m \<noteq> pm_id m' \<Longrightarrow> fresh m' (apply_change m h)"
  by (auto simp: fresh_def row_of_def)

lemma held_change: "held m h \<Longrightarrow> held m' h \<Longrightarrow> pm_id m \<noteq> pm_id m' \<Longrightarrow> held m' (revert_change m h)"
  by (auto simp: held_def map_of_revert_change distinct_map_filter)

lemma step_result_rows:
  assumes "wd_saved w' = None \<and> same_session w w' \<and>
    (errs = [] \<and> c = [x] \<and> wd_history w' = Some (f (rows w)) \<or>
     errs \<noteq> [] \<and> c = [] \<and> (wd_history w' = Some (rows w) \<or> wd_history w' = Some (f (rows w))))"
  shows "idle w' \<and> same_session w w' \<and> step_result f x (rows w) c errs (rows w')"
  using assms by (auto simp: step_result_def idle_def rows_def)

interpretation pg_apply: migration_step
  "\<lambda>m. if pm_mode m = mode_nontransactional then apply_non_transactional sv m else apply_atomic_postgresql sv m"
  rows apply_change fresh for sv
proof (unfold_locales, goal_cases)
  case (1 m w c errs w')
  note h = conjunct1 [OF idle_history [OF 1(2)]] conjunct2 [OF idle_history [OF 1(2)]]
    conjunct1 [OF 1(3) [unfolded fresh_def]] conjunct2 [OF 1(3) [unfolded fresh_def]]
  show ?case
  proof (cases "pm_mode m = mode_nontransactional")
    case True
    show ?thesis by (rule step_result_rows, rule apply_non_transactional_sound [OF _ h(1,2,4)]) (use 1(1) True in simp)
  next
    case False
    show ?thesis by (rule step_result_rows, rule apply_atomic_postgresql_sound [OF _ h(1,2,4)]) (use 1(1) False in simp)
  qed
qed (rule fresh_change)

interpretation mysql_apply: migration_step
  "\<lambda>m. if pm_mode m = mode_nontransactional then apply_non_transactional sv m else apply_atomic_mysql sv m"
  rows apply_change fresh for sv
proof (unfold_locales, goal_cases)
  case (1 m w c errs w')
  note h = conjunct1 [OF idle_history [OF 1(2)]] conjunct2 [OF idle_history [OF 1(2)]]
    conjunct1 [OF 1(3) [unfolded fresh_def]] conjunct2 [OF 1(3) [unfolded fresh_def]]
  show ?case
  proof (cases "pm_mode m = mode_nontransactional")
    case True
    show ?thesis by (rule step_result_rows, rule apply_non_transactional_sound [OF _ h(1,2,4)]) (use 1(1) True in simp)
  next
    case False
    show ?thesis by (rule step_result_rows, rule apply_atomic_mysql_sound [OF _ h(1,2,3,4)]) (use 1(1) False in simp)
  qed
qed (rule fresh_change)

interpretation pg_revert: migration_step
  "\<lambda>m. if pm_mode m = mode_nontransactional then revert_non_transactional sv m else revert_atomic_postgresql sv m"
  rows revert_change held for sv
proof (unfold_locales, goal_cases)
  case (1 m w c errs w')
  note h = conjunct1 [OF idle_history [OF 1(2)]] conjunct2 [OF idle_history [OF 1(2)]]
    conjunct1 [OF 1(3) [unfolded held_def]] conjunct2 [OF 1(3) [unfolded held_def]]
  show ?case
  proof (cases "pm_mode m = mode_nontransactional")
    case True
    show ?thesis by (rule step_result_rows, rule revert_non_transactional_sound [OF _ h(1,2)]) (use 1(1) True in simp)
  next
    case False
    show ?thesis by (rule step_result_rows, rule revert_atomic_postgresql_sound [OF _ h(1,2)]) (use 1(1) False in simp)
  qed
qed (rule held_change)

interpretation mysql_revert: migration_step
  "\<lambda>m. if pm_mode m = mode_nontransactional then revert_non_transactional sv m else revert_atomic_mysql sv m"
  rows revert_change held for sv
proof (unfold_locales, goal_cases)
  case (1 m w c errs w')
  note h = conjunct1 [OF idle_history [OF 1(2)]] conjunct2 [OF idle_history [OF 1(2)]]
    conjunct1 [OF 1(3) [unfolded held_def]] conjunct2 [OF 1(3) [unfolded held_def]]
  show ?case
  proof (cases "pm_mode m = mode_nontransactional")
    case True
    show ?thesis by (rule step_result_rows, rule revert_non_transactional_sound [OF _ h(1,2)]) (use 1(1) True in simp)
  next
    case False
    show ?thesis by (rule step_result_rows, rule revert_atomic_mysql_sound [OF _ h(1,2,3,4)]) (use 1(1) False in simp)
  qed
qed (rule held_change)

end
