(* ===== verification/Migrate_Session.thy ===== *)
theory Migrate_Session
  imports Migrate_Run
begin

text \<open>
  What a whole call of \<open>Apply\<close>, \<open>Revert\<close>, \<open>ApplyPlan\<close>, \<open>RevertPlan\<close> or \<open>Status\<close>
  does to the database, whatever faults strike: the history it leaves, how the data and
  the history stay together where a transaction holds them, the locks, and the invariant
  of a database that is only ever migrated through a runner.
\<close>

subsection \<open>Atomic steps on PostgreSQL\<close>

definition both :: "'d world \<Rightarrow> 'd \<times> history_map" where
  "both w = (wd_user w, rows w)"

definition apply_both :: "'d server \<Rightarrow> prepared_migration \<Rightarrow> 'd \<times> history_map \<Rightarrow> 'd \<times> history_map" where
  "apply_both sv m v = (run_user sv (pm_statements m) (fst v), apply_change m (snd v))"

definition revert_both :: "'d server \<Rightarrow> prepared_migration \<Rightarrow> 'd \<times> history_map \<Rightarrow> 'd \<times> history_map" where
  "revert_both sv m v = (run_user sv (pm_down m) (fst v), revert_change m (snd v))"

text \<open>A PostgreSQL transaction around some work: all of the work or none of it.\<close>

lemma transaction_atomic:
  assumes fin: "finish_tx sv m (e, w2) = ((c, errs), w')"
    and w: "wd_saved w1 = Some (wd_user w, wd_history w)" "same_session w w1" "wd_history w = Some h"
    and work: "same_session w1 w2" "wd_saved w2 = wd_saved w1" "wd_history w2 \<noteq> None" "e = None \<Longrightarrow> both w2 = change (both w)"
  shows "idle w' \<and> same_session w w' \<and> step_result change (export_migration m) (both w) c errs (both w')"
proof -
  have saved: "wd_saved w2 = Some (wd_user w, wd_history w)" using w work by simp
  from finish_tx_history [OF fin disjI1 [OF saved]] work w show ?thesis
    unfolding step_result_def by (auto simp: same_session_def both_def rows_def idle_def saved)
qed

lemma apply_atomic_postgresql_atomic:
  assumes "apply_atomic_postgresql sv m w = ((c, errs), w')" "idle w" "fresh m (rows w)" "sv_engine sv \<noteq> ''mysql''"
  shows "idle w' \<and> same_session w w' \<and> step_result (apply_both sv m) (export_migration m) (both w) c errs (both w')"
proof -
  have h: "wd_history w = Some (rows w)" "pm_id m \<notin> fst ` set (rows w)"
    using assms(3) idle_history [OF assms(2)] by (auto simp: fresh_def)
  obtain b w1 where b: "begin_tx sv w = (b, w1)" by (cases "begin_tx sv w")
  note bf = begin_tx_facts [OF b]
  show ?thesis
  proof (cases b)
    case (Some x)
    then show ?thesis using assms b bf by (auto simp: apply_atomic_postgresql_def step_result_def both_def idle_def rows_def)
  next
    case None
    obtain e w2 where t: "then_run (run_sources sv False ExecuteSource (pm_id m) (pm_statements m) w1) (record_migration sv m) = (e, w2)"
      by (metis prod.exhaust)
    have fin: "finish_tx sv m (e, w2) = ((c, errs), w')" using assms(1) b None t by (simp add: apply_atomic_postgresql_def)
    have h1: "wd_history w1 = Some (rows w)" using bf h by simp
    note work = apply_work_facts [OF t h1 h(2)]
    show ?thesis
    proof (rule transaction_atomic [OF fin, of w1])
      show "both w2 = apply_both sv m (both w)" if "e = None"
        using work that bf by (simp add: both_def apply_both_def rows_def)
    qed (use bf None h work assms(4) in auto)
  qed
qed

lemma revert_atomic_postgresql_atomic:
  assumes "revert_atomic_postgresql sv m w = ((c, errs), w')" "idle w" "sv_engine sv \<noteq> ''mysql''"
  shows "idle w' \<and> same_session w w' \<and> step_result (revert_both sv m) (export_migration m) (both w) c errs (both w')"
proof -
  have h: "wd_history w = Some (rows w)" using idle_history [OF assms(2)] by simp
  obtain b w1 where b: "begin_tx sv w = (b, w1)" by (cases "begin_tx sv w")
  note bf = begin_tx_facts [OF b]
  show ?thesis
  proof (cases b)
    case (Some x)
    then show ?thesis using assms b bf by (auto simp: revert_atomic_postgresql_def step_result_def both_def idle_def rows_def)
  next
    case None
    obtain e w2 where t: "then_run (run_sources sv False ExecuteReverse (pm_id m) (pm_down m) w1) (forget sv (pm_id m)) = (e, w2)"
      by (metis prod.exhaust)
    have fin: "finish_tx sv m (e, w2) = ((c, errs), w')" using assms(1) b None t by (simp add: revert_atomic_postgresql_def)
    have h1: "wd_history w1 = Some (rows w)" using bf h by simp
    note work = revert_work_facts [OF t h1]
    show ?thesis
    proof (rule transaction_atomic [OF fin, of w1])
      show "both w2 = revert_both sv m (both w)" if "e = None"
        using work that bf by (simp add: both_def revert_both_def rows_def)
    qed (use bf None h work assms(3) in auto)
  qed
qed

interpretation pg_apply_atomic: migration_step
  "\<lambda>m. if pm_mode m = mode_nontransactional then apply_non_transactional sv m else apply_atomic_postgresql sv m"
  both "apply_both sv" "\<lambda>m v. fresh m (snd v) \<and> pm_mode m \<noteq> mode_nontransactional \<and> sv_engine sv = ''postgresql''" for sv
proof (unfold_locales, goal_cases)
  case (1 m w c errs w')
  then show ?case using apply_atomic_postgresql_atomic [of sv m w c errs w'] by (simp add: both_def)
qed (simp add: apply_both_def fresh_change)

interpretation pg_revert_atomic: migration_step
  "\<lambda>m. if pm_mode m = mode_nontransactional then revert_non_transactional sv m else revert_atomic_postgresql sv m"
  both "revert_both sv" "\<lambda>m v. held m (snd v) \<and> pm_mode m \<noteq> mode_nontransactional \<and> sv_engine sv = ''postgresql''" for sv
proof (unfold_locales, goal_cases)
  case (1 m w c errs w')
  then show ?case using revert_atomic_postgresql_atomic [of sv m w c errs w'] by (simp add: both_def)
qed (simp add: revert_both_def held_change)

subsection \<open>Resolving the target\<close>

lemma ensure_history_facts:
  assumes "ensure_history sv w = (e, w')"
  shows "wd_user w' = wd_user w \<and> wd_saved w' = wd_saved w \<and> same_session w w' \<and> rows w' = rows w \<and>
    (e = None \<longrightarrow> wd_history w' = Some (rows w))"
  using assms
  by (auto simp: ensure_history_def db_call_def Let_def same_session_def rows_def split: fault.splits prod.splits option.splits)

lemma resolve_facts:
  assumes "resolve sv select w = (r, w')" "distinct (map fst (rows w))"
  shows "wd_user w' = wd_user w \<and> wd_saved w' = wd_saved w \<and> same_session w w' \<and> rows w' = rows w \<and>
    (\<forall>a. r = Inr a \<longrightarrow> wd_history w' = Some (rows w) \<and> select (rows w) = Inr a)"
proof -
  obtain e w1 where e: "ensure_history sv w = (e, w1)" by (cases "ensure_history sv w")
  note f = ensure_history_facts [OF e]
  show ?thesis
  proof (cases e)
    case (Some x)
    then show ?thesis using assms e f by (auto simp: resolve_def)
  next
    case None
    then have h: "wd_history w1 = Some (rows w)" using f by simp
    obtain a w2 where a: "read_applied sv w1 = (a, w2)" by (cases "read_applied sv w1")
    note g = read_applied_facts [OF a h assms(2)]
    show ?thesis using assms(1) e None a f g
      by (cases a) (auto simp: resolve_def same_session_def rows_def)
  qed
qed

subsection \<open>The report of a run\<close>

text \<open>
  \<open>progress whole selection sel j c errs\<close>: a run that resolved its target to \<open>selection\<close>
  got through the first \<open>j\<close> migrations of \<open>sel\<close> and reports \<open>c\<close> and \<open>errs\<close>. Without an
  error that is all of them. With an error, what it lists is what it got through, less
  at most the last one, whose outcome it could not confirm; when one transaction holds
  the whole run, the migrations it could not confirm are all of them or none.
\<close>

definition progress :: "bool \<Rightarrow> migrate_error + prepared_migration list \<Rightarrow> prepared_migration list \<Rightarrow> nat
    \<Rightarrow> migration list \<Rightarrow> migrate_error list \<Rightarrow> bool" where
  "progress whole selection sel j c errs \<longleftrightarrow>
     (selection = Inr sel \<or> sel = [] \<and> errs \<noteq> []) \<and> j \<le> length sel \<and>
     (if errs = [] then j = length sel \<and> c = export_migrations sel
      else \<exists>i\<le>j. c = export_migrations (take i sel) \<and>
        (if whole then i = 0 \<and> (j = 0 \<or> j = length sel) else j \<le> Suc i))"

definition reports :: "bool \<Rightarrow> (prepared_migration \<Rightarrow> 'v \<Rightarrow> 'v) \<Rightarrow> migrate_error + prepared_migration list \<Rightarrow> 'v
    \<Rightarrow> migration list \<Rightarrow> migrate_error list \<Rightarrow> 'v \<Rightarrow> bool" where
  "reports whole change selection v c errs v' \<longleftrightarrow>
     (\<exists>sel j. progress whole selection sel j c errs \<and> v' = fold change (take j sel) v)"

lemma reports_refused: "errs \<noteq> [] \<Longrightarrow> reports whole change selection v [] errs v"
  by (auto simp: reports_def progress_def export_migrations_def intro!: exI [of _ "[]"])

lemma progress_error:
  "errs \<noteq> [] \<Longrightarrow> i \<le> j \<Longrightarrow> j \<le> Suc i \<Longrightarrow> j \<le> length sel \<Longrightarrow> c = export_migrations (take i sel) \<Longrightarrow>
   progress False (Inr sel) sel j c errs"
  by (auto simp: progress_def)

lemma reports_loop:
  assumes "loop_result change sel v c errs v'"
  shows "reports False change (Inr sel) v c errs v'"
proof (cases "errs = []")
  case True
  then show ?thesis using assms by (auto simp: loop_result_def reports_def progress_def)
next
  case False
  then obtain i j where i: "i < length sel" "c = export_migrations (take i sel)" "j = i \<or> j = Suc i" "v' = fold change (take j sel) v"
    using assms unfolding loop_result_def by blast
  have "progress False (Inr sel) sel j c errs" by (rule progress_error [of _ i]) (use False i in auto)
  then show ?thesis using i(4) unfolding reports_def by blast
qed

text \<open>A failure reported after the run itself, such as a lock that was not released.\<close>

lemma reports_more_errors:
  assumes "reports False change selection v c errs v'"
  shows "reports False change selection v c (errs @ later) v'"
proof -
  obtain sel j where p: "progress False selection sel j c errs" "v' = fold change (take j sel) v"
    using assms unfolding reports_def by blast
  have "progress False selection sel j c (errs @ later)"
  proof (cases "errs = [] \<and> later \<noteq> []")
    case True
    then have "selection = Inr sel" "j = length sel" "c = export_migrations sel" using p(1) by (auto simp: progress_def)
    then show ?thesis using True by (auto intro!: progress_error [of _ j])
  next
    case False
    then show ?thesis using p(1) by (cases "errs = []") (auto simp: progress_def)
  qed
  then show ?thesis using p(2) unfolding reports_def by blast
qed

context migration_step
begin

lemma run_selected_sound:
  assumes run: "run_selected sv select step w = ((c, errs), w')" "wd_saved w = None" "distinct (map fst (rows w))"
    and look: "\<And>w1. wd_user w1 = wd_user w \<Longrightarrow> rows w1 = rows w \<Longrightarrow> view w1 = view w"
    and sel: "\<And>sel. select (rows w) = Inr sel \<Longrightarrow> distinct (map pm_id sel) \<and> (\<forall>m\<in>set sel. ok m (view w))"
  shows "wd_saved w' = None \<and> same_session w w' \<and> reports False change (select (rows w)) (view w) c errs (view w')"
proof -
  obtain r w1 where r: "resolve sv select w = (r, w1)" by (cases "resolve sv select w")
  note f = resolve_facts [OF r run(3)]
  have v: "view w1 = view w" using f look by blast
  show ?thesis
  proof (cases r)
    case (Inl e)
    then have "c = []" "errs = [e]" "w' = w1" using run(1) r by (auto simp: run_selected_def)
    then show ?thesis using f v run(2) by (simp add: reports_refused)
  next
    case (Inr a)
    then have a: "select (rows w) = Inr a" "idle w1" using f run(2) by (auto simp: idle_def)
    have each: "migrate_each step a [] w1 = ((c, errs), w')" using run(1) r Inr by (simp add: run_selected_def)
    have "\<forall>m\<in>set a. ok m (view w1)" using sel [OF a(1)] v by simp
    from each_sound [OF each a(2) this] sel [OF a(1)]
    have "idle w'" "same_session w1 w'" "loop_result change a (view w) c errs (view w')" using v by auto
    then show ?thesis using f a(1) reports_loop same_session_trans by (metis idle_def)
  qed
qed

end

subsection \<open>Connections and locks\<close>

definition same_db :: "'d world \<Rightarrow> 'd world \<Rightarrow> bool" where
  "same_db w w' \<longleftrightarrow> wd_user w' = wd_user w \<and> wd_history w' = wd_history w \<and> wd_saved w' = wd_saved w"

text \<open>
  A wrapper around a run: it refuses before the run, or it runs it on the same database
  and adds the errors of its own clean-up.
\<close>

definition wraps :: "('d world \<Rightarrow> ('a, 'd) reply) \<Rightarrow> 'd world \<Rightarrow> 'a list \<Rightarrow> migrate_error list \<Rightarrow> 'd world \<Rightarrow> bool" where
  "wraps run w c errs w' \<longleftrightarrow> (c = [] \<and> errs \<noteq> [] \<and> same_db w w') \<or>
     (\<exists>w1 w2 errs1 later. run w1 = ((c, errs1), w2) \<and> errs = errs1 @ later \<and> same_db w w1 \<and> same_db w2 w')"

lemma on_connection_wraps:
  assumes "on_connection sv run w = ((c, errs), w')"
  shows "(c = [] \<and> errs \<noteq> [] \<and> same_db w w') \<or> (\<exists>w1. run w1 = ((c, errs), w') \<and> same_db w w1)"
  using assms
  by (auto simp: on_connection_def db_call_def Let_def same_db_def split: fault.splits
    intro!: exI [of _ "w\<lparr>wd_clock := wd_clock w + 1\<rparr>"])

text \<open>How a lock ends: it is free, or the errors say why it may still be held and what became of the connection.\<close>

definition lock_given_up :: "migrate_error list \<Rightarrow> 'd world \<Rightarrow> bool" where
  "lock_given_up cleanup w \<longleftrightarrow> cleanup = [] \<and> \<not> wd_locked w \<or>
     (\<exists>e. cleanup = [ReleaseLock e, MarkedBad]) \<and> wd_bad w \<or>
     (\<exists>e g. cleanup = [ReleaseLock e, CouldNotMarkBad g])"

lemma release_postgresql_lock_facts:
  assumes "release_postgresql_lock sv w = (e, w')"
  shows "same_db w w' \<and> lock_given_up e w'"
  using assms
  by (auto simp: release_postgresql_lock_def mark_bad_def lock_given_up_def db_call_def Let_def same_db_def split: fault.splits if_splits option.splits)

lemma release_mysql_lock_facts:
  assumes "release_mysql_lock sv w = (e, w')"
  shows "same_db w w' \<and> lock_given_up e w'"
  using assms
  by (auto simp: release_mysql_lock_def mark_bad_def lock_given_up_def db_call_def Let_def same_db_def split: fault.splits if_splits option.splits)

lemma with_postgresql_lock_wraps:
  assumes "with_postgresql_lock sv run w = ((c, errs), w')"
  shows "wraps run w c errs w'"
proof -
  obtain e w1 where a: "db_call sv (\<lambda>w. (None, w\<lparr>wd_locked := True\<rparr>)) w = (e, w1)"
    by (metis prod.exhaust)
  have s: "same_db w w1" using a by (auto simp: db_call_def Let_def same_db_def split: fault.splits)
  show ?thesis
  proof (cases e)
    case (Some x)
    then show ?thesis using assms a s by (auto simp: with_postgresql_lock_def wraps_def)
  next
    case None
    obtain c1 e1 w2 where r: "run w1 = ((c1, e1), w2)" by (metis prod.exhaust)
    obtain l w3 where l: "release_postgresql_lock sv w2 = (l, w3)" by (metis prod.exhaust)
    show ?thesis using assms a None r l s release_postgresql_lock_facts [OF l]
      by (auto simp: with_postgresql_lock_def wraps_def)
  qed
qed

lemma with_mysql_lock_wraps:
  assumes "with_mysql_lock sv run w = ((c, errs), w')"
  shows "wraps run w c errs w'"
proof -
  define acquired where "acquired = sv_get_lock sv (wd_clock w)"
  obtain e w1 where a: "db_call sv (\<lambda>w'. (if acquired = None then Some (OtherError ''converting NULL to int is unsupported'') else None,
      if acquired = Some 1 then w'\<lparr>wd_locked := True\<rparr> else w')) w = (e, w1)"
    by (rule prod.exhaust)
  have s: "same_db w w1"
    using a by (cases "sv_fault sv (wd_clock w)"; cases acquired) (auto simp: db_call_def Let_def same_db_def)
  have eq: "(case (e, w1) of (Some e, w') \<Rightarrow> (([], [AcquireLock (Some e)]), w')
      | (None, w') \<Rightarrow>
          if acquired \<noteq> Some 1 then (([], [AcquireLock None]), w')
          else (case run w' of ((completed, errs), w2) \<Rightarrow>
            (case release_mysql_lock sv w2 of (cleanup, w3) \<Rightarrow> ((completed, errs @ cleanup), w3)))) = ((c, errs), w')"
    using assms unfolding with_mysql_lock_def Let_def acquired_def [symmetric] a .
  show ?thesis
  proof (cases "e = None \<and> acquired = Some 1")
    case False
    then have "c = [] \<and> errs \<noteq> [] \<and> w' = w1" using eq by (cases e) auto
    then show ?thesis using s by (simp add: wraps_def)
  next
    case True
    obtain c1 e1 w2 where r: "run w1 = ((c1, e1), w2)" by (metis prod.exhaust)
    obtain l w3 where l: "release_mysql_lock sv w2 = (l, w3)" by (metis prod.exhaust)
    show ?thesis using eq True r l s release_mysql_lock_facts [OF l]
      by (auto simp: wraps_def)
  qed
qed

lemma wraps_reports:
  assumes "wraps run w c errs w'" "wd_saved w = None"
    and look: "\<And>w1 w2. same_db w1 w2 \<Longrightarrow> view w1 = view w2"
    and run: "\<And>w1 c errs w2. run w1 = ((c, errs), w2) \<Longrightarrow> same_db w w1 \<Longrightarrow>
      wd_saved w2 = None \<and> reports False change selection (view w1) c errs (view w2)"
  shows "wd_saved w' = None \<and> reports False change selection (view w) c errs (view w')"
  using assms(1) unfolding wraps_def
proof (elim disjE exE conjE)
  assume "c = []" "errs \<noteq> []" "same_db w w'"
  then show ?thesis using assms(2) look [of w w'] reports_refused by (simp add: same_db_def)
next
  fix w1 w2 errs1 later
  assume r: "run w1 = ((c, errs1), w2)" "errs = errs1 @ later" "same_db w w1" "same_db w2 w'"
  from run [OF r(1,3)] have "wd_saved w' = None" "reports False change selection (view w) c errs1 (view w')"
    using look [OF r(3)] look [OF r(4)] r(4) by (simp_all add: same_db_def)
  then show ?thesis unfolding r(2) by (simp add: reports_more_errors)
qed

subsection \<open>SQLite: one transaction for the whole run\<close>

lemma apply_prepared_facts:
  assumes "apply_prepared sv sel w = (e, w')" "wd_history w = Some h" "\<forall>m\<in>set sel. fresh m h" "distinct (map pm_id sel)"
    and "sv_engine sv \<noteq> ''mysql''"
  shows "same_session w w' \<and> wd_saved w' = wd_saved w \<and> (e = None \<longrightarrow> both w' = fold (apply_both sv) sel (both w))"
  using assms
proof (induction sel arbitrary: w h)
  case Nil
  then show ?case by simp
next
  case (Cons m sel)
  obtain r w1 where r: "then_run (run_sources sv False ExecuteSource (pm_id m) (pm_statements m) w) (record_migration sv m) = (r, w1)"
    by (rule prod.exhaust)
  have m: "pm_id m \<notin> fst ` set h" using Cons.prems(3) by (simp add: fresh_def)
  note f = apply_work_facts [OF r Cons.prems(2) m]
  show ?case
  proof (cases r)
    case (Some x)
    then show ?thesis using Cons.prems(1,5) r f by (auto simp: then_run_def)
  next
    case None
    then have rest: "apply_prepared sv sel w1 = (e, w')" using Cons.prems(1) r by (simp add: then_run_def)
    have h1: "wd_history w1 = Some (apply_change m h)" and b: "both w1 = apply_both sv m (both w)"
      using f None Cons.prems(2) by (auto simp: both_def apply_both_def rows_def)
    have "\<forall>m'\<in>set sel. fresh m' (apply_change m h)"
      using Cons.prems(3,4) fresh_change [of m h] by auto
    from Cons.IH [OF rest h1 this] Cons.prems(4,5) show ?thesis
      using f b same_session_trans [of w w1 w'] by auto
  qed
qed

lemma revert_prepared_facts:
  assumes "revert_prepared sv sel w = (e, w')" "wd_history w = Some h" "sv_engine sv \<noteq> ''mysql''"
  shows "same_session w w' \<and> wd_saved w' = wd_saved w \<and> (e = None \<longrightarrow> both w' = fold (revert_both sv) sel (both w))"
  using assms
proof (induction sel arbitrary: w h)
  case Nil
  then show ?case by simp
next
  case (Cons m sel)
  obtain r w1 where r: "then_run (run_sources sv False ExecuteReverse (pm_id m) (pm_down m) w) (forget sv (pm_id m)) = (r, w1)"
    by (rule prod.exhaust)
  note f = revert_work_facts [OF r Cons.prems(2)]
  show ?case
  proof (cases r)
    case (Some x)
    then show ?thesis using Cons.prems(1,3) r f by (auto simp: then_run_def)
  next
    case None
    then have rest: "revert_prepared sv sel w1 = (e, w')" using Cons.prems(1) r by (simp add: then_run_def)
    have h1: "wd_history w1 = Some (revert_change m h)" and b: "both w1 = revert_both sv m (both w)"
      using f None Cons.prems(2) by (auto simp: both_def revert_both_def rows_def)
    from Cons.IH [OF rest h1] Cons.prems(3) show ?thesis
      using f b same_session_trans [of w w1 w'] by auto
  qed
qed

lemma commit_or_rollback:
  assumes "commit_tx sv w3 = (e, w4)" "wd_saved w3 = Some (wd_user w, wd_history w)"
  shows "if e = None then wd_saved w4 = None \<and> both w4 = both w3
    else wd_saved (rollback_tx w4) = None \<and> both (rollback_tx w4) \<in> {both w, both w3}"
  using commit_tx_facts [OF assms(1)] assms(2) rollback_tx_facts [of w4]
  by (auto simp: both_def rows_def)

lemma sqlite_transaction_sound:
  assumes run: "sqlite_transaction sv select work w = ((c, errs), w')" "wd_saved w = None" "distinct (map fst (rows w))"
    and work: "\<And>sel w1 e w2. work sel w1 = (e, w2) \<Longrightarrow> select (rows w) = Inr sel \<Longrightarrow> wd_history w1 = Some (rows w) \<Longrightarrow>
      same_session w1 w2 \<and> wd_saved w2 = wd_saved w1 \<and> (e = None \<longrightarrow> both w2 = fold change sel (both w1))"
  shows "wd_saved w' = None \<and> reports True change (select (rows w)) (both w) c errs (both w')"
proof -
  obtain b w1 where b: "begin_tx sv w = (b, w1)" by (cases "begin_tx sv w")
  note bf = begin_tx_facts [OF b]
  then have w1: "both w1 = both w" "rows w1 = rows w" "distinct (map fst (rows w1))" using run(3) by (auto simp: both_def rows_def)
  obtain r w2 where r: "resolve sv select w1 = (r, w2)" by (cases "resolve sv select w1")
  note rf = resolve_facts [OF r w1(3)]
  note undo = rollback_tx_facts
  consider (beg) x where "b = Some x" | (res) x where "b = None" "r = Inl x" | (sel) sel where "b = None" "r = Inr sel"
    by (cases b; cases r) auto
  then show ?thesis
  proof cases
    case beg
    then show ?thesis using run b bf w1 by (auto simp: sqlite_transaction_def reports_refused)
  next
    case res
    then have "c = []" "errs = [x]" "w' = rollback_tx w2" using run(1) b r by (auto simp: sqlite_transaction_def)
    moreover have "both (rollback_tx w2) = both w" using bf rf res undo [of w2] by (simp add: both_def rows_def)
    ultimately show ?thesis using undo [of w2] by (simp add: reports_refused)
  next
    case sel
    have s: "select (rows w) = Inr sel" "wd_history w2 = Some (rows w)" "both w2 = both w"
      using rf sel w1 by (auto simp: both_def)
    obtain e w3 where e: "work sel w2 = (e, w3)" by (rule prod.exhaust)
    note wf = work [OF e s(1,2)]
    have saved: "wd_saved w3 = Some (wd_user w, wd_history w)" using wf rf bf sel by simp
    show ?thesis
    proof (cases e)
      case (Some x)
      then have "c = []" "errs = [x]" "w' = rollback_tx w3" using run(1) b r sel e by (auto simp: sqlite_transaction_def)
      moreover have "both (rollback_tx w3) = both w" using saved undo [of w3] by (simp add: both_def rows_def)
      ultimately show ?thesis using undo [of w3] by (simp add: reports_refused)
    next
      case None
      obtain x w4 where x: "commit_tx sv w3 = (x, w4)" by (rule prod.exhaust)
      note cf = commit_or_rollback [OF x saved]
      have out: "both w3 = fold change sel (both w)" using wf None s(3) by simp
      show ?thesis
      proof (cases x)
        case None
        then have "c = export_migrations sel" "errs = []" "w' = w4" using run(1) b r sel e x \<open>e = None\<close>
          by (auto simp: sqlite_transaction_def)
        then show ?thesis using cf None out s(1) by (auto simp: reports_def progress_def)
      next
        case (Some y)
        then have o: "c = []" "errs = [CommitFailed y]" "w' = rollback_tx w4" using run(1) b r sel e x \<open>e = None\<close>
          by (auto simp: sqlite_transaction_def)
        have "both w' = both w \<or> both w' = fold change (take (length sel) sel) (both w)" using cf Some out o(3) by auto
        moreover have "progress True (Inr sel) sel 0 c errs" "progress True (Inr sel) sel (length sel) c errs"
          using o by (auto simp: progress_def export_migrations_def)
        ultimately show ?thesis using s(1) o(3) cf Some unfolding reports_def by (metis fold_simps(1) option.distinct(1) take0)
      qed
    qed
  qed
qed

subsection \<open>The engines\<close>

lemma both_look: "wd_user w1 = wd_user w \<Longrightarrow> rows w1 = rows w \<Longrightarrow> both w1 = both w"
  by (simp add: both_def)

lemma same_db_view: "same_db w1 w2 \<Longrightarrow> rows w1 = rows w2" "same_db w1 w2 \<Longrightarrow> both w1 = both w2"
  by (simp_all add: same_db_def rows_def both_def)

lemma selected_fresh:
  assumes "by_id ms" "distinct (map fst h)" "select_applies h ms target = Inr sel"
  shows "distinct (map pm_id sel) \<and> (\<forall>m\<in>set sel. fresh m h \<and> m \<in> set ms)"
proof -
  obtain k limit where k: "history_prefix h ms k" "sel = drop k (take limit ms)"
    using assms select_applies_Inr by blast
  have "absent h m" if "m \<in> set (drop k ms)" for m
    using k(1) that by (simp add: history_prefix_split [OF assms(1,2)] split_at_def list_all_iff)
  moreover have sub: "set sel \<subseteq> set (drop k ms)" unfolding k(2) drop_take by (rule set_take_subset)
  ultimately have "\<forall>m\<in>set sel. fresh m h" using assms(2) by (auto simp: fresh_def absent_def map_of_eq_None_iff)
  moreover have "map pm_id sel = drop k (take limit (map pm_id ms))" by (simp add: k(2) drop_map take_map)
  then have "distinct (map pm_id sel)" using by_id_distinct [OF assms(1)] by (simp add: distinct_drop distinct_take)
  moreover have "set sel \<subseteq> set ms" using sub set_drop_subset by (rule order_trans)
  ultimately show ?thesis by blast
qed

lemma selected_held:
  assumes "by_id ms" "distinct (map fst h)" "select_reverts h ms target = Inr sel"
  shows "distinct (map pm_id sel) \<and> (\<forall>m\<in>set sel. held m h \<and> m \<in> set ms)"
proof -
  obtain k n where k: "sel = take n (rev (take k ms))" "\<forall>m\<in>set sel. recorded h m"
    using iffD1 [OF select_reverts_Inr [OF assms(1)] assms(3)] by auto
  have "\<forall>m\<in>set sel. held m h" using k(2) assms(2) by (auto simp: held_def recorded_def)
  moreover have "map pm_id sel = take n (rev (take k (map pm_id ms)))" by (simp add: k(1) take_map rev_map)
  then have "distinct (map pm_id sel)" using by_id_distinct [OF assms(1)] by (simp add: distinct_take)
  moreover have "set sel \<subseteq> set ms" unfolding k(1) using set_take_subset [of n "rev (take k ms)"] set_take_subset [of k ms] by simp
  ultimately show ?thesis by blast
qed

text \<open>One run of an engine that takes a lock, seen through a view of the database.\<close>

lemma locked_reports:
  assumes "wraps run w c errs w'" and w: "wd_saved w = None" "distinct (map fst (rows w))"
    and look: "\<And>w1 w2. same_db w1 w2 \<Longrightarrow> view w1 = view w2"
    and run: "\<And>w1 c errs w2. run w1 = ((c, errs), w2) \<Longrightarrow> wd_saved w1 = None \<Longrightarrow> distinct (map fst (rows w1)) \<Longrightarrow>
      wd_saved w2 = None \<and> same_session w1 w2 \<and> reports False change (select (rows w1)) (view w1) c errs (view w2)"
  shows "wd_saved w' = None \<and> reports False change (select (rows w)) (view w) c errs (view w')"
proof (rule wraps_reports [OF assms(1) w(1) look])
  fix w1 c errs w2
  assume r: "run w1 = ((c, errs), w2)" and s: "same_db w w1"
  have "wd_saved w1 = None" "rows w1 = rows w" using s w(1) same_db_view [OF s] by (auto simp: same_db_def)
  then show "wd_saved w2 = None \<and> reports False change (select (rows w)) (view w1) c errs (view w2)"
    using run [OF r] w(2) by simp
qed

lemma apply_postgresql_history:
  assumes "by_id ms" "apply_postgresql sv target ms w = ((c, errs), w')" and w: "wd_saved w = None" "distinct (map fst (rows w))"
  shows "wd_saved w' = None \<and> reports False apply_change (select_applies (rows w) ms target) (rows w) c errs (rows w')"
  by (rule locked_reports [OF with_postgresql_lock_wraps [OF assms(2) [unfolded apply_postgresql_def]] w same_db_view(1)
        pg_apply.run_selected_sound])
    (use selected_fresh [OF assms(1)] in auto)

lemma apply_mysql_history:
  assumes "by_id ms" "apply_mysql sv target ms w = ((c, errs), w')" and w: "wd_saved w = None" "distinct (map fst (rows w))"
  shows "wd_saved w' = None \<and> reports False apply_change (select_applies (rows w) ms target) (rows w) c errs (rows w')"
  by (rule locked_reports [OF with_mysql_lock_wraps [OF assms(2) [unfolded apply_mysql_def]] w same_db_view(1)
        mysql_apply.run_selected_sound])
    (use selected_fresh [OF assms(1)] in auto)

lemma revert_postgresql_history:
  assumes "by_id ms" "revert_postgresql sv target ms w = ((c, errs), w')" and w: "wd_saved w = None" "distinct (map fst (rows w))"
  shows "wd_saved w' = None \<and> reports False revert_change (select_reverts (rows w) ms target) (rows w) c errs (rows w')"
  by (rule locked_reports [OF with_postgresql_lock_wraps [OF assms(2) [unfolded revert_postgresql_def]] w same_db_view(1)
        pg_revert.run_selected_sound])
    (use selected_held [OF assms(1)] in auto)

lemma revert_mysql_history:
  assumes "by_id ms" "revert_mysql sv target ms w = ((c, errs), w')" and w: "wd_saved w = None" "distinct (map fst (rows w))"
  shows "wd_saved w' = None \<and> reports False revert_change (select_reverts (rows w) ms target) (rows w) c errs (rows w')"
  by (rule locked_reports [OF with_mysql_lock_wraps [OF assms(2) [unfolded revert_mysql_def]] w same_db_view(1)
        mysql_revert.run_selected_sound])
    (use selected_held [OF assms(1)] in auto)

lemma apply_postgresql_both:
  assumes "by_id ms" "apply_postgresql sv target ms w = ((c, errs), w')" and w: "wd_saved w = None" "distinct (map fst (rows w))"
    and "\<forall>m\<in>set ms. pm_mode m \<noteq> mode_nontransactional" "sv_engine sv = ''postgresql''"
  shows "reports False (apply_both sv) (select_applies (rows w) ms target) (both w) c errs (both w')"
  by (rule conjunct2 [OF locked_reports [OF with_postgresql_lock_wraps [OF assms(2) [unfolded apply_postgresql_def]] w same_db_view(2)
        pg_apply_atomic.run_selected_sound]])
    (use selected_fresh [OF assms(1)] assms(5,6) in \<open>auto simp: both_def\<close>)

lemma revert_postgresql_both:
  assumes "by_id ms" "revert_postgresql sv target ms w = ((c, errs), w')" and w: "wd_saved w = None" "distinct (map fst (rows w))"
    and "\<forall>m\<in>set ms. pm_mode m \<noteq> mode_nontransactional" "sv_engine sv = ''postgresql''"
  shows "reports False (revert_both sv) (select_reverts (rows w) ms target) (both w) c errs (both w')"
  by (rule conjunct2 [OF locked_reports [OF with_postgresql_lock_wraps [OF assms(2) [unfolded revert_postgresql_def]] w same_db_view(2)
        pg_revert_atomic.run_selected_sound]])
    (use selected_held [OF assms(1)] assms(5,6) in \<open>auto simp: both_def\<close>)

lemma apply_sqlite_both:
  assumes "by_id ms" "apply_sqlite sv target ms w = ((c, errs), w')" and w: "wd_saved w = None" "distinct (map fst (rows w))"
    and "sv_engine sv = ''sqlite''"
  shows "wd_saved w' = None \<and> reports True (apply_both sv) (select_applies (rows w) ms target) (both w) c errs (both w')"
  by (rule sqlite_transaction_sound [OF assms(2) [unfolded apply_sqlite_def] w], rule apply_prepared_facts)
    (use selected_fresh [OF assms(1) w(2)] assms(5) in auto)

lemma revert_sqlite_both:
  assumes "revert_sqlite sv target ms w = ((c, errs), w')" and w: "wd_saved w = None" "distinct (map fst (rows w))"
    and "sv_engine sv = ''sqlite''"
  shows "wd_saved w' = None \<and> reports True (revert_both sv) (select_reverts (rows w) ms target) (both w) c errs (both w')"
  by (rule sqlite_transaction_sound [OF assms(1) [unfolded revert_sqlite_def] w], rule revert_prepared_facts)
    (use assms(4) in auto)

lemma fold_apply_change: "fold apply_change sel h = h @ map row_of sel"
  by (induction sel arbitrary: h) simp_all

lemma fold_revert_change: "fold revert_change sel h = filter (\<lambda>r. fst r \<notin> pm_id ` set sel) h"
  by (induction sel arbitrary: h) (auto intro: filter_cong)

lemma run_user_append: "run_user sv (ss @ ts) d = run_user sv ts (run_user sv ss d)"
  by (induction ss arbitrary: d) simp_all

lemma fold_apply_both:
  "fold (apply_both sv) sel (d, h) = (run_user sv (concat (map pm_statements sel)) d, h @ map row_of sel)"
  by (induction sel arbitrary: d h) (simp_all add: apply_both_def run_user_append)

lemma fold_revert_both:
  "fold (revert_both sv) sel (d, h) = (run_user sv (concat (map pm_down sel)) d, filter (\<lambda>r. fst r \<notin> pm_id ` set sel) h)"
  by (induction sel arbitrary: d h) (auto simp: revert_both_def run_user_append intro: filter_cong)

lemma reports_rows:
  "reports whole (apply_both sv) selection (both w) c errs (both w') \<Longrightarrow> reports whole apply_change selection (rows w) c errs (rows w')"
  "reports whole (revert_both sv) selection (both w) c errs (both w') \<Longrightarrow> reports whole revert_change selection (rows w) c errs (rows w')"
  unfolding reports_def both_def fold_apply_both fold_revert_both fold_apply_change fold_revert_change by auto

lemma apply_sqlite_history:
  assumes "by_id ms" "apply_sqlite sv target ms w = ((c, errs), w')" "wd_saved w = None" "distinct (map fst (rows w))" "sv_engine sv = ''sqlite''"
  shows "wd_saved w' = None \<and> reports True apply_change (select_applies (rows w) ms target) (rows w) c errs (rows w')"
  using apply_sqlite_both [OF assms] reports_rows(1) by blast

lemma revert_sqlite_history:
  assumes "revert_sqlite sv target ms w = ((c, errs), w')" "wd_saved w = None" "distinct (map fst (rows w))" "sv_engine sv = ''sqlite''"
  shows "wd_saved w' = None \<and> reports True revert_change (select_reverts (rows w) ms target) (rows w) c errs (rows w')"
  using revert_sqlite_both [OF assms] reports_rows(2) by blast

lemma runner_apply_reports:
  assumes prep: "prepare_migrations sha migs = Inr ms" and w: "wd_saved w = None" "distinct (map fst (rows w))"
    and run: "runner_apply sha sv target migs w = ((c, errs), w')"
  shows "wd_saved w' = None \<and> reports (sv_engine sv = ''sqlite'') apply_change (select_applies (rows w) ms target) (rows w) c errs (rows w')"
proof -
  have ord: "by_id ms" using prepare_migrations_Inr [OF prep] by simp
  from run prep have "on_connection sv (\<lambda>w.
         if sv_engine sv = ''postgresql'' then apply_postgresql sv target ms w
         else if sv_engine sv = ''mysql'' then apply_mysql sv target ms w
         else if sv_engine sv = ''sqlite'' then apply_sqlite sv target ms w
         else (([], [UnsupportedDialect (sv_engine sv)]), w)) w = ((c, errs), w')" by (simp add: runner_apply_def)
  from on_connection_wraps [OF this] show ?thesis
  proof (elim disjE exE conjE)
    assume "c = []" "errs \<noteq> []" "same_db w w'"
    then show ?thesis using w by (auto simp: same_db_def rows_def reports_refused)
  next
    fix w1
    assume r: "(if sv_engine sv = ''postgresql'' then apply_postgresql sv target ms w1
         else if sv_engine sv = ''mysql'' then apply_mysql sv target ms w1
         else if sv_engine sv = ''sqlite'' then apply_sqlite sv target ms w1
         else (([], [UnsupportedDialect (sv_engine sv)]), w1)) = ((c, errs), w')" and s: "same_db w w1"
    have w1: "wd_saved w1 = None" "distinct (map fst (rows w1))" "rows w1 = rows w"
      using s w same_db_view [OF s] by (auto simp: same_db_def)
    show ?thesis
      using r apply_postgresql_history [OF ord _ w1(1,2), of sv target c errs w'] apply_mysql_history [OF ord _ w1(1,2), of sv target c errs w']
        apply_sqlite_history [OF ord _ w1(1,2), of sv target c errs w'] w1
      by (auto simp: reports_refused split: if_splits)
  qed
qed

lemma runner_revert_reports:
  assumes prep: "prepare_migrations sha migs = Inr ms" and w: "wd_saved w = None" "distinct (map fst (rows w))"
    and run: "runner_revert sha sv target migs w = ((c, errs), w')"
  shows "wd_saved w' = None \<and> reports (sv_engine sv = ''sqlite'') revert_change (select_reverts (rows w) ms target) (rows w) c errs (rows w')"
proof -
  have ord: "by_id ms" using prepare_migrations_Inr [OF prep] by simp
  from run prep have "on_connection sv (\<lambda>w.
         if sv_engine sv = ''postgresql'' then revert_postgresql sv target ms w
         else if sv_engine sv = ''mysql'' then revert_mysql sv target ms w
         else if sv_engine sv = ''sqlite'' then revert_sqlite sv target ms w
         else (([], [UnsupportedDialect (sv_engine sv)]), w)) w = ((c, errs), w')" by (simp add: runner_revert_def)
  from on_connection_wraps [OF this] show ?thesis
  proof (elim disjE exE conjE)
    assume "c = []" "errs \<noteq> []" "same_db w w'"
    then show ?thesis using w by (auto simp: same_db_def rows_def reports_refused)
  next
    fix w1
    assume r: "(if sv_engine sv = ''postgresql'' then revert_postgresql sv target ms w1
         else if sv_engine sv = ''mysql'' then revert_mysql sv target ms w1
         else if sv_engine sv = ''sqlite'' then revert_sqlite sv target ms w1
         else (([], [UnsupportedDialect (sv_engine sv)]), w1)) = ((c, errs), w')" and s: "same_db w w1"
    have w1: "wd_saved w1 = None" "distinct (map fst (rows w1))" "rows w1 = rows w"
      using s w same_db_view [OF s] by (auto simp: same_db_def)
    show ?thesis
      using r revert_postgresql_history [OF ord _ w1(1,2), of sv target c errs w'] revert_mysql_history [OF ord _ w1(1,2), of sv target c errs w']
        revert_sqlite_history [OF _ w1(1,2), of sv target ms c errs w'] w1
      by (auto simp: reports_refused split: if_splits)
  qed
qed

subsection \<open>What a run leaves behind\<close>

text \<open>
  C11. Whatever faults strike and on whichever engine, \<open>Apply\<close> leaves no transaction open
  and the history is the one it found followed by the records of the first \<open>j\<close> selected
  migrations, in order. Without an error these are all of them and all are returned; with
  an error the returned list is these less at most the last one, whose commit or record
  could not be confirmed, and on SQLite nothing is returned and \<open>j\<close> is none or all.
\<close>
theorem runner_apply_history:
  assumes "prepare_migrations sha migs = Inr ms" "wd_saved w = None" "distinct (map fst (rows w))"
    and "runner_apply sha sv target migs w = ((c, errs), w')"
  shows "wd_saved w' = None \<and>
    (\<exists>sel j. progress (sv_engine sv = ''sqlite'') (select_applies (rows w) ms target) sel j c errs \<and>
      rows w' = rows w @ map row_of (take j sel))"
  using runner_apply_reports [OF assms] by (simp add: reports_def fold_apply_change)

text \<open>
  Likewise \<open>Revert\<close>: the history it leaves is the one it found without the records of
  the first \<open>j\<close> selected migrations, newest first, and the returned list accounts for them.
\<close>
theorem runner_revert_history:
  assumes "prepare_migrations sha migs = Inr ms" "wd_saved w = None" "distinct (map fst (rows w))"
    and "runner_revert sha sv target migs w = ((c, errs), w')"
  shows "wd_saved w' = None \<and>
    (\<exists>sel j. progress (sv_engine sv = ''sqlite'') (select_reverts (rows w) ms target) sel j c errs \<and>
      rows w' = filter (\<lambda>r. fst r \<notin> pm_id ` set (take j sel)) (rows w))"
  using runner_revert_reports [OF assms] by (simp add: reports_def fold_revert_change)

text \<open>A server that logs what it executes and never fails, for the examples.\<close>

definition sample_server :: "gostring \<Rightarrow> gostring list server" where
  "sample_server engine = \<lparr>sv_engine = engine, sv_exec = (\<lambda>sql d. (None, d @ [sql])), sv_commits = (\<lambda>_. False),
     sv_fault = (\<lambda>_. NoFault), sv_missing_table = OtherError ''no such table'', sv_duplicate_key = OtherError ''duplicate'',
     sv_get_lock = (\<lambda>_. Some 1), sv_release_lock = (\<lambda>_. Some 1), sv_unlock = (\<lambda>_. True), sv_grab = (\<lambda>_. None)\<rparr>"

definition sample_world :: "gostring list world" where
  "sample_world = \<lparr>wd_user = [], wd_history = None, wd_saved = None, wd_clock = 0, wd_notices = [], wd_locked = False, wd_bad = False\<rparr>"

lemmas run_eval = sample_server_def sample_world_def runner_apply_def runner_revert_def on_connection_def db_call_def Let_def
  apply_postgresql_def apply_mysql_def apply_sqlite_def revert_postgresql_def revert_mysql_def revert_sqlite_def sqlite_transaction_def
  with_postgresql_lock_def with_mysql_lock_def release_postgresql_lock_def release_mysql_lock_def run_selected_def resolve_def
  ensure_history_def read_applied_def rows_to_map_def apply_atomic_postgresql_def apply_atomic_mysql_def
  apply_non_transactional_def revert_atomic_postgresql_def begin_tx_def commit_tx_def finish_tx_def then_run_def rollback_tx_def
  record_migration_def forget_def exec_source_def row_of_def export_migrations_def export_migration_def
  select_applies_def check_supplied_def apply_limit_def apply_step_def indexed_def check_def mode_nontransactional_def rows_def

definition migrated_world :: "gostring list world" where
  "migrated_world = \<lparr>wd_user = [''X'', ''Y''], wd_history = Some
      [(''1'', [CHR ''a'', CHR 0x00, CHR ''X'', CHR 0x00]), (''2'', [CHR ''b'', CHR 0x00, CHR ''Y'', CHR 0x00])],
     wd_saved = None, wd_clock = 13, wd_notices = [], wd_locked = False, wd_bad = False\<rparr>"

lemma sample_apply_run:
  "runner_apply (\<lambda>s. s) (sample_server ''postgresql'') AllPending sample_migrations sample_world =
     ((rev sample_migrations, []), migrated_world)"
  by (simp add: sample_prepared run_eval) (simp add: sample_migrations_def migrated_world_def)

lemma sample_world_ready: "wd_saved sample_world = None" "distinct (map fst (rows sample_world))" "rows sample_world = []"
  by (simp_all add: sample_world_def rows_def)

lemma migrated_world_ready: "wd_saved migrated_world = None" "distinct (map fst (rows migrated_world))"
  by (simp_all add: migrated_world_def rows_def)

definition sample_ms :: "prepared_migration list" where
  "sample_ms =
     [\<lparr>pm_id = ''1'', pm_mode = '''', pm_statements = [\<lparr>st_source = ''a'', st_sql = ''X''\<rparr>],
       pm_down = [\<lparr>st_source = ''a'', st_sql = ''Z''\<rparr>], pm_checksum = [CHR ''a'', CHR 0x00, CHR ''X'', CHR 0x00]\<rparr>,
      \<lparr>pm_id = ''2'', pm_mode = '''', pm_statements = [\<lparr>st_source = ''b'', st_sql = ''Y''\<rparr>], pm_down = [],
       pm_checksum = [CHR ''b'', CHR 0x00, CHR ''Y'', CHR 0x00]\<rparr>]"

lemma sample_ms_prepared: "prepare_migrations (\<lambda>s. s) sample_migrations = Inr sample_ms"
  by (simp add: sample_prepared sample_ms_def)

lemma sample_selected: "select_applies [] sample_ms AllPending = Inr sample_ms"
  by (simp add: sample_ms_def run_eval)

theorem runner_apply_history_witness:
  "runner_apply (\<lambda>s. s) (sample_server ''postgresql'') AllPending sample_migrations sample_world = ((rev sample_migrations, []), migrated_world) \<and>
   rows migrated_world = map row_of sample_ms"
  using runner_apply_history [OF sample_ms_prepared sample_world_ready(1,2) sample_apply_run] sample_apply_run
  by (auto simp: sample_world_ready progress_def sample_selected)

theorem runner_revert_history_witness:
  "\<exists>(sel :: prepared_migration list) j. rows (snd (runner_revert (\<lambda>s. s) (sample_server ''mysql'') (Steps 1) sample_migrations migrated_world)) =
     filter (\<lambda>r. fst r \<notin> pm_id ` set (take j sel)) (rows migrated_world)"
proof -
  obtain c errs w' where r: "runner_revert (\<lambda>s. s) (sample_server ''mysql'') (Steps 1) sample_migrations migrated_world = ((c, errs), w')"
    by (metis prod.exhaust)
  from runner_revert_history [OF sample_prepared migrated_world_ready r] show ?thesis unfolding r snd_conv by blast
qed

lemma runner_apply_both:
  assumes prep: "prepare_migrations sha migs = Inr ms" and w: "wd_saved w = None" "distinct (map fst (rows w))"
    and engine: "sv_engine sv = ''sqlite'' \<or> sv_engine sv = ''postgresql'' \<and> (\<forall>m\<in>set migs. mg_mode m = mode_atomic)"
    and run: "runner_apply sha sv target migs w = ((c, errs), w')"
  shows "reports (sv_engine sv = ''sqlite'') (apply_both sv) (select_applies (rows w) ms target) (both w) c errs (both w')"
proof -
  have ord: "by_id ms" and ms: "set ms = prepare sha ` set migs" using prepare_migrations_Inr [OF prep] by auto
  have atomic: "\<forall>m\<in>set ms. pm_mode m \<noteq> mode_nontransactional" if "sv_engine sv = ''postgresql''"
    using engine that ms by (auto simp: prepare_def mode_atomic_def mode_nontransactional_def)
  from run prep have "on_connection sv (\<lambda>w.
         if sv_engine sv = ''postgresql'' then apply_postgresql sv target ms w
         else if sv_engine sv = ''mysql'' then apply_mysql sv target ms w
         else if sv_engine sv = ''sqlite'' then apply_sqlite sv target ms w
         else (([], [UnsupportedDialect (sv_engine sv)]), w)) w = ((c, errs), w')" by (simp add: runner_apply_def)
  from on_connection_wraps [OF this] show ?thesis
  proof (elim disjE exE conjE)
    assume "c = []" "errs \<noteq> []" "same_db w w'"
    then show ?thesis using same_db_view(2) [of w w'] by (simp add: reports_refused)
  next
    fix w1
    assume r: "(if sv_engine sv = ''postgresql'' then apply_postgresql sv target ms w1
         else if sv_engine sv = ''mysql'' then apply_mysql sv target ms w1
         else if sv_engine sv = ''sqlite'' then apply_sqlite sv target ms w1
         else (([], [UnsupportedDialect (sv_engine sv)]), w1)) = ((c, errs), w')" and s: "same_db w w1"
    have w1: "wd_saved w1 = None" "distinct (map fst (rows w1))" "rows w1 = rows w" "both w1 = both w"
      using s w same_db_view [OF s] by (auto simp: same_db_def)
    show ?thesis
      using engine r apply_postgresql_both [OF ord _ w1(1,2) atomic, of sv target c errs w']
        apply_sqlite_both [OF ord _ w1(1,2), of sv target c errs w'] w1 by (auto split: if_splits)
  qed
qed

text \<open>
  C4. Where a transaction holds a migration, its data and its record stay together: on
  SQLite, and on PostgreSQL when every migration is atomic, \<open>Apply\<close> leaves exactly the
  data that running all sources of the first \<open>j\<close> selected migrations in order gives,
  with exactly these \<open>j\<close> recorded, whatever faults strike.
\<close>
theorem runner_apply_together:
  assumes prep: "prepare_migrations sha migs = Inr ms" and w: "wd_saved w = None" "distinct (map fst (rows w))"
    and engine: "sv_engine sv = ''sqlite'' \<or> sv_engine sv = ''postgresql'' \<and> (\<forall>m\<in>set migs. mg_mode m = mode_atomic)"
    and run: "runner_apply sha sv target migs w = ((c, errs), w')"
  shows "\<exists>sel j. progress (sv_engine sv = ''sqlite'') (select_applies (rows w) ms target) sel j c errs \<and>
    rows w' = rows w @ map row_of (take j sel) \<and>
    wd_user w' = run_user sv (concat (map pm_statements (take j sel))) (wd_user w)"
  using runner_apply_both [OF assms] by (auto simp: reports_def both_def fold_apply_both)

lemma sample_engine_sqlite: "sv_engine (sample_server ''sqlite'') = ''sqlite'' \<or>
    sv_engine (sample_server ''sqlite'') = ''postgresql'' \<and> (\<forall>m\<in>set sample_migrations. mg_mode m = mode_atomic)"
  by (simp add: sample_server_def)

theorem runner_apply_together_witness:
  "\<exists>(sel :: prepared_migration list) j. wd_user (snd (runner_apply (\<lambda>s. s) (sample_server ''sqlite'') AllPending sample_migrations sample_world)) =
     run_user (sample_server ''sqlite'') (concat (map pm_statements (take j sel))) (wd_user sample_world)"
proof -
  obtain c errs w' where r: "runner_apply (\<lambda>s. s) (sample_server ''sqlite'') AllPending sample_migrations sample_world = ((c, errs), w')"
    by (metis prod.exhaust)
  from runner_apply_together [OF sample_prepared sample_world_ready(1,2) sample_engine_sqlite r] show ?thesis
    unfolding r snd_conv by blast
qed

lemma runner_revert_both:
  assumes prep: "prepare_migrations sha migs = Inr ms" and w: "wd_saved w = None" "distinct (map fst (rows w))"
    and engine: "sv_engine sv = ''sqlite'' \<or> sv_engine sv = ''postgresql'' \<and> (\<forall>m\<in>set migs. mg_mode m = mode_atomic)"
    and run: "runner_revert sha sv target migs w = ((c, errs), w')"
  shows "reports (sv_engine sv = ''sqlite'') (revert_both sv) (select_reverts (rows w) ms target) (both w) c errs (both w')"
proof -
  have ord: "by_id ms" and ms: "set ms = prepare sha ` set migs" using prepare_migrations_Inr [OF prep] by auto
  have atomic: "\<forall>m\<in>set ms. pm_mode m \<noteq> mode_nontransactional" if "sv_engine sv = ''postgresql''"
    using engine that ms by (auto simp: prepare_def mode_atomic_def mode_nontransactional_def)
  from run prep have "on_connection sv (\<lambda>w.
         if sv_engine sv = ''postgresql'' then revert_postgresql sv target ms w
         else if sv_engine sv = ''mysql'' then revert_mysql sv target ms w
         else if sv_engine sv = ''sqlite'' then revert_sqlite sv target ms w
         else (([], [UnsupportedDialect (sv_engine sv)]), w)) w = ((c, errs), w')" by (simp add: runner_revert_def)
  from on_connection_wraps [OF this] show ?thesis
  proof (elim disjE exE conjE)
    assume "c = []" "errs \<noteq> []" "same_db w w'"
    then show ?thesis using same_db_view(2) [of w w'] by (simp add: reports_refused)
  next
    fix w1
    assume r: "(if sv_engine sv = ''postgresql'' then revert_postgresql sv target ms w1
         else if sv_engine sv = ''mysql'' then revert_mysql sv target ms w1
         else if sv_engine sv = ''sqlite'' then revert_sqlite sv target ms w1
         else (([], [UnsupportedDialect (sv_engine sv)]), w1)) = ((c, errs), w')" and s: "same_db w w1"
    have w1: "wd_saved w1 = None" "distinct (map fst (rows w1))" "rows w1 = rows w" "both w1 = both w"
      using s w same_db_view [OF s] by (auto simp: same_db_def)
    show ?thesis
      using engine r revert_postgresql_both [OF ord _ w1(1,2) atomic, of sv target c errs w']
        revert_sqlite_both [OF _ w1(1,2), of sv target ms c errs w'] w1 by (auto split: if_splits)
  qed
qed

text \<open>
  \<open>Revert\<close> keeps data and records together in the same way: the data is what the
  reverse sources of the first \<open>j\<close> selected migrations make of it, newest migration
  first, with exactly these \<open>j\<close> records removed.
\<close>
theorem runner_revert_together:
  assumes prep: "prepare_migrations sha migs = Inr ms" and w: "wd_saved w = None" "distinct (map fst (rows w))"
    and engine: "sv_engine sv = ''sqlite'' \<or> sv_engine sv = ''postgresql'' \<and> (\<forall>m\<in>set migs. mg_mode m = mode_atomic)"
    and run: "runner_revert sha sv target migs w = ((c, errs), w')"
  shows "\<exists>sel j. progress (sv_engine sv = ''sqlite'') (select_reverts (rows w) ms target) sel j c errs \<and>
    rows w' = filter (\<lambda>r. fst r \<notin> pm_id ` set (take j sel)) (rows w) \<and>
    wd_user w' = run_user sv (concat (map pm_down (take j sel))) (wd_user w)"
  using runner_revert_both [OF assms] by (auto simp: reports_def both_def fold_revert_both)

theorem runner_revert_together_witness:
  "\<exists>(sel :: prepared_migration list) j. wd_user (snd (runner_revert (\<lambda>s. s) (sample_server ''sqlite'') (Steps 1) sample_migrations migrated_world)) =
     run_user (sample_server ''sqlite'') (concat (map pm_down (take j sel))) (wd_user migrated_world)"
proof -
  obtain c errs w' where r: "runner_revert (\<lambda>s. s) (sample_server ''sqlite'') (Steps 1) sample_migrations migrated_world = ((c, errs), w')"
    by (metis prod.exhaust)
  from runner_revert_together [OF sample_prepared migrated_world_ready sample_engine_sqlite r] show ?thesis
    unfolding r snd_conv by blast
qed

subsection \<open>Calls that only read\<close>

lemma plan_outcome_facts:
  assumes "plan_outcome (resolve sv select w) = ((c, errs), w')" "distinct (map fst (rows w))"
  shows "wd_user w' = wd_user w \<and> wd_saved w' = wd_saved w \<and> rows w' = rows w \<and> (errs = [] \<longrightarrow> select (rows w) = Inr c)"
proof -
  obtain r w1 where r: "resolve sv select w = (r, w1)" by (rule prod.exhaust)
  show ?thesis using assms resolve_facts [OF r assms(2)] r by (cases r) (auto simp: plan_outcome_def)
qed

lemma wraps_self: "run w = ((c, errs), w') \<Longrightarrow> wraps run w c errs w'"
  unfolding wraps_def by (rule disjI2, rule exI [of _ w], rule exI [of _ w']) (simp add: same_db_def)

lemma read_call:
  assumes run: "on_connection sv (read_locked sv (\<lambda>w. plan_outcome (resolve sv select w))) w = ((c, errs), w')"
    and d: "distinct (map fst (rows w))"
  shows "wd_user w' = wd_user w \<and> wd_saved w' = wd_saved w \<and> rows w' = rows w \<and> (errs = [] \<longrightarrow> select (rows w) = Inr c)"
  using on_connection_wraps [OF run]
proof (elim disjE exE conjE)
  assume "c = []" "errs \<noteq> []" "same_db w w'"
  then show ?thesis by (simp add: same_db_def rows_def)
next
  fix w1
  assume r: "read_locked sv (\<lambda>w. plan_outcome (resolve sv select w)) w1 = ((c, errs), w')" and s: "same_db w w1"
  have w1: "rows w1 = rows w" "distinct (map fst (rows w1))" using same_db_view(1) [OF s] d by auto
  let ?plan = "\<lambda>w. plan_outcome (resolve sv select w)"
  obtain c0 where "wraps ?plan w1 c0 errs w'" "errs = [] \<longrightarrow> c = c0"
  proof -
    obtain c0 e0 w0 where x: "(if sv_engine sv = ''mysql'' then with_mysql_lock sv ?plan w1
        else if sv_engine sv = ''postgresql'' then with_postgresql_lock sv ?plan w1 else ?plan w1) = ((c0, e0), w0)"
      by (metis prod.exhaust)
    have eq: "e0 = errs" "w0 = w'" "errs = [] \<longrightarrow> c = c0" using r unfolding read_locked_def x by (auto split: if_splits)
    have "wraps ?plan w1 c0 e0 w0"
      using x with_mysql_lock_wraps [of sv ?plan w1 c0 e0 w0] with_postgresql_lock_wraps [of sv ?plan w1 c0 e0 w0]
        wraps_self [of ?plan w1 c0 e0 w0] by (simp split: if_splits)
    with eq that show thesis by blast
  qed
  then have c: "(c0 = [] \<and> errs \<noteq> [] \<and> same_db w1 w') \<or>
      (\<exists>w2 w3 errs1 later. ?plan w2 = ((c0, errs1), w3) \<and> errs = errs1 @ later \<and> same_db w1 w2 \<and> same_db w3 w')"
    "errs = [] \<longrightarrow> c = c0" by (simp_all add: wraps_def)
  from c(1) show ?thesis
  proof (elim disjE exE conjE)
    assume "errs \<noteq> []" "same_db w1 w'"
    then show ?thesis using s by (simp add: same_db_def rows_def)
  next
    fix w2 w3 errs1 later
    assume p: "?plan w2 = ((c0, errs1), w3)" "errs = errs1 @ later" "same_db w1 w2" "same_db w3 w'"
    then have "rows w2 = rows w" "distinct (map fst (rows w2))" using w1 same_db_view(1) [OF p(3)] by simp_all
    then show ?thesis using plan_outcome_facts [OF p(1)] p s c(2) same_db_view(1) [OF p(4)] by (simp add: same_db_def)
  qed
qed

end
