(* ===== verification/Migrate_Invariant.thy ===== *)
theory Migrate_Invariant
  imports Migrate_Session
begin

text \<open>
  Sequences of calls on one database: the plan a caller is shown and the run that
  follows, the invariant of a database that is only migrated through a runner, the
  lock discipline, and an apply undone by a revert.
\<close>

subsection \<open>Plans\<close>

text \<open>
  A plan predicts the run. \<open>ApplyPlan\<close> changes neither the data nor the recorded
  rows, and when it returns a list without error, an \<open>Apply\<close> with the same target on the
  database it left that reports no error returns that same list, in the same order.
\<close>
theorem apply_plan_predicts_apply:
  assumes prep: "prepare_migrations sha migs = Inr ms" and w: "wd_saved w = None" "distinct (map fst (rows w))"
    and plan: "runner_apply_plan sha sv target migs w = ((p, errs), w1)"
    and run: "runner_apply sha sv' target migs w1 = ((c, errs'), w2)"
  shows "wd_user w1 = wd_user w \<and> rows w1 = rows w \<and> (errs = [] \<and> errs' = [] \<longrightarrow> c = p)"
proof -
  let ?sel = "\<lambda>h. rbind (select_applies h ms target) (\<lambda>sel. Inr (export_migrations sel))"
  have "on_connection sv (read_locked sv (\<lambda>w. plan_outcome (resolve sv ?sel w))) w = ((p, errs), w1)"
    using plan prep by (simp add: runner_apply_plan_def)
  note r = read_call [OF this w(2)]
  then have w1: "wd_saved w1 = None" "distinct (map fst (rows w1))" using w by auto
  obtain sel j where s: "progress (sv_engine sv' = ''sqlite'') (select_applies (rows w1) ms target) sel j c errs'"
    using runner_apply_reports [OF prep w1 run] unfolding reports_def by blast
  have "c = p" if "errs = []" "errs' = []"
  proof -
    have "select_applies (rows w) ms target = Inr sel" "c = export_migrations sel"
      using s that r by (auto simp: progress_def)
    moreover have "?sel (rows w) = Inr p" using r that by simp
    ultimately show ?thesis by simp
  qed
  then show ?thesis using r by blast
qed

theorem apply_plan_predicts_apply_witness:
  "fst (runner_apply_plan (\<lambda>s. s) (sample_server ''sqlite'') AllPending sample_migrations sample_world) = (rev sample_migrations, []) \<and>
   rows (snd (runner_apply_plan (\<lambda>s. s) (sample_server ''sqlite'') AllPending sample_migrations sample_world)) = []"
proof -
  let ?plan = "runner_apply_plan (\<lambda>s. s) (sample_server ''sqlite'') AllPending sample_migrations sample_world"
  obtain p errs w1 where p: "?plan = ((p, errs), w1)" by (metis prod.exhaust)
  obtain c errs' w2 where c: "runner_apply (\<lambda>s. s) (sample_server ''sqlite'') AllPending sample_migrations w1 = ((c, errs'), w2)"
    by (metis prod.exhaust)
  have "fst ?plan = (rev sample_migrations, [])"
    by (simp add: runner_apply_plan_def read_locked_def plan_outcome_def sample_prepared run_eval)
      (simp add: sample_migrations_def)
  moreover have "rows w1 = []"
    using apply_plan_predicts_apply [OF sample_prepared sample_world_ready(1,2) p c] sample_world_ready(3) by simp
  ultimately show ?thesis using p by simp
qed

subsection \<open>A database migrated through a runner\<close>

text \<open>
  One call on the database, on any engine and with any faults, or a change of the data
  by somebody else, or a new connection.
\<close>

inductive runner_call :: "(gostring \<Rightarrow> gostring) \<Rightarrow> migration list \<Rightarrow> 'd world \<Rightarrow> 'd world \<Rightarrow> bool"
  for sha :: "gostring \<Rightarrow> gostring" and migs :: "migration list" where
  call_apply: "runner_apply sha sv target migs w = (r, w') \<Longrightarrow> runner_call sha migs w w'"
| call_revert: "runner_revert sha sv rtarget migs w = (r, w') \<Longrightarrow> runner_call sha migs w w'"
| call_apply_plan: "runner_apply_plan sha sv target migs w = (r, w') \<Longrightarrow> runner_call sha migs w w'"
| call_revert_plan: "runner_revert_plan sha sv rtarget migs w = (r, w') \<Longrightarrow> runner_call sha migs w w'"
| call_status: "runner_status sha sv migs w = (s, w') \<Longrightarrow> runner_call sha migs w w'"
| other_writer: "runner_call sha migs w (w\<lparr>wd_user := d\<rparr>)"
| new_connection: "runner_call sha migs w (w\<lparr>wd_locked := False, wd_bad := False\<rparr>)"

definition prefix_recorded :: "prepared_migration list \<Rightarrow> 'd world \<Rightarrow> bool" where
  "prefix_recorded ms w \<longleftrightarrow> wd_saved w = None \<and> (\<exists>k\<le>length ms. rows w = map row_of (take k ms))"

lemma prefix_recorded_rows:
  assumes "by_id ms" "rows w = map row_of (take k ms)" "k \<le> length ms"
  shows "distinct (map fst (rows w))" "history_prefix (rows w) ms k"
proof -
  have "map fst (rows w) = take k (map pm_id ms)" using assms(2) by (simp add: row_of_def take_map comp_def)
  then show "distinct (map fst (rows w))" using by_id_distinct [OF assms(1)] by simp
  show "history_prefix (rows w) ms k" using assms by (simp add: history_prefix_def)
qed

lemma prefix_unique:
  assumes "by_id ms" "distinct (map fst h)" "history_prefix h ms k" "history_prefix h ms j"
  shows "k = j"
  using assms(3,4) split_at_unique by (simp add: history_prefix_split [OF assms(1,2)]) blast

lemma prefix_after_apply:
  assumes ord: "by_id ms" and h: "h = map row_of (take k ms)" "k \<le> length ms" "distinct (map fst h)" "history_prefix h ms k"
    and "progress whole (select_applies h ms target) sel j c errs"
  shows "\<exists>k'\<le>length ms. h @ map row_of (take j sel) = map row_of (take k' ms)"
proof (cases "select_applies h ms target = Inr sel")
  case True
  then obtain k1 limit where s: "history_prefix h ms k1" "sel = drop k1 (take limit ms)"
    using iffD1 [OF select_applies_Inr [OF ord h(3)]] by blast
  have "k1 = k" by (rule prefix_unique [OF ord h(3) s(1) h(4)])
  then have "take j sel = take (min j (limit - k)) (drop k ms)" using s(2) by (simp add: drop_take)
  then have "h @ map row_of (take j sel) = map row_of (take (min (length ms) (k + min j (limit - k))) ms)"
    unfolding h(1) by (simp add: take_add min_def flip: map_append)
  then show ?thesis by (metis min.cobounded1)
next
  case False
  then have "sel = []" using assms(6) by (auto simp: progress_def)
  then show ?thesis using h(1,2) by auto
qed

lemma filter_newest:
  assumes "by_id ms" "k \<le> length ms"
  shows "filter (\<lambda>r. fst r \<notin> pm_id ` set (take n (rev (take k ms)))) (map row_of (take k ms)) = map row_of (take (k - n) ms)"
proof -
  have eq: "take k ms = take (k - n) ms @ drop (k - n) (take k ms)"
    by (metis append_take_drop_id diff_le_self min.absorb1 take_take)
  have s: "set (take n (rev (take k ms))) = set (drop (k - n) (take k ms))"
    using assms(2) by (simp add: take_rev min_absorb2)
  have "distinct (map pm_id (take (k - n) ms @ drop (k - n) (take k ms)))"
    using by_id_distinct [OF by_id_take [OF assms(1), of k]] eq by simp
  then have "pm_id ` set (take (k - n) ms) \<inter> pm_id ` set (drop (k - n) (take k ms)) = {}" by simp
  then have "filter (\<lambda>r. fst r \<notin> pm_id ` set (drop (k - n) (take k ms))) (map row_of (take (k - n) ms @ drop (k - n) (take k ms))) =
      map row_of (take (k - n) ms)"
    unfolding filter_map filter_append comp_def row_of_def fst_conv map_append
    by (subst filter_True, blast, subst filter_False, blast, simp)
  then show ?thesis unfolding s using eq by simp
qed

lemma names_prefix_unique:
  assumes "by_id ms" "k \<le> length ms" "j \<le> length ms" "pm_id ` set (take k ms) = pm_id ` set (take j ms)"
  shows "k = j"
proof -
  have c: "card (pm_id ` set (take i ms)) = i" if "i \<le> length ms" for i
  proof -
    have "distinct (map pm_id (take i ms))" by (rule by_id_distinct [OF by_id_take [OF assms(1)]])
    from distinct_card [OF this] that show ?thesis by simp
  qed
  have "k = card (pm_id ` set (take k ms))" by (rule c [OF assms(2), symmetric])
  also have "\<dots> = card (pm_id ` set (take j ms))" by (rule arg_cong [OF assms(4)])
  also have "\<dots> = j" by (rule c [OF assms(3)])
  finally show ?thesis .
qed

lemma prefix_after_revert:
  assumes ord: "by_id ms" and h: "h = map row_of (take k ms)" "k \<le> length ms"
    and p: "progress whole (select_reverts h ms target) sel j c errs"
  shows "\<exists>k'\<le>length ms. filter (\<lambda>r. fst r \<notin> pm_id ` set (take j sel)) h = map row_of (take k' ms)"
proof (cases "select_reverts h ms target = Inr sel")
  case True
  then obtain k1 n where s: "k1 \<le> length ms" "fst ` set h = pm_id ` set (take k1 ms)" "sel = take n (rev (take k1 ms))"
    using iffD1 [OF select_reverts_Inr [OF ord] True] by blast
  have "fst ` set h = pm_id ` set (take k ms)" unfolding h(1) by (simp add: row_of_def image_image)
  then have "k1 = k" using names_prefix_unique [OF ord s(1) h(2)] s(2) by simp
  then have "take j sel = take (min j n) (rev (take k ms))" using s(3) by simp
  then have "filter (\<lambda>r. fst r \<notin> pm_id ` set (take j sel)) h = map row_of (take (k - min j n) ms)"
    unfolding h(1) using filter_newest [OF ord h(2), of "min j n"] by simp
  then show ?thesis using h(2) by (meson diff_le_self order_trans)
next
  case False
  then have "sel = []" using p by (auto simp: progress_def)
  then show ?thesis using h by auto
qed

lemma read_keeps_prefix:
  assumes "on_connection sv (read_locked sv (\<lambda>w. plan_outcome (resolve sv select w))) w = ((c, errs), w')"
    and "by_id ms" "prefix_recorded ms w"
  shows "prefix_recorded ms w'"
proof -
  obtain k where k: "k \<le> length ms" "rows w = map row_of (take k ms)" using assms(3) by (auto simp: prefix_recorded_def)
  show ?thesis using read_call [OF assms(1) prefix_recorded_rows(1) [OF assms(2) k(2,1)]] assms(3)
    by (auto simp: prefix_recorded_def)
qed

lemma runner_call_keeps_prefix:
  assumes prep: "prepare_migrations sha migs = Inr ms" and "runner_call sha migs w w'" "prefix_recorded ms w"
  shows "prefix_recorded ms w'"
proof -
  have ord: "by_id ms" using prepare_migrations_Inr [OF prep] by simp
  obtain k where k: "k \<le> length ms" "rows w = map row_of (take k ms)" and saved: "wd_saved w = None"
    using assms(3) by (auto simp: prefix_recorded_def)
  note d = prefix_recorded_rows [OF ord k(2,1)]
  from assms(2) show ?thesis
  proof cases
    case (call_apply sv target r)
    obtain c errs where "r = (c, errs)" by (cases r)
    with call_apply have "runner_apply sha sv target migs w = ((c, errs), w')" by simp
    from runner_apply_reports [OF prep saved d(1) this] obtain sel j
      where s: "wd_saved w' = None" "progress (sv_engine sv = ''sqlite'') (select_applies (rows w) ms target) sel j c errs"
        "rows w' = rows w @ map row_of (take j sel)" by (auto simp: reports_def fold_apply_change)
    show ?thesis using prefix_after_apply [OF ord k(2,1) d s(2)] s(1,3) by (simp add: prefix_recorded_def)
  next
    case (call_revert sv target r)
    obtain c errs where "r = (c, errs)" by (cases r)
    with call_revert have "runner_revert sha sv target migs w = ((c, errs), w')" by simp
    from runner_revert_reports [OF prep saved d(1) this] obtain sel j
      where s: "wd_saved w' = None" "progress (sv_engine sv = ''sqlite'') (select_reverts (rows w) ms target) sel j c errs"
        "rows w' = filter (\<lambda>r. fst r \<notin> pm_id ` set (take j sel)) (rows w)" by (auto simp: reports_def fold_revert_change)
    show ?thesis using prefix_after_revert [OF ord k(2,1) s(2)] s(1,3) by (simp add: prefix_recorded_def)
  next
    case (call_apply_plan sv target r)
    then show ?thesis using prep read_keeps_prefix [OF _ ord assms(3)]
      by (cases r) (auto simp: runner_apply_plan_def)
  next
    case (call_revert_plan sv target r)
    then show ?thesis using prep read_keeps_prefix [OF _ ord assms(3)]
      by (cases r) (auto simp: runner_revert_plan_def)
  next
    case (call_status sv s)
    then show ?thesis using prep read_keeps_prefix [OF _ ord assms(3)]
      by (cases s) (auto simp: runner_status_def)
  qed (use assms(3) in \<open>auto simp: prefix_recorded_def rows_def\<close>)
qed

text \<open>
  C1. The invariant of a migrated database. From a database without a history table, after
  any sequence of applies, reverts, plans and status reports with one set of migrations,
  on any engine, with faults at any database call and other programs changing the data,
  the history records exactly a prefix of the migrations in ID order, each with its
  current checksum, and no transaction is left open.
\<close>
theorem history_is_always_a_prefix:
  assumes prep: "prepare_migrations sha migs = Inr ms"
    and "wd_history w0 = None" "wd_saved w0 = None"
    and "(runner_call sha migs)\<^sup>*\<^sup>* w0 w"
  shows "wd_saved w = None \<and> (\<exists>k\<le>length ms. rows w = map row_of (take k ms))"
proof -
  have "prefix_recorded ms w0" using assms(2,3) by (auto simp: prefix_recorded_def rows_def)
  with assms(4) have "prefix_recorded ms w"
    by (induction rule: rtranclp_induct) (auto intro: runner_call_keeps_prefix [OF prep])
  then show ?thesis by (simp add: prefix_recorded_def)
qed

theorem history_is_always_a_prefix_witness:
  "\<exists>k\<le>length sample_ms. rows migrated_world = map row_of (take k sample_ms)"
proof -
  have "runner_call (\<lambda>s. s) sample_migrations sample_world migrated_world"
    by (rule call_apply [OF sample_apply_run])
  then have r: "(runner_call (\<lambda>s. s) sample_migrations)\<^sup>*\<^sup>* sample_world migrated_world" by blast
  have "wd_history sample_world = None" "wd_saved sample_world = None" by (simp_all add: sample_world_def)
  from history_is_always_a_prefix [OF sample_ms_prepared this r] show ?thesis ..
qed

subsection \<open>Refusals\<close>

lemma run_selected_refused:
  assumes "run_selected sv select step w = ((c, errs), w')" "distinct (map fst (rows w))" "select (rows w) = Inl e"
  shows "c = [] \<and> errs \<noteq> [] \<and> wd_user w' = wd_user w \<and> rows w' = rows w"
proof -
  obtain r w1 where r: "resolve sv select w = (r, w1)" by (rule prod.exhaust)
  show ?thesis using assms resolve_facts [OF r assms(2)] r by (cases r) (auto simp: run_selected_def)
qed

lemma sqlite_transaction_refused:
  assumes "sqlite_transaction sv select work w = ((c, errs), w')" "distinct (map fst (rows w))" "select (rows w) = Inl e"
  shows "c = [] \<and> errs \<noteq> [] \<and> wd_user w' = wd_user w \<and> rows w' = rows w"
proof -
  obtain b w1 where b: "begin_tx sv w = (b, w1)" by (rule prod.exhaust)
  note bf = begin_tx_facts [OF b]
  have w1: "rows w1 = rows w" "distinct (map fst (rows w1))" using bf assms(2) by (auto simp: rows_def)
  obtain r w2 where r: "resolve sv select w1 = (r, w2)" by (rule prod.exhaust)
  note rf = resolve_facts [OF r w1(2)]
  show ?thesis
  proof (cases b)
    case (Some x)
    then show ?thesis using assms(1) b bf w1 by (auto simp: sqlite_transaction_def)
  next
    case None
    then obtain x where "r = Inl x" using rf w1 assms(3) by (cases r) auto
    then show ?thesis using assms(1) b r None bf rf rollback_tx_facts [of w2] by (auto simp: sqlite_transaction_def rows_def)
  qed
qed

lemma wraps_refused:
  assumes "wraps run w c errs w'"
    and "\<And>w1 c errs w2. run w1 = ((c, errs), w2) \<Longrightarrow> same_db w w1 \<Longrightarrow>
      c = [] \<and> errs \<noteq> [] \<and> wd_user w2 = wd_user w \<and> rows w2 = rows w"
  shows "c = [] \<and> errs \<noteq> [] \<and> wd_user w' = wd_user w \<and> rows w' = rows w"
  using assms(1) unfolding wraps_def
proof (elim disjE exE conjE)
  fix w1 w2 errs1 later
  assume r: "run w1 = ((c, errs1), w2)" "errs = errs1 @ later" "same_db w w1" "same_db w2 w'"
  from assms(2) [OF r(1,3)] r(2,4) same_db_view(1) [OF r(4)] show ?thesis by (simp add: same_db_def)
qed (simp add: same_db_def rows_def)

lemma locked_refused:
  assumes "wraps (run_selected sv select step) w c errs w'" "distinct (map fst (rows w))" "select (rows w) = Inl e"
  shows "c = [] \<and> errs \<noteq> [] \<and> wd_user w' = wd_user w \<and> rows w' = rows w"
proof (rule wraps_refused [OF assms(1)])
  fix w1 c errs w2
  assume r: "run_selected sv select step w1 = ((c, errs), w2)" "same_db w w1"
  have "rows w1 = rows w" using same_db_view(1) [OF r(2)] by simp
  then show "c = [] \<and> errs \<noteq> [] \<and> wd_user w2 = wd_user w \<and> rows w2 = rows w"
    using run_selected_refused [OF r(1)] assms(2,3) r(2) by (simp add: same_db_def)
qed

lemma apply_engines_refused:
  assumes "apply_postgresql sv target ms w = ((c, errs), w') \<or> apply_mysql sv target ms w = ((c, errs), w') \<or>
      apply_sqlite sv target ms w = ((c, errs), w')"
    and d: "distinct (map fst (rows w))" "select_applies (rows w) ms target = Inl e"
  shows "c = [] \<and> errs \<noteq> [] \<and> wd_user w' = wd_user w \<and> rows w' = rows w"
  using assms(1) unfolding apply_postgresql_def apply_mysql_def apply_sqlite_def
  by (elim disjE)
    (rule locked_refused [where select = "\<lambda>h. select_applies h ms target", OF with_postgresql_lock_wraps d]
       locked_refused [where select = "\<lambda>h. select_applies h ms target", OF with_mysql_lock_wraps d]
       sqlite_transaction_refused [where select = "\<lambda>h. select_applies h ms target", OF _ d], assumption)+

text \<open>
  A run that is refused runs no source. When the target does not resolve against the
  history, because a recorded migration is missing, changed or out of order, or because
  the target is unknown, \<open>Apply\<close> on any engine reports an error, returns nothing and
  leaves the data and the recorded rows as they were.
\<close>
theorem apply_refusal_changes_nothing:
  assumes prep: "prepare_migrations sha migs = Inr ms" and d: "distinct (map fst (rows w))"
    and refused: "select_applies (rows w) ms target = Inl e"
    and run: "runner_apply sha sv target migs w = ((c, errs), w')"
  shows "c = [] \<and> errs \<noteq> [] \<and> wd_user w' = wd_user w \<and> rows w' = rows w"
proof -
  from run prep have "on_connection sv (\<lambda>w.
         if sv_engine sv = ''postgresql'' then apply_postgresql sv target ms w
         else if sv_engine sv = ''mysql'' then apply_mysql sv target ms w
         else if sv_engine sv = ''sqlite'' then apply_sqlite sv target ms w
         else (([], [UnsupportedDialect (sv_engine sv)]), w)) w = ((c, errs), w')" by (simp add: runner_apply_def)
  from on_connection_wraps [OF this] show ?thesis
  proof (elim disjE exE conjE)
    fix w1
    assume r: "(if sv_engine sv = ''postgresql'' then apply_postgresql sv target ms w1
         else if sv_engine sv = ''mysql'' then apply_mysql sv target ms w1
         else if sv_engine sv = ''sqlite'' then apply_sqlite sv target ms w1
         else (([], [UnsupportedDialect (sv_engine sv)]), w1)) = ((c, errs), w')" and s: "same_db w w1"
    have w1: "rows w1 = rows w" "distinct (map fst (rows w1))" "select_applies (rows w1) ms target = Inl e" "wd_user w1 = wd_user w"
      using d refused same_db_view(1) [OF s] s by (auto simp: same_db_def)
    show ?thesis
      using r w1 apply_engines_refused [OF _ w1(2,3)] by (auto split: if_splits)
  qed (auto simp: same_db_def rows_def)
qed

theorem apply_refusal_changes_nothing_witness:
  "\<exists>errs w'. runner_apply (\<lambda>s. s) (sample_server ''postgresql'') (ApplyThrough ''9'') sample_migrations migrated_world = (([], errs), w') \<and>
     errs \<noteq> [] \<and> wd_user w' = [''X'', ''Y'']"
proof -
  obtain c errs w' where r: "runner_apply (\<lambda>s. s) (sample_server ''postgresql'') (ApplyThrough ''9'') sample_migrations migrated_world = ((c, errs), w')"
    by (metis prod.exhaust)
  have "select_applies (rows migrated_world) sample_ms (ApplyThrough ''9'') = Inl (CannotApplyThrough ''9'')"
    by (simp add: sample_ms_def run_eval migrated_world_def sort_search_def search_between.simps)
  from apply_refusal_changes_nothing [OF sample_ms_prepared migrated_world_ready(2) this r] r show ?thesis
    by (simp add: migrated_world_def)
qed

subsection \<open>Locks\<close>

text \<open>
  C25. The lock discipline, for PostgreSQL and for MySQL and any work done under the lock.
  Either the lock was not confirmed, and then the work was not started and the database is
  untouched; or the work ran with the lock held, its result is returned, and afterwards one of
  three things holds: the lock is free; the errors say that the release failed and the
  connection is marked bad, so that the session that may still hold the lock is not reused; or
  they say that the release failed and that the connection could not be marked.
\<close>
theorem lock_discipline:
  assumes "with_postgresql_lock sv run w = ((c, errs), w') \<or> with_mysql_lock sv run w = ((c, errs), w')"
  shows "(c = [] \<and> (\<exists>e. errs = [AcquireLock e]) \<and> same_db w w') \<or>
    (\<exists>w1 w2 errs1 cleanup. run w1 = ((c, errs1), w2) \<and> wd_locked w1 \<and> same_db w w1 \<and> same_db w2 w' \<and> errs = errs1 @ cleanup \<and>
      lock_given_up cleanup w')"
  using assms
proof
  assume run: "with_postgresql_lock sv run w = ((c, errs), w')"
  obtain e w1 where a: "db_call sv (\<lambda>w. (None, w\<lparr>wd_locked := True\<rparr>)) w = (e, w1)" by (rule prod.exhaust)
  have s: "same_db w w1" "e = None \<longrightarrow> wd_locked w1" using a by (auto simp: db_call_def Let_def same_db_def split: fault.splits)
  show ?thesis
  proof (cases e)
    case (Some x)
    then show ?thesis using run a s by (auto simp: with_postgresql_lock_def)
  next
    case None
    obtain c1 e1 w2 where r: "run w1 = ((c1, e1), w2)" by (metis prod.exhaust)
    obtain l w3 where l: "release_postgresql_lock sv w2 = (l, w3)" by (rule prod.exhaust)
    have eq: "c = c1" "errs = e1 @ l" "w' = w3" using run a None r l by (auto simp: with_postgresql_lock_def)
    show ?thesis using r s None release_postgresql_lock_facts [OF l] unfolding eq by blast
  qed
next
  assume run: "with_mysql_lock sv run w = ((c, errs), w')"
  define acquired where "acquired = sv_get_lock sv (wd_clock w)"
  obtain e w1 where a: "db_call sv (\<lambda>w'. (if acquired = None then Some (OtherError ''converting NULL to int is unsupported'') else None,
      if acquired = Some 1 then w'\<lparr>wd_locked := True\<rparr> else w')) w = (e, w1)" by (rule prod.exhaust)
  have s: "same_db w w1" "e = None \<and> acquired = Some 1 \<longrightarrow> wd_locked w1"
    using a by (cases "sv_fault sv (wd_clock w)"; cases acquired; auto simp: db_call_def Let_def same_db_def)+
  have eq: "(case (e, w1) of (Some e, w') \<Rightarrow> (([], [AcquireLock (Some e)]), w')
      | (None, w') \<Rightarrow>
          if acquired \<noteq> Some 1 then (([], [AcquireLock None]), w')
          else (case run w' of ((completed, errs), w2) \<Rightarrow>
            (case release_mysql_lock sv w2 of (cleanup, w3) \<Rightarrow> ((completed, errs @ cleanup), w3)))) = ((c, errs), w')"
    using run unfolding with_mysql_lock_def Let_def acquired_def [symmetric] a .
  show ?thesis
  proof (cases "e = None \<and> acquired = Some 1")
    case False
    then have "c = [] \<and> (\<exists>e. errs = [AcquireLock e]) \<and> w' = w1" using eq by (cases e) auto
    then show ?thesis using s(1) by simp
  next
    case True
    obtain c1 e1 w2 where r: "run w1 = ((c1, e1), w2)" by (metis prod.exhaust)
    obtain l w3 where l: "release_mysql_lock sv w2 = (l, w3)" by (rule prod.exhaust)
    have eq: "c = c1" "errs = e1 @ l" "w' = w3" using eq True r l by auto
    show ?thesis using r s True release_mysql_lock_facts [OF l] unfolding eq by blast
  qed
qed

theorem lock_discipline_witness:
  "\<exists>w'. with_mysql_lock (sample_server ''mysql'') (\<lambda>w. (([1::nat], []), w)) sample_world = (([1], []), w') \<and> \<not> wd_locked w'"
proof -
  obtain w' where r: "with_mysql_lock (sample_server ''mysql'') (\<lambda>w. (([1::nat], []), w)) sample_world = (([1], []), w')"
    by (simp add: run_eval)
  from lock_discipline [OF disjI2 [OF r]] r show ?thesis by (auto simp: lock_given_up_def)
qed

subsection \<open>Implicit commits\<close>

fun executes :: "'d server \<Rightarrow> statement list \<Rightarrow> 'd \<Rightarrow> 'd \<Rightarrow> bool" where
  "executes sv [] d d' \<longleftrightarrow> d = d'"
| "executes sv (s # ss) d d' \<longleftrightarrow> (\<exists>d1. sv_exec sv (st_sql s) d = (None, d1) \<and> executes sv ss d1 d')"

lemma sources_after_commit:
  assumes "sv_engine sv = ''mysql''" "\<And>n. sv_fault sv n = NoFault" "executes sv ss (wd_user w) d"
    and "sv_exec sv (st_sql t) d = (Some e, d')" "\<not> tolerate_already_done sv e"
    and "wd_saved w = None \<or> (\<exists>s \<in> set (ss @ [t]). sv_commits sv (st_sql s))"
  shows "\<exists>w'. run_sources sv True mk mid (ss @ t # rest) w = (Some (mk mid (st_source t) e), w') \<and>
    wd_user w' = d' \<and> wd_history w' = wd_history w \<and> wd_saved w' = None"
  using assms(3,6)
proof (induction ss arbitrary: w)
  case Nil
  then show ?case using assms(1,2,4,5) by (auto simp: exec_source_def db_call_def Let_def)
next
  case (Cons s ss)
  then obtain d1 where d1: "sv_exec sv (st_sql s) (wd_user w) = (None, d1)" "executes sv ss d1 d" by auto
  obtain w1 where w1: "exec_source sv (st_sql s) w = (None, w1)" "wd_user w1 = d1" "wd_history w1 = wd_history w"
    "wd_saved w1 = (if sv_commits sv (st_sql s) then None else wd_saved w)"
    using d1(1) assms(1,2) by (simp add: exec_source_def db_call_def Let_def)
  have "wd_saved w1 = None \<or> (\<exists>s \<in> set (ss @ [t]). sv_commits sv (st_sql s))" using Cons.prems(2) w1(4) by auto
  from Cons.IH [of w1] d1(2) this w1 show ?case by simp
qed

text \<open>
  C31. On MySQL an atomic migration is not atomic. Let some sources succeed and the next one fail,
  with an error that does not mean that its work was done already, and let one of them
  commit implicitly. Then the attempt to apply the migration reports the error, returns
  nothing and records nothing, and the effects of the sources that ran stay: the rollback has
  nothing left to undo.
\<close>
theorem mysql_atomic_migration_leaves_partial_effects:
  assumes "sv_engine sv = ''mysql''" "\<And>n. sv_fault sv n = NoFault" "wd_history w = Some h" "distinct (map fst h)" "pm_id m \<notin> fst ` set h"
    and "pm_statements m = ss @ t # rest" "executes sv ss (wd_user w) d" "sv_exec sv (st_sql t) d = (Some e, d')" "\<not> tolerate_already_done sv e"
    and "\<exists>s \<in> set (ss @ [t]). sv_commits sv (st_sql s)"
  shows "\<exists>w'. apply_atomic_mysql sv m w = (([], [ExecuteSource (pm_id m) (st_source t) e]), w') \<and>
    wd_user w' = d' \<and> wd_history w' = wd_history w \<and> wd_saved w' = None"
proof -
  define w1 where "w1 = w\<lparr>wd_clock := wd_clock w + 1, wd_saved := Some (wd_user w, wd_history w)\<rparr>"
  define w2 where "w2 = w1\<lparr>wd_clock := wd_clock w1 + 1\<rparr>"
  have b: "begin_tx sv w = (None, w1)" by (simp add: begin_tx_def assms(2) w1_def)
  have r: "read_applied sv w1 = (Inr h, w2)"
    using rows_to_map_distinct [OF assms(4)] by (simp add: read_applied_def db_call_def assms(2,3) w1_def w2_def Let_def)
  have n: "map_of h (pm_id m) = None" using assms(5) by (simp add: map_of_eq_None_iff)
  obtain w' where w': "run_sources sv True ExecuteSource (pm_id m) (ss @ t # rest) w2 = (Some (ExecuteSource (pm_id m) (st_source t) e), w')"
    "wd_user w' = d'" "wd_history w' = wd_history w" "wd_saved w' = None"
    using sources_after_commit [of sv ss w2 d t e d' ExecuteSource "pm_id m" rest] assms by (auto simp: w1_def w2_def)
  then show ?thesis by (simp add: apply_atomic_mysql_def b r n assms(6) finish_tx_def then_run_def rollback_tx_def)
qed

definition two_step :: prepared_migration where
  "two_step = \<lparr>pm_id = ''1'', pm_mode = mode_atomic, pm_statements = [\<lparr>st_source = ''a'', st_sql = ''X''\<rparr>, \<lparr>st_source = ''b'', st_sql = ''Y''\<rparr>],
     pm_down = [], pm_checksum = []\<rparr>"

definition committing_server :: "gostring list server" where
  "committing_server = (sample_server ''mysql'')\<lparr>sv_commits := (\<lambda>sql. sql = ''X''),
    sv_exec := (\<lambda>sql d. if sql = ''Y'' then (Some (MySQLError 1064), d) else (None, d @ [sql]))\<rparr>"

theorem mysql_atomic_migration_leaves_partial_effects_witness:
  "\<exists>w'. apply_atomic_mysql committing_server two_step (sample_world\<lparr>wd_history := Some []\<rparr>) =
     (([], [ExecuteSource ''1'' ''b'' (MySQLError 1064)]), w') \<and> wd_user w' = [''X''] \<and> wd_history w' = Some []"
proof -
  have "\<exists>w'. apply_atomic_mysql committing_server two_step (sample_world\<lparr>wd_history := Some []\<rparr>) =
     (([], [ExecuteSource (pm_id two_step) (st_source \<lparr>st_source = ''b'', st_sql = ''Y''\<rparr>) (MySQLError 1064)]), w') \<and>
     wd_user w' = [''X''] \<and> wd_history w' = wd_history (sample_world\<lparr>wd_history := Some []\<rparr>) \<and> wd_saved w' = None"
    by (rule mysql_atomic_migration_leaves_partial_effects [where h = "[]" and ss = "[\<lparr>st_source = ''a'', st_sql = ''X''\<rparr>]" and rest = "[]" and d = "[''X'']"])
      (simp_all add: committing_server_def sample_server_def sample_world_def two_step_def tolerate_already_done_def already_applied_numbers_def)
  then show ?thesis by (auto simp: two_step_def)
qed

subsection \<open>An apply undone by a revert\<close>

lemma undo_run:
  assumes "\<forall>m\<in>set sel. \<forall>d. run_user sv (pm_down m) (run_user sv (pm_statements m) d) = d"
  shows "run_user sv (concat (map pm_down (rev sel))) (run_user sv (concat (map pm_statements sel)) d) = d"
  using assms by (induction sel arbitrary: d) (simp_all add: run_user_append)

lemma revert_selects_what_was_applied:
  assumes ord: "by_id ms" and d: "distinct (map fst h)" "select_applies h ms target = Inr sel"
    and rev: "select_reverts (h @ map row_of sel) ms (Steps (int (length sel))) = Inr sel2"
  shows "sel2 = rev sel"
proof -
  obtain k limit where k: "history_prefix h ms k" "sel = drop k (take limit ms)"
    using iffD1 [OF select_applies_Inr [OF ord d(1)] d(2)] by blast
  obtain k2 where k2: "k2 \<le> length ms" "fst ` set (h @ map row_of sel) = pm_id ` set (take k2 ms)" "0 < length sel"
      "sel2 = rev (drop (k2 - length sel) (take k2 ms))"
    using iffD1 [OF select_reverts_steps [OF ord] rev] by auto
  let ?l = "min limit (length ms)"
  have kl: "k < ?l" "length sel = ?l - k" using k2(3) k(2) by simp_all
  have "fst ` set h = fst ` set (map row_of (take k ms))"
    using k(1) by (metis dom_map_of_conv_image_fst history_prefix_def)
  then have "fst ` set (h @ map row_of sel) = pm_id ` set (take k ms @ sel)"
    by (simp add: row_of_def image_image image_Un)
  also have "take k ms @ sel = take ?l ms"
  proof -
    have "take ?l ms = take k (take ?l ms) @ drop k (take ?l ms)" by (rule append_take_drop_id [symmetric])
    also have "take k (take ?l ms) = take k ms" using kl(1) by (simp add: min_def)
    also have "drop k (take ?l ms) = sel" unfolding k(2) by (simp add: min_def)
    finally show ?thesis by simp
  qed
  finally have "pm_id ` set (take ?l ms) = pm_id ` set (take k2 ms)" using k2(2) by simp
  from names_prefix_unique [OF ord _ k2(1) this] have "k2 = ?l" by simp
  then have "k2 - length sel = k" "take k2 ms = take limit ms" using kl by (auto simp: min_def split: if_splits)
  then show ?thesis using k2(4) k(2) by simp
qed

text \<open>
  C24. Apply and revert are inverse where the sources are. If the reverse sources of each
  migration undo its sources, then on SQLite, or on PostgreSQL with atomic migrations, an
  \<open>Apply\<close> and a \<open>Revert\<close> of as many steps as it applied, both without error, bring back
  the data and the recorded rows, and the revert returns what was applied, newest first.
\<close>
theorem apply_then_revert_restores:
  assumes prep: "prepare_migrations sha migs = Inr ms" and w: "wd_saved w = None" "distinct (map fst (rows w))"
    and engine: "sv_engine sv = ''sqlite'' \<or> sv_engine sv = ''postgresql'' \<and> (\<forall>m\<in>set migs. mg_mode m = mode_atomic)"
    and undo: "\<forall>m\<in>set ms. \<forall>d. run_user sv (pm_down m) (run_user sv (pm_statements m) d) = d"
    and run: "runner_apply sha sv target migs w = ((c, []), w1)"
    and reverse: "runner_revert sha sv (Steps (int (length c))) migs w1 = ((c', []), w2)"
  shows "rows w2 = rows w \<and> wd_user w2 = wd_user w \<and> c' = rev c"
proof -
  have ord: "by_id ms" using prepare_migrations_Inr [OF prep] by simp
  obtain sel where a: "select_applies (rows w) ms target = Inr sel" "c = export_migrations sel"
      "both w1 = fold (apply_both sv) sel (both w)"
    using runner_apply_both [OF prep w engine run] by (auto simp: reports_def progress_def)
  then have w1: "rows w1 = rows w @ map row_of sel" "wd_user w1 = run_user sv (concat (map pm_statements sel)) (wd_user w)"
    by (simp_all add: both_def fold_apply_both)
  note f = selected_fresh [OF ord w(2) a(1)]
  have s1: "wd_saved w1 = None" using runner_apply_reports [OF prep w run] by simp
  have d1: "distinct (map fst (rows w1))" using w1(1) w(2) f by (force simp: fresh_def row_of_def comp_def)
  obtain sel2 where b: "select_reverts (rows w1) ms (Steps (int (length c))) = Inr sel2" "c' = export_migrations sel2"
      "both w2 = fold (revert_both sv) sel2 (both w1)"
    using runner_revert_both [OF prep s1 d1 engine reverse] by (auto simp: reports_def progress_def)
  have "length c = length sel" using a(2) by (simp add: export_migrations_def)
  then have sel2: "sel2 = rev sel" using revert_selects_what_was_applied [OF ord w(2) a(1)] b(1) w1(1) by simp
  have "filter (\<lambda>r. fst r \<notin> pm_id ` set sel) (rows w) = rows w" using f by (force simp: fresh_def filter_id_conv)
  then have "filter (\<lambda>r. fst r \<notin> pm_id ` set sel) (rows w @ map row_of sel) = rows w"
    by (simp add: filter_empty_conv row_of_def)
  moreover have "wd_user w2 = wd_user w"
    using b(3) undo_run [of sel sv] undo f by (simp add: both_def fold_revert_both sel2 w1(2))
  ultimately show ?thesis using b(2,3) a(2) by (simp add: both_def fold_revert_both sel2 w1(1) export_migrations_def rev_map)
qed

definition reversible :: "migration list" where
  "reversible = [\<lparr>mg_id = ''1'', mg_mode = '''', mg_statements = [\<lparr>st_source = ''a'', st_sql = ''X''\<rparr>],
     mg_down = [\<lparr>st_source = ''a'', st_sql = ''X''\<rparr>]\<rparr>]"

definition flip_world :: "bool world" where
  "flip_world = \<lparr>wd_user = False, wd_history = None, wd_saved = None, wd_clock = 0, wd_notices = [], wd_locked = False, wd_bad = False\<rparr>"

definition flip_server :: "bool server" where
  "flip_server = \<lparr>sv_engine = ''sqlite'', sv_exec = (\<lambda>sql d. (None, \<not> d)), sv_commits = (\<lambda>_. False),
     sv_fault = (\<lambda>_. NoFault), sv_missing_table = OtherError ''no such table'', sv_duplicate_key = OtherError ''duplicate'',
     sv_get_lock = (\<lambda>_. Some 1), sv_release_lock = (\<lambda>_. Some 1), sv_unlock = (\<lambda>_. True), sv_grab = (\<lambda>_. None)\<rparr>"

lemmas revert_eval = select_reverts_def revert_count_def applied_step_def revert_step_def

theorem apply_then_revert_restores_witness:
  "\<exists>w1 w2. runner_apply (\<lambda>s. s) flip_server AllPending reversible flip_world = ((reversible, []), w1) \<and> wd_user w1 \<and>
     runner_revert (\<lambda>s. s) flip_server (Steps 1) reversible w1 = ((reversible, []), w2) \<and> rows w2 = [] \<and> \<not> wd_user w2"
proof -
  let ?ms = "[\<lparr>pm_id = ''1'', pm_mode = '''', pm_statements = [\<lparr>st_source = ''a'', st_sql = ''X''\<rparr>],
      pm_down = [\<lparr>st_source = ''a'', st_sql = ''X''\<rparr>], pm_checksum = [CHR ''a'', CHR 0x00, CHR ''X'', CHR 0x00]\<rparr>]"
  have p: "prepare_migrations (\<lambda>s. s) reversible = Inr ?ms" by (simp add: reversible_def plan_eval)
  obtain w1 where r: "runner_apply (\<lambda>s. s) flip_server AllPending reversible flip_world = ((reversible, []), w1)" "wd_user w1"
    and w1: "wd_history w1 = Some [(''1'', [CHR ''a'', CHR 0x00, CHR ''X'', CHR 0x00])]" "wd_saved w1 = None"
    by (simp add: p run_eval flip_server_def flip_world_def) (simp add: reversible_def)
  obtain w2 where b: "runner_revert (\<lambda>s. s) flip_server (Steps 1) reversible w1 = ((reversible, []), w2)"
    by (simp add: p run_eval flip_server_def w1 revert_eval) (simp add: reversible_def)
  have c: "int (length reversible) = 1" by (simp add: reversible_def)
  have "rows w2 = rows flip_world \<and> wd_user w2 = wd_user flip_world \<and> reversible = rev reversible"
    by (rule apply_then_revert_restores [OF p _ _ _ _ r(1) b [folded c]])
      (simp_all add: flip_world_def rows_def flip_server_def)
  then show ?thesis using r b by (auto simp: flip_world_def rows_def)
qed

end
