(* ===== verification/Cursor_Codec.thy ===== *)
theory Cursor_Codec
  imports Go_Base "HOL-Library.Word"
begin

unbundle bit_operations_syntax

text \<open>
  Package \<open>internal/cursorcodec\<close>: the bytes of keyset pagination cursors. \<open>EncodeValue\<close>
  and \<open>DecodeValue\<close> (\<open>value.go\<close>) and the envelope around the values of a cursor
  (\<open>envelope.go\<close>). Integers are 64-bit words, as the code converts them; a float is the
  word of its IEEE 754 bits.
\<close>

subsection \<open>Big-endian integers\<close>

text \<open>\<open>binary.BigEndian\<close>: the \<open>n\<close> bytes of an integer, most significant first.\<close>

fun be_bytes :: "nat \<Rightarrow> nat \<Rightarrow> gostring" where
  "be_bytes 0 k = []"
| "be_bytes (Suc n) k = be_bytes n (k div 256) @ [char_of (k mod 256)]"

definition be_val :: "gostring \<Rightarrow> nat" where
  "be_val bs = foldl (\<lambda>a c. a * 256 + of_char c) 0 bs"

definition put_uint64 :: "64 word \<Rightarrow> gostring" where
  "put_uint64 w = be_bytes 8 (unat w)"

definition get_uint64 :: "gostring \<Rightarrow> 64 word" where
  "get_uint64 bs = word_of_nat (be_val (take 8 bs))"

text \<open>The constant \<open>1 << 63\<close>.\<close>

definition sign_bit :: "64 word" where
  "sign_bit = push_bit 63 1"

lemma bit_sign_bit [bit_simps]: "bit sign_bit n \<longleftrightarrow> n = 63"
  unfolding sign_bit_def bit_push_bit_iff by (auto simp: bit_1_iff simp del: push_bit_numeral)

lemma unat_sign_bit: "unat sign_bit = 2 ^ 63"
  by (simp add: sign_bit_def)

subsection \<open>Values\<close>

text \<open>
  The dynamic type of a value as far as \<open>reflect\<close> shows it to the codec: its kind, with the
  number of bits of an integer type. A value of a basic kind is decoded into a new value of
  the type asked for, so the name of such a type plays no part. A byte slice is decoded into
  a plain \<open>[]byte\<close> whatever the name of its type, which is therefore part of the type; a slice
  may be nil, which is \<open>None\<close>. A time is an instant in a location.
\<close>

datatype cursor_type =
    TimeType
  | Float32Type
  | Float64Type
  | BoolType
  | IntType nat
  | UintType nat
  | StringType
  | BytesType gostring
  | OtherType

datatype cursor_value =
    NilValue
  | TimeValue gostring "64 word" "32 word"
  | FloatValue cursor_type "64 word"
  | BoolValue bool
  | IntValue nat "64 word"
  | UintValue nat "64 word"
  | StringValue gostring
  | BytesValue gostring "gostring option"
  | OtherValue

datatype cursor_error =
    NilCursor
  | NaNCursor
  | UnsupportedValue
  | InvalidTime
  | InvalidFloat
  | FloatOverflow
  | InvalidBool
  | InvalidInteger
  | IntegerOverflow
  | UnsignedOverflow
  | UnsupportedType
  | KeyCount
  | FieldTooLarge
  | AbsentPayload
  | EnvelopeTooLarge
  | InvalidBase64
  | InvalidVersion
  | Truncated
  | InvalidMarker
  | TruncatedMetadata
  | InvalidPresence
  | InvalidLength
  | TrailingData

fun type_of_value :: "cursor_value \<Rightarrow> cursor_type" where
  "type_of_value NilValue = OtherType"
| "type_of_value (TimeValue l s n) = TimeType"
| "type_of_value (FloatValue t bits) = t"
| "type_of_value (BoolValue b) = BoolType"
| "type_of_value (IntValue n w) = IntType n"
| "type_of_value (UintValue n w) = UintType n"
| "type_of_value (StringValue s) = StringType"
| "type_of_value (BytesValue t s) = BytesType t"
| "type_of_value OtherValue = OtherType"

text \<open>
  IEEE 754 double precision on bits: the exponent and mantissa fields, NaN, zero, the
  test \<open>f >= 0\<close> (true of both zeros), and whether \<open>float64(float32(f)) == f\<close>.
\<close>

definition float_exponent :: "64 word \<Rightarrow> nat" where
  "float_exponent b = unat (drop_bit 52 b) mod 2048"

definition float_mantissa :: "64 word \<Rightarrow> nat" where
  "float_mantissa b = unat b mod 2 ^ 52"

definition is_nan :: "64 word \<Rightarrow> bool" where
  "is_nan b = (float_exponent b = 2047 \<and> float_mantissa b \<noteq> 0)"

definition is_zero :: "64 word \<Rightarrow> bool" where
  "is_zero b = (unat b mod 2 ^ 63 = 0)"

definition not_negative :: "64 word \<Rightarrow> bool" where
  "not_negative b = (\<not> is_nan b \<and> (\<not> bit b 63 \<or> is_zero b))"

definition float32_exact :: "64 word \<Rightarrow> bool" where
  "float32_exact b =
     (if float_exponent b = 2047 then float_mantissa b = 0
      else if 897 \<le> float_exponent b then float_exponent b \<le> 1150 \<and> float_mantissa b mod 2 ^ 29 = 0
      else if 874 \<le> float_exponent b then float_mantissa b mod 2 ^ (29 + (897 - float_exponent b)) = 0
      else is_zero b)"

definition encode_float :: "64 word \<Rightarrow> gostring" where
  "encode_float bits = put_uint64 (if not_negative bits then bits XOR sign_bit else NOT bits)"

definition encode_value :: "cursor_value \<Rightarrow> cursor_error + gostring" where
  "encode_value value = (case value of
       NilValue \<Rightarrow> Inl NilCursor
     | TimeValue l s n \<Rightarrow> Inr (put_uint64 s @ be_bytes 4 (unat n))
     | FloatValue t bits \<Rightarrow> if is_nan bits then Inl NaNCursor else Inr (encode_float bits)
     | BoolValue b \<Rightarrow> Inr [if b then CHR 0x01 else CHR 0x00]
     | IntValue n w \<Rightarrow> Inr (put_uint64 (w XOR sign_bit))
     | UintValue n w \<Rightarrow> Inr (put_uint64 w)
     | StringValue s \<Rightarrow> Inr s
     | BytesValue t s \<Rightarrow> Inr (case s of None \<Rightarrow> [] | Some bytes \<Rightarrow> bytes)
     | OtherValue \<Rightarrow> Inl UnsupportedValue)"

definition decode_float :: "cursor_type \<Rightarrow> gostring \<Rightarrow> cursor_error + cursor_value" where
  "decode_float typ data =
     (if length data \<noteq> 8 then Inl InvalidFloat
      else (let raw = get_uint64 data;
                bits = (if bit raw 63 then raw XOR sign_bit else NOT raw) in
        if is_nan bits then Inl NaNCursor
        else if typ = Float32Type \<and> \<not> float32_exact bits then Inl FloatOverflow
        else Inr (FloatValue typ bits)))"

definition byte_slice :: gostring where
  "byte_slice = ''[]uint8''"

definition utc :: gostring where
  "utc = ''UTC''"

text \<open>The \<open>Slice\<close> case appends the data to a nil \<open>[]byte\<close>: without data the result is nil.\<close>

definition decode_value :: "gostring \<Rightarrow> cursor_type \<Rightarrow> cursor_error + cursor_value" where
  "decode_value data typ = (case typ of
       TimeType \<Rightarrow>
         if length data \<noteq> 12 then Inl InvalidTime
         else if be_val (drop 8 data) \<ge> 1000000000 then Inl InvalidTime
         else Inr (TimeValue utc (get_uint64 data) (word_of_nat (be_val (drop 8 data))))
     | Float32Type \<Rightarrow> decode_float typ data
     | Float64Type \<Rightarrow> decode_float typ data
     | BoolType \<Rightarrow>
         if length data \<noteq> 1 \<or> code (hd data) > 1 then Inl InvalidBool
         else Inr (BoolValue (code (hd data) = 1))
     | IntType bits \<Rightarrow>
         if length data \<noteq> 8 then Inl InvalidInteger
         else (let v = get_uint64 data XOR sign_bit in
           if bits < 64 \<and> (sint v < - (2 ^ (bits - 1)) \<or> sint v > 2 ^ (bits - 1) - 1) then Inl IntegerOverflow
           else Inr (IntValue bits v))
     | UintType bits \<Rightarrow>
         if length data \<noteq> 8 then Inl InvalidInteger
         else if bits < 64 \<and> unat (get_uint64 data) > 2 ^ bits - 1 then Inl UnsignedOverflow
         else Inr (UintValue bits (get_uint64 data))
     | StringType \<Rightarrow> Inr (StringValue data)
     | BytesType t \<Rightarrow> Inr (BytesValue byte_slice (if data = [] then None else Some data))
     | OtherType \<Rightarrow> Inl UnsupportedType)"

subsection \<open>Facts about the encodings of integers\<close>

lemma length_be_bytes [simp]: "length (be_bytes n k) = n"
  by (induction n arbitrary: k) simp_all

lemma be_val_snoc [simp]: "be_val (bs @ [c]) = be_val bs * 256 + of_char c"
  by (simp add: be_val_def)

lemma be_val_Nil [simp]: "be_val [] = 0"
  by (simp add: be_val_def)

lemma be_val_bytes: "be_val (be_bytes n k) = k mod 256 ^ n"
proof (induction n arbitrary: k)
  case (Suc n)
  have "be_val (be_bytes (Suc n) k) = (k div 256 mod 256 ^ n) * 256 + k mod 256"
    using Suc [of "k div 256"] by simp
  also have "\<dots> = k mod 256 ^ Suc n"
    by (simp add: mod_mult2_eq mult.commute)
  finally show ?case .
qed simp

lemma be_bytes_val: "be_bytes (length bs) (be_val bs) = bs"
  by (induction bs rule: rev_induct) simp_all

lemma be_val_bound: "be_val bs < 256 ^ length bs"
proof (induction bs rule: rev_induct)
  case (snoc c bs)
  have "be_val (bs @ [c]) < (be_val bs + 1) * 256" by simp
  also have "(be_val bs + 1) * 256 \<le> 256 ^ length bs * 256" using snoc by (intro mult_le_mono1) simp
  finally show ?case by (simp add: mult.commute)
qed simp

lemma unat_less_64: "unat (w :: 64 word) < 2 ^ 64"
  using unsigned_less [of w, where ?'a = nat] by simp

lemma unat_mod_64: "unat (w :: 64 word) mod 2 ^ 64 = unat w"
  using unat_less_64 [of w] by simp

lemma get_put_uint64 [simp]: "get_uint64 (put_uint64 w @ rest) = w" "get_uint64 (put_uint64 w) = w"
  using unat_mod_64 [of w] by (simp_all add: get_uint64_def put_uint64_def be_val_bytes)

lemma put_get_uint64: "length bs = 8 \<Longrightarrow> put_uint64 (get_uint64 bs) = bs"
  using be_bytes_val [of bs] be_val_bound [of bs]
  by (simp add: get_uint64_def put_uint64_def unat_of_nat take_bit_nat_eq_self_iff)

lemma length_put_uint64 [simp]: "length (put_uint64 w) = 8"
  by (simp add: put_uint64_def)

subsection \<open>Values come back\<close>

text \<open>A value as Go can hold it: an integer fits its type, a float its type, nanoseconds a second.\<close>

definition value_ok :: "cursor_value \<Rightarrow> bool" where
  "value_ok v = (case v of
       TimeValue l s n \<Rightarrow> unat n < 1000000000
     | FloatValue t bits \<Rightarrow> t = Float64Type \<or> t = Float32Type \<and> (is_nan bits \<or> float32_exact bits)
     | IntValue n w \<Rightarrow> 0 < n \<and> n \<le> 64 \<and> - (2 ^ (n - 1)) \<le> sint w \<and> sint w < 2 ^ (n - 1)
     | UintValue n w \<Rightarrow> 0 < n \<and> n \<le> 64 \<and> unat w < 2 ^ n
     | _ \<Rightarrow> True)"

definition negative_zero :: "64 word" where
  "negative_zero = sign_bit"

lemma sign_bit_xor: "bit (w XOR sign_bit :: 64 word) 63 \<longleftrightarrow> \<not> bit w 63"
  by (simp add: bit_simps)

lemma xor_twice [simp]: "(w XOR m) XOR m = (w :: 'a :: len word)"
  by (simp add: xor.assoc)

lemma sign_bit_div: "bit (b :: 64 word) 63 \<longleftrightarrow> unat b div 2 ^ 63 = 1"
proof -
  have "bit b 63 \<longleftrightarrow> odd (unat b div 2 ^ 63)" by (metis bit_iff_odd bit_unsigned_iff possible_bit_nat)
  moreover have "unat b div 2 ^ 63 < 2" using unat_less_64 [of b] by (intro less_mult_imp_div_less) simp
  then have "unat b div 2 ^ 63 = 0 \<or> unat b div 2 ^ 63 = 1" by (rule less_2_cases [unfolded One_nat_def [symmetric]])
  ultimately show ?thesis by (elim disjE) simp_all
qed

lemma sign_bit_iff: "bit (b :: 64 word) 63 \<longleftrightarrow> 2 ^ 63 \<le> unat b"
proof -
  have "unat b div 2 ^ 63 < 2" using unat_less_64 [of b] by (intro less_mult_imp_div_less) simp
  moreover have "0 < unat b div 2 ^ 63 \<longleftrightarrow> 2 ^ 63 \<le> unat b" unfolding div_greater_zero_iff by simp
  ultimately show ?thesis unfolding sign_bit_div by linarith
qed

lemma zero_bits:
  assumes "is_zero b" "bit b 63" shows "b = negative_zero"
proof -
  have "unat b = 2 ^ 63 * (unat b div 2 ^ 63) + unat b mod 2 ^ 63" by (rule mult_div_mod_eq [symmetric])
  also have "\<dots> = 2 ^ 63" unfolding assms(2) [unfolded sign_bit_div] assms(1) [unfolded is_zero_def] by simp
  finally have "unat b = 2 ^ 63" .
  then show ?thesis by (simp add: negative_zero_def word_unat_eq_iff unat_sign_bit)
qed

lemma is_zero_positive: "is_zero b \<Longrightarrow> \<not> bit b 63 \<Longrightarrow> b = 0"
  using sign_bit_iff [of b] by (simp add: is_zero_def word_unat_eq_iff)

lemma encoded_float_sign:
  assumes "\<not> is_nan bits" "bits \<noteq> negative_zero"
  shows "(let raw = get_uint64 (encode_float bits) in if bit raw 63 then raw XOR sign_bit else NOT raw) = bits"
proof -
  have nn: "not_negative bits \<longleftrightarrow> \<not> bit bits 63"
    using assms zero_bits by (auto simp: not_negative_def)
  show ?thesis
    by (cases "bit bits 63") (simp_all add: encode_float_def nn Let_def sign_bit_xor bit_simps)
qed

lemma decode_encoded_float:
  assumes "\<not> is_nan bits" "bits \<noteq> negative_zero" "t = Float64Type \<or> t = Float32Type \<and> float32_exact bits"
  shows "decode_float t (encode_float bits) = Inr (FloatValue t bits)"
proof -
  have "length (encode_float bits) = 8" by (simp add: encode_float_def)
  then show ?thesis using encoded_float_sign [OF assms(1,2)] assms(1,3)
    unfolding decode_float_def Let_def by auto
qed

text \<open>What comes back of a value: the instant in UTC, the bytes in a plain slice that is nil when empty.\<close>

fun canonical :: "cursor_value \<Rightarrow> cursor_value" where
  "canonical (TimeValue l s n) = TimeValue utc s n"
| "canonical (BytesValue t s) = BytesValue byte_slice (if s = Some [] then None else s)"
| "canonical v = v"

lemma encoded_value_decodes:
  assumes "value_ok v" "encode_value v = Inr data" "v \<noteq> FloatValue (type_of_value v) negative_zero"
  shows "decode_value data (type_of_value v) = Inr (canonical v)"
proof (cases v)
  case (TimeValue l s n)
  have "unat n mod 2 ^ 32 = unat n" using unsigned_less [of n, where ?'a = nat] by simp
  then show ?thesis using assms TimeValue
    by (auto simp: encode_value_def decode_value_def value_ok_def be_val_bytes)
next
  case (FloatValue t bits)
  then have "\<not> is_nan bits" "data = encode_float bits" "bits \<noteq> negative_zero"
    using assms by (auto simp: encode_value_def split: if_splits)
  then show ?thesis using decode_encoded_float [of bits t] assms(1) FloatValue
    by (auto simp: decode_value_def value_ok_def)
next
  case (IntValue n w)
  then show ?thesis using assms by (auto simp: encode_value_def decode_value_def value_ok_def Let_def)
next
  case (UintValue n w)
  then have "unat w < 2 ^ n" using assms by (simp add: value_ok_def)
  then show ?thesis using assms UintValue by (auto simp: encode_value_def decode_value_def)
next
  case (BoolValue b)
  then show ?thesis using assms by (cases b) (auto simp: encode_value_def decode_value_def)
next
  case (BytesValue t b)
  then show ?thesis using assms by (cases b) (auto simp: encode_value_def decode_value_def)
qed (use assms in \<open>auto simp: encode_value_def decode_value_def\<close>)

text \<open>
  C32. A cursor value comes back. What \<open>EncodeValue\<close> writes for a value other than the float
  negative zero, \<open>DecodeValue\<close> reads back when it is given the value's own type: the same
  value for every boolean, integer, float and string type; for a time the same instant, in
  UTC; for a byte slice of any type the same bytes in a plain \<open>[]byte\<close>, nil when there are none.
\<close>
theorem cursor_value_roundtrip:
  assumes "value_ok v" "encode_value v = Inr data" "v \<noteq> FloatValue (type_of_value v) negative_zero"
  shows "decode_value data (type_of_value v) = Inr (canonical v)"
  using assms by (rule encoded_value_decodes)

theorem cursor_value_roundtrip_witness:
  "encode_value (IntValue 8 (- 2)) = Inr (be_bytes 8 9223372036854775806) \<and>
   decode_value (be_bytes 8 9223372036854775806) (IntType 8) = Inr (IntValue 8 (- 2)) \<and>
   decode_value [] (BytesType ''main.Hash'') = Inr (BytesValue byte_slice None)"
  using cursor_value_roundtrip [of "IntValue 8 (- 2)"] cursor_value_roundtrip [of "BytesValue ''main.Hash'' (Some [])"]
  by (simp add: value_ok_def encode_value_def put_uint64_def sign_bit_def)

text \<open>
  Negative zero does not come back. \<open>EncodeValue\<close> accepts it, because \<open>-0.0 >= 0\<close> holds
  and it is not NaN, and writes eight zero bytes; \<open>DecodeValue\<close> reads these as the
  complement of a negative number, which is a NaN pattern, and refuses them.
\<close>
theorem negative_zero_is_rejected:
  "encode_value (FloatValue Float64Type negative_zero) = Inr (be_bytes 8 0) \<and>
   decode_value (be_bytes 8 0) Float64Type = Inl NaNCursor"
proof -
  have n: "unat negative_zero = 2 ^ 63" by (simp add: negative_zero_def unat_sign_bit)
  have "is_zero negative_zero" "float_mantissa negative_zero = 0" by (simp_all add: is_zero_def float_mantissa_def n)
  then have "not_negative negative_zero" "\<not> is_nan negative_zero" by (simp_all add: not_negative_def is_nan_def)
  moreover have "negative_zero XOR sign_bit = 0" by (simp add: negative_zero_def)
  ultimately have "encode_value (FloatValue Float64Type negative_zero) = Inr (be_bytes 8 0)"
    by (simp add: encode_value_def encode_float_def put_uint64_def)
  moreover have "get_uint64 (be_bytes 8 0) = 0" by (simp add: get_uint64_def be_val_bytes)
  moreover have "unat (- 1 :: 64 word) = 2 ^ 64 - 1" by (simp add: unsigned_minus_1_eq_mask mask_eq_exp_minus_1)
  then have "is_nan (- 1)"
    by (simp add: is_nan_def float_exponent_def float_mantissa_def unat_drop_bit_eq drop_bit_eq_div)
  ultimately show ?thesis by (simp add: decode_value_def decode_float_def Let_def)
qed

subsection \<open>Encoded bytes keep the order\<close>

lemma snoc_less_snoc:
  fixes xs ys :: "('a :: linorder) list"
  shows "length xs = length ys \<Longrightarrow> xs @ [a] < ys @ [b] \<longleftrightarrow> xs < ys \<or> xs = ys \<and> a < b"
  by (induction xs ys rule: list_induct2) auto

lemma be_bytes_less:
  "j < 256 ^ n \<Longrightarrow> k < 256 ^ n \<Longrightarrow> be_bytes n j < be_bytes n k \<longleftrightarrow> j < k"
proof (induction n arbitrary: j k)
  case (Suc n)
  have d: "j div 256 < 256 ^ n" "k div 256 < 256 ^ n"
    using Suc.prems by (simp_all add: less_mult_imp_div_less mult.commute)
  have eq: "be_bytes n (j div 256) = be_bytes n (k div 256) \<longleftrightarrow> j div 256 = k div 256"
    using be_val_bytes [of n "j div 256"] be_val_bytes [of n "k div 256"] d by (metis mod_less)
  have "be_bytes (Suc n) j < be_bytes (Suc n) k \<longleftrightarrow>
      j div 256 < k div 256 \<or> j div 256 = k div 256 \<and> j mod 256 < k mod 256"
    using Suc.IH [OF d] eq by (simp add: snoc_less_snoc less_char_def)
  also have "\<dots> \<longleftrightarrow> j < k"
    using div_mult_mod_eq [of j 256] div_mult_mod_eq [of k 256] mod_less_divisor [of 256 j] mod_less_divisor [of 256 k] by linarith
  finally show ?case .
qed simp

lemma put_uint64_less: "put_uint64 v < put_uint64 w \<longleftrightarrow> unat v < unat w"
  unfolding put_uint64_def using unat_less_64 [of v] unat_less_64 [of w] by (intro be_bytes_less) simp_all

lemma flip_sign_clear:
  assumes "\<not> bit (w :: 64 word) 63"
  shows "unat (w XOR sign_bit) = unat w + 2 ^ 63"
proof -
  have "w AND sign_bit = 0"
    by (rule bit_eqI) (use assms in \<open>auto simp: bit_and_iff bit_sign_bit\<close>)
  then have "w XOR sign_bit = w + sign_bit" by (rule disjunctive_add_eq_xor [symmetric])
  moreover have "unat w < 2 ^ 63" using assms sign_bit_iff by auto
  ultimately show ?thesis by (simp add: unat_word_ariths unat_sign_bit)
qed

lemma flip_sign:
  "unat (w XOR sign_bit :: 64 word) = (if bit w 63 then unat w - 2 ^ 63 else unat w + 2 ^ 63)"
proof (cases "bit w 63")
  case True
  then have "\<not> bit (w XOR sign_bit) 63" by (simp only: sign_bit_xor not_not)
  from flip_sign_clear [OF this] True show ?thesis by simp
qed (simp add: flip_sign_clear)

lemma sint_flip: "sint (w :: 64 word) = int (unat (w XOR sign_bit)) - 2 ^ 63"
proof -
  have b: "- (2 ^ 63) \<le> sint w" "sint w < 2 ^ 63" using sint_ge [of w] sint_lt [of w] by simp_all
  have u: "int (unat w) = sint w mod 2 ^ 64" by (simp add: uint_sint take_bit_eq_mod)
  show ?thesis
  proof (cases "0 \<le> sint w")
    case True
    then have i: "int (unat w) = sint w" unfolding u using b by simp
    have "int (unat w) < int (2 ^ 63)" unfolding i using b(2) by simp
    then have "\<not> bit w 63" unfolding sign_bit_iff of_nat_less_iff by simp
    then show ?thesis using i by (simp add: flip_sign del: of_nat_unat)
  next
    case False
    then have "sint w mod 2 ^ 64 = (sint w + 2 ^ 64) mod 2 ^ 64" by simp
    also have "\<dots> = sint w + 2 ^ 64" using False b by (intro mod_pos_pos_trivial) simp_all
    finally have i: "int (unat w) = sint w + 2 ^ 64" using u by simp
    have "int (2 ^ 63) \<le> int (unat w)" unfolding i using b(1) by simp
    then have "bit w 63" "2 ^ 63 \<le> unat w" unfolding sign_bit_iff of_nat_le_iff by simp_all
    then show ?thesis using i by (simp add: flip_sign of_nat_diff del: of_nat_unat)
  qed
qed

lemma encode_int_less: "put_uint64 (v XOR sign_bit) < put_uint64 (w XOR sign_bit) \<longleftrightarrow> sint v < sint w"
  unfolding put_uint64_less sint_flip by linarith

text \<open>The order of float values read off their bits: sign and magnitude, both zeros equal.\<close>

definition float_key :: "64 word \<Rightarrow> int" where
  "float_key b = (if bit b 63 then - int (unat b - 2 ^ 63) else int (unat b))"

lemma unat_not_64: "unat (NOT w :: 64 word) = 2 ^ 64 - 1 - unat w"
proof -
  have "NOT w = - 1 - w" by (simp add: not_eq_complement)
  moreover have "unat (- 1 :: 64 word) = 2 ^ 64 - 1" by (simp add: unsigned_minus_1_eq_mask mask_eq_exp_minus_1)
  moreover have "w \<le> - 1" by (rule word_n1_ge)
  ultimately show ?thesis using unat_sub [of w "- 1"] by simp
qed

lemma encode_float_key:
  assumes "\<not> is_nan b" "b \<noteq> negative_zero"
  shows "\<exists>w. encode_float b = put_uint64 w \<and> int (unat w) = float_key b + 2 ^ 63 - (if bit b 63 then 1 else 0)"
proof (cases "bit b 63")
  case True
  then have "\<not> not_negative b" using assms zero_bits by (auto simp: not_negative_def)
  moreover have "2 ^ 63 \<le> unat b" "unat b < 2 ^ 64" using True sign_bit_iff unat_less_64 by auto
  then have "int (2 ^ 64 - 1 - unat b) = - int (unat b - 2 ^ 63) + 2 ^ 63 - 1" by (simp add: of_nat_diff)
  then have "int (unat (NOT b)) = float_key b + 2 ^ 63 - 1" unfolding unat_not_64 float_key_def using True by simp
  ultimately show ?thesis using True by (auto simp: encode_float_def simp del: of_nat_unat)
next
  case False
  then have "not_negative b" using assms by (auto simp: not_negative_def)
  then show ?thesis using False by (auto simp: encode_float_def float_key_def flip_sign simp del: of_nat_unat intro!: exI [of _ "b XOR sign_bit"])
qed

lemma encode_float_less:
  assumes "\<not> is_nan f" "f \<noteq> negative_zero" "\<not> is_nan g" "g \<noteq> negative_zero"
  shows "encode_float f < encode_float g \<longleftrightarrow> float_key f < float_key g"
proof -
  obtain v where v: "encode_float f = put_uint64 v" "int (unat v) = float_key f + 2 ^ 63 - (if bit f 63 then 1 else 0)"
    using encode_float_key [OF assms(1,2)] by blast
  obtain w where w: "encode_float g = put_uint64 w" "int (unat w) = float_key g + 2 ^ 63 - (if bit g 63 then 1 else 0)"
    using encode_float_key [OF assms(3,4)] by blast
  have neg: "float_key b < 0" if "bit b 63" "b \<noteq> negative_zero" for b
  proof -
    have "2 ^ 63 \<le> unat b" using that(1) sign_bit_iff by simp
    moreover have "unat b \<noteq> 2 ^ 63" using that(2) by (simp add: negative_zero_def word_unat_eq_iff unat_sign_bit)
    ultimately show ?thesis using that(1) by (simp add: float_key_def del: of_nat_unat)
  qed
  have pos: "0 \<le> float_key b" if "\<not> bit b 63" for b using that by (simp add: float_key_def)
  have "encode_float f < encode_float g \<longleftrightarrow> int (unat v) < int (unat w)" unfolding v(1) w(1) put_uint64_less by (rule of_nat_less_iff [symmetric])
  also have "\<dots> \<longleftrightarrow> float_key f < float_key g"
    unfolding v(2) w(2) using neg [of f] neg [of g] pos [of f] pos [of g] assms(2,4) by (cases "bit f 63"; cases "bit g 63") auto
  finally show ?thesis .
qed

text \<open>
  C33. Encoded bytes keep the order. Comparing the bytes that \<open>EncodeValue\<close> writes compares
  the values: signed integers of any width, unsigned integers, and floats other than NaN
  and negative zero, in the order of their sign and magnitude.
\<close>
theorem encoded_order:
  "(projr (encode_value (IntValue m v)) < projr (encode_value (IntValue n w)) \<longleftrightarrow> sint v < sint w) \<and>
   (projr (encode_value (UintValue m v)) < projr (encode_value (UintValue n w)) \<longleftrightarrow> unat v < unat w) \<and>
   (\<not> is_nan f \<and> f \<noteq> negative_zero \<and> \<not> is_nan g \<and> g \<noteq> negative_zero \<longrightarrow>
     (projr (encode_value (FloatValue s f)) < projr (encode_value (FloatValue t g)) \<longleftrightarrow> float_key f < float_key g))"
  using encode_float_less [of f g] encode_int_less [of v w] put_uint64_less [of v w] by (simp add: encode_value_def)

theorem encoded_order_witness:
  "\<not> is_nan 1 \<and> \<not> is_nan (sign_bit + 1) \<and>
   projr (encode_value (FloatValue Float64Type (sign_bit + 1))) < projr (encode_value (FloatValue Float64Type 1))"
proof -
  have n: "\<not> is_nan 1" "\<not> is_nan (sign_bit + 1)" "1 \<noteq> negative_zero" "sign_bit + 1 \<noteq> negative_zero"
    by (simp_all add: is_nan_def float_exponent_def unat_drop_bit_eq sign_bit_def negative_zero_def)
  have "float_key (sign_bit + 1) < float_key 1"
    by (simp add: float_key_def sign_bit_iff) (simp add: sign_bit_def)
  then show ?thesis using n encoded_order [of _ _ _ _ "sign_bit + 1" 1 Float64Type Float64Type] by blast
qed

end
