(* ===== verification/Cursor_Envelope.thy ===== *)
theory Cursor_Envelope
  imports Cursor_Codec
begin

text \<open>
  The envelope of a cursor (\<open>internal/cursorcodec/envelope.go\<close>): a version byte, a
  fingerprint of the query, and one field of metadata and one value per key, as base64
  text. The reading loop advances an offset into the bytes; here it consumes the
  remaining bytes, \<open>raw[offset:]\<close>.
\<close>

subsection \<open>Base64\<close>

text \<open>
  \<open>base64.RawURLEncoding\<close>: the URL alphabet without padding. The decoder skips carriage
  returns and newlines, and ignores the unused bits of a last incomplete group.
\<close>

definition b64_char :: "nat \<Rightarrow> char" where
  "b64_char i = (if i < 26 then char_of (65 + i) else if i < 52 then char_of (97 + (i - 26))
     else if i < 62 then char_of (48 + (i - 52)) else if i = 62 then CHR ''-'' else CHR ''_'')"

definition b64_index :: "char \<Rightarrow> nat option" where
  "b64_index c = (if 65 \<le> code c \<and> code c \<le> 90 then Some (code c - 65)
     else if 97 \<le> code c \<and> code c \<le> 122 then Some (code c - 97 + 26)
     else if 48 \<le> code c \<and> code c \<le> 57 then Some (code c - 48 + 52)
     else if c = CHR ''-'' then Some 62 else if c = CHR ''_'' then Some 63 else None)"

fun b64_encode :: "gostring \<Rightarrow> gostring" where
  "b64_encode [] = []"
| "b64_encode [a] = [b64_char (code a div 4), b64_char (code a mod 4 * 16)]"
| "b64_encode [a, b] = [b64_char (code a div 4), b64_char (code a mod 4 * 16 + code b div 16), b64_char (code b mod 16 * 4)]"
| "b64_encode (a # b # c # rest) =
     [b64_char (code a div 4), b64_char (code a mod 4 * 16 + code b div 16),
      b64_char (code b mod 16 * 4 + code c div 64), b64_char (code c mod 64)] @ b64_encode rest"

fun b64_bytes :: "nat list \<Rightarrow> gostring option" where
  "b64_bytes [] = Some []"
| "b64_bytes [w] = None"
| "b64_bytes [w, x] = Some [char_of (w * 4 + x div 16)]"
| "b64_bytes [w, x, y] = Some [char_of (w * 4 + x div 16), char_of (x mod 16 * 16 + y div 4)]"
| "b64_bytes (w # x # y # z # rest) = map_option
     (\<lambda>bs. char_of (w * 4 + x div 16) # char_of (x mod 16 * 16 + y div 4) # char_of (y mod 4 * 64 + z) # bs) (b64_bytes rest)"

definition b64_decode :: "gostring \<Rightarrow> gostring option" where
  "b64_decode s = (let cs = filter (\<lambda>c. code c \<noteq> 13 \<and> code c \<noteq> 10) s in
     if list_all (\<lambda>c. b64_index c \<noteq> None) cs then b64_bytes (map (\<lambda>c. the (b64_index c)) cs) else None)"

subsection \<open>Envelopes\<close>

definition envelope_version :: char where "envelope_version = CHR 0x01"
definition max_envelope_bytes :: nat where "max_envelope_bytes = 65536"

record cursor_field =
  cf_direction :: char
  cf_nullable :: bool
  cf_nulls :: char
  cf_codec :: gostring

record cursor_payload =
  cp_present :: bool
  cp_data :: gostring

record envelope =
  ev_fingerprint :: gostring
  ev_fields :: "cursor_field list"
  ev_values :: "cursor_payload list"

definition marker :: "bool \<Rightarrow> char" where
  "marker b = (if b then CHR 0x01 else CHR 0x00)"

definition field_bytes :: "cursor_field \<Rightarrow> cursor_payload \<Rightarrow> gostring" where
  "field_bytes f v =
     [cf_direction f, marker (cf_nullable f), cf_nulls f, char_of (length (cf_codec f))] @ cf_codec f @
     [marker (cp_present v)] @ be_bytes 4 (length (cp_data v)) @ cp_data v"

definition encode_field :: "cursor_field \<times> cursor_payload \<Rightarrow> gostring \<Rightarrow> cursor_error + gostring" where
  "encode_field p b =
     (if length (cf_codec (fst p)) > 255 \<or> length (cp_data (snd p)) > 65535 then Inl FieldTooLarge
      else if \<not> cp_present (snd p) \<and> cp_data (snd p) \<noteq> [] then Inl AbsentPayload
      else Inr (b @ field_bytes (fst p) (snd p)))"

definition encode_raw :: "gostring \<Rightarrow> cursor_field list \<Rightarrow> cursor_payload list \<Rightarrow> cursor_error + gostring" where
  "encode_raw fingerprint fs vs =
     (if length fs > 255 \<or> length vs \<noteq> length fs then Inl KeyCount
      else rbind (rfold encode_field (zip fs vs) ([envelope_version] @ fingerprint @ [char_of (length fs)])) (\<lambda>b.
        if length b > max_envelope_bytes then Inl EnvelopeTooLarge else Inr b))"

definition encode_envelope :: "gostring \<Rightarrow> cursor_field list \<Rightarrow> cursor_payload list \<Rightarrow> cursor_error + gostring" where
  "encode_envelope fingerprint fs vs = map_sum id b64_encode (encode_raw fingerprint fs vs)"

fun decode_fields :: "nat \<Rightarrow> gostring \<Rightarrow> cursor_error + (cursor_field list \<times> cursor_payload list \<times> gostring)" where
  "decode_fields 0 raw = Inr ([], [], raw)"
| "decode_fields (Suc n) raw =
     (if length raw < 4 then Inl Truncated
      else if code (raw ! 1) > 1 then Inl InvalidMarker
      else (let codec_len = code (raw ! 3); raw1 = drop 4 raw in
        if length raw1 < codec_len + 5 then Inl TruncatedMetadata
        else (let field = \<lparr>cf_direction = raw ! 0, cf_nullable = (code (raw ! 1) = 1), cf_nulls = raw ! 2, cf_codec = take codec_len raw1\<rparr>;
                  raw2 = drop codec_len raw1;
                  present = (code (raw2 ! 0) = 1) in
          if code (raw2 ! 0) > 1 then Inl InvalidPresence
          else (let n_data = be_val (take 4 (drop 1 raw2)); raw3 = drop 5 raw2 in
            if n_data > length raw3 then Inl InvalidLength
            else if \<not> present \<and> n_data \<noteq> 0 then Inl AbsentPayload
            else rbind (decode_fields n (drop n_data raw3)) (\<lambda>r.
              case r of (fs, vs, rest) \<Rightarrow>
                Inr (field # fs, \<lparr>cp_present = present, cp_data = take n_data raw3\<rparr> # vs, rest))))))"

definition decode_raw :: "gostring \<Rightarrow> cursor_error + envelope" where
  "decode_raw raw =
     (if length raw > max_envelope_bytes then Inl InvalidBase64
      else if length raw < 34 \<or> raw ! 0 \<noteq> envelope_version then Inl InvalidVersion
      else rbind (decode_fields (code (raw ! 33)) (drop 34 raw)) (\<lambda>r. case r of (fs, vs, rest) \<Rightarrow>
        if rest \<noteq> [] then Inl TrailingData
        else Inr \<lparr>ev_fingerprint = take 32 (drop 1 raw), ev_fields = fs, ev_values = vs\<rparr>))"

definition decode_envelope :: "gostring \<Rightarrow> cursor_error + envelope" where
  "decode_envelope encoded = (case b64_decode encoded of
       None \<Rightarrow> Inl InvalidBase64
     | Some raw \<Rightarrow> decode_raw raw)"

subsection \<open>Base64 comes back\<close>

lemma b64_index_char: "i < 64 \<Longrightarrow> b64_index (b64_char i) = Some i"
  by (auto simp: b64_char_def b64_index_def)

lemma b64_char_kept: "i < 64 \<Longrightarrow> code (b64_char i) \<noteq> 13 \<and> code (b64_char i) \<noteq> 10"
  by (auto simp: b64_char_def)

fun b64_groups :: "gostring \<Rightarrow> nat list" where
  "b64_groups [] = []"
| "b64_groups [a] = [code a div 4, code a mod 4 * 16]"
| "b64_groups [a, b] = [code a div 4, code a mod 4 * 16 + code b div 16, code b mod 16 * 4]"
| "b64_groups (a # b # c # rest) =
     [code a div 4, code a mod 4 * 16 + code b div 16, code b mod 16 * 4 + code c div 64, code c mod 64] @ b64_groups rest"

lemma byte_div: "code (c :: char) div 4 < 64" "code c div 16 < 16" "code c div 64 < 4"
  by (rule less_mult_imp_div_less, simp)+

lemma six_bits:
  "x < 4 \<Longrightarrow> y < 16 \<Longrightarrow> x * 16 + y < (64 :: nat)" "y < 16 \<Longrightarrow> z < 4 \<Longrightarrow> y * 4 + z < (64 :: nat)"
  by simp_all

lemma b64_groups_encode: "b64_encode s = map b64_char (b64_groups s) \<and> list_all (\<lambda>i. i < 64) (b64_groups s)"
proof (induction s rule: b64_groups.induct)
  case (3 a b)
  then show ?case using byte_div(1) [of a] six_bits(1) [of "code a mod 4" "code b div 16"] byte_div(2) [of b]
      six_bits(2) [of "code b mod 16" 0] by simp
next
  case (4 a b c rest)
  then show ?case using byte_div(1) [of a] six_bits(1) [of "code a mod 4" "code b div 16"] byte_div(2) [of b]
      six_bits(2) [of "code b mod 16" "code c div 64"] byte_div(3) [of c] by simp
qed (simp_all add: byte_div six_bits(1) [of _ 0, simplified])

lemma join_bits:
  fixes x y :: nat
  shows "y < 16 \<Longrightarrow> (x * 16 + y) div 16 = x" "y < 16 \<Longrightarrow> (x * 16 + y) mod 16 = y"
    "y < 4 \<Longrightarrow> (x * 4 + y) div 4 = x" "y < 4 \<Longrightarrow> (x * 4 + y) mod 4 = y"
  by simp_all

lemma b64_bytes_groups: "b64_bytes (b64_groups s) = Some s"
  by (induction s rule: b64_groups.induct) (simp_all add: join_bits byte_div)

lemma b64_decode_encode: "b64_decode (b64_encode s) = Some s"
proof -
  have g: "b64_encode s = map b64_char (b64_groups s)" "\<forall>i\<in>set (b64_groups s). i < 64"
    using b64_groups_encode [of s] by (auto simp: list_all_iff)
  have "filter (\<lambda>c. code c \<noteq> 13 \<and> code c \<noteq> 10) (b64_encode s) = b64_encode s"
    unfolding g(1) using g(2) b64_char_kept by (auto simp: filter_id_conv)
  moreover have "map (\<lambda>c. the (b64_index c)) (b64_encode s) = b64_groups s"
    unfolding g(1) using g(2) b64_index_char by (auto simp: comp_def map_idI)
  moreover have "list_all (\<lambda>c. b64_index c \<noteq> None) (b64_encode s)"
    unfolding g(1) using g(2) b64_index_char by (auto simp: list_all_iff)
  ultimately show ?thesis by (simp add: b64_decode_def Let_def b64_bytes_groups)
qed

subsection \<open>Envelopes come back\<close>

definition field_ok :: "cursor_field \<times> cursor_payload \<Rightarrow> bool" where
  "field_ok p \<longleftrightarrow> length (cf_codec (fst p)) \<le> 255 \<and> length (cp_data (snd p)) \<le> 65535 \<and> (cp_present (snd p) \<or> cp_data (snd p) = [])"

definition fields_bytes :: "(cursor_field \<times> cursor_payload) list \<Rightarrow> gostring" where
  "fields_bytes ps = concat (map (\<lambda>p. field_bytes (fst p) (snd p)) ps)"

lemma fields_bytes_Cons [simp]: "fields_bytes (p # ps) = field_bytes (fst p) (snd p) @ fields_bytes ps"
  by (simp add: fields_bytes_def)

lemma fields_bytes_Nil [simp]: "fields_bytes [] = []"
  by (simp add: fields_bytes_def)

lemma fields_bytes_member: "p \<in> set ps \<Longrightarrow> length (field_bytes (fst p) (snd p)) \<le> length (fields_bytes ps)"
  by (induction ps) auto

lemma encode_fields_Inr:
  "rfold encode_field ps b = Inr b' \<longleftrightarrow> list_all field_ok ps \<and> b' = b @ fields_bytes ps"
  by (induction ps arbitrary: b) (auto simp: encode_field_def field_ok_def)

lemma marker_code [simp]: "code (marker b) = (if b then 1 else 0)" "code (marker b) \<le> Suc 0" "(code (marker b) = Suc 0) = b"
  by (simp_all add: marker_def)

lemma decode_fields_encoded:
  "list_all field_ok ps \<Longrightarrow> decode_fields (length ps) (fields_bytes ps @ rest) = Inr (map fst ps, map snd ps, rest)"
proof (induction ps)
  case (Cons p ps)
  obtain f v where p: "p = (f, v)" by (cases p)
  have ok: "length (cf_codec f) mod 256 = length (cf_codec f)" "length (cp_data v) mod 256 ^ 4 = length (cp_data v)"
      "cp_present v \<or> cp_data v = []"
    using Cons.prems p by (auto simp: field_ok_def)
  have "field_bytes f v @ fields_bytes ps @ rest =
      cf_direction f # marker (cf_nullable f) # cf_nulls f # char_of (length (cf_codec f)) #
        (cf_codec f @ marker (cp_present v) # be_bytes 4 (length (cp_data v)) @ cp_data v @ fields_bytes ps @ rest)"
    by (simp add: field_bytes_def)
  then show ?case using Cons ok p
    by (auto simp: Let_def be_val_bytes nth_append)
qed simp

lemma of_char_less_256: "code c < 256"
  by simp

lemma four_bytes: "4 \<le> length raw \<Longrightarrow> \<exists>a b c d r. raw = a # b # c # d # r"
  by (auto simp: Suc_le_length_iff numeral_eq_Suc)

lemma code_marker: assumes "\<not> code c > 1" shows "marker (code c = 1) = c"
proof -
  have "code (marker (code c = 1)) = (if code c = 1 then 1 else 0)" by (rule marker_code(1))
  also have "\<dots> = code c" using assms by presburger
  finally have "code (marker (code c = 1)) = code c" .
  then show ?thesis by (simp only: of_char_eq_iff)
qed

lemma decode_fields_sound:
  "decode_fields n raw = Inr (fs, vs, rest) \<Longrightarrow> length fs = n \<and> length vs = n \<and> raw = fields_bytes (zip fs vs) @ rest \<and>
     (\<forall>p\<in>set (zip fs vs). length (cf_codec (fst p)) \<le> 255 \<and> (cp_present (snd p) \<or> cp_data (snd p) = []))"
proof (induction n arbitrary: raw fs vs rest)
  case (Suc n)
  from Suc.prems have "4 \<le> length raw" by (auto simp: not_less split: if_splits)
  then obtain a b c d r where raw: "raw = a # b # c # d # r" using four_bytes by blast
  from Suc.prems have mark: "\<not> code b > 1" and len: "code d + 5 \<le> length r"
    unfolding raw by (auto simp: Let_def not_less split: if_splits)
  define codec where "codec = take (code d) r"
  obtain e r2 where r: "r = codec @ e # r2" "length codec = code d" "4 \<le> length r2"
  proof -
    have "drop (code d) r \<noteq> []" using len by simp
    then obtain e r2 where e: "drop (code d) r = e # r2" by (cases "drop (code d) r") auto
    have "length r - code d = Suc (length r2)" using arg_cong [OF e, of length] by simp
    then have "4 \<le> length r2" using len by linarith
    moreover have "r = codec @ e # r2" unfolding codec_def e [symmetric] by simp
    moreover have "length codec = code d" using len by (simp add: codec_def)
    ultimately show thesis using that by blast
  qed
  define m where "m = be_val (take 4 r2)"
  define body where "body = drop 4 r2"
  have "length (take 4 r2) = 4" using r(3) by simp
  from be_bytes_val [of "take 4 r2", unfolded this] have four: "take 4 r2 = be_bytes 4 m" unfolding m_def by (rule sym)
  from Suc.prems obtain fs1 vs1 where rest: "decode_fields n (drop m body) = Inr (fs1, vs1, rest)"
      and e: "\<not> code e > 1" and m: "m \<le> length body" "code e = 1 \<or> m = 0"
      and fs: "fs = \<lparr>cf_direction = a, cf_nullable = (code b = 1), cf_nulls = c, cf_codec = codec\<rparr> # fs1"
      and vs: "vs = \<lparr>cp_present = (code e = 1), cp_data = take m body\<rparr> # vs1"
    unfolding raw r(1) using r(2) by (auto simp: Let_def m_def body_def not_less split: if_splits)
  have r2: "r2 = be_bytes 4 m @ take m body @ drop m body"
    unfolding four [symmetric] body_def append_take_drop_id by (rule refl)
  have len: "length (take m body) = m" using m(1) by simp
  have c: "char_of (length codec) = d" unfolding r(2) by simp
  have "raw = field_bytes (hd fs) (hd vs) @ drop m body"
    unfolding raw r(1) fs vs list.sel field_bytes_def cursor_field.simps cursor_payload.simps len c
      code_marker [OF mark] code_marker [OF e] by (subst r2) simp
  moreover have "length codec \<le> 255" unfolding r(2) using of_char_less_256 [of d] by linarith
  ultimately show ?case using Suc.IH [OF rest] fs vs m(2) by auto
qed simp

lemma encode_raw_Inr:
  assumes "length fp = 32"
  shows "encode_raw fp fs vs = Inr raw \<longleftrightarrow> length fs \<le> 255 \<and> length vs = length fs \<and> list_all field_ok (zip fs vs) \<and>
    raw = [envelope_version] @ fp @ [char_of (length fs)] @ fields_bytes (zip fs vs) \<and> length raw \<le> max_envelope_bytes"
  by (auto simp: encode_raw_def encode_fields_Inr not_less)

lemma decode_raw_encoded:
  assumes "length fp = 32" "encode_raw fp fs vs = Inr raw"
  shows "decode_raw raw = Inr \<lparr>ev_fingerprint = fp, ev_fields = fs, ev_values = vs\<rparr>"
proof -
  have e: "length fs \<le> 255" "length vs = length fs" "list_all field_ok (zip fs vs)" "length raw \<le> max_envelope_bytes"
    and raw: "raw = envelope_version # fp @ char_of (length fs) # fields_bytes (zip fs vs)"
    using iffD1 [OF encode_raw_Inr [OF assms(1)] assms(2)] by auto
  have c: "code (raw ! 33) = length fs" "drop 34 raw = fields_bytes (zip fs vs)" "take 32 (drop 1 raw) = fp" "34 \<le> length raw" "raw ! 0 = envelope_version"
    using assms(1) e(1) unfolding raw by (simp_all add: nth_append)
  have "decode_fields (length fs) (fields_bytes (zip fs vs)) = Inr (fs, vs, [])"
    using decode_fields_encoded [OF e(3), of "[]"] e(2) by simp
  then show ?thesis using e(4) c(4,5) by (simp add: decode_raw_def c(1,2) c(3) [simplified])
qed

lemma encoded_envelope_decodes:
  assumes "length fp = 32" "encode_envelope fp fs vs = Inr enc"
  shows "decode_envelope enc = Inr \<lparr>ev_fingerprint = fp, ev_fields = fs, ev_values = vs\<rparr>"
proof -
  obtain raw where "encode_raw fp fs vs = Inr raw" "enc = b64_encode raw"
    using assms(2) by (cases "encode_raw fp fs vs") (auto simp: encode_envelope_def)
  then show ?thesis using decode_raw_encoded [OF assms(1)] by (simp add: decode_envelope_def b64_decode_encode)
qed

text \<open>
  A cursor the encoder returns always decodes: \<open>DecodeEnvelope\<close> gives back the
  fingerprint, the fields and the values that \<open>EncodeEnvelope\<close> was given.
\<close>
theorem envelope_roundtrip:
  assumes "length fp = 32" "encode_envelope fp fs vs = Inr enc"
  shows "decode_envelope enc = Inr \<lparr>ev_fingerprint = fp, ev_fields = fs, ev_values = vs\<rparr>"
  using assms by (rule encoded_envelope_decodes)

theorem envelope_roundtrip_witness:
  "\<exists>enc. encode_envelope (replicate 32 (CHR ''f'')) [\<lparr>cf_direction = CHR 0x01, cf_nullable = False, cf_nulls = CHR 0x00, cf_codec = ''c''\<rparr>]
       [\<lparr>cp_present = True, cp_data = ''42''\<rparr>] = Inr enc \<and>
     map_sum id ev_values (decode_envelope enc) = Inr [\<lparr>cp_present = True, cp_data = ''42''\<rparr>]"
proof -
  obtain enc where t: "encode_envelope (replicate 32 (CHR ''f'')) [\<lparr>cf_direction = CHR 0x01, cf_nullable = False, cf_nulls = CHR 0x00, cf_codec = ''c''\<rparr>]
       [\<lparr>cp_present = True, cp_data = ''42''\<rparr>] = Inr enc"
    by (simp add: encode_envelope_def encode_raw_def encode_field_def field_bytes_def max_envelope_bytes_def)
  from envelope_roundtrip [OF _ t] t show ?thesis by simp
qed

text \<open>
  The bytes of an envelope are canonical: whatever bytes the decoder accepts are the
  bytes the encoder writes for the envelope it read, so two different byte strings never
  mean the same cursor.
\<close>
theorem envelope_bytes_canonical:
  assumes "decode_raw raw = Inr env"
  shows "encode_raw (ev_fingerprint env) (ev_fields env) (ev_values env) = Inr raw"
proof -
  have len: "length raw \<le> max_envelope_bytes" "34 \<le> length raw" and v: "raw ! 0 = envelope_version"
    using assms by (auto simp: decode_raw_def split: if_splits)
  obtain fs vs where d: "decode_fields (code (raw ! 33)) (drop 34 raw) = Inr (fs, vs, [])"
    and env: "env = \<lparr>ev_fingerprint = take 32 (drop 1 raw), ev_fields = fs, ev_values = vs\<rparr>"
    using assms len v by (auto simp: decode_raw_def split: if_splits)
  note s = decode_fields_sound [OF d]
  define fp where "fp = take 32 (drop 1 raw)"
  have fp: "length fp = 32" using len(2) by (simp add: fp_def)
  have n: "length fs \<le> 255" "char_of (length fs) = raw ! 33"
    using conjunct1 [OF s] of_char_less_256 [of "raw ! 33"] by linarith (simp add: conjunct1 [OF s])
  have "raw = raw ! 0 # fp @ raw ! 33 # drop 34 raw"
  proof -
    have "raw ! 0 # drop 1 raw = raw" using len(2) by (cases raw) simp_all
    moreover have "fp @ drop 33 raw = drop 1 raw" using append_take_drop_id [of 32 "drop 1 raw"] by (simp add: fp_def)
    moreover have "raw ! 33 # drop 34 raw = drop 33 raw" using Cons_nth_drop_Suc [of 33 raw] len(2) by simp
    ultimately show ?thesis by simp
  qed
  then have raw: "raw = [envelope_version] @ fp @ [char_of (length fs)] @ fields_bytes (zip fs vs)"
    using v n(2) s by simp
  have "length (cp_data (snd p)) \<le> 65535" if "p \<in> set (zip fs vs)" for p
  proof -
    have "length (field_bytes (fst p) (snd p)) \<le> length (fields_bytes (zip fs vs))"
      using that by (rule fields_bytes_member)
    also have "\<dots> + 34 \<le> 65536" using len(1) raw fp by (simp add: max_envelope_bytes_def)
    finally show ?thesis by (simp add: field_bytes_def)
  qed
  then have "list_all field_ok (zip fs vs)" using s by (auto simp: list_all_iff field_ok_def)
  moreover have "length vs = length fs" using s by simp
  ultimately show ?thesis unfolding env envelope.simps fp_def [symmetric] encode_raw_Inr [OF fp]
    by (intro conjI n(1) raw len(1))
qed

theorem envelope_bytes_canonical_witness:
  "\<exists>env. decode_raw (CHR 0x01 # replicate 32 (CHR ''f'') @ [CHR 0x00]) = Inr env \<and>
     encode_raw (ev_fingerprint env) (ev_fields env) (ev_values env) = Inr (CHR 0x01 # replicate 32 (CHR ''f'') @ [CHR 0x00])"
proof -
  obtain env where "decode_raw (CHR 0x01 # replicate 32 (CHR ''f'') @ [CHR 0x00]) = Inr env"
    by (simp add: decode_raw_def max_envelope_bytes_def envelope_version_def nth_append)
  with envelope_bytes_canonical [OF this] show ?thesis by blast
qed

end
