(* ===== verification/Query_Scope.thy ===== *)
theory Query_Scope
  imports Query_Select
begin

text \<open>
  What validation guarantees. The columns an expression reads and the aggregate calls it
  makes, outside the statements of nested subqueries, are collected by recursion over the
  expression; the theorems say that the sources of a validated statement can be told apart
  and that it reads only columns of theirs, provided that references with one table key come
  from descriptors with the same columns: the walk asks the descriptor of the reference itself.
\<close>

subsection \<open>Columns read and aggregates called\<close>

primrec own_columns :: "'v expression \<Rightarrow> ('v relation_ref \<times> gostring) list"
  and when_columns :: "'v case_when \<Rightarrow> ('v relation_ref \<times> gostring) list"
  and order_columns :: "'v order \<Rightarrow> ('v relation_ref \<times> gostring) list"
  and part_columns :: "'v fragment_part \<Rightarrow> ('v relation_ref \<times> gostring) list"
  and projection_columns :: "'v projection \<Rightarrow> ('v relation_ref \<times> gostring) list"
  and join_columns :: "'v join \<Rightarrow> ('v relation_ref \<times> gostring) list" where
  "own_columns NilExpression = []"
| "own_columns (ColumnRef source name) = [(source, name)]"
| "own_columns (ExcludedColumn source name) = [(source, name)]"
| "own_columns (TableIdentifier source) = []"
| "own_columns (Value v) = []"
| "own_columns (Binary left operator right) = own_columns left @ own_columns right"
| "own_columns (Case subject branches fallback) = own_columns subject @ concat (map (\<lambda>b. when_columns b) branches) @
     (case map_option (\<lambda>e. own_columns e) fallback of None \<Rightarrow> [] | Some cs \<Rightarrow> cs)"
| "own_columns (Cast expr target) = own_columns expr"
| "own_columns (Filter aggregate predicate) = own_columns aggregate @ own_columns predicate"
| "own_columns (Over expr parts order) = own_columns expr @ concat (map (\<lambda>e. own_columns e) parts) @ concat (map (\<lambda>t. order_columns t) order)"
| "own_columns (TrustedFragment sql parts) = concat (map (\<lambda>p. part_columns p) parts)"
| "own_columns (Logical operator expressions) = concat (map (\<lambda>e. own_columns e) expressions)"
| "own_columns (NotExpression expr) = own_columns expr"
| "own_columns (NullTest expr negated) = own_columns expr"
| "own_columns (Membership expr values negated subquery) = own_columns expr @ (if subquery = None then concat (map (\<lambda>e. own_columns e) values) else [])"
| "own_columns (Function name arguments star dist unchecked) = (if star then [] else concat (map (\<lambda>e. own_columns e) arguments))"
| "own_columns (Subquery statement) = []"
| "own_columns (Existence statement negated) = []"
| "own_columns (OtherExpression name) = []"
| "when_columns (CaseWhen predicate result) = own_columns predicate @ own_columns result"
| "order_columns (Order expression result descending nulls) = (if result = None then own_columns expression else [])"
| "part_columns (FragmentHole value) = own_columns value"
| "part_columns (IdentifierHole name) = []"
| "part_columns OtherPart = []"
| "projection_columns NilProjection = []"
| "projection_columns (ColumnProjection source name) = [(source, name)]"
| "projection_columns (ExpressionProjection expression alias) = own_columns expression"
| "join_columns (Join jtype source on) = own_columns on"

definition in_scope :: "source_scope \<Rightarrow> 'v relation_ref \<times> gostring \<Rightarrow> bool" where
  "in_scope sources c = (rel_key (fst c) \<in> sc_keys sources \<and> has_column (fst c) (snd c))"

text \<open>A row of values written to a table may read no column at all.\<close>

definition admitted :: "expression_context \<Rightarrow> 'v relation_ref \<times> gostring \<Rightarrow> bool" where
  "admitted ctx c = (in_scope (ec_sources ctx) c \<and> (ec_row_value ctx \<longrightarrow> ec_allows_excluded ctx))"

lemma context_sources [simp]:
  "ec_sources (in_aggregate c) = ec_sources c" "ec_sources (outside_aggregates c) = ec_sources c"
  by (simp_all add: in_aggregate_def outside_aggregates_def)

lemma context_admitted [simp]: "admitted (in_aggregate c) = admitted c" "admitted (outside_aggregates c) = admitted c"
  by (intro ext; simp add: admitted_def in_aggregate_def outside_aggregates_def)+

lemma rfold_each: "rfold f ys s = Inr t \<Longrightarrow> y \<in> set ys \<Longrightarrow> \<exists>u v. f y u = Inr v"
  by (induction ys arbitrary: s) auto

lemma in_indexed: "x \<in> set xs \<Longrightarrow> \<exists>i. (i, x) \<in> set (indexed xs)"
  unfolding indexed_def by (auto simp: set_zip in_set_conv_nth [of x])

lemma rfold_indexed_each: "rfold f (indexed xs) s = Inr t \<Longrightarrow> x \<in> set xs \<Longrightarrow> \<exists>i u v. f (i, x) u = Inr v"
  using in_indexed [of x xs] rfold_each [of f "indexed xs" s t] by blast

lemma walk_all_each: "walk_all path walks ctx u = Inr v \<Longrightarrow> w \<in> set walks \<Longrightarrow> \<exists>p r. w ctx p = Inr r"
  unfolding walk_all_def by (drule (1) rfold_indexed_each) auto

lemma walk_all_map: "walk_all path (map f xs) ctx u = Inr v \<Longrightarrow> x \<in> set xs \<Longrightarrow> \<exists>p r. f x ctx p = Inr r"
  using walk_all_each [of path "map f xs" ctx u v "f x"] by simp

lemma in_zip_map: "x \<in> set xs \<Longrightarrow> (x, f x) \<in> set (zip xs (map f xs))"
  by (induction xs) auto


lemma leaf_scope:
  "validate_column_ref source name ctx path = Inr u \<Longrightarrow> admitted ctx (source, name)"
  "validate_excluded_column source name ctx path = Inr u \<Longrightarrow> admitted ctx (source, name)"
  by (auto simp: validate_column_ref_def validate_excluded_column_def admitted_def in_scope_def split: sum.splits if_splits)

lemma function_walks:
  fixes arguments :: "'v arguments"
  assumes "validate_function name arguments star dist unchecked ctx path = Inr u" "\<not> star" "w \<in> set (map snd arguments)"
  shows "\<exists>c p v. (admitted c :: 'v relation_ref \<times> gostring \<Rightarrow> bool) = admitted ctx \<and> w c p = Inr v"
proof -
  have each: "\<exists>p v. w c p = Inr v" if "walk_all q (map snd arguments) c n = Inr v" for q c n v
    using walk_all_each [OF that assms(3)] by blast
  show ?thesis using assms(1,2) each
    by (auto simp: validate_function_def validate_custom_function_def validate_bm25_function_def validate_aggregate_function_def
        validate_scalar_function_def split: if_splits option.splits sum.splits) (metis context_admitted(1))+
qed

lemma membership_walks:
  assumes "validate_membership expression values subquery ctx path = Inr u"
  shows "(\<exists>p v. expression ctx p = Inr v) \<and> (subquery = None \<longrightarrow> (\<forall>w \<in> set (map snd values). \<exists>p v. w ctx p = Inr v))"
proof -
  have "\<exists>p v. snd x ctx p = Inr v" if "rfold (\<lambda>(i, value, walk) u. let item = item_path (path @ ''.values'') i in
             if is_subquery value then invalid item ''puts a subquery in an IN value list; use InSelect or NotInSelect for IN (SELECT ...)'' []
             else rbind (walk ctx item) (\<lambda>v. Inr (usage_merge u v))) (indexed values) s = Inr t" "x \<in> set values" for x s t
    using rfold_indexed_each [OF that] by (cases x) (auto simp: Let_def split: if_splits)
  then show ?thesis using assms unfolding validate_membership_def by (fastforce split: option.splits if_splits)
qed

lemma window_walks:
  assumes "validate_window parts order ctx path = Inr u"
  shows "(\<forall>w \<in> set parts. \<exists>p v. w ctx p = Inr v) \<and> (\<forall>w \<in> set (map snd order). \<exists>p v. w ctx p = Inr v)"
proof -
  obtain s where w: "walk_all (path @ ''.partition'') parts ctx no_usage = Inr s" and
    o: "rfold (\<lambda>(i, term, walk) u.
         if od_result term \<noteq> None then invalid (item_path (path @ ''.order'') i) ''cannot order by a result alias inside a window'' []
         else rbind (walk ctx (item_path (path @ ''.order'') i)) (\<lambda>v. Inr (usage_merge u v))) (indexed order) s = Inr u"
    using assms unfolding validate_window_def by auto
  have "\<exists>p v. snd x ctx p = Inr v" if "x \<in> set order" for x
    using rfold_indexed_each [OF o that] by (cases x) (auto split: if_splits)
  then show ?thesis using walk_all_each [OF w] by auto
qed


definition all_in_scope :: "source_scope \<Rightarrow> ('v relation_ref \<times> gostring) list \<Rightarrow> bool" where
  "all_in_scope sources cs = list_all (in_scope sources) cs"

lemma all_in_scope_simps [simp]:
  "all_in_scope sources []"
  "all_in_scope sources (c # cs) \<longleftrightarrow> in_scope sources c \<and> all_in_scope sources cs"
  "all_in_scope sources (cs @ ds) \<longleftrightarrow> all_in_scope sources cs \<and> all_in_scope sources ds"
  "all_in_scope sources (concat css) \<longleftrightarrow> list_all (all_in_scope sources) css"
  by (auto simp: all_in_scope_def list_all_iff)

definition all_admitted :: "expression_context \<Rightarrow> ('v relation_ref \<times> gostring) list \<Rightarrow> bool" where
  "all_admitted ctx cs = list_all (admitted ctx) cs"

lemma all_admitted_simps [simp]:
  "all_admitted ctx []"
  "all_admitted ctx (c # cs) \<longleftrightarrow> admitted ctx c \<and> all_admitted ctx cs"
  "all_admitted ctx (cs @ ds) \<longleftrightarrow> all_admitted ctx cs \<and> all_admitted ctx ds"
  "all_admitted ctx (concat css) \<longleftrightarrow> list_all (all_admitted ctx) css"
  "all_admitted (in_aggregate ctx) = all_admitted ctx" "all_admitted (outside_aggregates ctx) = all_admitted ctx"
  by (auto simp: all_admitted_def list_all_iff intro!: ext)

lemma all_admitted_cong: "(admitted c :: 'v relation_ref \<times> gostring \<Rightarrow> bool) = admitted d \<Longrightarrow> all_admitted c (cs :: ('v relation_ref \<times> gostring) list) = all_admitted d cs"
  by (simp add: all_admitted_def)

lemma expression_admitted:
  fixes e :: "'v expression" and b :: "'v case_when" and t :: "'v order" and fp :: "'v fragment_part" and pr :: "'v projection"
    and r :: "'v relation_ref" and cte :: "'v cte" and q :: "'v query_body" and j :: "'v join" and s :: "'v select"
  shows "\<And>ctx path u. validate_expression T e ctx path = Inr u \<Longrightarrow> all_admitted ctx (own_columns e)"
    and "\<And>searched ctx path us u. validate_case_when T b searched ctx path us = Inr u \<Longrightarrow> all_admitted ctx (when_columns b)"
    and "\<And>ctx path u. validate_order_expression T t ctx path = Inr u \<Longrightarrow> all_admitted ctx (order_columns t)"
    and "\<And>ctx path u. validate_fragment_part T fp ctx path = Inr u \<Longrightarrow> all_admitted ctx (part_columns fp)"
    and "\<And>ctx path u. validate_projection T pr ctx path = Inr u \<Longrightarrow> all_admitted ctx (projection_columns pr)"
    and True and True and True
    and "\<And>ctx path u. validate_join_on T j ctx path = Inr u \<Longrightarrow> all_admitted ctx (join_columns j)"
    and True
proof (induction e and b and t and fp and pr and r and cte and q and j and s)
  case (Case subject branches fallback)
  obtain s' t' where f: "rfold (\<lambda>(i, walk) u. walk (subject = NilExpression) ctx (item_path (path @ ''.branches'') i) u)
          (indexed (map (\<lambda>b. validate_case_when T b) branches)) s' = Inr t'"
    using Case.prems by (auto split: if_splits)
  have "all_admitted ctx (when_columns x)" if "x \<in> set branches" for x
    using rfold_indexed_each [OF f, of "validate_case_when T x"] that Case.IH(2) [OF that] by auto
  moreover have "all_admitted ctx (own_columns subject)"
    using Case.prems Case.IH(1) by (cases "subject = NilExpression") (auto split: if_splits)
  moreover have "all_admitted ctx (own_columns x)" if "fallback = Some x" for x
    using Case.prems Case.IH(3) [of x] that by (auto split: if_splits)
  ultimately show ?case by (auto simp: list_all_iff split: option.splits)
next
  case (Filter aggregate predicate)
  then obtain u where "validate_expression T aggregate ctx (path @ ''.aggregate'') = Inr u"
      "\<exists>v. validate_expression T predicate (outside_aggregates ctx) (path @ ''.predicate'') = Inr v"
    by (auto simp: validate_filter_def split: if_splits)
  then show ?case using Filter.IH by fastforce
next
  case (Over expr parts order)
  obtain v z where e: "validate_expression T expr ctx (path @ ''.expression'') = Inr v"
    and w: "validate_window (map (\<lambda>e. validate_expression T e) parts)
           (zip order (map (\<lambda>t. validate_order_expression T t) order)) (outside_aggregates ctx) (path @ ''.window'') = Inr z"
    using Over.prems by (auto split: if_splits)
  have ww: "\<forall>x \<in> set parts. \<exists>p v. validate_expression T x (outside_aggregates ctx) p = Inr v"
      "\<forall>x \<in> set order. \<exists>p v. validate_order_expression T x (outside_aggregates ctx) p = Inr v"
    using window_walks [OF w] by simp_all
  have "all_admitted ctx (own_columns x)" if x: "x \<in> set parts" for x
    using ww(1) x Over.IH(2) [OF x, where ctx = "outside_aggregates ctx"] by auto
  moreover have "all_admitted ctx (order_columns x)" if x: "x \<in> set order" for x
    using ww(2) x Over.IH(3) [OF x, where ctx = "outside_aggregates ctx"] by auto
  ultimately show ?case using Over.IH(1) [OF e] by (auto simp: list_all_iff)
next
  case (TrustedFragment sql parts)
  then have "\<exists>p u. validate_fragment_part T x ctx p = Inr u" if "x \<in> set parts" for x
    using that by (auto split: if_splits dest: walk_all_map)
  then show ?case using TrustedFragment.IH by (fastforce simp: list_all_iff)
next
  case (Logical operator expressions)
  then have "\<exists>p u. validate_expression T x ctx p = Inr u" if "x \<in> set expressions" for x
    using that by (auto split: if_splits dest: walk_all_map)
  then show ?case using Logical.IH by (fastforce simp: list_all_iff)
next
  case (Membership expr members negated subquery)
  note m = membership_walks [OF Membership.prems [unfolded validate_expression.simps]]
  have "\<exists>p v. validate_expression T x ctx p = Inr v" if "subquery = None" "x \<in> set members" for x
    using m that by (auto simp: option_zip_def)
  then show ?case using m Membership.IH(1,2) by (fastforce simp: list_all_iff)
next
  case (Function name arguments star dist raw)
  have "\<exists>c p v. (admitted c :: 'v relation_ref \<times> gostring \<Rightarrow> bool) = admitted ctx \<and> validate_expression T x c p = Inr v" if "\<not> star" "x \<in> set arguments" for x
    using function_walks [OF Function.prems [unfolded validate_expression.simps] that(1)] that(2) by simp
  then have "all_admitted ctx (own_columns x)" if "\<not> star" "x \<in> set arguments" for x
    using Function.IH [OF that(2)] all_admitted_cong that by metis
  then show ?case by (simp add: list_all_iff)
next
  case (CaseWhen predicate result)
  then show ?case by (fastforce split: if_splits)
qed (auto dest: leaf_scope split: if_splits sum.splits)


lemma all_admitted_scope: "all_admitted ctx cs \<Longrightarrow> all_in_scope (ec_sources ctx) cs"
  by (auto simp: all_admitted_def all_in_scope_def admitted_def list_all_iff)

lemma expression_scope:
  "validate_expression T e ctx path = Inr u \<Longrightarrow> all_in_scope (ec_sources ctx) (own_columns e)"
  "validate_order_expression T t ctx path = Inr u \<Longrightarrow> all_in_scope (ec_sources ctx) (order_columns t)"
  "validate_projection T pr ctx path = Inr u \<Longrightarrow> all_in_scope (ec_sources ctx) (projection_columns pr)"
  "validate_join_on T j ctx path = Inr u \<Longrightarrow> all_in_scope (ec_sources ctx) (join_columns j)"
  by (rule all_admitted_scope, erule expression_admitted)+

subsection \<open>Sources of a statement\<close>

definition select_sources :: "'v select \<Rightarrow> 'v relation_ref list" where
  "select_sources s = s_correlations s @ s_from s # map jn_source (s_joins s)"

definition distinguishable :: "'v relation_ref list \<Rightarrow> bool" where
  "distinguishable rs = sorted_wrt (\<lambda>a b. \<not> conflicts (rel_reference a) (rel_reference b)) rs"

definition statement_columns :: "'v select \<Rightarrow> ('v relation_ref \<times> gostring) list" where
  "statement_columns s = concat (map projection_columns (s_projections s)) @ concat (map join_columns (s_joins s)) @
     own_columns (s_where s) @ concat (map own_columns (s_group_by s)) @ own_columns (s_having s) @
     concat (map order_columns (s_order_by s))"

definition scope_for :: "source_scope \<Rightarrow> 'v relation_ref list \<Rightarrow> bool" where
  "scope_for sc rs = (sc_keys sc = rel_key ` set rs \<and> sc_references sc = map rel_reference rs \<and> distinguishable rs)"

lemma scope_for_add:
  assumes "scope_for sc rs" "validate_source_reference (sc_references sc) r path = Inr ()"
  shows "scope_for (scope_add sc r) (rs @ [r])"
  using assms by (auto simp: scope_for_def scope_add_def distinguishable_def validate_source_reference_def sorted_wrt_append find_None_iff
      split: option.splits)

lemma correlations_scope:
  assumes "validate_correlations correlations ctes = Inr sc"
  shows "scope_for sc correlations"
proof -
  have "scope_for sc (rs @ xs)" if "rfold (\<lambda>(i, correlated) sources. let path = item_path ''correlations'' i in
       rbind (validate_visible_cte correlated ctes path) (\<lambda>_.
       case rel_validate correlated of
         Inl e \<Rightarrow> invalid path ''%s'' [ErrArg e]
       | Inr _ \<Rightarrow> rbind (validate_source_reference (sc_references sources) correlated path) (\<lambda>_.
           Inr (scope_add sources correlated)))) ys s = Inr sc" "map snd ys = xs" "scope_for s rs" for xs ys s rs
    using that
  proof (induction ys arbitrary: xs s rs)
    case (Cons y ys)
    then show ?case using scope_for_add [of s rs "snd y"]
      by (cases y) (force simp: Let_def split: sum.splits)
  qed simp
  from this [of "indexed correlations" empty_scope correlations "[]"] assms show ?thesis
    by (simp add: validate_correlations_def scope_for_def empty_scope_def distinguishable_def)
qed

lemma in_scope_mono: "in_scope sc c \<Longrightarrow> sc_keys sc \<subseteq> sc_keys sc' \<Longrightarrow> in_scope sc' c"
  by (auto simp: in_scope_def)

lemma all_in_scope_mono: "all_in_scope sc cs \<Longrightarrow> sc_keys sc \<subseteq> sc_keys sc' \<Longrightarrow> all_in_scope sc' cs"
  by (auto simp: all_in_scope_def list_all_iff intro: in_scope_mono)

lemma context_scope [simp]:
  "ec_sources (clause_context sc clause) = sc" "ec_sources (aggregate_clause_context sc clause) = sc"
  "ec_sources (subquery_clause_context sc clause) = sc" "ec_sources (projection_context sc) = sc"
  by (simp_all add: clause_context_def aggregate_clause_context_def subquery_clause_context_def projection_context_def)

lemma context_aggregates [simp]:
  "ec_depth (aggregate_clause_context sc clause) = 0" "ec_depth (subquery_clause_context sc clause) = 0"
  "ec_depth (projection_context sc) = 0" "\<not> ec_allows_aggregate (subquery_clause_context sc clause)"
  by (simp_all add: clause_context_def aggregate_clause_context_def subquery_clause_context_def projection_context_def)

lemma join_step:
  assumes "validate_join correlations ctes path j (validate_join_on T j) s = Inr s'" "scope_for s rs"
  shows "scope_for s' (rs @ [jn_source j]) \<and> all_in_scope s' (join_columns j)"
proof -
  have s': "s' = scope_add s (jn_source j)" and r: "validate_source_reference (sc_references s) (jn_source j) (path @ ''.source'') = Inr ()"
    and w: "\<exists>u. validate_join_on T j (subquery_clause_context s' ''a JOIN ON condition'') (path @ ''.on'') = Inr u"
    using assms(1) by (auto simp: validate_join_def Let_def split: if_splits sum.splits)
  have "all_in_scope s' (join_columns j)" using w expression_scope(4) [of T j "subquery_clause_context s' ''a JOIN ON condition''"] by auto
  then show ?thesis using scope_for_add [OF assms(2) r] by (simp add: s')
qed

lemma joins_scope:
  assumes "validate_joins correlations ctes (zip joins (map (\<lambda>j. validate_join_on T j) joins)) s = Inr sc" "scope_for s rs"
  shows "scope_for sc (rs @ map jn_source joins) \<and> all_in_scope sc (concat (map join_columns joins)) \<and> sc_keys s \<subseteq> sc_keys sc"
proof -
  have "scope_for sc (rs @ map jn_source js) \<and> all_in_scope sc (concat (map join_columns js)) \<and> sc_keys s \<subseteq> sc_keys sc"
    if "rfold (\<lambda>(i, j, on). validate_join correlations ctes (item_path ''joins'' i) j on) ys s = Inr sc"
      "map snd ys = zip js (map (\<lambda>j. validate_join_on T j) js)" "scope_for s rs" for js ys s rs
    using that
  proof (induction ys arbitrary: js s rs)
    case Nil
    then show ?case by (cases js) simp_all
  next
    case (Cons y ys)
    obtain j js' where j: "js = j # js'" using Cons.prems(2) by (cases js) simp_all
    then have js: "js = j # js'" "map snd ys = zip js' (map (\<lambda>j. validate_join_on T j) js')" and "snd y = (j, validate_join_on T j)"
      using Cons.prems(2) by simp_all
    then obtain i where y: "y = (i, j, validate_join_on T j)" by (metis prod.collapse)
    obtain s' where s': "validate_join correlations ctes (item_path ''joins'' i) j (validate_join_on T j) s = Inr s'"
      "rfold (\<lambda>(i, j, on). validate_join correlations ctes (item_path ''joins'' i) j on) ys s' = Inr sc"
      using Cons.prems(1) y by auto
    note st = join_step [OF s'(1) Cons.prems(3)]
    note ih = Cons.IH [OF s'(2) js(2) conjunct1 [OF st]]
    have "sc_keys s \<subseteq> sc_keys s'" using st Cons.prems(3) by (auto simp: scope_for_def)
    then show ?case using ih st all_in_scope_mono [of s' "join_columns j" sc] by (auto simp: js)
  qed
  from this [of "indexed (zip joins (map (\<lambda>j. validate_join_on T j) joins))" s joins rs] assms show ?thesis
    by (simp add: validate_joins_def)
qed


lemma zipped_walks:
  assumes "rfold f (indexed (zip xs (map w xs))) s = Inr t" "x \<in> set xs"
  shows "\<exists>i u v. f (i, x, w x) u = Inr v"
  using rfold_indexed_each [OF assms(1) in_zip_map [OF assms(2), of w]] by simp

lemma group_by_walks:
  assumes "validate_group_by (zip es (map (\<lambda>e. validate_expression T e) es)) sc = Inr ()" "e \<in> set es"
  shows "\<exists>p u. validate_expression T e (subquery_clause_context sc ''a GROUP BY clause'') p = Inr u \<and> \<not> is_bound_value e"
  using zipped_walks [OF assms(1) [unfolded validate_group_by_def] assms(2)] by (auto simp: Let_def split: if_splits)

lemma projection_set_walks:
  assumes "validate_projection_set (zip ps (map (\<lambda>p. validate_projection T p) ps)) sc grouped = Inr usage" "p \<in> set ps"
  shows "\<exists>path u. validate_projection T p (projection_context sc) path = Inr u"
proof -
  from assms(1) obtain st where st: "rfold (\<lambda>(i, projection, walk) st. let path = item_path ''projections'' i in
        if projection = NilProjection then invalid path ''must not be nil'' []
        else rbind (if result_alias projection \<noteq> [] then err_at (path @ ''.alias'') (validate_alias (result_alias projection)) else Inr ()) (\<lambda>_.
        rbind (walk (projection_context sc) (path @ ''.expression'')) (\<lambda>usage.
        Inr \<lparr>ps_total = usage_merge (ps_total st) usage,
             ps_aggregate_path = (if eu_aggregate usage \<and> ps_aggregate_path st = [] then path else ps_aggregate_path st),
             ps_column_path = (if eu_bare_column usage \<and> ps_column_path st = [] then path else ps_column_path st)\<rparr>)))
        (indexed (zip ps (map (\<lambda>p. validate_projection T p) ps))) \<lparr>ps_total = no_usage, ps_aggregate_path = [], ps_column_path = []\<rparr> = Inr st"
    unfolding validate_projection_set_def by auto
  from zipped_walks [OF st assms(2)] show ?thesis by (auto simp: Let_def split: if_splits)
qed

lemma order_by_walks:
  assumes "validate_order_by results (zip ts (map (\<lambda>t. validate_order_expression T t) ts)) sc usage grouped = Inr ()" "t \<in> set ts" "od_result t = None"
  shows "\<exists>ctx p u. ec_sources ctx = sc \<and> validate_order_expression T t ctx p = Inr u \<and>
     (\<not> grouped \<and> \<not> eu_aggregate usage \<longrightarrow> \<not> ec_allows_aggregate ctx) \<and> ec_depth ctx = 0 \<and>
     (\<not> grouped \<and> eu_aggregate usage \<longrightarrow> \<not> eu_bare_column u)"
proof -
  obtain i where "validate_order t (validate_order_expression T t) sc usage grouped results (item_path ''order_by'' i) = Inr ()"
    using zipped_walks [OF assms(1) [unfolded validate_order_by_def] assms(2)] by (auto split: if_splits)
  then have "\<exists>u. validate_order_expression T t (if \<not> grouped \<and> \<not> eu_aggregate usage then subquery_clause_context sc ''an ORDER BY clause''
       else aggregate_clause_context sc ''an ORDER BY clause'') (item_path ''order_by'' i) = Inr u \<and> (\<not> grouped \<and> eu_aggregate usage \<longrightarrow> \<not> eu_bare_column u)"
    using assms(3) by (auto simp: validate_order_def split: if_splits)
  then show ?thesis
    by (intro exI [of _ "if \<not> grouped \<and> \<not> eu_aggregate usage then subquery_clause_context sc ''an ORDER BY clause''
       else aggregate_clause_context sc ''an ORDER BY clause''"] exI [of _ "item_path ''order_by'' i"]) auto
qed

lemma order_without_result: "od_result t \<noteq> None \<Longrightarrow> order_columns t = []"
  by (cases t) auto

text \<open>What the walk over an unmarked statement established, clause by clause.\<close>

lemma statement_walk:
  assumes "validate_statement T (Select pr fr co ct jo wh gr ha ob li os di lo False) = Inr ()"
  shows "\<exists>sc usage. scope_for sc (co @ fr # map jn_source jo) \<and> all_in_scope sc (concat (map join_columns jo)) \<and>
    validate_group_by (zip gr (map (\<lambda>e. validate_expression T e) gr)) sc = Inr () \<and>
    validate_projection_set (zip pr (map (\<lambda>p. validate_projection T p) pr)) sc (gr \<noteq> []) = Inr usage \<and>
    (wh \<noteq> NilExpression \<longrightarrow> (\<exists>u. validate_expression T wh (subquery_clause_context sc ''a WHERE clause'') ''where'' = Inr u)) \<and>
    validate_having ha (validate_expression T ha) sc usage (gr \<noteq> []) = Inr () \<and>
    validate_order_by pr (zip ob (map (\<lambda>t. validate_order_expression T t) ob)) sc usage (gr \<noteq> []) = Inr ()"
proof -
  obtain sc0 sc usage where c: "validate_correlations co ct = Inr sc0" and f: "validate_source_reference (sc_references sc0) fr ''from'' = Inr ()"
    and j: "validate_joins co ct (zip jo (map (\<lambda>j. validate_join_on T j) jo)) (scope_add sc0 fr) = Inr sc"
    and rest: "validate_group_by (zip gr (map (\<lambda>e. validate_expression T e) gr)) sc = Inr ()"
      "validate_projection_set (zip pr (map (\<lambda>p. validate_projection T p) pr)) sc (gr \<noteq> []) = Inr usage"
      "wh \<noteq> NilExpression \<longrightarrow> (\<exists>u. validate_expression T wh (subquery_clause_context sc ''a WHERE clause'') ''where'' = Inr u)"
      "validate_having ha (validate_expression T ha) sc usage (gr \<noteq> []) = Inr ()"
      "validate_order_by pr (zip ob (map (\<lambda>t. validate_order_expression T t) ob)) sc usage (gr \<noteq> []) = Inr ()"
    using assms by (auto split: if_splits)
  have "scope_for (scope_add sc0 fr) (co @ [fr])" by (rule scope_for_add [OF correlations_scope [OF c] f])
  from joins_scope [OF j this] rest show ?thesis by auto
qed


lemma having_walk:
  assumes "validate_having ha (validate_expression T ha) sc usage grouped = Inr ()" "ha \<noteq> NilExpression"
  shows "(grouped \<or> eu_aggregate usage) \<and>
    (\<exists>u. validate_expression T ha (aggregate_clause_context sc ''a HAVING clause'') ''having'' = Inr u \<and> (grouped \<or> \<not> eu_bare_column u))"
  using assms by (auto simp: validate_having_def split: if_splits)

lemma optional_scope:
  assumes "e \<noteq> NilExpression \<Longrightarrow> \<exists>ctx p u. ec_sources ctx = sc \<and> validate_expression T e ctx p = Inr u"
  shows "all_in_scope sc (own_columns e)"
proof (cases "e = NilExpression")
  case False
  then obtain ctx p u where "ec_sources ctx = sc" "validate_expression T e ctx p = Inr u" using assms by blast
  then show ?thesis using expression_scope(1) [of T e ctx p u] by simp
qed simp

lemma statement_scope:
  assumes "validate_statement T (Select pr fr co ct jo wh gr ha ob li os di lo False) = Inr ()"
  shows "\<exists>sc. scope_for sc (co @ fr # map jn_source jo) \<and>
    all_in_scope sc (statement_columns (Select pr fr co ct jo wh gr ha ob li os di lo False))"
proof -
  obtain sc usage where s: "scope_for sc (co @ fr # map jn_source jo)" "all_in_scope sc (concat (map join_columns jo))"
    and g: "validate_group_by (zip gr (map (\<lambda>e. validate_expression T e) gr)) sc = Inr ()"
    and p: "validate_projection_set (zip pr (map (\<lambda>p. validate_projection T p) pr)) sc (gr \<noteq> []) = Inr usage"
    and w: "wh \<noteq> NilExpression \<longrightarrow> (\<exists>u. validate_expression T wh (subquery_clause_context sc ''a WHERE clause'') ''where'' = Inr u)"
    and h: "validate_having ha (validate_expression T ha) sc usage (gr \<noteq> []) = Inr ()"
    and o: "validate_order_by pr (zip ob (map (\<lambda>t. validate_order_expression T t) ob)) sc usage (gr \<noteq> []) = Inr ()"
    using statement_walk [OF assms] by blast
  have "all_in_scope sc (projection_columns x)" if "x \<in> set pr" for x
    using projection_set_walks [OF p that] expression_scope(3) [of T x "projection_context sc"] by auto
  moreover have "all_in_scope sc (own_columns x)" if "x \<in> set gr" for x
    using group_by_walks [OF g that] expression_scope(1) [of T x "subquery_clause_context sc ''a GROUP BY clause''"] by auto
  moreover have "all_in_scope sc (own_columns wh)"
    by (rule optional_scope [where T = T]) (use w in \<open>metis context_scope(3)\<close>)
  moreover have "all_in_scope sc (own_columns ha)"
    by (rule optional_scope [where T = T]) (use having_walk [OF h] in \<open>metis context_scope(2)\<close>)
  moreover have "all_in_scope sc (order_columns x)" if x: "x \<in> set ob" for x
  proof (cases "od_result x")
    case None
    from order_by_walks [OF o x None] obtain ctx p u where "ec_sources ctx = sc" "validate_order_expression T x ctx p = Inr u" by blast
    then show ?thesis using expression_scope(2) [of T x ctx p u] by simp
  qed (simp add: order_without_result)
  ultimately show ?thesis using s by (auto simp: statement_columns_def list_all_iff)
qed

text \<open>
  The check compares table keys and asks the referring descriptor for the column, never the
  descriptor of the source. The two agree when one table key has one set of columns.
\<close>

definition one_descriptor :: "'v select \<Rightarrow> bool" where
  "one_descriptor s = (\<forall>r \<in> set (select_sources s). \<forall>(source, name) \<in> set (statement_columns s).
     rel_key r = rel_key source \<longrightarrow> has_column r name = has_column source name)"

text \<open>
  C12. A validated statement reads only what it selects from. Take a \<open>SELECT\<close> that the
  constructors can build and in which the references to one table key come from descriptors
  with the same columns. The correlated tables, the FROM source and the joined sources can
  be told apart by the qualifiers their columns are written with, and every column that the
  projections, join conditions, WHERE, GROUP BY, HAVING and ORDER BY read outside nested
  subqueries is a column of one of these sources.
\<close>
theorem built_select_reads_its_sources:
  assumes "built T s" "one_descriptor s"
  shows "distinguishable (select_sources s) \<and>
    (\<forall>(source, name) \<in> set (statement_columns s).
      \<exists>r \<in> set (select_sources s). rel_key r = rel_key source \<and> has_column r name)"
proof -
  obtain pr fr co ct jo wh gr ha ob li os di lo ch where s: "s = Select pr fr co ct jo wh gr ha ob li os di lo ch" by (rule select.exhaust)
  have "validate_statement T (Select pr fr co ct jo wh gr ha ob li os di lo False) = Inr ()"
    using built_marked [OF assms(1)] by (simp add: marked_valid_def s set_checked_def del: validate_statement.simps)
  from statement_scope [OF this] obtain sc where sc: "scope_for sc (select_sources s)" "all_in_scope sc (statement_columns s)"
    by (auto simp: s select_sources_def statement_columns_def)
  have "\<exists>r \<in> set (select_sources s). rel_key r = rel_key (fst c) \<and> has_column r (snd c)" if c: "c \<in> set (statement_columns s)" for c
  proof -
    have "in_scope sc c" using sc(2) c by (simp add: all_in_scope_def list_all_iff)
    then obtain r where "r \<in> set (select_sources s)" "rel_key r = rel_key (fst c)" "has_column (fst c) (snd c)"
      using sc(1) by (auto simp: in_scope_def scope_for_def)
    with assms(2) c show ?thesis by (fastforce simp: one_descriptor_def)
  qed
  then show ?thesis using sc(1) by (fastforce simp: scope_for_def)
qed

theorem built_select_reads_its_sources_witness:
  "built ascii_tables (sample_select :: nat select) \<and> one_descriptor (sample_select :: nat select) \<and>
   statement_columns (sample_select :: nat select) = [(users, ''id'')] \<and>
   (\<exists>r \<in> set (select_sources (sample_select :: nat select)). rel_key r = rel_key (users :: nat relation_ref) \<and> has_column r ''id'')"
proof -
  have b: "built ascii_tables (sample_select :: nat select)" by (rule built.new [OF sample_select_new])
  have c: "statement_columns (sample_select :: nat select) = [(users, ''id'')]" by (simp add: statement_columns_def sample_select_def)
  have o: "one_descriptor (sample_select :: nat select)" unfolding one_descriptor_def c by (simp add: select_sources_def sample_select_def)
  show ?thesis using b o c built_select_reads_its_sources [OF b o] by simp
qed

definition stale_users :: "'v relation_ref" where
  "stale_users = relation (table_ref_from (zero_table\<lparr>tb_name := ''users'', tb_columns := [zero_column\<lparr>col_name := ''gone''\<rparr>]\<rparr>))"

lemma stale_users_simps [simp]:
  "rel_validate stale_users = Inr ()" "has_column stale_users name \<longleftrightarrow> name = ''gone''"
  by (auto simp: stale_users_def relation_def tr_validate_def table_ref_from_def has_column_def tr_column_def descriptor_column_fresh table_column_def)

lemma stale_users_key [simp]: "rel_key (stale_users :: 'v relation_ref) = rel_key (users :: 'v relation_ref)"
  by (simp add: stale_users_def users_def sample_table_def relation_def table_ref_from_def tr_key_def tr_def_def new_table_descriptor_def)

text \<open>
  The hypothesis is not idle: a column of a second descriptor of the same table name is
  accepted although the descriptor selected from has no such column.
\<close>
theorem second_descriptor_is_accepted:
  "\<exists>s :: nat select. new_correlated_joined_select T users [] [] [] [ColumnProjection stale_users ''gone''] = Inr s \<and>
     select_sources s = [users] \<and> \<not> has_column (users :: nat relation_ref) ''gone''"
proof -
  have "validate_statement T (Select [ColumnProjection stale_users ''gone''] users [] [] [] NilExpression [] NilExpression [] None None False None False :: nat select) = Inr ()"
    by (simp add: validate_visible_cte_def err_at_def validate_ctes_def indexed_def
      validate_correlations_def validate_source_reference_def empty_scope_def validate_joins_def validate_group_by_def
      validate_projection_set_def validate_column_ref_def projection_context_def aggregate_clause_context_def clause_context_def
      scope_add_def usage_merge_def no_usage_def validate_having_def validate_order_by_def validate_bounds_def)
  then show ?thesis by (simp add: new_correlated_joined_select_def validated_Inr set_checked_def select_sources_def del: validate_statement.simps)
qed

end
