(* ===== verification/Query_Aggregate.thy ===== *)
theory Query_Aggregate
  imports Query_Scope
begin

text \<open>
  Where aggregates may stand. \<open>aggregate_free\<close> says that an expression calls no aggregate
  outside the statements of nested subqueries; \<open>well_placed\<close> that no aggregate is called
  inside another, in the predicate of a FILTER or in a window; \<open>reads_bare\<close> that a column is
  read outside every aggregate call and its FILTER, the PARTITION BY and ORDER BY of a window
  left aside, which \<open>validateExpression\<close> checks but does not count. The walk's report is shown to be exactly this, and
  from it follow the placement rules of a built statement.
\<close>

primrec aggregate_free :: "'v expression \<Rightarrow> bool"
  and when_free :: "'v case_when \<Rightarrow> bool"
  and order_free :: "'v order \<Rightarrow> bool"
  and part_free :: "'v fragment_part \<Rightarrow> bool"
  and projection_free :: "'v projection \<Rightarrow> bool"
  and join_free :: "'v join \<Rightarrow> bool" where
  "aggregate_free NilExpression = True"
| "aggregate_free (ColumnRef source name) = True"
| "aggregate_free (ExcludedColumn source name) = True"
| "aggregate_free (TableIdentifier source) = True"
| "aggregate_free (Value v) = True"
| "aggregate_free (Binary left operator right) = (aggregate_free left \<and> aggregate_free right)"
| "aggregate_free (Case subject branches fallback) = (aggregate_free subject \<and> list_all id (map (\<lambda>b. when_free b) branches) \<and>
     pred_option id (map_option (\<lambda>e. aggregate_free e) fallback))"
| "aggregate_free (Cast expr target) = aggregate_free expr"
| "aggregate_free (Filter aggregate predicate) = (aggregate_free aggregate \<and> aggregate_free predicate)"
| "aggregate_free (Over expr parts order) = (aggregate_free expr \<and> list_all id (map (\<lambda>e. aggregate_free e) parts) \<and>
     list_all id (map (\<lambda>t. order_free t) order))"
| "aggregate_free (TrustedFragment sql parts) = list_all id (map (\<lambda>p. part_free p) parts)"
| "aggregate_free (Logical operator expressions) = list_all id (map (\<lambda>e. aggregate_free e) expressions)"
| "aggregate_free (NotExpression expr) = aggregate_free expr"
| "aggregate_free (NullTest expr negated) = aggregate_free expr"
| "aggregate_free (Membership expr values negated subquery) = (aggregate_free expr \<and>
     (subquery = None \<longrightarrow> list_all id (map (\<lambda>e. aggregate_free e) values)))"
| "aggregate_free (Function name arguments star dist raw) = (\<not> aggregates (Function name [] star dist raw :: 'v expression) \<and>
     list_all id (map (\<lambda>e. aggregate_free e) arguments))"
| "aggregate_free (Subquery statement) = True"
| "aggregate_free (Existence statement negated) = True"
| "aggregate_free (OtherExpression name) = True"
| "when_free (CaseWhen predicate result) = (aggregate_free predicate \<and> aggregate_free result)"
| "order_free (Order expression result descending nulls) = aggregate_free expression"
| "part_free (FragmentHole value) = aggregate_free value"
| "part_free (IdentifierHole name) = True"
| "part_free OtherPart = True"
| "projection_free NilProjection = True"
| "projection_free (ColumnProjection source name) = True"
| "projection_free (ExpressionProjection expression alias) = aggregate_free expression"
| "join_free (Join jtype source on) = aggregate_free on"

primrec reads_bare :: "'v expression \<Rightarrow> bool"
  and when_bare :: "'v case_when \<Rightarrow> bool"
  and part_bare :: "'v fragment_part \<Rightarrow> bool"
  and order_bare :: "'v order \<Rightarrow> bool"
  and projection_bare :: "'v projection \<Rightarrow> bool" where
  "reads_bare NilExpression = False"
| "reads_bare (ColumnRef source name) = True"
| "reads_bare (ExcludedColumn source name) = True"
| "reads_bare (TableIdentifier source) = True"
| "reads_bare (Value v) = False"
| "reads_bare (Binary left operator right) = (reads_bare left \<or> reads_bare right)"
| "reads_bare (Case subject branches fallback) = (reads_bare subject \<or> list_ex id (map (\<lambda>b. when_bare b) branches) \<or>
     map_option (\<lambda>e. reads_bare e) fallback = Some True)"
| "reads_bare (Cast expr target) = reads_bare expr"
| "reads_bare (Filter aggregate predicate) = reads_bare aggregate"
| "reads_bare (Over expr parts order) = reads_bare expr"
| "reads_bare (TrustedFragment sql parts) = list_ex id (map (\<lambda>p. part_bare p) parts)"
| "reads_bare (Logical operator expressions) = list_ex id (map (\<lambda>e. reads_bare e) expressions)"
| "reads_bare (NotExpression expr) = reads_bare expr"
| "reads_bare (NullTest expr negated) = reads_bare expr"
| "reads_bare (Membership expr values negated subquery) = (reads_bare expr \<or>
     (subquery = None \<and> list_ex id (map (\<lambda>e. reads_bare e) values)))"
| "reads_bare (Function name arguments star dist raw) = (\<not> aggregates (Function name [] star dist raw :: 'v expression) \<and>
     list_ex id (map (\<lambda>e. reads_bare e) arguments))"
| "reads_bare (Subquery statement) = False"
| "reads_bare (Existence statement negated) = False"
| "reads_bare (OtherExpression name) = False"
| "when_bare (CaseWhen predicate result) = (reads_bare predicate \<or> reads_bare result)"
| "part_bare (FragmentHole value) = reads_bare value"
| "part_bare (IdentifierHole name) = False"
| "part_bare OtherPart = False"
| "order_bare (Order expression result descending nulls) = reads_bare expression"
| "projection_bare NilProjection = False"
| "projection_bare (ColumnProjection source name) = True"
| "projection_bare (ExpressionProjection expression alias) = reads_bare expression"

primrec well_placed :: "'v expression \<Rightarrow> bool"
  and when_placed :: "'v case_when \<Rightarrow> bool"
  and order_placed :: "'v order \<Rightarrow> bool"
  and part_placed :: "'v fragment_part \<Rightarrow> bool"
  and projection_placed :: "'v projection \<Rightarrow> bool" where
  "well_placed NilExpression = True"
| "well_placed (ColumnRef source name) = True"
| "well_placed (ExcludedColumn source name) = True"
| "well_placed (TableIdentifier source) = True"
| "well_placed (Value v) = True"
| "well_placed (Binary left operator right) = (well_placed left \<and> well_placed right)"
| "well_placed (Case subject branches fallback) = (well_placed subject \<and> list_all id (map (\<lambda>b. when_placed b) branches) \<and>
     pred_option id (map_option (\<lambda>e. well_placed e) fallback))"
| "well_placed (Cast expr target) = well_placed expr"
| "well_placed (Filter aggregate predicate) = (well_placed aggregate \<and> aggregate_free predicate)"
| "well_placed (Over expr parts order) = (well_placed expr \<and> list_all aggregate_free parts \<and> list_all order_free order)"
| "well_placed (TrustedFragment sql parts) = list_all id (map (\<lambda>p. part_placed p) parts)"
| "well_placed (Logical operator expressions) = list_all id (map (\<lambda>e. well_placed e) expressions)"
| "well_placed (NotExpression expr) = well_placed expr"
| "well_placed (NullTest expr negated) = well_placed expr"
| "well_placed (Membership expr values negated subquery) = (well_placed expr \<and>
     (subquery = None \<longrightarrow> list_all id (map (\<lambda>e. well_placed e) values)))"
| "well_placed (Function name arguments star dist raw) =
     (if aggregates (Function name [] star dist raw :: 'v expression) then list_all aggregate_free arguments
      else list_all id (map (\<lambda>e. well_placed e) arguments))"
| "well_placed (Subquery statement) = True"
| "well_placed (Existence statement negated) = True"
| "well_placed (OtherExpression name) = True"
| "when_placed (CaseWhen predicate result) = (well_placed predicate \<and> well_placed result)"
| "order_placed (Order expression result descending nulls) = well_placed expression"
| "part_placed (FragmentHole value) = well_placed value"
| "part_placed (IdentifierHole name) = True"
| "part_placed OtherPart = True"
| "projection_placed NilProjection = True"
| "projection_placed (ColumnProjection source name) = True"
| "projection_placed (ExpressionProjection expression alias) = well_placed expression"


subsection \<open>The report of the walk\<close>

definition report :: "expression_context \<Rightarrow> expression_usage \<Rightarrow> bool \<Rightarrow> bool \<Rightarrow> bool \<Rightarrow> bool" where
  "report ctx u free bare placed = (placed \<and> (eu_aggregate u \<longleftrightarrow> \<not> free) \<and> (eu_bare_column u \<longleftrightarrow> bare \<and> ec_depth ctx = 0) \<and>
     (free \<or> ec_allows_aggregate ctx \<and> ec_depth ctx = 0))"

lemma report_merge:
  assumes "report ctx u free bare placed" "report ctx v free' bare' placed'"
  shows "report ctx (usage_merge u v) (free \<and> free') (bare \<or> bare') (placed \<and> placed')"
  using assms by (auto simp: report_def usage_merge_def)

lemma report_none [simp]: "report ctx no_usage True False True"
  by (simp add: report_def no_usage_def)

lemma usage_merge_assoc: "usage_merge (usage_merge u v) w = usage_merge u (usage_merge v w)"
  by (simp add: usage_merge_def)

lemma rfold_report:
  assumes "rfold g ys u = Inr v" "report ctx u free0 bare0 placed0"
    and "\<And>y u v. y \<in> set ys \<Longrightarrow> g y u = Inr v \<Longrightarrow> \<exists>r. v = usage_merge u r \<and> report ctx r (free y) (bare y) (placed y)"
  shows "report ctx v (free0 \<and> list_all free ys) (bare0 \<or> list_ex bare ys) (placed0 \<and> list_all placed ys)"
  using assms
proof (induction ys arbitrary: u free0 bare0 placed0)
  case (Cons y ys)
  obtain w where w: "g y u = Inr w" "rfold g ys w = Inr v" using Cons.prems(1) by auto
  obtain r where r: "w = usage_merge u r" "report ctx r (free y) (bare y) (placed y)" using Cons.prems(3) [OF _ w(1)] by auto
  have m: "report ctx w (free0 \<and> free y) (bare0 \<or> bare y) (placed0 \<and> placed y)"
    using report_merge [OF Cons.prems(2) r(2)] by (simp add: r(1))
  have "report ctx v ((free0 \<and> free y) \<and> list_all free ys) ((bare0 \<or> bare y) \<or> list_ex bare ys) ((placed0 \<and> placed y) \<and> list_all placed ys)"
    by (rule Cons.IH [OF w(2) m]) (rule Cons.prems(3), simp_all)
  then show ?case by (simp add: conj_assoc disj_assoc)
qed simp

lemma indexed_snd: "p \<in> set (indexed xs) \<Longrightarrow> snd p \<in> set xs"
  by (cases p) (auto simp: indexed_def dest: set_zip_rightD)

lemma list_indexed [simp]: "list_all (\<lambda>p. f (snd p)) (indexed xs) = list_all f xs" "list_ex (\<lambda>p. f (snd p)) (indexed xs) = list_ex f xs"
  using in_indexed [of _ xs] indexed_snd [of _ xs] unfolding list_all_iff list_ex_iff by (metis snd_conv)+

lemma list_zip_map [simp]: "list_all (\<lambda>p. f (fst p)) (zip xs (map g xs)) = list_all f xs" "list_ex (\<lambda>p. f (fst p)) (zip xs (map g xs)) = list_ex f xs"
  by (induction xs) auto

lemma rfold_map: "rfold g (map h ys) u = rfold (\<lambda>y. g (h y)) ys u"
  by (induction ys arbitrary: u) (simp_all add: rbind_def split: sum.split)

lemma indexed_map: "indexed (map f xs) = map (\<lambda>p. (fst p, f (snd p))) (indexed xs)"
  by (simp add: indexed_def zip_map2 case_prod_beta')

text \<open>A loop that walks numbered children and merges what they report.\<close>

lemma indexed_report:
  assumes "rfold g (indexed xs) u = Inr v" "report ctx u free0 bare0 placed0"
    and "\<And>i x u v. x \<in> set xs \<Longrightarrow> g (i, x) u = Inr v \<Longrightarrow> \<exists>r. v = usage_merge u r \<and> report ctx r (free x) (bare x) (placed x)"
  shows "report ctx v (free0 \<and> list_all free xs) (bare0 \<or> list_ex bare xs) (placed0 \<and> list_all placed xs)"
proof -
  have "\<exists>r. v = usage_merge u r \<and> report ctx r (free (snd p)) (bare (snd p)) (placed (snd p))"
    if "p \<in> set (indexed xs)" "g p u = Inr v" for p u v
    using assms(3) [OF indexed_snd [OF that(1)], of "fst p"] that(2) by simp
  from rfold_report [OF assms(1,2), of "\<lambda>p. free (snd p)" "\<lambda>p. bare (snd p)" "\<lambda>p. placed (snd p)", OF this]
  show ?thesis by simp
qed

lemma walk_all_report:
  assumes "walk_all path (map f xs) ctx no_usage = Inr v"
    and "\<And>x p r. x \<in> set xs \<Longrightarrow> f x ctx p = Inr r \<Longrightarrow> report ctx r (free x) (bare x) (placed x)"
  shows "report ctx v (list_all free xs) (list_ex bare xs) (list_all placed xs)"
proof -
  have "rfold (\<lambda>p u. rbind (f (snd p) ctx (item_path path (fst p))) (\<lambda>v. Inr (usage_merge u v))) (indexed xs) no_usage = Inr v"
    using assms(1) unfolding walk_all_def indexed_map rfold_map by simp
  from indexed_report [OF this report_none, of ctx free bare placed] assms(2) show ?thesis by auto
qed


lemma leaf_report:
  "validate_column_ref source name ctx path = Inr u \<Longrightarrow> report ctx u True True True"
  "validate_excluded_column source name ctx path = Inr u \<Longrightarrow> report ctx u True True True"
  "validate_table_identifier source ctx path = Inr u \<Longrightarrow> report ctx u True True True"
  by (auto simp: validate_column_ref_def validate_excluded_column_def validate_table_identifier_def report_def split: sum.splits if_splits)

lemma subquery_report:
  "validate_scalar_subquery s w ctx path = Inr u \<Longrightarrow> u = no_usage"
  by (auto simp: validate_scalar_subquery_def split: if_splits)

lemma membership_report:
  assumes "validate_membership w (zip xs (map f xs)) subquery ctx path = Inr u"
    and "\<And>p r. w ctx p = Inr r \<Longrightarrow> report ctx r free0 bare0 placed0"
    and "\<And>x p r. x \<in> set xs \<Longrightarrow> f x ctx p = Inr r \<Longrightarrow> report ctx r (free x) (bare x) (placed x)"
    and "\<And>walk p r. subquery = Some walk \<Longrightarrow> walk ctx p = Inr r \<Longrightarrow> r = no_usage"
  shows "report ctx u (free0 \<and> (subquery = None \<longrightarrow> list_all free xs)) (bare0 \<or> subquery = None \<and> list_ex bare xs)
    (placed0 \<and> (subquery = None \<longrightarrow> list_all placed xs))"
proof (cases subquery)
  case None
  let ?g = "\<lambda>(i, value, walk) u. let item = item_path (path @ ''.values'') i in
             if is_subquery value then invalid item ''puts a subquery in an IN value list; use InSelect or NotInSelect for IN (SELECT ...)'' []
             else rbind (walk ctx item) (\<lambda>v. Inr (usage_merge u v))"
  obtain u0 where u0: "w ctx (path @ ''.expression'') = Inr u0" "rfold ?g (indexed (zip xs (map f xs))) u0 = Inr u"
    using assms(1) None unfolding validate_membership_def by (auto split: if_splits)
  have "\<exists>r. v = usage_merge u r \<and> report ctx r (free (fst y)) (bare (fst y)) (placed (fst y))"
    if "y \<in> set (zip xs (map f xs))" "?g (i, y) u = Inr v" for i y u v
  proof -
    have "fst y \<in> set xs" "snd y = f (fst y)" using that(1) by (auto simp: set_zip)
    then show ?thesis using that(2) assms(3) [of "fst y"] by (cases y) (auto simp: Let_def split: if_splits)
  qed
  from indexed_report [OF u0(2) assms(2) [OF u0(1)], of "\<lambda>y. free (fst y)" "\<lambda>y. bare (fst y)" "\<lambda>y. placed (fst y)", OF this]
  show ?thesis using None by simp
next
  case (Some walk)
  then obtain u0 where "w ctx (path @ ''.expression'') = Inr u0" "u = usage_merge u0 no_usage"
    using assms(1,4) unfolding validate_membership_def by auto
  then show ?thesis using assms(2) [of "path @ ''.expression''" u0] Some by (simp add: usage_merge_def no_usage_def report_def)
qed

lemma aggregates_name: "aggregates (Function name arguments star dist raw) = aggregates (Function name [] star dist raw)"
  by simp

lemma function_report:
  assumes "validate_function name (zip xs (map f xs)) star dist raw ctx path = Inr u"
    and "\<And>c x p r. x \<in> set xs \<Longrightarrow> f x c p = Inr r \<Longrightarrow> report c r (free x) (bare x) (placed x)"
  shows "report ctx u (\<not> aggregates (Function name [] star dist raw) \<and> list_all free xs)
    (\<not> aggregates (Function name [] star dist raw) \<and> list_ex bare xs)
    (if aggregates (Function name [] star dist raw) then list_all free xs else list_all placed xs)"
proof (cases "aggregates (Function name [] star dist raw)")
  case True
  then have raw: "\<not> raw" "name \<noteq> ''BM25''" by (auto simp: function_specs_def split: if_splits)
  then have v: "validate_aggregate_function name (zip xs (map f xs)) star dist ctx path = Inr u"
    using assms(1) True by (auto simp: validate_function_def split: option.splits)
  have "list_all free xs" if ns: "\<not> star"
  proof -
    obtain w where "walk_all (path @ ''.arguments'') (map f xs) (in_aggregate ctx) no_usage = Inr w"
      using v ns by (auto simp: validate_aggregate_function_def split: if_splits)
    from walk_all_report [OF this assms(2)] show ?thesis by (auto simp: report_def in_aggregate_def)
  qed
  moreover have "xs = []" if star using v that by (auto simp: validate_aggregate_function_def split: if_splits)
  ultimately show ?thesis using v True
    by (cases star) (auto simp: validate_aggregate_function_def report_def split: if_splits)
next
  case False
  then have "\<exists>q. walk_all q (map f xs) ctx no_usage = Inr u"
    using assms(1) by (auto simp: validate_function_def validate_custom_function_def validate_bm25_function_def
        validate_scalar_function_def split: if_splits option.splits sum.splits)
  then show ?thesis using walk_all_report [OF _ assms(2)] False by auto
qed


lemma expression_report:
  fixes e :: "'v expression" and b :: "'v case_when" and t :: "'v order" and fp :: "'v fragment_part" and pr :: "'v projection"
    and r :: "'v relation_ref" and cte :: "'v cte" and q :: "'v query_body" and j :: "'v join" and s :: "'v select"
  shows "\<And>ctx path u. validate_expression T e ctx path = Inr u \<Longrightarrow> report ctx u (aggregate_free e) (reads_bare e) (well_placed e)"
    and "\<And>searched ctx path us u. validate_case_when T b searched ctx path us = Inr u \<Longrightarrow>
      \<exists>v. u = usage_merge us v \<and> report ctx v (when_free b) (when_bare b) (when_placed b)"
    and "\<And>ctx path u. validate_order_expression T t ctx path = Inr u \<Longrightarrow> report ctx u (order_free t) (order_bare t) (order_placed t)"
    and "\<And>ctx path u. validate_fragment_part T fp ctx path = Inr u \<Longrightarrow> report ctx u (part_free fp) (part_bare fp) (part_placed fp)"
    and "\<And>ctx path u. validate_projection T pr ctx path = Inr u \<Longrightarrow> report ctx u (projection_free pr) (projection_bare pr) (projection_placed pr)"
    and True and True and True
    and "\<And>ctx path u. validate_join_on T j ctx path = Inr u \<Longrightarrow> report ctx u (join_free j) (reads_bare (jn_on j)) (well_placed (jn_on j))"
    and True
proof (induction e and b and t and fp and pr and r and cte and q and j and s)
  case (Binary left operator right)
  then show ?case by (auto split: if_splits intro!: report_merge)
next
  case (Case subject branches fallback)
  obtain u1 u2 where u: "(if subject = NilExpression then Inr no_usage else validate_expression T subject ctx (path @ ''.operand'')) = Inr u1"
    "rfold (\<lambda>(i, walk) u. walk (subject = NilExpression) ctx (item_path (path @ ''.branches'') i) u)
          (indexed (map (\<lambda>b. validate_case_when T b) branches)) u1 = Inr u2"
    "(case map_option (\<lambda>e. validate_expression T e) fallback of None \<Rightarrow> Inr u2
          | Some walk \<Rightarrow> rbind (walk ctx (path @ ''.fallback'')) (\<lambda>v. Inr (usage_merge u2 v))) = Inr u"
    using Case.prems by (auto split: if_splits)
  have r1: "report ctx u1 (aggregate_free subject) (reads_bare subject) (well_placed subject)"
    using u(1) Case.IH(1) by (cases "subject = NilExpression") auto
  have f: "rfold (\<lambda>p u. validate_case_when T (snd p) (subject = NilExpression) ctx (item_path (path @ ''.branches'') (fst p)) u) (indexed branches) u1 = Inr u2"
    using u(2) unfolding indexed_map rfold_map by simp
  have r2: "report ctx u2 (aggregate_free subject \<and> list_all when_free branches) (reads_bare subject \<or> list_ex when_bare branches)
      (well_placed subject \<and> list_all when_placed branches)"
    by (rule indexed_report [OF f r1]) (use Case.IH(2) in auto)
  show ?case
  proof (cases fallback)
    case None
    then show ?thesis using u(3) r2 by (simp add: list.pred_map comp_def list_ex_iff)
  next
    case (Some e)
    then obtain v where v: "validate_expression T e ctx (path @ ''.fallback'') = Inr v" "u = usage_merge u2 v" using u(3) by auto
    from report_merge [OF r2 Case.IH(3) [OF _ v(1)]] Some v(2) show ?thesis by (simp add: list.pred_map comp_def list_ex_iff conj_assoc disj_assoc)
  qed
next
  case (Filter aggregate predicate)
  then obtain a v where "validate_expression T aggregate ctx (path @ ''.aggregate'') = Inr a" "eu_aggregate a"
      "validate_expression T predicate (outside_aggregates ctx) (path @ ''.predicate'') = Inr v"
      "u = \<lparr>eu_aggregate = True, eu_bare_column = eu_bare_column a\<rparr>"
    by (auto simp: validate_filter_def split: if_splits)
  then show ?case using Filter.IH(1) [of ctx] Filter.IH(2) [of "outside_aggregates ctx"] by (fastforce simp: report_def outside_aggregates_def)
next
  case (Over expr parts order)
  obtain z where e: "validate_expression T expr ctx (path @ ''.expression'') = Inr u"
    and w: "validate_window (map (\<lambda>e. validate_expression T e) parts)
           (zip order (map (\<lambda>t. validate_order_expression T t) order)) (outside_aggregates ctx) (path @ ''.window'') = Inr z"
    using Over.prems by (auto split: if_splits)
  have ww: "\<forall>x \<in> set parts. \<exists>p v. validate_expression T x (outside_aggregates ctx) p = Inr v"
      "\<forall>x \<in> set order. \<exists>p v. validate_order_expression T x (outside_aggregates ctx) p = Inr v"
    using window_walks [OF w] by simp_all
  have "aggregate_free x" if x: "x \<in> set parts" for x
    using ww(1) x Over.IH(2) [OF x, where ctx = "outside_aggregates ctx"] by (auto simp: report_def outside_aggregates_def)
  moreover have "order_free x" if x: "x \<in> set order" for x
    using ww(2) x Over.IH(3) [OF x, where ctx = "outside_aggregates ctx"] by (auto simp: report_def outside_aggregates_def)
  ultimately show ?case using Over.IH(1) [OF e] by (simp add: list_all_iff)
next
  case (TrustedFragment sql parts)
  then have "walk_all (path @ ''.parts'') (map (\<lambda>p. validate_fragment_part T p) parts) ctx no_usage = Inr u" by (simp split: if_splits)
  from walk_all_report [OF this TrustedFragment.IH] show ?case by (simp add: list.pred_map comp_def list_ex_iff)
next
  case (Logical operator expressions)
  then have "walk_all (path @ ''.expressions'') (map (\<lambda>e. validate_expression T e) expressions) ctx no_usage = Inr u" by (simp split: if_splits)
  from walk_all_report [OF this Logical.IH] show ?case by (simp add: list.pred_map comp_def list_ex_iff)
next
  case (Membership expr members negated subquery)
  from membership_report [OF Membership.prems [unfolded validate_expression.simps] Membership.IH(1) Membership.IH(2)]
  show ?case using subquery_report by (fastforce simp: list.pred_map comp_def list_ex_iff option_zip_def split: option.splits)
next
  case (Function name arguments star dist raw)
  have "report ctx u (\<not> aggregates (Function name [] star dist raw :: 'v expression) \<and> list_all aggregate_free arguments)
    (\<not> aggregates (Function name [] star dist raw :: 'v expression) \<and> list_ex reads_bare arguments)
    (if aggregates (Function name [] star dist raw :: 'v expression) then list_all aggregate_free arguments else list_all well_placed arguments)"
    by (rule function_report [OF Function.prems [unfolded validate_expression.simps]]) (rule Function.IH)
  then show ?case by (simp add: list.pred_map comp_def list_ex_iff cong: if_cong del: aggregates.simps)
next
  case (CaseWhen predicate result)
  then obtain u1 u2 where v: "validate_expression T predicate ctx (path @ ''.predicate'') = Inr u1"
      "validate_expression T result ctx (path @ ''.result'') = Inr u2" and u: "u = usage_merge us (usage_merge u1 u2)"
    by (auto split: if_splits simp: usage_merge_assoc)
  then show ?case using report_merge [OF CaseWhen.IH(1) [OF v(1)] CaseWhen.IH(2) [OF v(2)]] by auto
qed (auto dest: leaf_report subquery_report split: if_splits sum.splits)


subsection \<open>Placement in a statement\<close>

definition projection_step :: "source_scope \<Rightarrow> nat \<times> 'v projection \<times> expression_check \<Rightarrow> projection_scan \<Rightarrow> validation_error + projection_scan" where
  "projection_step sc = (\<lambda>(i, projection, walk) st. let path = item_path ''projections'' i in
        if projection = NilProjection then invalid path ''must not be nil'' []
        else rbind (if result_alias projection \<noteq> [] then err_at (path @ ''.alias'') (validate_alias (result_alias projection)) else Inr ()) (\<lambda>_.
        rbind (walk (projection_context sc) (path @ ''.expression'')) (\<lambda>usage.
        Inr \<lparr>ps_total = usage_merge (ps_total st) usage,
             ps_aggregate_path = (if eu_aggregate usage \<and> ps_aggregate_path st = [] then path else ps_aggregate_path st),
             ps_column_path = (if eu_bare_column usage \<and> ps_column_path st = [] then path else ps_column_path st)\<rparr>)))"

lemma projection_steps_report:
  assumes "rfold (projection_step sc) ys st = Inr st'" "report (projection_context sc) (ps_total st) free0 bare0 placed0"
    and "\<And>y. y \<in> set ys \<Longrightarrow> snd (snd y) = validate_projection T (fst (snd y))"
  shows "report (projection_context sc) (ps_total st') (free0 \<and> list_all (\<lambda>y. projection_free (fst (snd y))) ys)
     (bare0 \<or> list_ex (\<lambda>y. projection_bare (fst (snd y))) ys) (placed0 \<and> list_all (\<lambda>y. projection_placed (fst (snd y))) ys)"
  using assms
proof (induction ys arbitrary: st free0 bare0 placed0)
  case (Cons y ys)
  obtain i p w where y: "y = (i, p, w)" by (rule prod_cases3)
  have w: "w = validate_projection T p" using Cons.prems(3) [of y] y by simp
  obtain st1 where st1: "projection_step sc y st = Inr st1" "rfold (projection_step sc) ys st1 = Inr st'" using Cons.prems(1) by auto
  obtain path u where u: "validate_projection T p (projection_context sc) path = Inr u" "ps_total st1 = usage_merge (ps_total st) u"
    using st1(1) by (auto simp: y w projection_step_def Let_def split: if_splits)
  note m = report_merge [OF Cons.prems(2) expression_report(5) [OF u(1)], folded u(2)]
  have "report (projection_context sc) (ps_total st') ((free0 \<and> projection_free p) \<and> list_all (\<lambda>y. projection_free (fst (snd y))) ys)
     ((bare0 \<or> projection_bare p) \<or> list_ex (\<lambda>y. projection_bare (fst (snd y))) ys) ((placed0 \<and> projection_placed p) \<and> list_all (\<lambda>y. projection_placed (fst (snd y))) ys)"
    by (rule Cons.IH [OF st1(2) m]) (use Cons.prems(3) in simp)
  then show ?case by (simp add: y conj_assoc disj_assoc)
qed simp

lemma projection_set_report:
  assumes "validate_projection_set (zip ps (map (\<lambda>p. validate_projection T p) ps)) sc grouped = Inr u"
  shows "report (projection_context sc) u (list_all projection_free ps) (list_ex projection_bare ps) (list_all projection_placed ps) \<and>
    (grouped \<or> \<not> (eu_aggregate u \<and> eu_bare_column u))"
proof -
  let ?ys = "indexed (zip ps (map (\<lambda>p. validate_projection T p) ps))"
  obtain st where st: "rfold (projection_step sc) ?ys \<lparr>ps_total = no_usage, ps_aggregate_path = [], ps_column_path = []\<rparr> = Inr st"
    "u = ps_total st" "grouped \<or> \<not> (eu_aggregate u \<and> eu_bare_column u)"
    using assms unfolding validate_projection_set_def projection_step_def by (auto split: if_splits)
  have "snd (snd y) = validate_projection T (fst (snd y))" if "y \<in> set ?ys" for y
    using indexed_snd [OF that] by (auto simp: set_zip)
  from projection_steps_report [OF st(1) _ this, of True False True] st(2,3) show ?thesis
    by (simp add: list_indexed(1) [of "\<lambda>p. projection_free (fst p)"] list_indexed(2) [of "\<lambda>p. projection_bare (fst p)"]
      list_indexed(1) [of "\<lambda>p. projection_placed (fst p)"])
qed

lemma joins_free:
  assumes "validate_joins correlations ctes (zip joins (map (\<lambda>j. validate_join_on T j) joins)) s = Inr sc" "j \<in> set joins"
  shows "join_free j"
proof -
  obtain i u v where "validate_join correlations ctes (item_path ''joins'' i) j (validate_join_on T j) u = Inr v"
    using zipped_walks [OF assms(1) [unfolded validate_joins_def] assms(2)] by auto
  then obtain w r where "validate_join_on T j (subquery_clause_context w ''a JOIN ON condition'') (item_path ''joins'' i @ ''.on'') = Inr r"
    by (auto simp: validate_join_def Let_def split: if_splits sum.splits)
  from expression_report(9) [OF this] show ?thesis by (simp add: report_def)
qed

definition aggregates_placed :: "'v select \<Rightarrow> bool" where
  "aggregates_placed s =
     ((\<forall>j \<in> set (s_joins s). join_free j) \<and> aggregate_free (s_where s) \<and> (\<forall>e \<in> set (s_group_by s). aggregate_free e) \<and>
      (\<forall>p \<in> set (s_projections s). projection_placed p) \<and> well_placed (s_having s) \<and>
      (\<forall>t \<in> set (s_order_by s). od_result t = None \<longrightarrow> order_placed t) \<and>
      (s_group_by s = [] \<longrightarrow>
        (if \<exists>p \<in> set (s_projections s). \<not> projection_free p
         then (\<forall>p \<in> set (s_projections s). \<not> projection_bare p) \<and> \<not> reads_bare (s_having s) \<and>
           (\<forall>t \<in> set (s_order_by s). od_result t = None \<longrightarrow> \<not> order_bare t)
         else s_having s = NilExpression \<and> (\<forall>t \<in> set (s_order_by s). od_result t = None \<longrightarrow> order_free t))))"


lemma statement_aggregates:
  assumes "validate_statement T (Select pr fr co ct jo wh gr ha ob li os di lo False) = Inr ()"
  shows "aggregates_placed (Select pr fr co ct jo wh gr ha ob li os di lo False)"
proof -
  obtain sc0 sc' where "validate_joins co ct (zip jo (map (\<lambda>j. validate_join_on T j) jo)) sc0 = Inr sc'"
    using assms by (auto split: if_splits)
  note jo = joins_free [OF this]
  obtain sc usage where g: "validate_group_by (zip gr (map (\<lambda>e. validate_expression T e) gr)) sc = Inr ()"
    and p: "validate_projection_set (zip pr (map (\<lambda>p. validate_projection T p) pr)) sc (gr \<noteq> []) = Inr usage"
    and w: "wh \<noteq> NilExpression \<longrightarrow> (\<exists>u. validate_expression T wh (subquery_clause_context sc ''a WHERE clause'') ''where'' = Inr u)"
    and h: "validate_having ha (validate_expression T ha) sc usage (gr \<noteq> []) = Inr ()"
    and o: "validate_order_by pr (zip ob (map (\<lambda>t. validate_order_expression T t) ob)) sc usage (gr \<noteq> []) = Inr ()"
    using statement_walk [OF assms] by blast
  note ps = projection_set_report [OF p]
  have usage: "eu_aggregate usage \<longleftrightarrow> (\<exists>p \<in> set pr. \<not> projection_free p)" "eu_bare_column usage \<longleftrightarrow> (\<exists>p \<in> set pr. projection_bare p)"
    using ps by (auto simp: report_def list_all_iff list_ex_iff)
  have gr: "aggregate_free e" if e: "e \<in> set gr" for e
  proof -
    obtain q u where "validate_expression T e (subquery_clause_context sc ''a GROUP BY clause'') q = Inr u" using group_by_walks [OF g e] by blast
    from expression_report(1) [OF this] show ?thesis by (simp add: report_def)
  qed
  have wh: "aggregate_free wh"
  proof (cases "wh = NilExpression")
    case False
    then obtain u where "validate_expression T wh (subquery_clause_context sc ''a WHERE clause'') ''where'' = Inr u" using w by blast
    from expression_report(1) [OF this] show ?thesis by (simp add: report_def)
  qed simp
  have ha: "well_placed ha \<and> (ha \<noteq> NilExpression \<longrightarrow> gr \<noteq> [] \<or> eu_aggregate usage) \<and> (gr = [] \<longrightarrow> \<not> reads_bare ha)"
  proof (cases "ha = NilExpression")
    case False
    obtain u where u: "validate_expression T ha (aggregate_clause_context sc ''a HAVING clause'') ''having'' = Inr u" "gr \<noteq> [] \<or> \<not> eu_bare_column u"
      "gr \<noteq> [] \<or> eu_aggregate usage"
      using having_walk [OF h False] by blast
    from expression_report(1) [OF u(1)] u(2,3) show ?thesis by (auto simp: report_def)
  qed simp
  have ob: "order_placed t \<and> (gr = [] \<longrightarrow> (if eu_aggregate usage then \<not> order_bare t else order_free t))" if t: "t \<in> set ob" "od_result t = None" for t
  proof -
    obtain ctx q u where "validate_order_expression T t ctx q = Inr u" "gr = [] \<and> \<not> eu_aggregate usage \<longrightarrow> \<not> ec_allows_aggregate ctx"
      "ec_depth ctx = 0" "gr = [] \<and> eu_aggregate usage \<longrightarrow> \<not> eu_bare_column u"
      using order_by_walks [OF o t] by auto
    with expression_report(3) [of T t ctx q u] show ?thesis by (auto simp: report_def)
  qed
  show ?thesis using jo gr wh ha ob ps usage
    by (auto simp: aggregates_placed_def report_def list_all_iff)
qed

text \<open>
  C13. Aggregates stand only where SQL allows them. In every \<open>SELECT\<close> that the constructors
  can build, and outside its nested subqueries, join conditions, WHERE and the grouping keys
  call no aggregate; no aggregate is called inside another, in a FILTER predicate or in the
  PARTITION BY or ORDER BY of a window; and without GROUP BY one of two things holds. Either
  some projection calls an aggregate, and then projections, HAVING and ORDER BY read no column
  outside the calls of aggregates and their FILTER predicates, columns in the PARTITION BY and
  ORDER BY of a window excepted. Or no projection and no ORDER BY term calls one, and there is
  no HAVING.
\<close>
theorem built_select_places_aggregates:
  assumes "built T s"
  shows "aggregates_placed s"
proof -
  obtain pr fr co ct jo wh gr ha ob li os di lo ch where s: "s = Select pr fr co ct jo wh gr ha ob li os di lo ch" by (rule select.exhaust)
  have "validate_statement T (Select pr fr co ct jo wh gr ha ob li os di lo False) = Inr ()"
    using built_marked [OF assms] by (simp add: marked_valid_def s set_checked_def del: validate_statement.simps)
  from statement_aggregates [OF this] show ?thesis by (simp add: s aggregates_placed_def cong: if_cong)
qed

text \<open>A sample: \<open>SELECT COUNT(*) FROM users\<close>, and a second projection that it refuses.\<close>

definition count_select :: "'v select" where
  "count_select = Select [ExpressionProjection count_all []] users [] [] [] NilExpression [] NilExpression [] None None False None True"

lemma count_select_new: "new_correlated_joined_select T users [] [] [] [ExpressionProjection count_all []] = Inr (count_select :: 'v select)"
proof -
  have "validate_statement T (Select [ExpressionProjection count_all []] users [] [] [] NilExpression [] NilExpression [] None None False None False :: 'v select) = Inr ()"
    by (simp add: validate_visible_cte_def err_at_def validate_ctes_def indexed_def validate_correlations_def validate_source_reference_def
      empty_scope_def validate_joins_def validate_group_by_def validate_projection_set_def count_all_def validate_function_def function_specs_def
      validate_aggregate_function_def projection_context_def aggregate_clause_context_def clause_context_def
      scope_add_def usage_merge_def no_usage_def validate_having_def validate_order_by_def validate_bounds_def)
  then show ?thesis by (simp add: new_correlated_joined_select_def validated_Inr set_checked_def count_select_def del: validate_statement.simps)
qed

theorem built_select_places_aggregates_witness:
  "built ascii_tables (count_select :: nat select) \<and> aggregates_placed (count_select :: nat select) \<and>
   \<not> projection_free (hd (s_projections (count_select :: nat select)))"
proof -
  have b: "built ascii_tables (count_select :: nat select)" by (rule built.new [OF count_select_new])
  show ?thesis using b built_select_places_aggregates [OF b] by (simp add: count_select_def count_all_def function_specs_def)
qed

text \<open>
  The exception is real: \<open>SELECT COUNT(*), COUNT(*) OVER (PARTITION BY users.id) FROM users\<close> is
  accepted, which a database refuses, since \<open>id\<close> is neither grouped nor aggregated.
\<close>

definition windowed_count :: "'v expression" where
  "windowed_count = Over count_all [ColumnRef users ''id''] []"

theorem window_columns_are_not_counted:
  "\<exists>s :: nat select. new_correlated_joined_select T users [] [] [] [ExpressionProjection count_all [], ExpressionProjection windowed_count []] = Inr s \<and>
     s_group_by s = [] \<and> own_columns (windowed_count :: nat expression) = [(users, ''id'')]"
proof -
  have "validate_statement T (Select [ExpressionProjection count_all [], ExpressionProjection windowed_count []] users [] [] [] NilExpression [] NilExpression [] None None False None False :: nat select) = Inr ()"
    by (simp add: windowed_count_def validate_visible_cte_def err_at_def validate_ctes_def indexed_def validate_correlations_def validate_source_reference_def
      empty_scope_def validate_joins_def validate_group_by_def validate_projection_set_def count_all_def validate_function_def function_specs_def
      validate_aggregate_function_def projection_context_def aggregate_clause_context_def clause_context_def validate_window_def validate_column_ref_def walk_all_def
      outside_aggregates_def
      scope_add_def usage_merge_def no_usage_def validate_having_def validate_order_by_def validate_bounds_def)
  then show ?thesis by (simp add: new_correlated_joined_select_def validated_Inr set_checked_def windowed_count_def count_all_def del: validate_statement.simps)
qed

end
