(* ===== verification/Render_Select.thy ===== *)
theory Render_Select
  imports Render_Core
begin

text \<open>
  Rendering of expressions, query bodies and \<open>SELECT\<close> statements (\<open>render/select.go\<close>): one
  recursion over the statement types, as in the source.
\<close>

subsection \<open>Parts with children\<close>

definition write_membership :: "dialect \<Rightarrow> 'v writer \<Rightarrow> 'v writer list \<Rightarrow> bool \<Rightarrow> ('v select \<times> 'v writer) option \<Rightarrow> 'v writer" where
  "write_membership d expression members negated subquery = (case subquery of
       Some (statement, write) \<Rightarrow>
         require (\<not> ((s_limit statement \<noteq> None \<or> s_offset statement \<noteq> None) \<and> \<not> dialect_supports d SubqueryLimit))
           (RenderFailure ''a subquery used with IN must not set LIMIT or OFFSET'' [])
         (seq (emit ''('') (seq expression (seq (emit (if negated then '' NOT IN '' else '' IN ''))
           (seq (seq (emit ''('') (seq write (emit '')''))) (emit '')'')))))
     | None \<Rightarrow>
         require (members \<noteq> []) (RenderFailure ''IN requires at least one value'' [])
         (seq (emit ''('') (seq expression (seq (emit (if negated then '' NOT IN ('' else '' IN (''))
           (seq (write_separated '', '' members) (emit ''))''))))))"

fun write_fragments :: "gostring list \<Rightarrow> 'v writer list \<Rightarrow> 'v writer" where
  "write_fragments [] parts = nothing"
| "write_fragments (fragment # fragments) [] = seq (emit fragment) (write_fragments fragments [])"
| "write_fragments (fragment # fragments) (part # parts) = seq (emit fragment) (seq part (write_fragments fragments parts))"

definition write_window_order :: "'v order \<Rightarrow> 'v writer \<Rightarrow> 'v writer" where
  "write_window_order order write = seq write (emit (if od_descending order then '' DESC'' else []))"

definition write_over :: "'v writer \<Rightarrow> 'v writer list \<Rightarrow> 'v writer list \<Rightarrow> 'v writer" where
  "write_over expression parts orders =
     seq expression (seq (emit '' OVER ('')
       (seq (write_if (parts \<noteq> []) (seq (emit ''PARTITION BY '') (write_separated '', '' parts)))
       (seq (write_if (orders \<noteq> []) (seq (emit (if parts \<noteq> [] then '' '' else []))
            (seq (emit ''ORDER BY '') (write_separated '', '' orders))))
         (emit '')''))))"

definition write_case :: "'v writer option \<Rightarrow> 'v writer list \<Rightarrow> 'v writer option \<Rightarrow> 'v writer" where
  "write_case subject branches fallback =
     seq (emit ''(CASE'')
     (seq (case subject of None \<Rightarrow> nothing | Some w \<Rightarrow> seq (emit '' '') w)
     (seq (write_all branches)
     (seq (case fallback of None \<Rightarrow> nothing | Some w \<Rightarrow> seq (emit '' ELSE '') w)
       (emit '' END)''))))"

definition write_function :: "gostring \<Rightarrow> 'v writer list \<Rightarrow> bool \<Rightarrow> bool \<Rightarrow> 'v writer" where
  "write_function name arguments star dist =
     seq (emit name) (seq (emit ''('')
       (seq (if star then emit ''*''
             else seq (emit (if dist then ''DISTINCT '' else [])) (write_separated '', '' arguments))
         (emit '')'')))"

definition write_cast :: "dialect \<Rightarrow> column_type option \<Rightarrow> 'v writer \<Rightarrow> 'v writer" where
  "write_cast d target expression =
     seq (emit ''CAST('') (seq expression (seq (emit '' AS '')
       (seq (emit_result (case type_name (base d) (zero_column\<lparr>col_type := target\<rparr>) of Inl e \<Rightarrow> Inl (TypeNameError e) | Inr t \<Rightarrow> Inr t))
         (emit '')''))))"

definition write_order_term :: "dialect \<Rightarrow> 'v order \<Rightarrow> 'v writer \<Rightarrow> 'v writer" where
  "write_order_term d order write =
     seq (case od_result order of
            Some projection \<Rightarrow> write_ident d (case result_name projection of Some name \<Rightarrow> name | None \<Rightarrow> [])
          | None \<Rightarrow> write)
     (seq (emit (if od_descending order then '' DESC'' else []))
       (emit (if od_nulls order = 1 then '' NULLS FIRST'' else if od_nulls order = 2 then '' NULLS LAST'' else [])))"

definition write_alias :: "dialect \<Rightarrow> gostring \<Rightarrow> 'v writer" where
  "write_alias d alias = write_if (alias \<noteq> []) (\<lambda>r. rbind (quote_ident d alias) (\<lambda>quoted. emit ('' AS '' @ quoted) r))"

definition write_compound :: "dialect \<Rightarrow> 'v writer \<Rightarrow> compound_operator \<Rightarrow> 'v writer \<Rightarrow> 'v writer" where
  "write_compound d left operator right =
     (let parenthesize = (dialect_name d \<noteq> ''sqlite'') in
      seq (emit (if parenthesize then ''('' else []))
      (seq left
      (seq (emit (if parenthesize then '')'' else []))
      (seq (emit '' '')
      (seq (if operator = 1 then emit ''UNION'' else if operator = 2 then emit ''UNION ALL''
            else if operator = 3 then emit ''INTERSECT'' else if operator = 4 then emit ''EXCEPT''
            else fail (RenderFailure ''unsupported compound operator %d'' [IntArg (uint operator)]))
      (seq (emit (if parenthesize then '' ('' else '' ''))
      (seq right
        (emit (if parenthesize then '')'' else [])))))))))"

definition write_bound :: "dialect \<Rightarrow> gostring \<Rightarrow> int option \<Rightarrow> 'v writer" where
  "write_bound d keyword bound = (case bound of None \<Rightarrow> nothing | Some n \<Rightarrow> seq (emit keyword) (write_argument d (IntegerArg n)))"

definition in_cte_scope :: "(gostring \<times> nat) list \<Rightarrow> 'v writer \<Rightarrow> 'v writer" where
  "in_cte_scope added w r = rbind (w (r\<lparr>rr_cte_scope := rr_cte_scope r @ added\<rparr>)) (\<lambda>r'. Inr (r'\<lparr>rr_cte_scope := rr_cte_scope r\<rparr>))"

definition check_sources :: "dialect \<Rightarrow> 'v cte list \<Rightarrow> 'v relation_ref list \<Rightarrow> 'v writer" where
  "check_sources d ctes sources r = rbind (validate_select_sources d (rr_cte_scope r) ctes sources) (\<lambda>_. Inr r)"

subsection \<open>The recursion\<close>

primrec write_expression :: "(gostring \<Rightarrow> gostring) \<Rightarrow> dialect \<Rightarrow> 'v expression \<Rightarrow> 'v writer"
  and write_case_when :: "(gostring \<Rightarrow> gostring) \<Rightarrow> dialect \<Rightarrow> 'v case_when \<Rightarrow> 'v writer"
  and write_order_expression :: "(gostring \<Rightarrow> gostring) \<Rightarrow> dialect \<Rightarrow> 'v order \<Rightarrow> 'v writer"
  and write_fragment_part :: "(gostring \<Rightarrow> gostring) \<Rightarrow> dialect \<Rightarrow> 'v fragment_part \<Rightarrow> 'v writer"
  and write_projection :: "(gostring \<Rightarrow> gostring) \<Rightarrow> dialect \<Rightarrow> 'v projection \<Rightarrow> 'v writer"
  and write_table :: "(gostring \<Rightarrow> gostring) \<Rightarrow> dialect \<Rightarrow> 'v relation_ref \<Rightarrow> 'v writer"
  and write_cte :: "(gostring \<Rightarrow> gostring) \<Rightarrow> dialect \<Rightarrow> 'v cte \<Rightarrow> 'v writer"
  and write_query_body :: "(gostring \<Rightarrow> gostring) \<Rightarrow> dialect \<Rightarrow> 'v query_body \<Rightarrow> 'v writer"
  and write_join :: "(gostring \<Rightarrow> gostring) \<Rightarrow> dialect \<Rightarrow> 'v join \<Rightarrow> 'v writer"
  and write_select :: "(gostring \<Rightarrow> gostring) \<Rightarrow> dialect \<Rightarrow> 'v select \<Rightarrow> 'v writer" where
  "write_expression L d NilExpression = fail (RenderFailure ''unsupported expression %T'' [])"
| "write_expression L d (ColumnRef source name) = write_column_ref d source name"
| "write_expression L d (ExcludedColumn source name) = write_excluded_column d name"
| "write_expression L d (TableIdentifier source) = write_table_identifier d source"
| "write_expression L d (Value v) = write_argument d (BoundArg v)"
| "write_expression L d (Binary left operator right) =
     require (operator = ''MATCH'' \<longrightarrow> dialect_supports d MatchOperator) (UnsupportedMatchOperator (dialect_name d))
     (seq (emit ''('') (seq (write_expression L d left) (seq (emit ('' '' @ operator @ '' ''))
       (seq (write_expression L d right) (emit '')'')))))"
| "write_expression L d (Case subject branches fallback) =
     write_case (if subject = NilExpression then None else Some (write_expression L d subject))
       (map (\<lambda>b. write_case_when L d b) branches) (map_option (\<lambda>e. write_expression L d e) fallback)"
| "write_expression L d (Cast expr target) = write_cast d target (write_expression L d expr)"
| "write_expression L d (Filter aggregate predicate) =
     require (dialect_supports d AggregateFilter) (UnsupportedAggregateFilter (dialect_name d))
     (seq (write_expression L d aggregate) (seq (emit '' FILTER (WHERE '')
       (seq (write_expression L d predicate) (emit '')''))))"
| "write_expression L d (Over expr parts order) =
     write_over (write_expression L d expr) (map (\<lambda>e. write_expression L d e) parts)
       (map2 write_window_order order (map (\<lambda>t. write_order_expression L d t) order))"
| "write_expression L d (TrustedFragment sql parts) = write_fragments (split_markers sql) (map (\<lambda>p. write_fragment_part L d p) parts)"
| "write_expression L d (Logical operator expressions) =
     seq (emit ''('') (seq (write_separated ('' '' @ operator @ '' '') (map (\<lambda>e. write_expression L d e) expressions)) (emit '')''))"
| "write_expression L d (NotExpression expr) = seq (emit ''(NOT '') (seq (write_expression L d expr) (emit '')''))"
| "write_expression L d (NullTest expr negated) =
     seq (emit ''('') (seq (write_expression L d expr) (emit (if negated then '' IS NOT NULL)'' else '' IS NULL)'')))"
| "write_expression L d (Membership expr values negated subquery) =
     write_membership d (write_expression L d expr) (map (\<lambda>e. write_expression L d e) values) negated
       (option_zip subquery (map_option (\<lambda>s. write_select L d s) subquery))"
| "write_expression L d (Function name arguments star dist raw) =
     write_function name (map (\<lambda>e. write_expression L d e) arguments) star dist"
| "write_expression L d (Subquery statement) = seq (emit ''('') (seq (write_select L d statement) (emit '')''))"
| "write_expression L d (Existence statement negated) =
     seq (emit (if negated then ''(NOT EXISTS '' else ''(EXISTS ''))
       (seq (seq (emit ''('') (seq (write_select L d statement) (emit '')''))) (emit '')''))"
| "write_expression L d (OtherExpression name) = fail (RenderFailure ''unsupported expression %T'' [QuotedArg name])"
| "write_case_when L d (CaseWhen predicate result) =
     seq (emit '' WHEN '') (seq (write_expression L d predicate) (seq (emit '' THEN '') (write_expression L d result)))"
| "write_order_expression L d (Order expression result descending nulls) = write_expression L d expression"
| "write_fragment_part L d (FragmentHole value) = write_expression L d value"
| "write_fragment_part L d (IdentifierHole name) = write_ident d name"
| "write_fragment_part L d OtherPart = fail (RenderFailure ''unsupported fragment part %T'' [])"
| "write_projection L d NilProjection = fail (RenderFailure ''unsupported expression %T'' [])"
| "write_projection L d (ColumnProjection source name) = write_column_ref d source name"
| "write_projection L d (ExpressionProjection expression alias) = seq (write_expression L d expression) (write_alias d alias)"
| "write_table L d NoRelation = fail (RenderFailure ''relation %q must have an alias'' [QuotedArg []])"
| "write_table L d (TableRelation table) = write_physical_table d table"
| "write_table L d (ResultRelation address body columns alias) =
     require (alias \<noteq> []) (RenderFailure ''relation %q must have an alias'' [QuotedArg []])
     (seq (emit ''('') (seq (write_query_body L d body) (seq (emit '') AS '') (write_ident d alias))))"
| "write_table L d (CteRelation address c alias) =
     seq (write_ident d (cte_name c)) (write_if (alias \<noteq> cte_name c) (seq (emit '' AS '') (write_ident d alias)))"
| "write_cte L d (Cte name body columns ident) =
     seq (write_ident d name) (seq (emit '' AS ('') (seq (write_query_body L d body) (emit '')'')))"
| "write_query_body L d NilBody = fail (RenderFailure ''unsupported query body %T'' [])"
| "write_query_body L d (NativeResult engine sql args) = write_native_result L d engine sql args"
| "write_query_body L d (SelectBody s) = write_select L d s"
| "write_query_body L d (Compound left left_columns operator right right_columns) =
     write_compound d (write_query_body L d left) operator (write_query_body L d right)"
| "write_join L d (Join jtype source on) =
     seq (emit ('' '' @ jtype @ '' JOIN '')) (seq (write_table L d source) (seq (emit '' ON '') (write_expression L d on)))"
| "write_select L d (Select projections source correlations ctes joins whr group_by having order_by limit offset dist lock checked) =
     in_cte_scope (map (\<lambda>c. (cte_name c, cte_id c)) ctes)
     (seq (check_sources d ctes (correlations @ source # map jn_source joins))
     (seq (write_if (ctes \<noteq> []) (seq (emit ''WITH '') (seq (write_separated '', '' (map (\<lambda>c. write_cte L d c) ctes)) (emit '' ''))))
     (seq (emit ''SELECT '') (seq (emit (if dist then ''DISTINCT '' else []))
     (seq (write_separated '', '' (map (\<lambda>p. write_projection L d p) projections))
     (seq (emit '' FROM '') (seq (write_table L d source)
     (seq (write_all (map (\<lambda>j. write_join L d j) joins))
     (seq (write_if (whr \<noteq> NilExpression) (seq (emit '' WHERE '') (write_expression L d whr)))
     (seq (write_if (group_by \<noteq> []) (seq (emit '' GROUP BY '') (write_separated '', '' (map (\<lambda>e. write_expression L d e) group_by))))
     (seq (write_if (having \<noteq> NilExpression) (seq (emit '' HAVING '') (write_expression L d having)))
     (seq (write_if (order_by \<noteq> []) (seq (emit '' ORDER BY '')
        (write_separated '', '' (map2 (write_order_term d) order_by (map (\<lambda>t. write_order_expression L d t) order_by)))))
     (seq (write_bound d '' LIMIT '' limit) (seq (write_bound d '' OFFSET '' offset)
       (case lock of None \<Rightarrow> nothing | Some l \<Rightarrow> write_lock d l)))))))))))))))"


subsection \<open>Statements\<close>

primrec body_correlations :: "'v query_body \<Rightarrow> 'v relation_ref list" where
  "body_correlations NilBody = []"
| "body_correlations (NativeResult engine sql args) = []"
| "body_correlations (SelectBody s) = s_correlations s"
| "body_correlations (Compound left left_columns operator right right_columns) = body_correlations left @ body_correlations right"

primrec metadata_relation :: "case_tables \<Rightarrow> 'v relation_ref \<Rightarrow> validation_error + unit"
  and metadata_cte :: "case_tables \<Rightarrow> 'v cte \<Rightarrow> validation_error + unit"
  and validate_result_metadata :: "case_tables \<Rightarrow> 'v query_body \<Rightarrow> result_column list \<Rightarrow> validation_error + unit"
  and metadata_join :: "case_tables \<Rightarrow> 'v join \<Rightarrow> validation_error + unit"
  and metadata_select :: "case_tables \<Rightarrow> 'v select \<Rightarrow> result_column list \<Rightarrow> validation_error + unit" where
  "metadata_relation T NoRelation = Inr ()"
| "metadata_relation T (TableRelation table) = Inr ()"
| "metadata_relation T (ResultRelation address body columns alias) = validate_result_metadata T body columns"
| "metadata_relation T (CteRelation address c alias) = metadata_cte T c"
| "metadata_cte T (Cte name body columns ident) = validate_result_metadata T body columns"
| "validate_result_metadata T NilBody = (\<lambda>columns. Inr ())"
| "validate_result_metadata T (NativeResult engine sql args) = (\<lambda>columns. validate_native T engine sql)"
| "validate_result_metadata T (SelectBody s) = metadata_select T s"
| "validate_result_metadata T (Compound left left_columns operator right right_columns) = (\<lambda>columns.
     rbind (validate_result_metadata T left left_columns) (\<lambda>_.
     rbind (validate_result_metadata T right right_columns) (\<lambda>_.
     if length left_columns \<noteq> length columns
       then Inl (ValidationError [] ''result columns count %d does not match compound output count %d'' [IntArg (int (length columns)), IntArg (int (length left_columns))])
     else Inr ())))"
| "metadata_join T (Join jtype source on) = metadata_relation T source"
| "metadata_select T (Select projections source correlations ctes joins whr group_by having order_by limit offset dist lock checked) = (\<lambda>columns.
     rbind (metadata_relation T source) (\<lambda>_.
     rbind (rfold (\<lambda>res _. res) (map (\<lambda>j. metadata_join T j) joins) ()) (\<lambda>_.
     rbind (rfold (\<lambda>res _. res) (map (\<lambda>c. metadata_cte T c) ctes) ()) (\<lambda>_.
     if length projections \<noteq> length columns
       then Inl (ValidationError [] ''result columns count %d does not match SELECT projection count %d'' [IntArg (int (length columns)), IntArg (int (length projections))])
     else Inr ()))))"

type_synonym 'v stmt = "gostring \<times> 'v arg list"

definition new_renderer :: "'v renderer" where
  "new_renderer = \<lparr>rr_text = [], rr_args = [], rr_excluded_style = UpsertUnsupported, rr_in_excluded = False, rr_cte_scope = []\<rparr>"

definition render_statement :: "gostring \<Rightarrow> validation_error + unit \<Rightarrow> 'v writer \<Rightarrow> render_error + 'v stmt" where
  "render_statement operation validation write = (case validation of
       Inl e \<Rightarrow> Inl (InvalidStatement operation e)
     | Inr _ \<Rightarrow> rbind (write new_renderer) (\<lambda>r. Inr (rr_text r, rr_args r)))"

definition render_select :: "case_tables \<Rightarrow> dialect \<Rightarrow> 'v select \<Rightarrow> render_error + 'v stmt" where
  "render_select T d s = render_statement ''SELECT'' (validate_statement T s)
     (if s_correlations s \<noteq> [] then fail (RenderFailure ''the statement declares a correlation with table %q and is rendered on its own'' [QuotedArg (rel_qualified_name (hd (s_correlations s)))])
      else write_select (ct_lower T) d s)"

definition render_result :: "case_tables \<Rightarrow> dialect \<Rightarrow> 'v result_query \<Rightarrow> render_error + 'v stmt" where
  "render_result T d q = render_statement ''SELECT''
     (if fst q = NilBody then Inl (plain_error ''result query body must not be empty'')
      else rbind (validate_body T (fst q)) (\<lambda>_. validate_result_metadata T (fst q) (snd q)))
     (if body_correlations (fst q) \<noteq> [] then fail (RenderFailure ''the statement declares a correlation with table %q and is rendered on its own'' [QuotedArg (rel_qualified_name (hd (body_correlations (fst q))))])
      else write_query_body (ct_lower T) d (fst q))"

end
