(* ===== verification/Render_Relation.thy ===== *)
theory Render_Relation
  imports Render_Select
begin

text \<open>
  One induction over the renderer. The locale \<open>writer_relation\<close> states what a relation
  between the writers of two renderers has to satisfy on the primitive writers; its lemmas
  carry the relation to every composite writer and to whole statements, one side rendering
  the statement with its bound values replaced through \<open>f\<close> and for a dialect that may write
  other placeholders. A property of one renderer is the special case where \<open>f\<close> is the identity
  and the dialects are the same.
\<close>

definition scope_guard :: "((gostring \<times> nat) list \<Rightarrow> render_error option) \<Rightarrow> 'v writer" where
  "scope_guard g r = (case g (rr_cte_scope r) of Some e \<Rightarrow> Inl e | None \<Rightarrow> Inr r)"

subsection \<open>Replacing bound values\<close>

lemma map_rel_simps [simp]:
  "rel_table (map_relation_ref f r) = rel_table r" "rel_alias (map_relation_ref f r) = rel_alias r"
  "rel_cte_name (map_relation_ref f r) = rel_cte_name r" "rel_cte_identity (map_relation_ref f r) = rel_cte_identity r"
  "rel_key (map_relation_ref f r) = rel_key r" "rel_validate (map_relation_ref f r) = rel_validate r"
  by (cases r; simp add: cte.map_sel)+

lemma map_rel_result [simp]: "map_option snd (rel_result (map_relation_ref f r)) = map_option snd (rel_result r)"
  by (cases r) (simp_all add: cte.map_sel)

lemma map_rel_derived [simp]:
  "rel_qualifier (map_relation_ref f r) = rel_qualifier r" "rel_qualifier_schema (map_relation_ref f r) = rel_qualifier_schema r"
  "rel_qualified_name (map_relation_ref f r) = rel_qualified_name r" "rel_definition (map_relation_ref f r) = rel_definition r"
  "rel_reference (map_relation_ref f r) = rel_reference r"
  by (simp_all add: rel_qualifier_def rel_qualifier_schema_def rel_qualified_name_def rel_definition_def rel_reference_def split: option.split)

lemma map_has_column [simp]: "has_column (map_relation_ref f r) name = has_column r name"
  by (cases r) (simp_all add: has_column_def cte.map_sel)

lemma map_nil [simp]: "map_expression f e = NilExpression \<longleftrightarrow> e = NilExpression"
  by (cases e) simp_all

lemma map_result_name [simp]: "result_name (map_projection f p) = result_name p"
  by (cases p) simp_all

lemma add_source_map [simp]: "add_source d ctes (map_relation_ref f r) = add_source d ctes r"
  by (rule ext) (simp add: add_source_def visible_source_from_table_def)

lemma rfold_add_source_map [simp]: "rfold (add_source d ctes) (map (map_relation_ref f) rs) s = rfold (add_source d ctes) rs s"
  by (induction rs arbitrary: s) (auto simp: rbind_def split: sum.split)

lemma cte_names_collide_map [simp]: "cte_names_collide d (map (map_cte f) cs) = cte_names_collide d cs"
proof -
  have "map (\<lambda>i. map (\<lambda>j. (cte_name (map (map_cte f) cs ! j), cte_name (map (map_cte f) cs ! i))) [0..<i]) [0..<length cs] =
    map (\<lambda>i. map (\<lambda>j. (cte_name (cs ! j), cte_name (cs ! i))) [0..<i]) [0..<length cs]"
    by (intro map_cong refl) (simp add: cte.map_sel)
  then show ?thesis by (simp only: cte_names_collide_def length_map)
qed

lemma check_sources_guard:
  "check_sources d ctes rs = scope_guard (\<lambda>scope. case validate_select_sources d scope ctes rs of Inl e \<Rightarrow> Some e | Inr _ \<Rightarrow> None)"
  by (rule ext) (simp add: check_sources_def scope_guard_def rbind_def split: sum.split)

lemma validate_select_sources_map [simp]:
  "validate_select_sources d scope (map (map_cte f) cs) (map (map_relation_ref f) rs) = validate_select_sources d scope cs rs"
  by (simp add: validate_select_sources_def comp_def cte.map_sel cong: option.case_cong)

lemma nothing_emit: "nothing = emit []"
  by (rule ext) (simp add: nothing_def emit_def)

lemma emit_result_simps: "emit_result (Inl e) = fail e" "emit_result (Inr s) = emit s"
  by (rule ext, simp add: emit_result_def fail_def)+

lemma emit_prefixed: "(\<lambda>r. rbind res (\<lambda>q. emit (p @ q) r)) = emit_result (rbind res (\<lambda>q. Inr (p @ q)))"
  by (rule ext) (cases res, simp_all add: emit_result_def)

lemma column_ref_result:
  "write_column_ref d source name = emit_result (rbind (quote_qualified d (rel_qualifier_schema source) (rel_qualifier source)) (\<lambda>q.
     rbind (quote_ident d name) (\<lambda>c. Inr (q @ ''.'' @ c))))"
  by (rule ext) (simp add: write_column_ref_def emit_result_def rbind_def split: sum.split)

text \<open>Native SQL as a writer: the arguments it binds are the only use of their values.\<close>

definition native_rest :: "dialect \<Rightarrow> gostring \<Rightarrow> 'v list \<Rightarrow> placeholder list \<Rightarrow> native_state \<Rightarrow> 'v writer" where
  "native_rest d sql args phs st r = rbind (rfold (native_step d sql args) phs (st, r)) (\<lambda>(st', r'). native_finish d sql args st' r')"

lemma native_rest_Nil:
  "native_rest d sql args [] st = seq (emit (drop (ns_last st) sql))
     (if dialect_name d = ''postgresql'' then
       (case find (\<lambda>i. i \<notin> ns_used st) [0..<length args] of
          Some i \<Rightarrow> fail (InvalidPlaceholder ''native PostgreSQL argument %d is not referenced'' [IntArg (int i + 1)])
        | None \<Rightarrow> nothing)
     else if ns_next st \<noteq> length args
       then fail (InvalidPlaceholder ''native placeholder count %d does not match argument count %d'' [IntArg (int (ns_next st)), IntArg (int (length args))])
     else nothing)"
  by (rule ext) (simp add: native_rest_def native_finish_def seq_def emit_def fail_def nothing_def split: option.split)

definition native_refusal :: "dialect \<Rightarrow> nat \<Rightarrow> placeholder \<Rightarrow> native_state \<Rightarrow> render_error option" where
  "native_refusal d n ph st =
    (if ph_kind ph \<noteq> (if dialect_name d = ''postgresql'' then Dollar else Question) \<or> ph_invalid ph
       then Some (InvalidPlaceholder ''native placeholder syntax does not match %s'' [QuotedArg (dialect_name d)])
     else if ph_start ph < ns_last st then Some (InvalidPlaceholder ''native placeholder scan is out of order'' [])
     else if dialect_name d = ''postgresql'' \<and> (ph_number ph = 0 \<or> n < ph_number ph)
       then Some (InvalidPlaceholder ''native PostgreSQL placeholder $%d is out of range'' [IntArg (int (ph_number ph))])
     else if dialect_name d \<noteq> ''postgresql'' \<and> n \<le> ns_next st
       then Some (InvalidPlaceholder ''native placeholder count exceeds argument count'' [])
     else None)"

definition native_index :: "dialect \<Rightarrow> placeholder \<Rightarrow> native_state \<Rightarrow> nat" where
  "native_index d ph st = (if dialect_name d = ''postgresql'' then ph_number ph - 1 else ns_next st)"

definition native_advance :: "dialect \<Rightarrow> placeholder \<Rightarrow> native_state \<Rightarrow> native_state" where
  "native_advance d ph st =
     \<lparr>ns_used = (if dialect_name d = ''postgresql'' then insert (native_index d ph st) (ns_used st) else ns_used st),
      ns_next = (if dialect_name d = ''postgresql'' then ns_next st else ns_next st + 1), ns_last = ph_end ph\<rparr>"

lemma native_index_bound: "native_refusal d n ph st = None \<Longrightarrow> native_index d ph st < n"
  by (auto simp: native_refusal_def native_index_def split: if_splits)

lemma native_rest_Cons:
  "native_rest d sql args (ph # phs) st = (case native_refusal d (length args) ph st of
       Some e \<Rightarrow> fail e
     | None \<Rightarrow> seq (seq (emit (Go_Base.slice sql (ns_last st) (ph_start ph))) (write_argument d (BoundArg (args ! native_index d ph st))))
         (native_rest d sql args phs (native_advance d ph st)))"
  by (rule ext) (auto simp: native_rest_def native_step_def native_refusal_def native_index_def native_advance_def
      seq_def fail_def Let_def rbind_def split: sum.split)

lemma write_native_rest:
  "write_native_result L d engine sql args =
     (if engine \<noteq> dialect_name d then fail (NativeEngineMismatch engine (dialect_name d))
      else (case scan L sql (Some engine) of
          Inl e \<Rightarrow> fail (NativeScan e)
        | Inr res \<Rightarrow>
            if semicolons res \<noteq> [] then fail (RenderFailure ''embedded SQL must not contain an executable semicolon'' [])
            else native_rest d sql args (placeholders res) \<lparr>ns_used = {}, ns_next = 0, ns_last = 0\<rparr>))"
  by (rule ext) (simp add: write_native_result_def native_rest_def fail_def split: sum.split)

subsection \<open>Other placeholders\<close>

text \<open>A dialect that differs from another in nothing but how it writes its placeholders.\<close>

fun with_placeholder :: "(int \<Rightarrow> gostring) \<Rightarrow> dialect \<Rightarrow> dialect" where
  "with_placeholder p (SqliteBuiltin b) = SqliteBuiltin (b\<lparr>bd_placeholder := p\<rparr>)"
| "with_placeholder p (Builtin b) = Builtin (b\<lparr>bd_placeholder := p\<rparr>)"

definition alike :: "dialect \<Rightarrow> dialect \<Rightarrow> bool" where
  "alike d d' = (\<exists>p. d' = with_placeholder p d)"

lemma alike_refl: "alike d d"
  unfolding alike_def by (rule exI [of _ "bd_placeholder (base d)"]) (cases d, simp_all)

lemma type_name_with: "type_name (b\<lparr>bd_placeholder := p\<rparr>) = type_name b"
proof -
  let ?b = "b\<lparr>bd_placeholder := p\<rparr>"
  have same: "unsigned_type_name ?b = unsigned_type_name b" "kind_type_name ?b = kind_type_name b"
    "decimal_type_name ?b = decimal_type_name b" "text_type_name ?b = text_type_name b"
    by (intro ext, simp add: unsigned_type_name_def kind_type_name_def decimal_type_name_def text_type_name_def cong: option.case_cong if_cong)+
  have name: "bd_name ?b = bd_name b" by simp
  show ?thesis unfolding type_name_def [abs_def] same name ..
qed

lemma alike_base:
  assumes "alike d d'"
  shows "quote_ident d' = quote_ident d" "dialect_name d' = dialect_name d" "dialect_supports d' = dialect_supports d"
    "identifiers_equal d' = identifiers_equal d" "type_name (base d') = type_name (base d)" "bd_upsert (base d') = bd_upsert (base d)"
proof -
  obtain p where d': "d' = with_placeholder p d" using assms by (auto simp: alike_def)
  show "quote_ident d' = quote_ident d" "dialect_name d' = dialect_name d" "dialect_supports d' = dialect_supports d"
    "identifiers_equal d' = identifiers_equal d" "type_name (base d') = type_name (base d)" "bd_upsert (base d') = bd_upsert (base d)"
    unfolding d' by (cases d; simp add: fun_eq_iff quote_ident_def quote_identifier_def dialect_name_def dialect_supports_def supports_def type_name_with cong: sum.case_cong)+
qed

subsection \<open>The induction\<close>

locale writer_relation =
  fixes d d' :: dialect and f :: "'v \<Rightarrow> 'w" and R :: "'v writer \<Rightarrow> 'w writer \<Rightarrow> bool"
  assumes alike: "alike d d'"
    and emit: "R (emit s) (emit s)"
    and fail: "R (fail e) (fail e)"
    and seq: "R w w' \<Longrightarrow> R x x' \<Longrightarrow> R (seq w x) (seq w' x')"
    and argument: "R (write_argument d a) (write_argument d' (map_arg f a))"
    and excluded: "R (write_excluded_column d name) (write_excluded_column d' name)"
    and guard: "R (scope_guard g) (scope_guard g)"
    and scope: "R w w' \<Longrightarrow> R (in_cte_scope added w) (in_cte_scope added w')"
    and excluded_scope: "R w w' \<Longrightarrow> R (in_excluded_scope style w) (in_excluded_scope style w')"
begin

lemmas base_same = alike_base [OF alike]

lemma quote_qualified_same: "quote_qualified d' = quote_qualified d"
  unfolding quote_qualified_def [abs_def] base_same ..

lemma sources_same: "validate_select_sources d' = validate_select_sources d"
proof -
  have conflict: "source_identifiers_conflict d' = source_identifiers_conflict d" unfolding source_identifiers_conflict_def [abs_def] base_same ..
  have add: "add_source d' = add_source d" unfolding add_source_def [abs_def] conflict base_same ..
  have collide: "cte_names_collide d' = cte_names_collide d" unfolding cte_names_collide_def [abs_def] base_same ..
  show ?thesis unfolding validate_select_sources_def [abs_def] add collide base_same ..
qed

lemma native_same: "native_refusal d' = native_refusal d" "native_index d' = native_index d" "native_advance d' = native_advance d"
proof -
  show index: "native_index d' = native_index d" unfolding native_index_def [abs_def] base_same ..
  show "native_refusal d' = native_refusal d" unfolding native_refusal_def [abs_def] base_same ..
  show "native_advance d' = native_advance d" unfolding native_advance_def [abs_def] index base_same ..
qed

lemma rel_nothing: "R nothing nothing"
  unfolding nothing_emit by (rule emit)

lemma write_all: "list_all2 R ws ws' \<Longrightarrow> R (write_all ws) (write_all ws')"
  by (induction rule: list_all2_induct) (simp_all add: rel_nothing seq)

lemma write_tail: "list_all2 R ws ws' \<Longrightarrow> R (write_tail sep ws) (write_tail sep ws')"
  by (induction rule: list_all2_induct) (simp_all add: rel_nothing seq emit)

lemma write_separated: "list_all2 R ws ws' \<Longrightarrow> R (write_separated sep ws) (write_separated sep ws')"
  by (cases ws; cases ws') (simp_all add: rel_nothing seq write_tail)

lemma write_fragments: "list_all2 R ws ws' \<Longrightarrow> R (write_fragments fs ws) (write_fragments fs ws')"
proof (induction fs arbitrary: ws ws')
  case (Cons a fs)
  then show ?case by (cases ws; cases ws') (simp_all add: seq emit)
qed (simp add: rel_nothing)

lemma write_if: "R w w' \<Longrightarrow> R (write_if b w) (write_if b w')"
  by (simp add: write_if_def rel_nothing)

lemma write_if_list: "list_all2 P xs ys \<Longrightarrow> (xs \<noteq> [] \<Longrightarrow> ys \<noteq> [] \<Longrightarrow> R w w') \<Longrightarrow> R (write_if (xs \<noteq> []) w) (write_if (ys \<noteq> []) w')"
  by (cases xs; cases ys) (simp_all add: write_if_def rel_nothing)

lemma require: "R w w' \<Longrightarrow> R (require b e w) (require b e w')"
  by (simp add: require_def fail)

lemma emit_result: "R (emit_result res) (emit_result res)"
  by (cases res) (simp_all add: emit_result_simps emit fail)

lemma write_ident: "R (write_ident d name) (write_ident d' name)"
  by (simp add: write_ident_def emit_result base_same)

lemma write_alias_text: "R (\<lambda>r. rbind res (\<lambda>q. Render_Core.emit (p @ q) r)) (\<lambda>r. rbind res (\<lambda>q. Render_Core.emit (p @ q) r))"
  unfolding emit_prefixed by (rule emit_result)

lemma write_column_ref: "R (write_column_ref d source name) (write_column_ref d' (map_relation_ref f source) name)"
  unfolding column_ref_result map_rel_derived base_same quote_qualified_same by (rule emit_result)

lemma write_physical_table: "R (write_physical_table d table) (write_physical_table d' table)"
  unfolding write_physical_table_def base_same quote_qualified_same by (intro seq write_if write_alias_text emit_result)

lemma write_lock: "R (write_lock d lock) (write_lock d' lock)"
  unfolding write_lock_def base_same
  by (intro require seq emit write_if write_separated) (simp add: list_all2_conv_all_nth write_ident)

lemma native_rest: "R (native_rest d sql args phs st) (native_rest d' sql (map f args) phs st)"
proof (induction phs arbitrary: st)
  case Nil
  show ?case unfolding native_rest_Nil length_map base_same
    by (intro seq emit) (auto simp: fail rel_nothing split: option.split)
next
  case (Cons ph phs)
  show ?case
  proof (cases "native_refusal d (length args) ph st")
    case None
    have "R (write_argument d (BoundArg (args ! native_index d ph st))) (write_argument d' (BoundArg (map f args ! native_index d ph st)))"
      using argument [of "BoundArg (args ! native_index d ph st)"] native_index_bound [OF None] by simp
    then show ?thesis using None unfolding native_rest_Cons native_same by (simp add: seq emit Cons.IH)
  next
    case (Some e)
    then show ?thesis unfolding native_rest_Cons native_same by (simp add: fail)
  qed
qed

lemma write_native: "R (write_native_result L d engine sql args) (write_native_result L d' engine sql (map f args))"
  unfolding write_native_rest base_same by (auto simp: fail native_rest split: sum.split)

lemma check_sources: "R (check_sources d ctes sources) (check_sources d' (map (map_cte f) ctes) (map (map_relation_ref f) sources))"
  unfolding check_sources_guard sources_same validate_select_sources_map by (rule guard)

lemma write_case: "rel_option R subject subject' \<Longrightarrow> list_all2 R branches branches' \<Longrightarrow> rel_option R fallback fallback' \<Longrightarrow>
    R (write_case subject branches fallback) (write_case subject' branches' fallback')"
  unfolding write_case_def
  by (intro seq emit write_all) (auto simp: rel_nothing seq emit split: option.split elim: option.rel_cases)

lemma write_over: "R w w' \<Longrightarrow> list_all2 R parts parts' \<Longrightarrow> list_all2 R orders orders' \<Longrightarrow>
    R (write_over w parts orders) (write_over w' parts' orders')"
  unfolding write_over_def
  by (intro seq emit write_if_list) (auto intro!: seq emit write_separated)

lemma write_function: "list_all2 R arguments arguments' \<Longrightarrow>
    R (write_function name arguments star dist) (write_function name arguments' star dist)"
  unfolding write_function_def by (auto intro!: seq emit write_separated)

lemma write_cast: "R w w' \<Longrightarrow> R (write_cast d target w) (write_cast d' target w')"
  unfolding write_cast_def base_same by (intro seq emit emit_result)

lemma write_alias: "R (write_alias d alias) (write_alias d' alias)"
  unfolding write_alias_def base_same by (intro write_if write_alias_text)

lemma write_compound: "R w w' \<Longrightarrow> R x x' \<Longrightarrow> R (write_compound d w operator x) (write_compound d' w' operator x')"
  unfolding write_compound_def Let_def base_same by (auto intro!: seq emit fail)

lemma write_bound: "R (write_bound d keyword bound) (write_bound d' keyword bound)"
  using argument [of "IntegerArg _"] by (auto simp: write_bound_def rel_nothing intro!: seq emit split: option.split)

lemma write_order_term: "R w w' \<Longrightarrow> R (write_order_term d order w) (write_order_term d' (map_order f order) w')"
  unfolding write_order_term_def
  by (cases order) (auto intro!: seq emit write_ident split: option.split)

lemma write_window_order: "R w w' \<Longrightarrow> R (write_window_order order w) (write_window_order (map_order f order) w')"
  unfolding write_window_order_def by (cases order) (auto intro!: seq emit)

lemma write_membership:
  assumes "R w w'" "list_all2 R members members'"
    and "rel_option (\<lambda>(s, v) (s', v'). s' = map_select f s \<and> R v v') subquery subquery'"
  shows "R (write_membership d w members negated subquery) (write_membership d' w' members' negated subquery')"
  using assms(3)
proof cases
  case None
  then show ?thesis using assms(1,2) unfolding write_membership_def base_same
    by (cases members; cases members') (auto intro!: require seq emit write_tail fail simp: require_def [of False])
next
  case (Some a b)
  then show ?thesis using assms(1) unfolding write_membership_def base_same
    by (auto intro!: require seq emit simp: select.map_sel)
qed

lemma list_rel: "(\<And>x. x \<in> set xs \<Longrightarrow> R (g x) (h (k x))) \<Longrightarrow> list_all2 R (map (\<lambda>x. g x) xs) (map (\<lambda>x. h x) (map k xs))"
  by (simp add: list_all2_conv_all_nth)

lemma order_rel: "(\<And>x. x \<in> set xs \<Longrightarrow> R (g x) (h (map_order f x))) \<Longrightarrow> (\<And>x w w'. R w w' \<Longrightarrow> R (q x w) (q' (map_order f x) w')) \<Longrightarrow>
   list_all2 R (map2 q xs (map (\<lambda>x. g x) xs)) (map2 q' (map (map_order f) xs) (map (\<lambda>x. h x) (map (map_order f) xs)))"
  by (simp add: list_all2_conv_all_nth)

lemma write_statement:
  shows "R (write_expression L d e) (write_expression L d' (map_expression f e))"
    and "R (write_case_when L d b) (write_case_when L d' (map_case_when f b))"
    and "R (write_order_expression L d t) (write_order_expression L d' (map_order f t))"
    and "R (write_fragment_part L d p) (write_fragment_part L d' (map_fragment_part f p))"
    and "R (write_projection L d q) (write_projection L d' (map_projection f q))"
    and "R (write_table L d r) (write_table L d' (map_relation_ref f r))"
    and "R (write_cte L d c) (write_cte L d' (map_cte f c))"
    and "R (write_query_body L d body) (write_query_body L d' (map_query_body f body))"
    and "R (write_join L d j) (write_join L d' (map_join f j))"
    and "R (write_select L d s) (write_select L d' (map_select f s))"
proof (induction e and b and t and p and q and r and c and body and j and s)
  case (Case subject branches fallback)
  have "rel_option R (if subject = NilExpression then None else Some (write_expression L d subject))
      (if map_expression f subject = NilExpression then None else Some (write_expression L d' (map_expression f subject)))"
    using Case.IH(1) by simp
  moreover have "rel_option R (map_option (\<lambda>e. write_expression L d e) fallback)
      (map_option (\<lambda>e. write_expression L d' e) (map_option (map_expression f) fallback))"
    using Case.IH(3) by (cases fallback) simp_all
  ultimately show ?case using Case.IH(2) by (simp only: write_expression.simps expression.map) (intro write_case list_rel)
next
  case (Over expr parts orders)
  then show ?case by (simp only: write_expression.simps expression.map) (intro write_over list_rel order_rel write_window_order)
next
  case (TrustedFragment sql parts)
  then show ?case by (simp only: write_expression.simps expression.map) (intro write_fragments list_rel)
next
  case (Membership expr members negated subquery)
  have "rel_option (\<lambda>(s, v) (s', v'). s' = map_select f s \<and> R v v') (option_zip subquery (map_option (\<lambda>s. write_select L d s) subquery))
      (option_zip (map_option (map_select f) subquery) (map_option (\<lambda>s. write_select L d' s) (map_option (map_select f) subquery)))"
    using Membership.IH(3) by (cases subquery) (simp_all add: option_zip_def)
  then show ?case using Membership.IH(1,2) by (simp only: write_expression.simps expression.map) (intro write_membership list_rel)
next
  case (Existence s negated)
  then show ?case by (auto intro!: seq emit)
next
  case (TableIdentifier r)
  show ?case by (simp add: write_table_identifier_def write_ident)
next
  case (CteRelation a c q)
  show ?case by (simp add: cte.map_sel) (intro seq write_ident write_if emit)
next
  case (Select projections source correlations ctes joins whr group_by having order_by limit offset dist lock checked)
  have names: "map (\<lambda>c. (cte_name c, cte_id c)) (map (map_cte f) ctes) = map (\<lambda>c. (cte_name c, cte_id c)) ctes"
    by (simp add: cte.map_sel)
  have sources: "map (map_relation_ref f) correlations @ map_relation_ref f source # map jn_source (map (map_join f) joins) =
      map (map_relation_ref f) (correlations @ source # map jn_source joins)"
    by (simp add: join.map_sel)
  have "R (case lock of None \<Rightarrow> nothing | Some l \<Rightarrow> write_lock d l) (case lock of None \<Rightarrow> nothing | Some l \<Rightarrow> write_lock d' l)"
    by (cases lock) (simp_all add: rel_nothing write_lock)
  then show ?case
    using Select.IH
    unfolding write_select.simps select.map names sources map_nil map_is_Nil_conv
    by (intro check_sources seq emit write_if write_separated write_all list_rel order_rel write_order_term write_bound scope)
next
  case (Value v)
  show ?case using argument [of "BoundArg v"] by simp
next
  case (Logical operator es)
  then show ?case by (simp only: write_expression.simps expression.map) (intro seq emit write_separated list_rel)
next
  case (Function name es star dist raw)
  then show ?case by (simp only: write_expression.simps expression.map) (intro write_function list_rel)
qed (auto simp: base_same intro!: seq emit fail excluded require write_column_ref write_ident write_alias write_native write_compound
    write_cast write_physical_table)

end

end
