(* ===== verification/Render_Values.thy ===== *)
theory Render_Values
  imports Render_Relation Query_Aggregate
begin

text \<open>
  What rendering does with bound values: nothing but pass them on. Validation and the text
  of a statement are the same whatever values it binds.
\<close>

subsection \<open>Validation does not look at values\<close>

lemma zip_map_walk:
  "(\<And>x. x \<in> set xs \<Longrightarrow> h (g x) = h' x) \<Longrightarrow> zip (map g xs) (map (\<lambda>x. h x) (map g xs)) = map (\<lambda>(x, w). (g x, w)) (zip xs (map (\<lambda>x. h' x) xs))"
  by (induction xs) auto

lemma rfold_map_fun: "rfold g (map h ys) = rfold (\<lambda>y. g (h y)) ys"
  by (rule ext) (rule rfold_map)

lemmas walk_map = rfold_map_fun indexed_map case_prod_unfold prod.sel

lemma map_predicates [simp]:
  "predicate_expression (map_expression f e) = predicate_expression e"
  "is_table_identifier (map_expression f e) = is_table_identifier e"
  "is_bound_value (map_expression f e) = is_bound_value e"
  "is_subquery (map_expression f e) = is_subquery e"
  "window_capable (map_expression f e) = window_capable e"
  by (cases e; simp)+

lemma map_projection_simps [simp]:
  "map_projection f p = NilProjection \<longleftrightarrow> p = NilProjection"
  "result_alias (map_projection f p) = result_alias p"
  by (cases p; simp)+

lemma map_body_nil [simp]: "map_query_body f b = NilBody \<longleftrightarrow> b = NilBody"
  by (cases b) simp_all

lemma validate_leaf_map [simp]:
  "validate_column_ref (map_relation_ref f r) name = validate_column_ref r name"
  "validate_excluded_column (map_relation_ref f r) name = validate_excluded_column r name"
  "validate_table_identifier (map_relation_ref f r) = validate_table_identifier r"
  by (intro ext; simp add: validate_column_ref_def validate_excluded_column_def validate_table_identifier_def split: sum.split)+

lemma map_snd_walks: "map snd (map (\<lambda>(x, w). (g x, w)) arguments) = map snd arguments"
  by (simp add: case_prod_unfold comp_def)

lemma validate_bm25_map:
  "validate_bm25_function name (map (\<lambda>(x, w). (map_expression f x, w)) arguments) star dist = validate_bm25_function name arguments star dist"
  by (intro ext) (cases arguments; simp add: validate_bm25_function_def case_prod_unfold comp_def)

lemma validate_function_map [simp]:
  "validate_function name (map (\<lambda>(x, w). (map_expression f x, w)) arguments) star dist raw = validate_function name arguments star dist raw"
  by (intro ext) (simp only: validate_function_def validate_custom_function_def validate_scalar_function_def
      validate_aggregate_function_def map_snd_walks validate_bm25_map length_map)

lemma validate_membership_map [simp]:
  "validate_membership w (map (\<lambda>(x, w). (map_expression f x, w)) members) subquery = validate_membership w members subquery"
  by (intro ext) (simp add: validate_membership_def walk_map Let_def cong: option.case_cong if_cong)

lemma validate_window_map [simp]:
  "validate_window parts (map (\<lambda>(x, w). (map_order f x, w)) order) = validate_window parts order"
  by (intro ext) (simp add: validate_window_def walk_map order.map_sel cong: if_cong)

lemma validate_subquery_map [simp]:
  "validate_subquery_statement (map (map_relation_ref f) cs) v = validate_subquery_statement cs v"
  "validate_scalar_subquery (map_select f s) v = validate_scalar_subquery s v"
  by (intro ext; simp add: validate_subquery_statement_def validate_scalar_subquery_def walk_map select.map_sel Let_def cong: if_cong sum.case_cong)+

lemma validate_visible_cte_map [simp]:
  "validate_visible_cte (map_relation_ref f r) (map (map_cte f) cs) path = validate_visible_cte r cs path"
  by (simp add: validate_visible_cte_def list_ex_iff cte.map_sel)

lemma scope_add_map [simp]: "scope_add sc (map_relation_ref f r) = scope_add sc r"
  by (simp add: scope_add_def)

lemma validate_source_reference_map [simp]:
  "validate_source_reference refs (map_relation_ref f r) path = validate_source_reference refs r path"
  by (simp add: validate_source_reference_def cong: option.case_cong)

lemma validate_correlations_map [simp]:
  "validate_correlations (map (map_relation_ref f) rs) (map (map_cte f) cs) = validate_correlations rs cs"
  by (simp add: validate_correlations_def walk_map Let_def cong: if_cong sum.case_cong)

lemma validate_ctes_map [simp]: "validate_ctes (map (\<lambda>(x, w). (map_cte f x, w)) cs) = validate_ctes cs"
  by (simp add: validate_ctes_def walk_map cte.map_sel Let_def cong: if_cong sum.case_cong)

lemma validate_join_map [simp]:
  "validate_join (map (map_relation_ref f) rs) (map (map_cte f) cs) path (map_join f j) w = validate_join rs cs path j w"
  by (rule ext) (simp add: validate_join_def is_correlated_source_def list_ex_iff join.map_sel Let_def cong: if_cong sum.case_cong)

lemma validate_joins_map [simp]:
  "validate_joins (map (map_relation_ref f) rs) (map (map_cte f) cs) (map (\<lambda>(x, w). (map_join f x, w)) js) sc = validate_joins rs cs js sc"
  by (simp add: validate_joins_def walk_map)

lemma validate_group_by_map [simp]:
  "validate_group_by (map (\<lambda>(x, w). (map_expression f x, w)) es) sc = validate_group_by es sc"
  by (simp add: validate_group_by_def walk_map Let_def cong: if_cong sum.case_cong)

lemma validate_projection_set_map [simp]:
  "validate_projection_set (map (\<lambda>(x, w). (map_projection f x, w)) ps) sc grouped = validate_projection_set ps sc grouped"
  by (simp add: validate_projection_set_def walk_map Let_def cong: if_cong sum.case_cong)

lemma validate_having_map [simp]: "validate_having (map_expression f h) w sc u grouped = validate_having h w sc u grouped"
  by (simp add: validate_having_def)

lemma count_name_map [simp]: "count_name name (map (map_projection f) ps) = count_name name ps"
  by (simp add: count_name_def filter_map comp_def)

lemma validate_order_by_map [simp]:
  "validate_order_by (map (map_projection f) ps) (map (\<lambda>(x, w). (map_order f x, w)) os) sc u grouped = validate_order_by ps os sc u grouped"
proof -
  have "validate_order (map_order f t) w sc u grouped (map (map_projection f) ps) path = validate_order t w sc u grouped ps path" for t w path
    by (cases "od_result t") (simp_all add: validate_order_def validate_order_result_alias_def order.map_sel cong: option.case_cong sum.case_cong if_cong)
  then show ?thesis by (simp add: validate_order_by_def walk_map order.map_sel Let_def cong: if_cong sum.case_cong)
qed

lemma validate_lock_map [simp]: "validate_lock l (map_relation_ref f r) (map (map_join f) js) = validate_lock l r js"
proof -
  have "List.map_filter rel_table (map_relation_ref f r # map jn_source (map (map_join f) js)) =
      List.map_filter rel_table (r # map jn_source js)"
    by (simp add: List.map_filter_def join.map_sel comp_def filter_map)
  then show ?thesis unfolding validate_lock_def by simp
qed

lemma validation_map:
  fixes e :: "'v expression" and r :: "'v relation_ref"
  shows "validate_expression T (map_expression f e) = validate_expression T e"
    and "validate_case_when T (map_case_when f b) = validate_case_when T b"
    and "validate_order_expression T (map_order f t) = validate_order_expression T t"
    and "validate_fragment_part T (map_fragment_part f p) = validate_fragment_part T p"
    and "validate_projection T (map_projection f q) = validate_projection T q"
    and "r = r"
    and "validate_cte T (map_cte f c) = validate_cte T c"
    and "validate_body T (map_query_body f body) = validate_body T body"
    and "validate_join_on T (map_join f j) = validate_join_on T j"
    and "validate_statement T (map_select f s) = validate_statement T s"
proof (induction e and b and t and p and q and r and c and body and j and s)
  case (Case subject branches fallback)
  have branches: "map (\<lambda>b. validate_case_when T b) (map (map_case_when f) branches) = map (\<lambda>b. validate_case_when T b) branches"
    using Case.IH(2) by simp
  have fallback: "map_option (\<lambda>e. validate_expression T e) (map_option (map_expression f) fallback) = map_option (\<lambda>e. validate_expression T e) fallback"
    using Case.IH(3) by (cases fallback) simp_all
  show ?case unfolding expression.map validate_expression.simps branches fallback map_nil map_is_Nil_conv Case.IH(1) by (rule refl)
next
  case (Over expr parts order)
  have parts: "map (\<lambda>e. validate_expression T e) (map (map_expression f) parts) = map (\<lambda>e. validate_expression T e) parts"
    using Over.IH(2) by simp
  show ?case
    by (simp only: expression.map validate_expression.simps parts Over.IH(1)
      zip_map_walk [of order "validate_order_expression T" "map_order f" "validate_order_expression T", OF Over.IH(3)]
      cong: if_cong) (simp cong: option.case_cong if_cong)
next
  case (TrustedFragment sql parts)
  have parts: "map (\<lambda>e. validate_fragment_part T e) (map (map_fragment_part f) parts) = map (\<lambda>e. validate_fragment_part T e) parts"
    using TrustedFragment.IH by simp
  show ?case unfolding expression.map validate_expression.simps parts length_map by (rule refl)
next
  case (Logical operator es)
  have es: "map (\<lambda>e. validate_expression T e) (map (map_expression f) es) = map (\<lambda>e. validate_expression T e) es"
    using Logical.IH by simp
  show ?case unfolding expression.map validate_expression.simps es length_map by (rule refl)
next
  case (Membership expr members negated subquery)
  have subquery: "map_option (\<lambda>(s, walk). validate_scalar_subquery s walk) (option_zip (map_option (map_select f) subquery)
        (map_option (\<lambda>s. validate_statement T s) (map_option (map_select f) subquery))) =
      map_option (\<lambda>(s, walk). validate_scalar_subquery s walk) (option_zip subquery (map_option (\<lambda>s. validate_statement T s) subquery))"
    using Membership.IH(3) by (cases subquery) (simp_all add: option_zip_def)
  show ?case
    by (simp only: expression.map validate_expression.simps
      zip_map_walk [of members "validate_expression T" "map_expression f" "validate_expression T", OF Membership.IH(2)] subquery Membership.IH(1)
      cong: if_cong) (simp cong: option.case_cong if_cong)
next
  case (Function name es star dist raw)
  show ?case
    by (simp only: expression.map validate_expression.simps
      zip_map_walk [of es "validate_expression T" "map_expression f" "validate_expression T", OF Function.IH]
      cong: if_cong) (simp cong: option.case_cong if_cong)
next
  case (Select projections source correlations ctes joins whr group_by having order_by limit offset dist lock checked)
  show ?case
    by (simp only: select.map validate_statement.simps
      zip_map_walk [of projections "validate_projection T" "map_projection f" "validate_projection T", OF Select.IH(1)]
      zip_map_walk [of ctes "validate_cte T" "map_cte f" "validate_cte T", OF Select.IH(4)]
      zip_map_walk [of joins "validate_join_on T" "map_join f" "validate_join_on T", OF Select.IH(5)]
      zip_map_walk [of group_by "validate_expression T" "map_expression f" "validate_expression T", OF Select.IH(7)]
      zip_map_walk [of order_by "validate_order_expression T" "map_order f" "validate_order_expression T", OF Select.IH(9)] Select.IH(6,8)
      cong: if_cong) (simp cong: option.case_cong if_cong)
qed (simp_all add: select.map_sel cong: if_cong)

subsection \<open>Rendering only carries values along\<close>

definition map_renderer :: "('v \<Rightarrow> 'w) \<Rightarrow> 'v renderer \<Rightarrow> 'w renderer" where
  "map_renderer f r = \<lparr>rr_text = rr_text r, rr_args = map (map_arg f) (rr_args r), rr_excluded_style = rr_excluded_style r,
     rr_in_excluded = rr_in_excluded r, rr_cte_scope = rr_cte_scope r\<rparr>"

definition carries :: "('v \<Rightarrow> 'w) \<Rightarrow> 'v writer \<Rightarrow> 'w writer \<Rightarrow> bool" where
  "carries f w w' \<longleftrightarrow> (\<forall>r. w' (map_renderer f r) = map_sum id (map_renderer f) (w r))"

lemma map_renderer_simps [simp]:
  "rr_text (map_renderer f r) = rr_text r" "rr_args (map_renderer f r) = map (map_arg f) (rr_args r)"
  "rr_excluded_style (map_renderer f r) = rr_excluded_style r" "rr_in_excluded (map_renderer f r) = rr_in_excluded r"
  "rr_cte_scope (map_renderer f r) = rr_cte_scope r"
  "map_renderer f (r\<lparr>rr_text := s\<rparr>) = (map_renderer f r)\<lparr>rr_text := s\<rparr>"
  "map_renderer f (r\<lparr>rr_cte_scope := c\<rparr>) = (map_renderer f r)\<lparr>rr_cte_scope := c\<rparr>"
  "map_renderer f (r\<lparr>rr_excluded_style := y\<rparr>) = (map_renderer f r)\<lparr>rr_excluded_style := y\<rparr>"
  "map_renderer f (r\<lparr>rr_in_excluded := x\<rparr>) = (map_renderer f r)\<lparr>rr_in_excluded := x\<rparr>"
  "map_renderer f (r\<lparr>rr_args := a\<rparr>) = (map_renderer f r)\<lparr>rr_args := map (map_arg f) a\<rparr>"
  "map_renderer f new_renderer = new_renderer"
  by (simp_all add: map_renderer_def new_renderer_def)

interpretation carried: writer_relation d d f "carries f"
proof unfold_locales
  show "alike d d" by (rule alike_refl)
  show "carries f (seq w x) (seq w' x')" if "carries f w w'" "carries f x x'" for w w' x x'
    using that by (simp add: carries_def seq_def rbind_def split: sum.split)
  show "carries f (in_cte_scope added w) (in_cte_scope added w')" if w: "carries f w w'" for added w w'
    unfolding carries_def
  proof
    fix r
    have "w' (map_renderer f (r\<lparr>rr_cte_scope := rr_cte_scope r @ added\<rparr>)) = map_sum id (map_renderer f) (w (r\<lparr>rr_cte_scope := rr_cte_scope r @ added\<rparr>))"
      using w unfolding carries_def by blast
    then show "in_cte_scope added w' (map_renderer f r) = map_sum id (map_renderer f) (in_cte_scope added w r)"
      by (simp add: in_cte_scope_def rbind_def split: sum.split)
  qed
  show "carries f (in_excluded_scope style w) (in_excluded_scope style w')" if w: "carries f w w'" for style w w'
    unfolding carries_def
  proof
    fix r
    have "w' (map_renderer f (r\<lparr>rr_excluded_style := style, rr_in_excluded := True\<rparr>)) = map_sum id (map_renderer f) (w (r\<lparr>rr_excluded_style := style, rr_in_excluded := True\<rparr>))"
      using w unfolding carries_def by blast
    then show "in_excluded_scope style w' (map_renderer f r) = map_sum id (map_renderer f) (in_excluded_scope style w r)"
      by (simp add: in_excluded_scope_def rbind_def split: sum.split)
  qed
qed (simp_all add: carries_def emit_def fail_def write_argument_def write_excluded_column_def scope_guard_def rbind_def
  split: sum.split option.split upsert_style.split)

text \<open>
  The values a caller binds never reach the SQL text. Replacing every bound value of a
  \<open>SELECT\<close>, in its expressions, subqueries, common table expressions and native bodies,
  by any function leaves the outcome of rendering as it was: the same error, or the same text with
  the arguments replaced one by one.
\<close>
theorem select_text_is_value_free:
  "render_select T d (map_select f s) = map_sum id (map_prod id (map (map_arg f))) (render_select T d s)"
proof -
  have "carries f (write_select L d s) (write_select L d (map_select f s))" for L
    by (rule carried.write_statement)
  then have step: "write_select L d (map_select f s) new_renderer = map_sum id (map_renderer f) (write_select L d s new_renderer)" for L
    unfolding carries_def by (metis map_renderer_simps(11))
  show ?thesis
    by (cases "s_correlations s")
      (simp_all add: render_select_def render_statement_def validation_map step fail_def rbind_def select.map_sel split: sum.split)
qed

subsection \<open>Placeholders and arguments\<close>

text \<open>
  What a statement is to the database: literal text with arguments in between. \<open>assemble\<close>
  is the text of it when every argument is written as the placeholder of its position.
\<close>

datatype 'v piece = Literal gostring | Bound "'v arg"

fun assemble :: "dialect \<Rightarrow> nat \<Rightarrow> 'v piece list \<Rightarrow> gostring" where
  "assemble d n [] = []"
| "assemble d n (Literal s # ps) = s @ assemble d n ps"
| "assemble d n (Bound a # ps) =
     (case placeholder_text (base d) (int n + 1) of Inr p \<Rightarrow> p | Inl _ \<Rightarrow> []) @ assemble d (Suc n) ps"

fun piece_args :: "'v piece list \<Rightarrow> 'v arg list" where
  "piece_args [] = []"
| "piece_args (Literal s # ps) = piece_args ps"
| "piece_args (Bound a # ps) = a # piece_args ps"

lemma piece_args_append [simp]: "piece_args (ps @ qs) = piece_args ps @ piece_args qs"
  by (induction ps rule: piece_args.induct) simp_all

lemma assemble_append: "assemble d n (ps @ qs) = assemble d n ps @ assemble d (n + length (piece_args ps)) qs"
  by (induction d n ps rule: assemble.induct) simp_all

definition written :: "dialect \<Rightarrow> 'v piece list \<Rightarrow> gostring \<times> 'v arg list \<Rightarrow> gostring \<times> 'v arg list" where
  "written d ps = (\<lambda>(sql, args). (sql @ assemble d (length args) ps, args @ piece_args ps))"

lemma written_append: "written d (ps @ qs) r = written d qs (written d ps r)"
  by (cases r) (simp add: written_def assemble_append)

definition emitted :: "'v renderer \<Rightarrow> gostring \<times> 'v arg list" where
  "emitted r = (rr_text r, rr_args r)"

lemma emitted_simps [simp]:
  "emitted (r\<lparr>rr_cte_scope := c\<rparr>) = emitted r" "emitted (r\<lparr>rr_excluded_style := y\<rparr>) = emitted r" "emitted (r\<lparr>rr_in_excluded := x\<rparr>) = emitted r"
  by (simp_all add: emitted_def)

text \<open>Two renderers that differ in nothing but the text that they have written.\<close>

definition abreast :: "'v renderer \<Rightarrow> 'v renderer \<Rightarrow> bool" where
  "abreast r q \<longleftrightarrow> rr_args q = rr_args r \<and> rr_excluded_style q = rr_excluded_style r \<and> rr_in_excluded q = rr_in_excluded r \<and> rr_cte_scope q = rr_cte_scope r"

lemma abreast_simps [simp]:
  "abreast r q \<Longrightarrow> abreast (r\<lparr>rr_cte_scope := c\<rparr>) (q\<lparr>rr_cte_scope := c\<rparr>)"
  "abreast r q \<Longrightarrow> abreast (r\<lparr>rr_excluded_style := y, rr_in_excluded := x\<rparr>) (q\<lparr>rr_excluded_style := y, rr_in_excluded := x\<rparr>)"
  "abreast r q \<Longrightarrow> abreast (r\<lparr>rr_in_excluded := x\<rparr>) (q\<lparr>rr_in_excluded := x\<rparr>)"
  by (simp_all add: abreast_def)

definition writes_pieces :: "dialect \<Rightarrow> dialect \<Rightarrow> 'v renderer \<Rightarrow> 'v renderer \<Rightarrow> render_error + 'v renderer \<Rightarrow> render_error + 'v renderer \<Rightarrow> bool" where
  "writes_pieces d d' r q res res' = (case res of
       Inl e \<Rightarrow> res' = Inl e
     | Inr r' \<Rightarrow> \<exists>q' ps. res' = Inr q' \<and> abreast r' q' \<and> emitted r' = written d ps (emitted r) \<and> emitted q' = written d' ps (emitted q))"

definition agrees :: "dialect \<Rightarrow> dialect \<Rightarrow> 'v writer \<Rightarrow> 'v writer \<Rightarrow> bool" where
  "agrees d d' w w' \<longleftrightarrow> (\<forall>r q. abreast r q \<longrightarrow> writes_pieces d d' r q (w r) (w' q))"

lemma agreesI: "(\<And>r q. abreast r q \<Longrightarrow> writes_pieces d d' r q (w r) (w' q)) \<Longrightarrow> agrees d d' w w'"
  by (simp add: agrees_def)

lemma agreesD: "agrees d d' w w' \<Longrightarrow> abreast r q \<Longrightarrow> writes_pieces d d' r q (w r) (w' q)"
  by (simp add: agrees_def)

lemma agrees_emit: "agrees d d' (emit s) (emit s)"
  by (rule agreesI) (auto simp: writes_pieces_def emit_def written_def emitted_def abreast_def intro!: exI [of _ "[Literal s]"])

lemma agrees_seq:
  assumes "agrees d d' w w'" "agrees d d' x x'"
  shows "agrees d d' (seq w x) (seq w' x')"
proof (rule agreesI)
  fix r q :: "'a renderer"
  assume "abreast r q"
  then have first: "writes_pieces d d' r q (w r) (w' q)" by (rule agreesD [OF assms(1)])
  show "writes_pieces d d' r q (seq w x r) (seq w' x' q)"
  proof (cases "w r")
    case (Inl e)
    then show ?thesis using first by (simp add: seq_def writes_pieces_def)
  next
    case (Inr r')
    then obtain q' ps where q': "w' q = Inr q'" "abreast r' q'" "emitted r' = written d ps (emitted r)" "emitted q' = written d' ps (emitted q)"
      using first by (auto simp: writes_pieces_def)
    have second: "writes_pieces d d' r' q' (x r') (x' q')" by (rule agreesD [OF assms(2) q'(2)])
    show ?thesis
    proof (cases "x r'")
      case (Inr r'')
      then obtain q'' qs where "x' q' = Inr q''" "abreast r'' q''" "emitted r'' = written d qs (emitted r')" "emitted q'' = written d' qs (emitted q')"
        using second by (auto simp: writes_pieces_def)
      then show ?thesis using q' \<open>w r = Inr r'\<close> Inr
        by (auto simp: seq_def writes_pieces_def written_append intro!: exI [of _ "ps @ qs"])
    qed (use second q'(1) Inr in \<open>simp add: seq_def writes_pieces_def\<close>)
  qed
qed

lemma agrees_inside:
  assumes "agrees d d' w w'" "\<And>r q. abreast r q \<Longrightarrow> abreast (before r) (before q)" "\<And>r. emitted (before r) = emitted r"
    and "\<And>r q r' q'. abreast r q \<Longrightarrow> abreast r' q' \<Longrightarrow> abreast (after r r') (after q q')" "\<And>r r'. emitted (after r r') = emitted r'"
  shows "agrees d d' (\<lambda>r. rbind (w (before r)) (\<lambda>r'. Inr (after r r'))) (\<lambda>r. rbind (w' (before r)) (\<lambda>r'. Inr (after r r')))"
proof (rule agreesI)
  fix r q :: "'a renderer"
  assume r: "abreast r q"
  have "writes_pieces d d' (before r) (before q) (w (before r)) (w' (before q))" by (rule agreesD [OF assms(1) assms(2) [OF r]])
  then show "writes_pieces d d' r q (rbind (w (before r)) (\<lambda>r'. Inr (after r r'))) (rbind (w' (before q)) (\<lambda>r'. Inr (after q r')))"
    using assms(4) [OF r] by (cases "w (before r)") (auto simp: writes_pieces_def assms(3,5))
qed

interpretation accounted: writer_relation d "with_placeholder p d" id "agrees d (with_placeholder p d)"
proof unfold_locales
  show "alike d (with_placeholder p d)" by (auto simp: alike_def)
  show "agrees d (with_placeholder p d) (emit s) (emit s)" for s by (rule agrees_emit)
  show "agrees d (with_placeholder p d) (fail e) (fail e)" for e by (rule agreesI) (simp add: fail_def writes_pieces_def)
  show "agrees d (with_placeholder p d) (seq w x) (seq w' x')"
    if "agrees d (with_placeholder p d) w w'" "agrees d (with_placeholder p d) x x'" for w x w' x' using that by (rule agrees_seq)
  show "agrees d (with_placeholder p d) (write_argument d a) (write_argument (with_placeholder p d) (map_arg id a))" for a
    by (rule agreesI)
      (auto simp: write_argument_def placeholder_text_def written_def emitted_def abreast_def writes_pieces_def arg.map_id intro!: exI [of _ "[Bound a]"])
  show "agrees d (with_placeholder p d) (write_excluded_column d name) (write_excluded_column (with_placeholder p d) name)" for name
  proof (rule agreesI)
    fix r q
    assume r: "abreast r q"
    have quote: "quote_ident (with_placeholder p d) = quote_ident d" by (rule alike_base) (auto simp: alike_def)
    show "writes_pieces d (with_placeholder p d) r q (write_excluded_column d name r) (write_excluded_column (with_placeholder p d) name q)"
    proof -
      have same: "rr_in_excluded q = rr_in_excluded r" "rr_excluded_style q = rr_excluded_style r" using r by (simp_all add: abreast_def)
      have emits: "writes_pieces d (with_placeholder p d) r q (emit s r) (emit s q)" for s by (rule agreesD [OF agrees_emit r])
      show ?thesis
        by (cases "rr_in_excluded r"; cases "quote_ident d name"; cases "rr_excluded_style r")
          (simp_all add: write_excluded_column_def quote same emits writes_pieces_def [of _ _ _ _ "Inl _"] del: append_Cons)
    qed
  qed
  show "agrees d (with_placeholder p d) (scope_guard g) (scope_guard g)" for g
    by (rule agreesI) (auto simp: scope_guard_def written_def abreast_def writes_pieces_def split: option.splits intro!: exI [of _ "[]"])
  show "agrees d (with_placeholder p d) (in_cte_scope added w) (in_cte_scope added w')" if inner: "agrees d (with_placeholder p d) w w'" for added w w'
    unfolding in_cte_scope_def [abs_def] by (rule agrees_inside [OF inner]) (auto simp: abreast_def)
  show "agrees d (with_placeholder p d) (in_excluded_scope style w) (in_excluded_scope style w')" if inner: "agrees d (with_placeholder p d) w w'" for style w w'
    unfolding in_excluded_scope_def [abs_def] by (rule agrees_inside [OF inner]) auto
qed

text \<open>
  What it means that a text and its arguments belong together: there are pieces whose bound
  ones are the arguments, and the text is the assembly of these pieces not only for the
  dialect's own placeholders but for any others. So the pieces that are literal hold no
  placeholder, and those that are bound are nothing else.
\<close>

definition belongs :: "dialect \<Rightarrow> (dialect \<Rightarrow> render_error + 'v stmt) \<Rightarrow> gostring \<Rightarrow> 'v arg list \<Rightarrow> bool" where
  "belongs d render sql args \<longleftrightarrow> (\<forall>p. \<exists>ps. args = piece_args ps \<and> sql = assemble d 0 ps \<and>
     render (with_placeholder p d) = Inr (assemble (with_placeholder p d) 0 ps, args))"

lemma rendered_belongs:
  assumes "render_statement operation validation (w d) = Inr (sql, args)" "\<And>p. agrees d (with_placeholder p d) (w d) (w (with_placeholder p d))"
  shows "belongs d (\<lambda>d. render_statement operation validation (w d)) sql args"
  unfolding belongs_def
proof
  fix p
  obtain r where r: "w d new_renderer = Inr r" "emitted r = (sql, args)" and valid: "\<exists>u. validation = Inr u"
    using assms(1) by (auto simp: render_statement_def emitted_def split: sum.splits)
  have "writes_pieces d (with_placeholder p d) new_renderer new_renderer (w d new_renderer) (w (with_placeholder p d) new_renderer)"
    using agreesD [OF assms(2) [of p]] by (simp add: abreast_def)
  then obtain q ps where "w (with_placeholder p d) new_renderer = Inr q" "emitted r = written d ps (emitted new_renderer)"
    "emitted q = written (with_placeholder p d) ps (emitted new_renderer)" using r(1) by (auto simp: writes_pieces_def)
  then show "\<exists>ps. args = piece_args ps \<and> sql = assemble d 0 ps \<and>
      render_statement operation validation (w (with_placeholder p d)) = Inr (assemble (with_placeholder p d) 0 ps, args)"
    using r(2) valid by (auto simp: written_def emitted_def new_renderer_def render_statement_def intro!: exI [of _ ps])
qed

subsection \<open>The values of a statement\<close>

text \<open>
  The values that a statement binds, in the order in which its parts are written. A native
  body binds its arguments in the order of its placeholders, which on PostgreSQL name them by
  number.
\<close>

definition native_values :: "(gostring \<Rightarrow> gostring) \<Rightarrow> dialect \<Rightarrow> gostring \<Rightarrow> gostring \<Rightarrow> 'v list \<Rightarrow> 'v arg list" where
  "native_values L d engine sql args = (case scan L sql (Some engine) of
       Inl _ \<Rightarrow> []
     | Inr res \<Rightarrow> if dialect_name d = ''postgresql'' then map (\<lambda>ph. BoundArg (args ! (ph_number ph - 1))) (placeholders res) else map BoundArg args)"

definition bound_values :: "int option \<Rightarrow> 'v arg list" where
  "bound_values bound = (case bound of None \<Rightarrow> [] | Some n \<Rightarrow> [IntegerArg n])"

primrec expression_values :: "(gostring \<Rightarrow> gostring) \<Rightarrow> dialect \<Rightarrow> 'v expression \<Rightarrow> 'v arg list"
  and case_when_values :: "(gostring \<Rightarrow> gostring) \<Rightarrow> dialect \<Rightarrow> 'v case_when \<Rightarrow> 'v arg list"
  and order_values :: "(gostring \<Rightarrow> gostring) \<Rightarrow> dialect \<Rightarrow> 'v order \<Rightarrow> 'v arg list"
  and fragment_values :: "(gostring \<Rightarrow> gostring) \<Rightarrow> dialect \<Rightarrow> 'v fragment_part \<Rightarrow> 'v arg list"
  and projection_values :: "(gostring \<Rightarrow> gostring) \<Rightarrow> dialect \<Rightarrow> 'v projection \<Rightarrow> 'v arg list"
  and relation_values :: "(gostring \<Rightarrow> gostring) \<Rightarrow> dialect \<Rightarrow> 'v relation_ref \<Rightarrow> 'v arg list"
  and cte_values :: "(gostring \<Rightarrow> gostring) \<Rightarrow> dialect \<Rightarrow> 'v cte \<Rightarrow> 'v arg list"
  and body_values :: "(gostring \<Rightarrow> gostring) \<Rightarrow> dialect \<Rightarrow> 'v query_body \<Rightarrow> 'v arg list"
  and join_values :: "(gostring \<Rightarrow> gostring) \<Rightarrow> dialect \<Rightarrow> 'v join \<Rightarrow> 'v arg list"
  and select_values :: "(gostring \<Rightarrow> gostring) \<Rightarrow> dialect \<Rightarrow> 'v select \<Rightarrow> 'v arg list" where
  "expression_values L d NilExpression = []"
| "expression_values L d (ColumnRef source name) = []"
| "expression_values L d (ExcludedColumn source name) = []"
| "expression_values L d (TableIdentifier source) = []"
| "expression_values L d (Value v) = [BoundArg v]"
| "expression_values L d (Binary left operator right) = expression_values L d left @ expression_values L d right"
| "expression_values L d (Case subject branches fallback) = expression_values L d subject @ concat (map (\<lambda>b. case_when_values L d b) branches) @
     (case map_option (\<lambda>e. expression_values L d e) fallback of None \<Rightarrow> [] | Some vs \<Rightarrow> vs)"
| "expression_values L d (Cast expr target) = expression_values L d expr"
| "expression_values L d (Filter aggregate predicate) = expression_values L d aggregate @ expression_values L d predicate"
| "expression_values L d (Over expr parts order) = expression_values L d expr @ concat (map (\<lambda>e. expression_values L d e) parts) @ concat (map (\<lambda>t. order_values L d t) order)"
| "expression_values L d (TrustedFragment sql parts) = concat (take (length (split_markers sql)) (map (\<lambda>p. fragment_values L d p) parts))"
| "expression_values L d (Logical operator expressions) = concat (map (\<lambda>e. expression_values L d e) expressions)"
| "expression_values L d (NotExpression expr) = expression_values L d expr"
| "expression_values L d (NullTest expr negated) = expression_values L d expr"
| "expression_values L d (Membership expr members negated subquery) = expression_values L d expr @
     (case map_option (\<lambda>s. select_values L d s) subquery of Some vs \<Rightarrow> vs | None \<Rightarrow> concat (map (\<lambda>e. expression_values L d e) members))"
| "expression_values L d (Function name arguments star dist raw) = (if star then [] else concat (map (\<lambda>e. expression_values L d e) arguments))"
| "expression_values L d (Subquery statement) = select_values L d statement"
| "expression_values L d (Existence statement negated) = select_values L d statement"
| "expression_values L d (OtherExpression name) = []"
| "case_when_values L d (CaseWhen predicate result) = expression_values L d predicate @ expression_values L d result"
| "order_values L d (Order expression result descending nulls) = expression_values L d expression"
| "fragment_values L d (FragmentHole v) = expression_values L d v"
| "fragment_values L d (IdentifierHole name) = []"
| "fragment_values L d OtherPart = []"
| "projection_values L d NilProjection = []"
| "projection_values L d (ColumnProjection source name) = []"
| "projection_values L d (ExpressionProjection expression alias) = expression_values L d expression"
| "relation_values L d NoRelation = []"
| "relation_values L d (TableRelation table) = []"
| "relation_values L d (ResultRelation address body columns alias) = body_values L d body"
| "relation_values L d (CteRelation address c alias) = []"
| "cte_values L d (Cte name body columns ident) = body_values L d body"
| "body_values L d NilBody = []"
| "body_values L d (NativeResult engine sql args) = native_values L d engine sql args"
| "body_values L d (SelectBody s) = select_values L d s"
| "body_values L d (Compound left left_columns operator right right_columns) = body_values L d left @ body_values L d right"
| "join_values L d (Join jtype source on) = relation_values L d source @ expression_values L d on"
| "select_values L d (Select projections source correlations ctes joins whr group_by having order_by limit offset dist lock checked) =
     concat (map (\<lambda>c. cte_values L d c) ctes) @ concat (map (\<lambda>p. projection_values L d p) projections) @ relation_values L d source @
     concat (map (\<lambda>j. join_values L d j) joins) @ expression_values L d whr @ concat (map (\<lambda>e. expression_values L d e) group_by) @
     expression_values L d having @ concat (map2 (\<lambda>t vs. if od_result t = None then vs else []) order_by (map (\<lambda>t. order_values L d t) order_by)) @
     bound_values limit @ bound_values offset"

definition appends :: "'v writer \<Rightarrow> 'v arg list \<Rightarrow> bool" where
  "appends w vs \<longleftrightarrow> (\<forall>r r'. w r = Inr r' \<longrightarrow> rr_args r' = rr_args r @ vs)"

named_theorems appends_intros

lemma appends_basic [appends_intros]:
  "appends (emit s) []" "appends (fail e) vs" "appends nothing []" "appends (scope_guard g) []"
  "appends (write_argument d a) [a]" "appends (check_sources d ctes sources) []"
  by (auto simp: appends_def emit_def fail_def nothing_def scope_guard_def write_argument_def check_sources_def split: option.splits sum.splits)

lemma appends_excluded [appends_intros]: "appends (write_excluded_column d name) []"
  unfolding appends_def
proof (intro allI impI)
  fix r r'
  assume "write_excluded_column d name r = Inr r'"
  then show "rr_args r' = rr_args r @ []" by (cases "rr_excluded_style r") (auto simp: write_excluded_column_def emit_def split: if_splits)
qed

lemma appends_emit_result [appends_intros]: "appends (emit_result res) []"
  by (cases res) (simp_all add: emit_result_simps appends_basic)

lemma appends_leaves [appends_intros]:
  "appends (write_ident d name) []" "appends (write_column_ref d source name) []" "appends (write_table_identifier d source) []"
  by (simp_all add: write_ident_def column_ref_result write_table_identifier_def appends_emit_result)

lemma appends_seq [appends_intros]: "appends w vs \<Longrightarrow> appends x us \<Longrightarrow> appends (seq w x) (vs @ us)"
  by (fastforce simp: appends_def seq_def)

lemma appends_seq_emit [appends_intros]: "appends x us \<Longrightarrow> appends (seq (emit s) x) us"
  using appends_seq [OF appends_basic(1), of x us s] by simp

lemma appends_then_emit [appends_intros]: "appends x us \<Longrightarrow> appends (seq x (emit s)) us"
  using appends_seq [OF _ appends_basic(1), of x us s] by simp

lemma appends_require [appends_intros]: "(b \<Longrightarrow> appends w vs) \<Longrightarrow> appends (require b e w) vs"
  by (simp add: require_def appends_basic)

lemma appends_if: "(b \<Longrightarrow> appends w vs) \<Longrightarrow> (\<not> b \<Longrightarrow> vs = []) \<Longrightarrow> appends (write_if b w) vs"
  by (simp add: write_if_def appends_basic)

lemma appends_scope [appends_intros]: "appends w vs \<Longrightarrow> appends (in_cte_scope added w) vs" "appends w vs \<Longrightarrow> appends (in_excluded_scope style w) vs"
  by (fastforce simp: appends_def in_cte_scope_def in_excluded_scope_def)+

lemma appends_all: "list_all2 appends ws vss \<Longrightarrow> appends (write_all ws) (concat vss)"
  by (induction rule: list_all2_induct) (auto intro: appends_intros)

lemma appends_tail: "list_all2 appends ws vss \<Longrightarrow> appends (write_tail sep ws) (concat vss)"
  by (induction rule: list_all2_induct) (auto intro: appends_intros)

lemma appends_separated: "list_all2 appends ws vss \<Longrightarrow> appends (write_separated sep ws) (concat vss)"
  by (cases ws; cases vss) (auto intro: appends_intros appends_tail)

lemma appends_fragments: "list_all2 appends ws vss \<Longrightarrow> appends (write_fragments fs ws) (concat (take (length fs) vss))"
proof (induction fs arbitrary: ws vss)
  case (Cons a fs)
  then show ?case using Cons.IH [of "[]" "[]"] by (cases ws; cases vss) (auto intro!: appends_intros)
qed (simp add: appends_basic)

lemma appends_list: "(\<And>x. x \<in> set xs \<Longrightarrow> appends (g x) (h x)) \<Longrightarrow> list_all2 appends (map (\<lambda>x. g x) xs) (map (\<lambda>x. h x) xs)"
  by (simp add: list_all2_conv_all_nth)

lemma appends_alias_text: "appends (\<lambda>r. rbind res (\<lambda>q. emit (p @ q) r)) []"
  unfolding emit_prefixed by (rule appends_emit_result)

lemma appends_parts [appends_intros]:
  "appends (write_physical_table d table) []" "appends (write_alias d alias) []" "appends (write_bound d keyword bound) (bound_values bound)" "appends (write_lock d lock) []"
proof -
  show "appends (write_physical_table d table) []" unfolding write_physical_table_def
    using appends_seq [OF appends_emit_result appends_if [of "tr_alias table \<noteq> []", OF appends_alias_text]] by (simp del: append_Cons)
  show "appends (write_alias d alias) []" unfolding write_alias_def by (rule appends_if, rule appends_alias_text) simp
  show "appends (write_bound d keyword bound) (bound_values bound)"
    by (cases bound) (auto simp: write_bound_def bound_values_def intro: appends_intros)
  have "appends (write_separated '', '' (map (\<lambda>t. write_ident d (tr_qualifier t)) ts)) []" for ts
  proof -
    have "list_all2 appends (map (\<lambda>t. write_ident d (tr_qualifier t)) ts) (map (\<lambda>_. []) ts)" by (simp add: list_all2_conv_all_nth appends_leaves)
    from appends_separated [OF this] show ?thesis by (simp add: map_replicate_const)
  qed
  then show "appends (write_lock d lock) []" unfolding write_lock_def by (auto intro!: appends_intros appends_if)
qed

lemma appends_native_rest:
  assumes "ns_next st \<le> length args"
  shows "appends (native_rest d sql args phs st)
    (if dialect_name d = ''postgresql'' then map (\<lambda>ph. BoundArg (args ! (ph_number ph - 1))) phs else map BoundArg (drop (ns_next st) args))"
  using assms
proof (induction phs arbitrary: st)
  case Nil
  then show ?case unfolding native_rest_Nil by (auto intro!: appends_intros split: option.split)
next
  case (Cons ph phs)
  show ?case
  proof (cases "native_refusal d (length args) ph st")
    case None
    have bound: "native_index d ph st < length args" by (rule native_index_bound [OF None])
    have "appends (seq (seq (emit (Go_Base.slice sql (ns_last st) (ph_start ph))) (write_argument d (BoundArg (args ! native_index d ph st))))
        (native_rest d sql args phs (native_advance d ph st)))
      ([BoundArg (args ! native_index d ph st)] @ (if dialect_name d = ''postgresql'' then map (\<lambda>ph. BoundArg (args ! (ph_number ph - 1))) phs
         else map BoundArg (drop (ns_next (native_advance d ph st)) args)))"
      using Cons.prems bound by (intro appends_seq appends_seq_emit appends_basic Cons.IH) (auto simp: native_advance_def native_index_def)
    then show ?thesis using None bound by (auto simp: native_rest_Cons native_advance_def native_index_def Cons_nth_drop_Suc [symmetric])
  next
    case (Some e)
    then show ?thesis by (simp add: native_rest_Cons appends_basic)
  qed
qed

lemma appends_native [appends_intros]: "appends (write_native_result L d engine sql args) (native_values L d engine sql args)"
  using appends_native_rest [of "\<lparr>ns_used = {}, ns_next = 0, ns_last = 0\<rparr>" args d sql]
  by (auto simp: write_native_rest native_values_def appends_basic split: sum.split)

lemma appends_if_list: "list_all2 appends ws vss \<Longrightarrow> appends w (concat vss) \<Longrightarrow> appends (write_if (ws \<noteq> []) w) (concat vss)"
  by (cases ws) (simp_all add: write_if_def appends_basic)

lemmas appends_seqs = appends_seq_emit appends_then_emit appends_seq appends_if_list appends_separated appends_require

lemma appends_over: "appends w vs \<Longrightarrow> list_all2 appends parts us \<Longrightarrow> list_all2 appends orders os \<Longrightarrow> appends (write_over w parts orders) (vs @ concat us @ concat os)"
  unfolding write_over_def by (intro appends_seqs)

lemma appends_case:
  assumes "rel_option appends subject vs" "list_all2 appends branches bs" "rel_option appends fallback us"
  shows "appends (write_case subject branches fallback)
    ((case vs of None \<Rightarrow> [] | Some vs \<Rightarrow> vs) @ concat bs @ (case us of None \<Rightarrow> [] | Some us \<Rightarrow> us))"
proof -
  have "appends (case w of None \<Rightarrow> nothing | Some w \<Rightarrow> seq (emit s) w) (case xs of None \<Rightarrow> [] | Some xs \<Rightarrow> xs)" if "rel_option appends w xs" for w xs s
    using that by cases (auto intro: appends_intros)
  then show ?thesis using assms unfolding write_case_def by (intro appends_seqs appends_all)
qed

lemma appends_function: "list_all2 appends ws vss \<Longrightarrow> appends (write_function name ws star dist) (if star then [] else concat vss)"
  unfolding write_function_def by (cases star) (auto intro!: appends_seqs appends_basic)

lemma appends_cast: "appends w vs \<Longrightarrow> appends (write_cast d target w) vs"
proof -
  assume w: "appends w vs"
  have "appends (seq (emit '' AS '') (seq (emit_result t) (emit '')''))) []" for t by (intro appends_seq_emit appends_then_emit appends_emit_result)
  from appends_seq [OF w this] show ?thesis unfolding write_cast_def by (intro appends_seq_emit) (simp only: append_Nil2)
qed

lemma appends_compound: "appends w vs \<Longrightarrow> appends x us \<Longrightarrow> appends (write_compound d w operator x) (vs @ us)"
proof -
  assume parts: "appends w vs" "appends x us"
  let ?op = "if operator = 1 then emit ''UNION'' else if operator = 2 then emit ''UNION ALL'' else if operator = 3 then emit ''INTERSECT''
    else if operator = 4 then emit ''EXCEPT'' else fail (RenderFailure ''unsupported compound operator %d'' [IntArg (uint operator)])"
  have op: "appends ?op []" by (auto intro: appends_intros)
  have rest: "appends (seq ?op y) ys" if "appends y ys" for y ys using appends_seq [OF op that] by (simp only: append_Nil)
  show ?thesis unfolding write_compound_def Let_def by (intro appends_seq_emit rest appends_then_emit appends_seq parts)
qed

lemma appends_seq_nil: "appends w vs \<Longrightarrow> appends x [] \<Longrightarrow> appends (seq w x) vs"
  using appends_seq [of w vs x "[]"] by simp

lemma appends_order_term: "appends w vs \<Longrightarrow> appends (write_order_term d t w) (if od_result t = None then vs else [])"
proof -
  assume w: "appends w vs"
  have "appends (case od_result t of Some projection \<Rightarrow> write_ident d (case result_name projection of Some name \<Rightarrow> name | None \<Rightarrow> []) | None \<Rightarrow> w)
      (if od_result t = None then vs else [])"
    using w by (auto intro: appends_leaves split: option.split)
  then show ?thesis unfolding write_order_term_def by (rule appends_seq_nil) (intro appends_seq_emit appends_basic)
qed

lemma appends_window_order: "appends w vs \<Longrightarrow> appends (write_window_order t w) vs"
  unfolding write_window_order_def by (intro appends_then_emit)

lemma appends_membership:
  assumes "appends w vs" "list_all2 appends members us" "rel_option (\<lambda>p. appends (snd p)) subquery ss"
  shows "appends (write_membership d w members negated subquery) (vs @ (case ss of Some xs \<Rightarrow> xs | None \<Rightarrow> concat us))"
  using assms(3) by cases (use assms(1,2) in \<open>auto simp: write_membership_def intro!: appends_seqs\<close>)

lemma appends_option: "(\<And>x. x \<in> set_option xs \<Longrightarrow> appends (g x) (h x)) \<Longrightarrow> rel_option appends (map_option (\<lambda>x. g x) xs) (map_option (\<lambda>x. h x) xs)"
  by (cases xs) simp_all

lemma appends_orders:
  assumes "\<And>x. x \<in> set xs \<Longrightarrow> appends (g x) (h x)" "\<And>t w vs. appends w vs \<Longrightarrow> appends (q t w) (q' t vs)"
  shows "list_all2 appends (map2 q xs (map (\<lambda>x. g x) xs)) (map2 q' xs (map (\<lambda>x. h x) xs))"
  using assms by (simp add: list_all2_conv_all_nth)

lemma map2_second: "map2 (\<lambda>x y. y) xs (map f xs) = map f xs"
  by (induction xs) simp_all

lemma written_values:
  fixes e :: "'v expression" and b :: "'v case_when" and t :: "'v order" and p :: "'v fragment_part" and q :: "'v projection"
    and r :: "'v relation_ref" and c :: "'v cte" and body :: "'v query_body" and j :: "'v join" and s :: "'v select"
  shows "appends (write_expression L d e) (expression_values L d e)"
    and "appends (write_case_when L d b) (case_when_values L d b)"
    and "appends (write_order_expression L d t) (order_values L d t)"
    and "appends (write_fragment_part L d p) (fragment_values L d p)"
    and "appends (write_projection L d q) (projection_values L d q)"
    and "appends (write_table L d r) (relation_values L d r)"
    and "appends (write_cte L d c) (cte_values L d c)"
    and "appends (write_query_body L d body) (body_values L d body)"
    and "appends (write_join L d j) (join_values L d j)"
    and "appends (write_select L d s) (select_values L d s)"
proof (induction e and b and t and p and q and r and c and body and j and s)
  case (Case subject branches fallback)
  have "rel_option appends (if subject = NilExpression then None else Some (write_expression L d subject))
      (if subject = NilExpression then None else Some (expression_values L d subject))"
    using Case.IH(1) by simp
  from appends_case [OF this appends_list [OF Case.IH(2)] appends_option [OF Case.IH(3)]] show ?case by auto
next
  case (Over expr parts orders)
  have "list_all2 appends (map2 write_window_order orders (map (\<lambda>t. write_order_expression L d t) orders)) (map2 (\<lambda>t vs. vs) orders (map (\<lambda>t. order_values L d t) orders))"
    using Over.IH(3) by (intro appends_orders appends_window_order)
  moreover have "map2 (\<lambda>t vs. vs) orders (map (\<lambda>t. order_values L d t) orders) = map (\<lambda>t. order_values L d t) orders" by (rule map2_second)
  ultimately show ?case using Over.IH(1,2) by (simp only: write_expression.simps expression_values.simps) (intro appends_over appends_list)
next
  case (TrustedFragment sql parts)
  then show ?case by (simp only: write_expression.simps expression_values.simps) (intro appends_fragments appends_list)
next
  case (Membership expr members negated subquery)
  have "rel_option (\<lambda>p. appends (snd p)) (option_zip subquery (map_option (\<lambda>s. write_select L d s) subquery)) (map_option (\<lambda>s. select_values L d s) subquery)"
    using Membership.IH(3) by (cases subquery) (simp_all add: option_zip_def)
  then show ?case using Membership.IH(1,2) by (simp only: write_expression.simps expression_values.simps) (intro appends_membership appends_list)
next
  case (Function name es star dist raw)
  then show ?case by (simp only: write_expression.simps expression_values.simps) (intro appends_function appends_list)
next
  case (Logical operator es)
  then show ?case by (simp only: write_expression.simps expression_values.simps) (intro appends_seqs appends_list)
next
  case (CteRelation a c q)
  show ?case by (auto intro!: appends_seq_nil appends_leaves appends_if appends_seq_emit)
next
  case (Select projections source correlations ctes joins whr group_by having order_by limit offset dist lock checked)
  have lock: "appends (case lock of None \<Rightarrow> nothing | Some l \<Rightarrow> write_lock d l) []" by (cases lock) (auto intro: appends_intros)
  have clause: "appends (write_if (e \<noteq> NilExpression) (seq (emit k) (write_expression L d e))) (expression_values L d e)"
    if "appends (write_expression L d e) (expression_values L d e)" for e k
    using that by (cases "e = NilExpression") (auto simp: write_if_def intro: appends_intros)
  have lists: "list_all2 appends (map (\<lambda>c. write_cte L d c) ctes) (map (\<lambda>c. cte_values L d c) ctes)"
    "list_all2 appends (map (\<lambda>p. write_projection L d p) projections) (map (\<lambda>p. projection_values L d p) projections)"
    "list_all2 appends (map (\<lambda>j. write_join L d j) joins) (map (\<lambda>j. join_values L d j) joins)"
    "list_all2 appends (map (\<lambda>e. write_expression L d e) group_by) (map (\<lambda>e. expression_values L d e) group_by)"
    "list_all2 appends (map2 (write_order_term d) order_by (map (\<lambda>t. write_order_expression L d t) order_by))
       (map2 (\<lambda>t vs. if od_result t = None then vs else []) order_by (map (\<lambda>t. order_values L d t) order_by))"
    by (rule appends_list, erule Select.IH(4), rule appends_list, erule Select.IH(1), rule appends_list, erule Select.IH(5),
      rule appends_list, erule Select.IH(7), rule appends_orders, erule Select.IH(9), erule appends_order_term)
  have guarded: "appends (write_if (xs \<noteq> []) w) (concat vss)" if "list_all2 appends ws vss" "length ws = length xs" "appends w (concat vss)" for xs :: "'x list" and ws vss w
    using that appends_if_list [OF that(1,3)] by (cases ws; cases xs) auto
  have tail: "appends (seq (write_bound d '' OFFSET '' offset) (case lock of None \<Rightarrow> nothing | Some l \<Rightarrow> write_lock d l)) (bound_values offset)"
    by (rule appends_seq_nil [OF appends_parts(3) lock])
  have sources: "appends (seq (check_sources d ctes rs) w) vs" if "appends w vs" for rs w vs
    using appends_seq [OF appends_basic(6) that] by simp
  show ?case
    unfolding write_select.simps select_values.simps
    by (intro appends_scope(1) sources appends_seq_emit appends_seq tail clause appends_all lists appends_parts(3) Select.IH appends_separated
      guarded [OF lists(1)] guarded [OF lists(4)] guarded [OF lists(5)] appends_then_emit) (use lists in simp_all)
next
  case (CaseWhen x1 x2)
  then show ?case by (auto intro!: appends_seqs)
next
  case (ExpressionProjection e name)
  then show ?case by (auto intro!: appends_seq_nil appends_parts)
next
  case (ResultRelation address body columns name)
  then show ?case by (auto intro!: appends_require appends_seq_emit appends_seq_nil appends_leaves)
next
  case (Cte name body columns ident)
  then have "appends (seq (emit '' AS ('') (seq (write_query_body L d body) (emit '')''))) (body_values L d body)" by (intro appends_seqs)
  from appends_seq [OF appends_leaves(1) this] show ?case by simp
qed (auto intro!: appends_intros appends_cast appends_compound)

lemma rendered_values:
  assumes "render_statement operation validation w = Inr (sql, args)" "appends w vs"
  shows "args = vs"
  using assms by (auto simp: render_statement_def appends_def new_renderer_def split: sum.splits)

text \<open>
  C3. The text and the arguments of a rendered \<open>SELECT\<close> belong together. The arguments are the
  values that the statement binds, in the order in which its parts are written: those of its
  common table expressions, projections, sources, joins, predicates, groups and orders, then
  limit and offset, with the arguments of a native body in the order of its placeholders. And
  the text is a sequence of literal text and of placeholders, the \<open>n\<close>-th of which is the
  dialect's for position \<open>n\<close>, one for each argument: with any other placeholders in the dialect
  the rest of the text is the same.
\<close>
theorem arguments_match_placeholders:
  assumes "render_select T d s = Inr (sql, args)"
  shows "args = select_values (ct_lower T) d s \<and> belongs d (\<lambda>d. render_select T d s) sql args"
proof
  let ?e = "RenderFailure ''the statement declares a correlation with table %q and is rendered on its own'' [QuotedArg (rel_qualified_name (hd (s_correlations s)))]"
  let ?w = "\<lambda>d. if s_correlations s \<noteq> [] then fail ?e else write_select (ct_lower T) d s"
  have "appends (?w d) (select_values (ct_lower T) d s)" by (simp add: appends_basic written_values)
  then show "args = select_values (ct_lower T) d s" by (rule rendered_values [OF assms [unfolded render_select_def]])
  have "agrees d (with_placeholder p d) (?w d) (?w (with_placeholder p d))" for p
    using accounted.write_statement(10) [of d p "ct_lower T" s] by (simp add: select.map_id accounted.fail)
  then show "belongs d (\<lambda>d. render_select T d s) sql args"
    unfolding render_select_def using assms unfolding render_select_def by (intro rendered_belongs [where w = ?w])
qed

text \<open>
  Comparisons with a nil interface as tests of the constructor, so that the model evaluates:
  table references hold functions and have no equality.
\<close>

definition is_nil_expression :: "'v expression \<Rightarrow> bool" where
  "is_nil_expression e = (case e of NilExpression \<Rightarrow> True | _ \<Rightarrow> False)"

definition is_nil_projection :: "'v projection \<Rightarrow> bool" where
  "is_nil_projection p = (case p of NilProjection \<Rightarrow> True | _ \<Rightarrow> False)"

definition is_nil_body :: "'v query_body \<Rightarrow> bool" where
  "is_nil_body b = (case b of NilBody \<Rightarrow> True | _ \<Rightarrow> False)"

lemma nil_code [code_unfold]:
  "HOL.equal e NilExpression \<longleftrightarrow> is_nil_expression e"
  "HOL.equal p NilProjection \<longleftrightarrow> is_nil_projection p"
  "HOL.equal b NilBody \<longleftrightarrow> is_nil_body b"
  by (auto simp: equal is_nil_expression_def is_nil_projection_def is_nil_body_def
      split: expression.split projection.split query_body.split)

definition sample_bound :: "nat select" where
  "sample_bound = Select [ColumnProjection users ''id''] users [] [] [] (Binary (ColumnRef users ''id'') ''='' (Value 5)) []
     NilExpression [] (Some 2) None False None True"


lemma quoted_names:
  "quote_ident PostgreSQL ''users'' = Inr ''\"users\"''" "quote_ident PostgreSQL ''id'' = Inr ''\"id\"''"
  by (simp_all add: quote_ident_def quote_identifier_def validate_identifier_def check_def decode_rune_ascii PostgreSQL_def postgresql_def replace_byte_def)

lemma users_names:
  "rel_qualifier users = ''users''" "rel_qualifier_schema users = []"
  "tr_schema (table_ref_from sample_table) = []" "tr_name (table_ref_from sample_table) = ''users''" "tr_alias (table_ref_from sample_table) = []"
  by (simp_all add: rel_qualifier_def rel_qualifier_schema_def users_def relation_def tr_qualifier_def tr_qualifier_schema_def tr_schema_def
      tr_name_def tr_def_def table_ref_from_def new_table_descriptor_def sample_table_def zero_table_def)

lemma write_users: "write_table L d users = write_physical_table d (table_ref_from sample_table)"
  by (simp add: users_def relation_def)

lemma postgres_placeholders:
  "placeholder_text (base PostgreSQL) 1 = Inr ''$1''" "placeholder_text (base PostgreSQL) 2 = Inr ''$2''"
  by code_simp+

lemma sample_bound_rendered:
  "render_select ascii_tables PostgreSQL sample_bound =
     Inr (''SELECT \"users\".\"id\" FROM \"users\" WHERE (\"users\".\"id\" = $1) LIMIT $2'', [BoundArg 5, IntegerArg 2])"
  by (simp add: render_select_def render_statement_def sample_bound_def in_cte_scope_def seq_def emit_def nothing_def new_renderer_def
    check_sources_def validate_select_sources_def cte_names_collide_def add_source_def visible_source_from_table_def write_if_def
    write_bound_def write_argument_def write_column_ref_def write_physical_table_def emit_result_def
    quote_qualified_def quoted_names users_names postgres_placeholders require_def write_users ascii_tables_def
    del: rbind_eq_Inr rbind_unit_eq_Inr)

theorem arguments_match_placeholders_witness:
  "select_values (ct_lower ascii_tables) PostgreSQL sample_bound = [BoundArg (5 :: nat), IntegerArg 2] \<and>
   belongs PostgreSQL (\<lambda>d. render_select ascii_tables d sample_bound)
     ''SELECT \"users\".\"id\" FROM \"users\" WHERE (\"users\".\"id\" = $1) LIMIT $2'' [BoundArg 5, IntegerArg 2]"
  using arguments_match_placeholders [OF sample_bound_rendered] by metis

subsection \<open>Operands of compound queries\<close>

lemma seq_assoc: "seq (seq a b) c = seq a (seq b c)"
  by (rule ext) (simp add: seq_def rbind_def split: sum.split)

lemma seq_emit_nil [simp]: "seq (emit []) w = w" "seq w (emit []) = w"
  by (rule ext, simp add: seq_def emit_def rbind_def split: sum.split)+

text \<open>
  C34. SQLite has no parentheses around the operands of a compound query, and it groups them from
  the left. The renderer writes none for it, so a compound query nested on the right loses its
  grouping: \<open>a op1 (b op2 c)\<close> and \<open>(a op1 b) op2 c\<close> are written as the same statement, for
  every pair of operators and every operands, with no error.
\<close>
theorem sqlite_compound_loses_grouping:
  "write_query_body L SQLite (Compound a as op1 (Compound b bs op2 c cs) rs) =
   write_query_body L SQLite (Compound (Compound a as op1 b bs) ls op2 c cs)"
proof -
  have "dialect_name SQLite = ''sqlite''" by (simp add: dialect_name_def SQLite_def sqlite_def)
  then show ?thesis by (simp add: write_compound_def seq_assoc)
qed

end
