(* ===== verification/Query_Write.thy ===== *)
theory Query_Write
  imports Query_Scope
begin

text \<open>
  Write statements of package \<open>query\<close> (\<open>query/write.go\<close>): the fields of \<open>Insert\<close>, \<open>Update\<close>,
  \<open>Delete\<close> and \<open>Upsert\<close>, their \<open>Validate\<close> methods, constructors and \<open>With\<close> methods. The
  statements carry no mark: every method validates the whole statement again.
\<close>

subsection \<open>Statements\<close>

type_synonym 'v column_ref = "'v relation_ref \<times> gostring"

record 'v assignment =
  as_column :: "'v column_ref"
  as_value :: "'v expression"
  as_default :: bool

record 'v insert_stmt =
  ins_into :: table_ref
  ins_columns :: "'v column_ref list"
  ins_rows :: "'v expression list list"
  ins_default_values :: bool
  ins_select_source :: "'v result_query option"
  ins_returning :: "'v projection list"

record 'v update_stmt =
  up_table :: table_ref
  up_sets :: "'v assignment list"
  up_where :: "'v expression"
  up_returning :: "'v projection list"
  up_allow_all :: bool

record 'v delete_stmt =
  dl_from :: table_ref
  dl_where :: "'v expression"
  dl_returning :: "'v projection list"
  dl_allow_all :: bool

record 'v upsert_stmt =
  us_insert :: "'v insert_stmt"
  us_conflict :: "'v column_ref list"
  us_assignments :: "'v assignment list"
  us_returning :: "'v projection list"
  us_conflict_where :: "'v expression"
  us_update_where :: "'v expression"

datatype 'v insert_values = SetValue "'v assignment" | DefaultValuesMarker | OtherInsertValues

datatype 'v write_statement =
    InsertStatement "'v insert_stmt"
  | UpdateStatement "'v update_stmt"
  | DeleteStatement "'v delete_stmt"
  | UpsertStatement "'v upsert_stmt"
  | NilWriteStatement

definition set_column :: "'v column_ref \<Rightarrow> 'v any_operand \<Rightarrow> 'v assignment" where
  "set_column column value = \<lparr>as_column = column, as_value = operand value, as_default = False\<rparr>"

text \<open>The value of a default assignment is a node of no other package's, which no switch lists.\<close>

definition set_default :: "'v column_ref \<Rightarrow> 'v assignment" where
  "set_default column = \<lparr>as_column = column, as_value = OtherExpression ''query.defaultExpression'', as_default = True\<rparr>"

subsection \<open>Validation\<close>

definition validate_clause_expression :: "case_tables \<Rightarrow> 'v expression \<Rightarrow> expression_context \<Rightarrow> gostring \<Rightarrow> validation_error + unit" where
  "validate_clause_expression T expression ctx path = rbind (validate_expression T expression ctx path) (\<lambda>_. Inr ())"

definition validate_write_target :: "table_ref \<Rightarrow> gostring \<Rightarrow> validation_error + source_scope" where
  "validate_write_target table path = (case tr_validate table of
       Inl e \<Rightarrow> invalid path ''%s'' [ErrArg e]
     | Inr _ \<Rightarrow> if tr_alias table \<noteq> [] then invalid (path @ ''.alias'') ''write targets must not use an alias'' []
         else Inr (new_source_scope (relation table :: unit relation_ref)))"

definition validate_target_column :: "'v column_ref \<Rightarrow> table_ref \<Rightarrow> gostring \<Rightarrow> validation_error + unit" where
  "validate_target_column column table path = (case rel_validate (fst column) of
       Inl e \<Rightarrow> invalid path ''%s'' [ErrArg e]
     | Inr _ \<Rightarrow>
         if rel_key (fst column) \<noteq> rel_key (relation table :: 'v relation_ref)
           then invalid path ''belongs to table %q instead of target %q'' [QuotedArg (rel_qualified_name (fst column)), QuotedArg (tr_qualified_name table)]
         else if tr_column table (snd column) = None then invalid path ''references unknown column %q'' [QuotedArg (snd column)]
         else Inr ())"

text \<open>One round of the loops over target columns: known, and not seen before.\<close>

definition target_column_step :: "table_ref \<Rightarrow> gostring \<Rightarrow> 'v column_ref \<Rightarrow> gostring set \<Rightarrow> validation_error + gostring set" where
  "target_column_step table path column seen = rbind (validate_target_column column table path) (\<lambda>_.
     if snd column \<in> seen then invalid path ''duplicates column %q'' [QuotedArg (snd column)]
     else Inr (insert (snd column) seen))"

definition validate_projections :: "case_tables \<Rightarrow> 'v projection list \<Rightarrow> source_scope \<Rightarrow> gostring \<Rightarrow> validation_error + unit" where
  "validate_projections T projections sources path =
     rfold (\<lambda>(i, projection) _. let item = item_path path i in
       if projection = NilProjection then invalid item ''must not be nil'' []
       else rbind (if result_alias projection \<noteq> [] then err_at (item @ ''.alias'') (validate_alias (result_alias projection)) else Inr ()) (\<lambda>_.
         validate_clause_expression T (projected_expression projection) (clause_context sources ''a RETURNING projection'') (item @ ''.expression'')))
       (indexed projections) ()"

definition validate_insert_columns :: "'v insert_stmt \<Rightarrow> validation_error + gostring set" where
  "validate_insert_columns s =
     rfold (\<lambda>(i, column). target_column_step (ins_into s) (item_path ''columns'' i) column) (indexed (ins_columns s)) {}"

definition validate_insert_row :: "case_tables \<Rightarrow> source_scope \<Rightarrow> nat \<Rightarrow> nat \<Rightarrow> 'v expression list \<Rightarrow> validation_error + unit" where
  "validate_insert_row T sources columns i row =
     (if length row \<noteq> columns
        then invalid (item_path ''rows'' i) ''has %d values for %d columns'' [IntArg (int (length row)), IntArg (int columns)]
      else rfold (\<lambda>(j, value) _. validate_clause_expression T value (row_value_context sources ''an INSERT value'')
             (item_path (item_path ''rows'' i @ ''.values'') j)) (indexed row) ())"

definition insert_validate :: "case_tables \<Rightarrow> 'v insert_stmt \<Rightarrow> validation_error + unit" where
  "insert_validate T s =
     rbind (validate_write_target (ins_into s) ''into'') (\<lambda>sources.
     if ins_default_values s then
       (if ins_columns s \<noteq> [] then invalid ''columns'' ''must be empty for a default-values insert'' []
        else if ins_rows s \<noteq> [] then invalid ''rows'' ''must be empty for a default-values insert'' []
        else validate_projections T (ins_returning s) sources ''returning'')
     else (case ins_select_source s of
       Some source \<Rightarrow>
         if ins_rows s \<noteq> [] then invalid ''rows'' ''must be empty for an INSERT SELECT'' []
         else if fst source = NilBody then invalid ''select'' ''source must not be empty'' []
         else if ins_columns s = [] then invalid ''columns'' ''must not be empty'' []
         else rbind (validate_insert_columns s) (\<lambda>_.
           if length (ins_columns s) \<noteq> length (snd source)
             then invalid ''columns'' ''has %d columns for %d source results'' [IntArg (int (length (ins_columns s))), IntArg (int (length (snd source)))]
           else rbind (rfold (\<lambda>(i, column) _. validate_target_column column (ins_into s) (item_path ''columns'' i)) (indexed (ins_columns s)) ()) (\<lambda>_.
             validate_projections T (ins_returning s) sources ''returning''))
     | None \<Rightarrow>
         if ins_columns s = [] then invalid ''columns'' ''must not be empty'' []
         else if ins_rows s = [] then invalid ''rows'' ''must not be empty'' []
         else rbind (validate_insert_columns s) (\<lambda>_.
           rbind (rfold (\<lambda>(i, row) _. validate_insert_row T sources (length (ins_columns s)) i row) (indexed (ins_rows s)) ()) (\<lambda>_.
           validate_projections T (ins_returning s) sources ''returning''))))"

definition update_assignment_step :: "case_tables \<Rightarrow> table_ref \<Rightarrow> source_scope \<Rightarrow> gostring \<Rightarrow> 'v assignment \<Rightarrow> gostring set \<Rightarrow> validation_error + gostring set" where
  "update_assignment_step T table sources path assignment seen =
     rbind (target_column_step table (path @ ''.column'') (as_column assignment) seen) (\<lambda>seen'.
     rbind (validate_clause_expression T (as_value assignment) (subquery_clause_context sources ''a SET assignment'') (path @ ''.value'')) (\<lambda>_.
     Inr seen'))"

definition update_validate :: "case_tables \<Rightarrow> 'v update_stmt \<Rightarrow> validation_error + unit" where
  "update_validate T s =
     rbind (validate_write_target (up_table s) ''table'') (\<lambda>sources.
     if up_sets s = [] then invalid ''assignments'' ''must not be empty'' []
     else rbind (rfold (\<lambda>(i, assignment). update_assignment_step T (up_table s) sources (item_path ''assignments'' i) assignment) (indexed (up_sets s)) {}) (\<lambda>_.
     rbind (if up_where s \<noteq> NilExpression
            then validate_clause_expression T (up_where s) (subquery_clause_context sources ''a WHERE clause'') ''where'' else Inr ()) (\<lambda>_.
     if up_allow_all s \<and> up_where s \<noteq> NilExpression then invalid ''allowAll'' ''must not be combined with a WHERE predicate'' []
     else validate_projections T (up_returning s) sources ''returning'')))"

definition delete_validate :: "case_tables \<Rightarrow> 'v delete_stmt \<Rightarrow> validation_error + unit" where
  "delete_validate T s =
     rbind (validate_write_target (dl_from s) ''from'') (\<lambda>sources.
     rbind (if dl_where s \<noteq> NilExpression
            then validate_clause_expression T (dl_where s) (subquery_clause_context sources ''a WHERE clause'') ''where'' else Inr ()) (\<lambda>_.
     if dl_allow_all s \<and> dl_where s \<noteq> NilExpression then invalid ''allowAll'' ''must not be combined with a WHERE predicate'' []
     else validate_projections T (dl_returning s) sources ''returning''))"

definition upsert_assignment_step :: "case_tables \<Rightarrow> table_ref \<Rightarrow> source_scope \<Rightarrow> gostring \<Rightarrow> 'v assignment \<Rightarrow> gostring set \<Rightarrow> validation_error + gostring set" where
  "upsert_assignment_step T table sources path assignment seen =
     rbind (target_column_step table (path @ ''.column'') (as_column assignment) seen) (\<lambda>seen'.
     if as_default assignment then invalid (path @ ''.value'') ''DEFAULT assignments are only supported by UPDATE'' []
     else rbind (validate_clause_expression T (as_value assignment) (excluded_context sources ''a conflict-update assignment'') (path @ ''.value'')) (\<lambda>_.
     Inr seen'))"

definition upsert_validate :: "case_tables \<Rightarrow> 'v upsert_stmt \<Rightarrow> validation_error + unit" where
  "upsert_validate T s =
     (if ins_returning (us_insert s) \<noteq> [] then invalid ''insert.returning'' ''must be set on the upsert'' []
      else rbind (err_at ''insert'' (insert_validate T (us_insert s))) (\<lambda>_.
      if us_conflict s = [] \<and> us_assignments s = [] then invalid ''upsert'' ''requires conflict columns or assignments'' []
      else if us_conflict_where s \<noteq> NilExpression \<and> us_conflict s = [] then invalid ''conflict_where'' ''requires conflict columns'' []
      else if us_update_where s \<noteq> NilExpression \<and> us_assignments s = [] then invalid ''update_where'' ''requires assignments'' []
      else rbind (validate_write_target (ins_into (us_insert s)) ''insert.into'') (\<lambda>sources.
        rbind (rfold (\<lambda>(i, column). target_column_step (ins_into (us_insert s)) (item_path ''conflict'' i) column) (indexed (us_conflict s)) {}) (\<lambda>_.
        rbind (rfold (\<lambda>(i, assignment). upsert_assignment_step T (ins_into (us_insert s)) sources (item_path ''assignments'' i) assignment)
          (indexed (us_assignments s)) {}) (\<lambda>_.
        rbind (if us_conflict_where s \<noteq> NilExpression
               then validate_clause_expression T (us_conflict_where s) (clause_context sources ''a conflict target predicate'') ''conflict_where'' else Inr ()) (\<lambda>_.
        rbind (if us_update_where s \<noteq> NilExpression
               then validate_clause_expression T (us_update_where s) (excluded_context sources ''a conflict-update predicate'') ''update_where'' else Inr ()) (\<lambda>_.
        validate_projections T (us_returning s) sources ''returning'')))))))"

subsection \<open>Building statements\<close>

definition validated_by :: "('s \<Rightarrow> validation_error + unit) \<Rightarrow> 's \<Rightarrow> validation_error + 's" where
  "validated_by chk s = rbind (chk s) (\<lambda>_. Inr s)"

definition zero_insert :: "table_ref \<Rightarrow> 'v insert_stmt" where
  "zero_insert into = \<lparr>ins_into = into, ins_columns = [], ins_rows = [], ins_default_values = False, ins_select_source = None, ins_returning = []\<rparr>"

text \<open>
  \<open>NewInsert\<close>: the loop over its arguments collects columns and values, and ends the call at a
  \<open>Defaults()\<close> or at an argument of no known type.
\<close>

fun insert_arguments :: "nat \<Rightarrow> nat \<Rightarrow> 'v insert_values list \<Rightarrow> validation_error + (('v column_ref \<times> 'v expression) list) option" where
  "insert_arguments n i [] = Inr (Some [])"
| "insert_arguments n i (SetValue a # vs) = rbind (insert_arguments n (i + 1) vs) (\<lambda>rest. Inr (map_option (Cons (as_column a, as_value a)) rest))"
| "insert_arguments n i (DefaultValuesMarker # vs) =
     (if n > 1 then invalid (item_path ''values'' i) ''Defaults() must be the only argument: an INSERT either names its columns with Set or writes the database default for every column'' []
      else Inr None)"
| "insert_arguments n i (OtherInsertValues # vs) = invalid (item_path ''values'' i) ''must be a Set assignment or Defaults()'' []"

definition new_insert :: "case_tables \<Rightarrow> table_ref \<Rightarrow> 'v insert_values list \<Rightarrow> validation_error + 'v insert_stmt" where
  "new_insert T into vals =
     (if vals = [] then invalid ''values'' ''must not be empty; Defaults() writes the database default for every column'' []
      else rbind (insert_arguments (length vals) 0 vals) (\<lambda>arguments. case arguments of
          None \<Rightarrow> validated_by (insert_validate T) ((zero_insert into)\<lparr>ins_default_values := True\<rparr>)
        | Some pairs \<Rightarrow> validated_by (insert_validate T) ((zero_insert into)\<lparr>ins_columns := map fst pairs, ins_rows := [map snd pairs]\<rparr>)))"

definition row_operands :: "'v any_operand list list \<Rightarrow> 'v expression list list" where
  "row_operands rows = map operands rows"

definition new_insert_rows :: "case_tables \<Rightarrow> table_ref \<Rightarrow> 'v column_ref list \<Rightarrow> 'v any_operand list list \<Rightarrow> validation_error + 'v insert_stmt" where
  "new_insert_rows T into columns rows =
     validated_by (insert_validate T) ((zero_insert into)\<lparr>ins_columns := columns, ins_rows := row_operands rows\<rparr>)"

definition new_insert_select :: "case_tables \<Rightarrow> table_ref \<Rightarrow> 'v column_ref list \<Rightarrow> 'v result_query \<Rightarrow> validation_error + 'v insert_stmt" where
  "new_insert_select T into columns source =
     validated_by (insert_validate T) ((zero_insert into)\<lparr>ins_columns := columns, ins_select_source := Some source\<rparr>)"

definition insert_with_rows :: "case_tables \<Rightarrow> 'v any_operand list list \<Rightarrow> 'v insert_stmt \<Rightarrow> validation_error + 'v insert_stmt" where
  "insert_with_rows T rows s = validated_by (insert_validate T) (s\<lparr>ins_rows := ins_rows s @ row_operands rows\<rparr>)"

definition insert_with_returning :: "case_tables \<Rightarrow> 'v projection list \<Rightarrow> 'v insert_stmt \<Rightarrow> validation_error + 'v insert_stmt" where
  "insert_with_returning T projections s = validated_by (insert_validate T) (s\<lparr>ins_returning := ins_returning s @ projections\<rparr>)"

definition new_update :: "case_tables \<Rightarrow> table_ref \<Rightarrow> 'v assignment list \<Rightarrow> validation_error + 'v update_stmt" where
  "new_update T table assignments = validated_by (update_validate T)
     \<lparr>up_table = table, up_sets = assignments, up_where = NilExpression, up_returning = [], up_allow_all = False\<rparr>"

definition update_with_where :: "case_tables \<Rightarrow> 'v expression \<Rightarrow> 'v update_stmt \<Rightarrow> validation_error + 'v update_stmt" where
  "update_with_where T expression s =
     (if expression \<noteq> NilExpression \<and> up_allow_all s then Inl (plain_error ''query: UPDATE AllowAll must not be combined with a WHERE predicate'')
      else validated_by (update_validate T) (s\<lparr>up_where := expression\<rparr>))"

definition update_allow_all :: "case_tables \<Rightarrow> 'v update_stmt \<Rightarrow> validation_error + 'v update_stmt" where
  "update_allow_all T s =
     (if up_where s \<noteq> NilExpression then Inl (plain_error ''query: UPDATE AllowAll must not be combined with a WHERE predicate'')
      else validated_by (update_validate T) (s\<lparr>up_allow_all := True\<rparr>))"

definition update_with_returning :: "case_tables \<Rightarrow> 'v projection list \<Rightarrow> 'v update_stmt \<Rightarrow> validation_error + 'v update_stmt" where
  "update_with_returning T projections s = validated_by (update_validate T) (s\<lparr>up_returning := up_returning s @ projections\<rparr>)"

definition new_delete :: "case_tables \<Rightarrow> table_ref \<Rightarrow> validation_error + 'v delete_stmt" where
  "new_delete T table = validated_by (delete_validate T)
     \<lparr>dl_from = table, dl_where = NilExpression, dl_returning = [], dl_allow_all = False\<rparr>"

definition delete_with_where :: "case_tables \<Rightarrow> 'v expression \<Rightarrow> 'v delete_stmt \<Rightarrow> validation_error + 'v delete_stmt" where
  "delete_with_where T expression s =
     (if expression \<noteq> NilExpression \<and> dl_allow_all s then Inl (plain_error ''query: DELETE AllowAll must not be combined with a WHERE predicate'')
      else validated_by (delete_validate T) (s\<lparr>dl_where := expression\<rparr>))"

definition delete_allow_all :: "case_tables \<Rightarrow> 'v delete_stmt \<Rightarrow> validation_error + 'v delete_stmt" where
  "delete_allow_all T s =
     (if dl_where s \<noteq> NilExpression then Inl (plain_error ''query: DELETE AllowAll must not be combined with a WHERE predicate'')
      else validated_by (delete_validate T) (s\<lparr>dl_allow_all := True\<rparr>))"

definition delete_with_returning :: "case_tables \<Rightarrow> 'v projection list \<Rightarrow> 'v delete_stmt \<Rightarrow> validation_error + 'v delete_stmt" where
  "delete_with_returning T projections s = validated_by (delete_validate T) (s\<lparr>dl_returning := dl_returning s @ projections\<rparr>)"

definition new_upsert :: "case_tables \<Rightarrow> 'v insert_stmt \<Rightarrow> 'v column_ref list \<Rightarrow> 'v assignment list \<Rightarrow> validation_error + 'v upsert_stmt" where
  "new_upsert T ins conflict assignments = validated_by (upsert_validate T)
     \<lparr>us_insert = ins, us_conflict = conflict, us_assignments = assignments, us_returning = [],
      us_conflict_where = NilExpression, us_update_where = NilExpression\<rparr>"

definition upsert_with_returning :: "case_tables \<Rightarrow> 'v projection list \<Rightarrow> 'v upsert_stmt \<Rightarrow> validation_error + 'v upsert_stmt" where
  "upsert_with_returning T projections s = validated_by (upsert_validate T) (s\<lparr>us_returning := us_returning s @ projections\<rparr>)"

definition upsert_with_conflict_where :: "case_tables \<Rightarrow> 'v expression \<Rightarrow> 'v upsert_stmt \<Rightarrow> validation_error + 'v upsert_stmt" where
  "upsert_with_conflict_where T predicate s =
     (if predicate = NilExpression then invalid ''conflict_where'' ''must not be nil'' []
      else validated_by (upsert_validate T) (s\<lparr>us_conflict_where := predicate\<rparr>))"

definition upsert_with_update_where :: "case_tables \<Rightarrow> 'v expression \<Rightarrow> 'v upsert_stmt \<Rightarrow> validation_error + 'v upsert_stmt" where
  "upsert_with_update_where T predicate s =
     (if predicate = NilExpression then invalid ''update_where'' ''must not be nil'' []
      else validated_by (upsert_validate T) (s\<lparr>us_update_where := predicate\<rparr>))"

text \<open>The statements a caller can hold besides the zero values.\<close>

inductive built_insert :: "case_tables \<Rightarrow> 'v insert_stmt \<Rightarrow> bool" for T where
  new: "new_insert T into vals = Inr s \<Longrightarrow> built_insert T s"
| rows: "new_insert_rows T into columns rs = Inr s \<Longrightarrow> built_insert T s"
| sel: "new_insert_select T into columns source = Inr s \<Longrightarrow> built_insert T s"
| with_rows: "built_insert T s \<Longrightarrow> insert_with_rows T rs s = Inr t \<Longrightarrow> built_insert T t"
| returning: "built_insert T s \<Longrightarrow> insert_with_returning T ps s = Inr t \<Longrightarrow> built_insert T t"

inductive built_update :: "case_tables \<Rightarrow> 'v update_stmt \<Rightarrow> bool" for T where
  new: "new_update T table assignments = Inr s \<Longrightarrow> built_update T s"
| whr: "built_update T s \<Longrightarrow> update_with_where T e s = Inr t \<Longrightarrow> built_update T t"
| everything: "built_update T s \<Longrightarrow> update_allow_all T s = Inr t \<Longrightarrow> built_update T t"
| returning: "built_update T s \<Longrightarrow> update_with_returning T ps s = Inr t \<Longrightarrow> built_update T t"

inductive built_delete :: "case_tables \<Rightarrow> 'v delete_stmt \<Rightarrow> bool" for T where
  new: "new_delete T table = Inr s \<Longrightarrow> built_delete T s"
| whr: "built_delete T s \<Longrightarrow> delete_with_where T e s = Inr t \<Longrightarrow> built_delete T t"
| everything: "built_delete T s \<Longrightarrow> delete_allow_all T s = Inr t \<Longrightarrow> built_delete T t"
| returning: "built_delete T s \<Longrightarrow> delete_with_returning T ps s = Inr t \<Longrightarrow> built_delete T t"

inductive built_upsert :: "case_tables \<Rightarrow> 'v upsert_stmt \<Rightarrow> bool" for T where
  new: "built_insert T ins \<Longrightarrow> new_upsert T ins conflict assignments = Inr s \<Longrightarrow> built_upsert T s"
| conflict: "built_upsert T s \<Longrightarrow> upsert_with_conflict_where T e s = Inr t \<Longrightarrow> built_upsert T t"
| update: "built_upsert T s \<Longrightarrow> upsert_with_update_where T e s = Inr t \<Longrightarrow> built_upsert T t"
| returning: "built_upsert T s \<Longrightarrow> upsert_with_returning T ps s = Inr t \<Longrightarrow> built_upsert T t"

lemma validated_by_Inr [simp]: "validated_by chk s = Inr t \<longleftrightarrow> chk s = Inr () \<and> t = s"
  by (auto simp: validated_by_def)

lemma built_insert_valid: "built_insert T s \<Longrightarrow> insert_validate T s = Inr ()"
  by (induction rule: built_insert.induct)
    (auto simp: new_insert_def new_insert_rows_def new_insert_select_def insert_with_rows_def insert_with_returning_def
      simp del: rbind_unit_eq_Inr split: if_splits option.splits)

lemma built_update_valid: "built_update T s \<Longrightarrow> update_validate T s = Inr ()"
  by (induction rule: built_update.induct)
    (auto simp: new_update_def update_with_where_def update_allow_all_def update_with_returning_def split: if_splits)

lemma built_delete_valid: "built_delete T s \<Longrightarrow> delete_validate T s = Inr ()"
  by (induction rule: built_delete.induct)
    (auto simp: new_delete_def delete_with_where_def delete_allow_all_def delete_with_returning_def split: if_splits)

lemma built_upsert_valid: "built_upsert T s \<Longrightarrow> upsert_validate T s = Inr ()"
  by (induction rule: built_upsert.induct)
    (auto simp: new_upsert_def upsert_with_conflict_where_def upsert_with_update_where_def upsert_with_returning_def split: if_splits)

subsection \<open>What validation guarantees\<close>

definition target_column :: "table_ref \<Rightarrow> 'v column_ref \<Rightarrow> bool" where
  "target_column table c = (rel_key (fst c) = rel_key (relation table :: 'v relation_ref) \<and> tr_column table (snd c) \<noteq> None)"

definition target_column_ok :: "table_ref \<Rightarrow> 'v column_ref \<Rightarrow> bool" where
  "target_column_ok table c = (rel_validate (fst c) = Inr () \<and> target_column table c)"

lemma validate_target_column_iff [simp]: "validate_target_column c table path = Inr u \<longleftrightarrow> target_column_ok table c"
  by (auto simp: validate_target_column_def target_column_ok_def target_column_def split: sum.splits)

lemma target_column_step_iff: "target_column_step table path c seen = Inr seen' \<longleftrightarrow>
    target_column_ok table c \<and> snd c \<notin> seen \<and> seen' = insert (snd c) seen"
  by (auto simp: target_column_step_def)

interpretation target_columns: registry_loop "\<lambda>(i, c). target_column_step table (item_path path i) c"
  "\<lambda>p. target_column_ok table (snd p)" "\<lambda>p. Some (snd (snd p))" "\<lambda>seen. seen"
  by unfold_locales (auto simp: target_column_step_iff)

definition clause_ok :: "case_tables \<Rightarrow> 'v expression \<Rightarrow> expression_context \<Rightarrow> gostring \<Rightarrow> bool" where
  "clause_ok T e ctx path = (validate_clause_expression T e ctx path = Inr ())"

interpretation update_sets: registry_loop "\<lambda>(i, a). update_assignment_step T table sources (item_path path i) a"
  "\<lambda>p. target_column_ok table (as_column (snd p)) \<and>
     clause_ok T (as_value (snd p)) (subquery_clause_context sources ''a SET assignment'') (item_path path (fst p) @ ''.value'')"
  "\<lambda>p. Some (snd (as_column (snd p)))" "\<lambda>seen. seen"
  by unfold_locales (auto simp: update_assignment_step_def target_column_step_iff clause_ok_def)

interpretation upsert_sets: registry_loop "\<lambda>(i, a). upsert_assignment_step T table sources (item_path path i) a"
  "\<lambda>p. target_column_ok table (as_column (snd p)) \<and> \<not> as_default (snd p) \<and>
     clause_ok T (as_value (snd p)) (excluded_context sources ''a conflict-update assignment'') (item_path path (fst p) @ ''.value'')"
  "\<lambda>p. Some (snd (as_column (snd p)))" "\<lambda>seen. seen"
  by unfold_locales (auto simp: upsert_assignment_step_def target_column_step_iff clause_ok_def split: if_splits)

lemma map_filter_snd: "List.map_filter (\<lambda>p. Some (g (snd p))) (indexed xs) = map g xs"
  using map_filter_indexed [of "\<lambda>x. Some (g x)" xs] by simp

lemma target_columns_valid:
  assumes "rfold (\<lambda>(i, c). target_column_step table (item_path path i) c) (indexed cs) {} = Inr t"
  shows "distinct (map snd cs) \<and> (\<forall>c \<in> set cs. target_column_ok table c)"
  using iffD1 [OF target_columns.run, OF exI, OF assms] map_filter_snd [of snd cs] by simp

lemma update_sets_valid:
  assumes "rfold (\<lambda>(i, a). update_assignment_step T table sources (item_path path i) a) (indexed as) {} = Inr t"
  shows "distinct (map (snd \<circ> as_column) as) \<and> (\<forall>a \<in> set as. target_column_ok table (as_column a) \<and>
    (\<exists>p. clause_ok T (as_value a) (subquery_clause_context sources ''a SET assignment'') p))"
proof -
  have run: "\<forall>p \<in> set (indexed as). target_column_ok table (as_column (snd p)) \<and>
       clause_ok T (as_value (snd p)) (subquery_clause_context sources ''a SET assignment'') (item_path path (fst p) @ ''.value'')"
    "distinct (List.map_filter (\<lambda>p. Some (snd (as_column (snd p)))) (indexed as))"
    using iffD1 [OF update_sets.run, OF exI, OF assms] by blast+
  have "distinct (map (snd \<circ> as_column) as)" using run(2) map_filter_snd [of "snd \<circ> as_column" as] by simp
  then show ?thesis using run(1) in_indexed by fastforce
qed

lemma upsert_sets_valid:
  assumes "rfold (\<lambda>(i, a). upsert_assignment_step T table sources (item_path path i) a) (indexed as) {} = Inr t"
  shows "distinct (map (snd \<circ> as_column) as) \<and> (\<forall>a \<in> set as. target_column_ok table (as_column a) \<and> \<not> as_default a \<and>
    (\<exists>p. clause_ok T (as_value a) (excluded_context sources ''a conflict-update assignment'') p))"
proof -
  have run: "\<forall>p \<in> set (indexed as). target_column_ok table (as_column (snd p)) \<and> \<not> as_default (snd p) \<and>
       clause_ok T (as_value (snd p)) (excluded_context sources ''a conflict-update assignment'') (item_path path (fst p) @ ''.value'')"
    "distinct (List.map_filter (\<lambda>p. Some (snd (as_column (snd p)))) (indexed as))"
    using iffD1 [OF upsert_sets.run, OF exI, OF assms] by blast+
  have "distinct (map (snd \<circ> as_column) as)" using run(2) map_filter_snd [of "snd \<circ> as_column" as] by simp
  then show ?thesis using run(1) in_indexed by fastforce
qed

lemma row_value_reads_nothing:
  assumes "validate_expression T e (row_value_context sources clause) path = Inr u"
  shows "own_columns e = []"
proof -
  have "\<not> admitted (row_value_context sources clause) c" for c :: "'a relation_ref \<times> gostring"
    by (simp add: admitted_def row_value_context_def clause_context_def)
  then show ?thesis using expression_admitted(1) [OF assms] by (cases "own_columns e") auto
qed

lemma insert_rows_valid:
  assumes "rfold (\<lambda>(i, row) _. validate_insert_row T sources n i row) (indexed rows) () = Inr t" "row \<in> set rows"
  shows "length row = n \<and> (\<forall>v \<in> set row. own_columns v = [])"
proof -
  obtain i where "validate_insert_row T sources n i row = Inr ()" using rfold_indexed_each [OF assms] by auto
  then have n: "length row = n" and each: "rfold (\<lambda>(j, value) _. validate_clause_expression T value (row_value_context sources ''an INSERT value'')
             (item_path (item_path ''rows'' i @ ''.values'') j)) (indexed row) () = Inr ()"
    by (auto simp: validate_insert_row_def split: if_splits)
  have "own_columns v = []" if "v \<in> set row" for v
    using rfold_indexed_each [OF each that] by (auto simp: validate_clause_expression_def dest: row_value_reads_nothing)
  then show ?thesis using n by blast
qed

text \<open>
  C5. Every \<open>INSERT\<close> that the constructors and \<open>With\<close> methods can build is well formed: its
  target has no alias, its columns are columns of the target, each named once; it takes its
  rows from exactly one place, the defaults, a query or a list of rows; a query supplies as
  many results and every row as many values as there are columns; and no value of a row reads a
  column of any table.
\<close>
theorem built_insert_is_rectangular:
  assumes "built_insert T s"
  shows "tr_alias (ins_into s) = [] \<and> distinct (map snd (ins_columns s)) \<and> list_all (target_column (ins_into s)) (ins_columns s) \<and>
    (if ins_default_values s then ins_columns s = [] \<and> ins_rows s = []
     else ins_columns s \<noteq> [] \<and>
       (case ins_select_source s of
          Some source \<Rightarrow> ins_rows s = [] \<and> fst source \<noteq> NilBody \<and> length (snd source) = length (ins_columns s)
        | None \<Rightarrow> ins_rows s \<noteq> [])) \<and>
    list_all (\<lambda>row. length row = length (ins_columns s) \<and> list_all (\<lambda>v. own_columns v = []) row) (ins_rows s)"
proof -
  have v: "insert_validate T s = Inr ()" by (rule built_insert_valid [OF assms])
  then obtain sources where sources: "validate_write_target (ins_into s) ''into'' = Inr sources" by (auto simp: insert_validate_def)
  then have plain: "tr_alias (ins_into s) = []" by (auto simp: validate_write_target_def split: sum.splits if_splits)
  have columns: "distinct (map snd (ins_columns s)) \<and> list_all (target_column (ins_into s)) (ins_columns s)"
    using v target_columns_valid [of "ins_into s" "''columns''" "ins_columns s"]
    by (auto simp: insert_validate_def validate_insert_columns_def target_column_ok_def list_all_iff split: if_splits option.splits)
  have rows: "length row = length (ins_columns s) \<and> (\<forall>v \<in> set row. own_columns v = [])" if "row \<in> set (ins_rows s)" for row
    using v sources that insert_rows_valid [of T sources "length (ins_columns s)" "ins_rows s" "()" row]
    by (auto simp: insert_validate_def split: if_splits option.splits)
  show ?thesis using v plain columns rows by (auto simp: insert_validate_def list_all_iff split: if_splits option.splits)
qed

text \<open>The columns a clause reads, outside of subqueries, are columns of the one table that is written.\<close>

definition reads_target :: "table_ref \<Rightarrow> ('v relation_ref \<times> gostring) list \<Rightarrow> bool" where
  "reads_target table cs = list_all (\<lambda>c. rel_key (fst c) = rel_key (relation table :: 'v relation_ref) \<and> has_column (fst c) (snd c)) cs"

lemma reads_target_simps [simp]:
  "reads_target table []" "reads_target table (cs @ ds) \<longleftrightarrow> reads_target table cs \<and> reads_target table ds"
  "reads_target table (concat css) \<longleftrightarrow> list_all (reads_target table) css"
  by (auto simp: reads_target_def list_all_iff)

lemma write_target_scope:
  assumes "validate_write_target table path = Inr sources"
  shows "tr_alias table = [] \<and> sources = new_source_scope (relation table :: unit relation_ref)"
  using assms by (auto simp: validate_write_target_def split: sum.splits if_splits)

lemma clause_reads_target:
  assumes "validate_write_target table path = Inr sources" "validate_clause_expression T e ctx p = Inr ()" "ec_sources ctx = sources"
  shows "reads_target table (own_columns e)"
proof -
  obtain u where "validate_expression T e ctx p = Inr u" using assms(2) by (auto simp: validate_clause_expression_def)
  then have "all_in_scope sources (own_columns e)" using expression_scope(1) assms(3) by blast
  then show ?thesis using write_target_scope [OF assms(1)]
    by (auto simp: reads_target_def all_in_scope_def in_scope_def list_all_iff new_source_scope_def scope_add_def empty_scope_def relation_def)
qed

lemma write_context_scope [simp]:
  "ec_sources (subquery_clause_context sources clause) = sources" "ec_sources (excluded_context sources clause) = sources"
  "ec_sources (clause_context sources clause) = sources"
  by (simp_all add: subquery_clause_context_def excluded_context_def clause_context_def)

lemma optional_clause_reads_target:
  assumes "validate_write_target table path = Inr sources" "ec_sources ctx = sources"
    and "(if e \<noteq> NilExpression then validate_clause_expression T e ctx p else Inr ()) = Inr ()"
  shows "reads_target table (own_columns e)"
  using assms clause_reads_target [OF assms(1) _ assms(2), of T e p] by (cases "e = NilExpression") auto

lemma returning_reads_target:
  assumes "validate_write_target table path = Inr sources" "validate_projections T ps sources p = Inr u" "q \<in> set ps"
  shows "reads_target table (own_columns (projected_expression q))"
proof -
  obtain i where "validate_clause_expression T (projected_expression q) (clause_context sources ''a RETURNING projection'') (item_path p i @ ''.expression'') = Inr ()"
    using rfold_indexed_each [OF assms(2) [unfolded validate_projections_def] assms(3)] by (auto simp: Let_def split: if_splits)
  then show ?thesis by (rule clause_reads_target [OF assms(1)]) simp
qed

definition assigns_target :: "table_ref \<Rightarrow> 'v assignment list \<Rightarrow> bool" where
  "assigns_target table sets = (distinct (map (snd \<circ> as_column) sets) \<and> list_all (\<lambda>a. target_column table (as_column a)) sets \<and>
     reads_target table (concat (map (\<lambda>a. own_columns (as_value a)) sets)))"

lemma update_assigns_target:
  assumes "validate_write_target table path = Inr sources"
    "rfold (\<lambda>(i, a). update_assignment_step T table sources (item_path p i) a) (indexed sets) {} = Inr t"
  shows "assigns_target table sets"
proof -
  have "reads_target table (own_columns (as_value a))" if "a \<in> set sets" for a
    using update_sets_valid [OF assms(2)] that clause_reads_target [OF assms(1)] by (fastforce simp: clause_ok_def)
  then show ?thesis using update_sets_valid [OF assms(2)] by (auto simp: assigns_target_def list_all_iff target_column_ok_def)
qed

lemma upsert_assigns_target:
  assumes "validate_write_target table path = Inr sources"
    "rfold (\<lambda>(i, a). upsert_assignment_step T table sources (item_path p i) a) (indexed sets) {} = Inr t"
  shows "assigns_target table sets \<and> list_all (\<lambda>a. \<not> as_default a) sets"
proof -
  have "reads_target table (own_columns (as_value a))" if "a \<in> set sets" for a
    using upsert_sets_valid [OF assms(2)] that clause_reads_target [OF assms(1)] by (fastforce simp: clause_ok_def)
  then show ?thesis using upsert_sets_valid [OF assms(2)] by (auto simp: assigns_target_def list_all_iff target_column_ok_def)
qed

abbreviation returned_columns :: "'v projection list \<Rightarrow> ('v relation_ref \<times> gostring) list" where
  "returned_columns ps \<equiv> concat (map (\<lambda>p. own_columns (projected_expression p)) ps)"

lemma update_on_target:
  assumes "built_update T u"
  shows "tr_alias (up_table u) = [] \<and> up_sets u \<noteq> [] \<and> assigns_target (up_table u) (up_sets u) \<and>
      reads_target (up_table u) (own_columns (up_where u) @ returned_columns (up_returning u)) \<and>
      \<not> (up_allow_all u \<and> up_where u \<noteq> NilExpression)"
proof (intro conjI)
  have v: "update_validate T u = Inr ()" by (rule built_update_valid [OF assms])
  then obtain sources where sources: "validate_write_target (up_table u) ''table'' = Inr sources" by (auto simp: update_validate_def)
  show "tr_alias (up_table u) = []" using write_target_scope [OF sources] by blast
  show "up_sets u \<noteq> []" "\<not> (up_allow_all u \<and> up_where u \<noteq> NilExpression)"
    using v sources by (auto simp: update_validate_def split: if_splits)
  show "assigns_target (up_table u) (up_sets u)"
    using v sources update_assigns_target [OF sources] by (auto simp: update_validate_def split: if_splits)
  show "reads_target (up_table u) (own_columns (up_where u) @ returned_columns (up_returning u))"
    using v sources returning_reads_target [OF sources] optional_clause_reads_target [OF sources, of "subquery_clause_context sources ''a WHERE clause''" "up_where u" T]
    by (auto simp: update_validate_def list_all_iff split: if_splits)
qed

lemma delete_on_target:
  assumes "built_delete T x"
  shows "tr_alias (dl_from x) = [] \<and>
      reads_target (dl_from x) (own_columns (dl_where x) @ returned_columns (dl_returning x)) \<and>
      \<not> (dl_allow_all x \<and> dl_where x \<noteq> NilExpression)"
proof (intro conjI)
  have v: "delete_validate T x = Inr ()" by (rule built_delete_valid [OF assms])
  then obtain sources where sources: "validate_write_target (dl_from x) ''from'' = Inr sources" by (auto simp: delete_validate_def)
  show "tr_alias (dl_from x) = []" using write_target_scope [OF sources] by blast
  show "\<not> (dl_allow_all x \<and> dl_where x \<noteq> NilExpression)" using v sources by (auto simp: delete_validate_def split: if_splits)
  show "reads_target (dl_from x) (own_columns (dl_where x) @ returned_columns (dl_returning x))"
    using v sources returning_reads_target [OF sources] optional_clause_reads_target [OF sources, of "subquery_clause_context sources ''a WHERE clause''" "dl_where x" T]
    by (auto simp: delete_validate_def list_all_iff split: if_splits)
qed

lemma upsert_on_target:
  assumes "built_upsert T y"
  shows "tr_alias (ins_into (us_insert y)) = [] \<and> assigns_target (ins_into (us_insert y)) (us_assignments y) \<and>
      list_all (\<lambda>a. \<not> as_default a) (us_assignments y) \<and>
      distinct (map snd (us_conflict y)) \<and> list_all (target_column (ins_into (us_insert y))) (us_conflict y) \<and>
      reads_target (ins_into (us_insert y)) (own_columns (us_conflict_where y) @ own_columns (us_update_where y) @ returned_columns (us_returning y))"
proof (intro conjI)
  have v: "upsert_validate T y = Inr ()" by (rule built_upsert_valid [OF assms])
  then obtain sources where sources: "validate_write_target (ins_into (us_insert y)) ''insert.into'' = Inr sources"
    by (auto simp: upsert_validate_def split: if_splits)
  show "tr_alias (ins_into (us_insert y)) = []" using write_target_scope [OF sources] by blast
  show "assigns_target (ins_into (us_insert y)) (us_assignments y)" "list_all (\<lambda>a. \<not> as_default a) (us_assignments y)"
    using v sources upsert_assigns_target [OF sources] by (auto simp: upsert_validate_def split: if_splits)
  have "distinct (map snd (us_conflict y)) \<and> (\<forall>c \<in> set (us_conflict y). target_column_ok (ins_into (us_insert y)) c)"
    using v sources target_columns_valid [of "ins_into (us_insert y)" "''conflict''" "us_conflict y"] by (auto simp: upsert_validate_def split: if_splits)
  then show "distinct (map snd (us_conflict y))" "list_all (target_column (ins_into (us_insert y))) (us_conflict y)"
    by (auto simp: list_all_iff target_column_ok_def)
  have "reads_target (ins_into (us_insert y)) (own_columns (us_conflict_where y))"
    using v sources optional_clause_reads_target [OF sources, of "clause_context sources ''a conflict target predicate''" "us_conflict_where y" T]
    by (auto simp: upsert_validate_def split: if_splits)
  moreover have "reads_target (ins_into (us_insert y)) (own_columns (us_update_where y))"
    using v sources optional_clause_reads_target [OF sources, of "excluded_context sources ''a conflict-update predicate''" "us_update_where y" T]
    by (auto simp: upsert_validate_def split: if_splits)
  moreover have "reads_target (ins_into (us_insert y)) (returned_columns (us_returning y))"
    using v sources returning_reads_target [OF sources] by (auto simp: upsert_validate_def list_all_iff split: if_splits)
  ultimately show "reads_target (ins_into (us_insert y)) (own_columns (us_conflict_where y) @ own_columns (us_update_where y) @ returned_columns (us_returning y))"
    by simp
qed

text \<open>
  C14. Every \<open>UPDATE\<close>, \<open>DELETE\<close> and upsert that can be built stays on its target, which has no
  alias. It assigns columns of the target, each at most once, and an update assigns at least one;
  outside of subqueries its values, predicates and \<open>RETURNING\<close> list read columns of the target
  only; an update or delete never has both a predicate and the permission for all rows; an
  upsert assigns no default, and its conflict columns are distinct columns of the target.
\<close>
theorem built_writes_stay_on_target:
  "(built_update T u \<longrightarrow> tr_alias (up_table u) = [] \<and> up_sets u \<noteq> [] \<and> assigns_target (up_table u) (up_sets u) \<and>
      reads_target (up_table u) (own_columns (up_where u) @ returned_columns (up_returning u)) \<and>
      \<not> (up_allow_all u \<and> up_where u \<noteq> NilExpression)) \<and>
   (built_delete T x \<longrightarrow> tr_alias (dl_from x) = [] \<and>
      reads_target (dl_from x) (own_columns (dl_where x) @ returned_columns (dl_returning x)) \<and>
      \<not> (dl_allow_all x \<and> dl_where x \<noteq> NilExpression)) \<and>
   (built_upsert T y \<longrightarrow> tr_alias (ins_into (us_insert y)) = [] \<and> assigns_target (ins_into (us_insert y)) (us_assignments y) \<and>
      list_all (\<lambda>a. \<not> as_default a) (us_assignments y) \<and>
      distinct (map snd (us_conflict y)) \<and> list_all (target_column (ins_into (us_insert y))) (us_conflict y) \<and>
      reads_target (ins_into (us_insert y)) (own_columns (us_conflict_where y) @ own_columns (us_update_where y) @ returned_columns (us_returning y)))"
  using update_on_target delete_on_target upsert_on_target by blast

text \<open>Sample statements on the table of the sample \<open>SELECT\<close>.\<close>

abbreviation users_table :: table_ref where
  "users_table \<equiv> table_ref_from sample_table"

lemma users_target [simp]:
  "tr_validate users_table = Inr ()" "tr_alias users_table = []" "relation users_table = users"
  "tr_column users_table ''id'' \<noteq> None" "tr_column users_table ''email'' \<noteq> None"
  by (simp_all add: tr_validate_def table_ref_from_def users_def tr_column_def descriptor_column_fresh table_column_def sample_table_def)

definition sample_insert :: "nat insert_stmt" where
  "sample_insert = (zero_insert users_table)\<lparr>ins_columns := [(users, ''id''), (users, ''email'')], ins_rows := [[Value 1, Value 2]]\<rparr>"

definition sample_update :: "nat update_stmt" where
  "sample_update = \<lparr>up_table = users_table, up_sets = [set_column (users, ''email'') (Inl 3)],
     up_where = Binary (ColumnRef users ''id'') ''='' (Value 1), up_returning = [], up_allow_all = False\<rparr>"

lemmas sample_defs = validate_write_target_def validate_target_column_def target_column_step_def indexed_def item_path_def
  validate_clause_expression_def validate_projections_def set_column_def operand_def row_value_context_def
  subquery_clause_context_def clause_context_def new_source_scope_def scope_add_def empty_scope_def validate_column_ref_def
  no_usage_def usage_merge_def valid_binary_operator_def

lemma users_key: "rel_key users = TableKey (tr_key users_table)"
  by (simp add: users_def relation_def)

lemma sample_insert_built: "built_insert ascii_tables sample_insert"
proof (rule built_insert.new)
  show "new_insert ascii_tables users_table [SetValue (set_column (users, ''id'') (Inl 1)), SetValue (set_column (users, ''email'') (Inl 2))] = Inr sample_insert"
    by (simp add: new_insert_def sample_insert_def zero_insert_def insert_validate_def validate_insert_columns_def validate_insert_row_def users_key sample_defs)
qed

lemma sample_update_built: "built_update ascii_tables sample_update"
proof (rule built_update.whr)
  show "built_update ascii_tables (sample_update\<lparr>up_where := NilExpression\<rparr>)"
    by (rule built_update.new [of _ users_table "up_sets sample_update"])
      (simp add: new_update_def sample_update_def update_validate_def update_assignment_step_def users_key sample_defs)
  show "update_with_where ascii_tables (up_where sample_update) (sample_update\<lparr>up_where := NilExpression\<rparr>) = Inr sample_update"
    by (simp add: update_with_where_def sample_update_def update_validate_def update_assignment_step_def users_key sample_defs)
qed

theorem built_insert_is_rectangular_witness:
  "\<exists>s :: nat insert_stmt. built_insert ascii_tables s \<and> map snd (ins_columns s) = [''id'', ''email''] \<and>
     list_all (\<lambda>row. length row = 2) (ins_rows s)"
  using built_insert_is_rectangular [OF sample_insert_built] sample_insert_built
  by (intro exI [of _ sample_insert]) (simp add: sample_insert_def zero_insert_def)

theorem built_writes_stay_on_target_witness:
  "built_update ascii_tables sample_update \<and> assigns_target users_table (up_sets sample_update) \<and>
   reads_target users_table (own_columns (up_where sample_update))"
  using conjunct1 [OF built_writes_stay_on_target, of ascii_tables sample_update] sample_update_built
  by (simp add: sample_update_def)

end
