(* ===== verification/Render_Write.thy ===== *)
theory Render_Write
  imports Render_Values Query_Write
begin

text \<open>
  Rendering of write statements (\<open>render/write.go\<close>).
\<close>

subsection \<open>Subqueries that read the written table\<close>

definition same_base_table :: "table_ref \<Rightarrow> table_ref \<Rightarrow> bool" where
  "same_base_table source target =
     (if tr_name source \<noteq> tr_name target then False
      else if tr_schema source \<noteq> [] \<and> tr_schema target \<noteq> [] then tr_schema source = tr_schema target
      else True)"

definition source_is_target :: "'v relation_ref \<Rightarrow> table_ref \<Rightarrow> bool" where
  "source_is_target source target = (case rel_table source of Some table \<Rightarrow> same_base_table table target | None \<Rightarrow> False)"

primrec expression_reads_write_target :: "table_ref \<Rightarrow> 'v expression \<Rightarrow> bool"
  and order_reads_write_target :: "table_ref \<Rightarrow> 'v order \<Rightarrow> bool"
  and projection_reads_write_target :: "table_ref \<Rightarrow> 'v projection \<Rightarrow> bool"
  and join_reads_write_target :: "table_ref \<Rightarrow> 'v join \<Rightarrow> bool"
  and select_reads_write_target :: "table_ref \<Rightarrow> 'v select \<Rightarrow> bool" where
  "expression_reads_write_target target NilExpression = False"
| "expression_reads_write_target target (ColumnRef source name) = False"
| "expression_reads_write_target target (ExcludedColumn source name) = False"
| "expression_reads_write_target target (TableIdentifier source) = False"
| "expression_reads_write_target target (Value v) = False"
| "expression_reads_write_target target (Binary left operator right) =
     (expression_reads_write_target target left \<or> expression_reads_write_target target right)"
| "expression_reads_write_target target (Case subject branches fallback) = False"
| "expression_reads_write_target target (Cast expr type) = False"
| "expression_reads_write_target target (Filter aggregate predicate) = False"
| "expression_reads_write_target target (Over expr parts order) = False"
| "expression_reads_write_target target (TrustedFragment sql parts) = False"
| "expression_reads_write_target target (Logical operator expressions) =
     list_ex id (map (\<lambda>e. expression_reads_write_target target e) expressions)"
| "expression_reads_write_target target (NotExpression expr) = expression_reads_write_target target expr"
| "expression_reads_write_target target (NullTest expr negated) = expression_reads_write_target target expr"
| "expression_reads_write_target target (Membership expr vals negated subquery) =
     ((case map_option (\<lambda>s. select_reads_write_target target s) subquery of Some b \<Rightarrow> b | None \<Rightarrow> False) \<or>
      expression_reads_write_target target expr \<or> list_ex id (map (\<lambda>e. expression_reads_write_target target e) vals))"
| "expression_reads_write_target target (Function name arguments star dist raw) =
     list_ex id (map (\<lambda>e. expression_reads_write_target target e) arguments)"
| "expression_reads_write_target target (Subquery statement) = select_reads_write_target target statement"
| "expression_reads_write_target target (Existence statement negated) = select_reads_write_target target statement"
| "expression_reads_write_target target (OtherExpression name) = False"
| "order_reads_write_target target (Order expression result descending nulls) =
     (expression \<noteq> NilExpression \<and> expression_reads_write_target target expression)"
| "projection_reads_write_target target NilProjection = False"
| "projection_reads_write_target target (ColumnProjection source name) = False"
| "projection_reads_write_target target (ExpressionProjection expression alias) = expression_reads_write_target target expression"
| "join_reads_write_target target (Join jtype source on) =
     (source_is_target source target \<or> expression_reads_write_target target on)"
| "select_reads_write_target target (Select projections source correlations ctes joins whr group_by having order_by limit offset dist lock checked) =
     (source_is_target source target \<or>
      list_ex id (map (\<lambda>j. join_reads_write_target target j) joins) \<or>
      list_ex id (map (\<lambda>p. projection_reads_write_target target p) projections) \<or>
      (whr \<noteq> NilExpression \<and> expression_reads_write_target target whr) \<or>
      list_ex id (map (\<lambda>e. expression_reads_write_target target e) group_by) \<or>
      (having \<noteq> NilExpression \<and> expression_reads_write_target target having) \<or>
      list_ex id (map (\<lambda>t. order_reads_write_target target t) order_by))"

subsection \<open>Parts\<close>

definition write_target :: "dialect \<Rightarrow> gostring \<Rightarrow> table_ref \<Rightarrow> 'v writer" where
  "write_target d keyword table = emit_result (rbind (quote_qualified d (tr_schema table) (tr_name table)) (\<lambda>q. Inr (keyword @ q)))"

definition write_names :: "dialect \<Rightarrow> 'v column_ref list \<Rightarrow> 'v writer" where
  "write_names d columns = write_separated '', '' (map (\<lambda>c. write_ident d (snd c)) columns)"

definition write_assignment :: "(gostring \<Rightarrow> gostring) \<Rightarrow> dialect \<Rightarrow> 'v assignment \<Rightarrow> 'v writer" where
  "write_assignment L d a = seq (write_ident d (snd (as_column a))) (seq (emit '' = '')
     (if as_default a then emit ''DEFAULT'' else write_expression L d (as_value a)))"

definition write_assignments :: "(gostring \<Rightarrow> gostring) \<Rightarrow> dialect \<Rightarrow> 'v assignment list \<Rightarrow> 'v writer" where
  "write_assignments L d assignments = write_separated '', '' (map (write_assignment L d) assignments)"

definition write_clause :: "(gostring \<Rightarrow> gostring) \<Rightarrow> dialect \<Rightarrow> gostring \<Rightarrow> 'v expression \<Rightarrow> 'v writer" where
  "write_clause L d keyword e = write_if (e \<noteq> NilExpression) (seq (emit keyword) (write_expression L d e))"

text \<open>
  A projection whose expression is a column is written without its table in a \<open>RETURNING\<close>
  list.
\<close>

definition write_returning_projection :: "(gostring \<Rightarrow> gostring) \<Rightarrow> dialect \<Rightarrow> 'v projection \<Rightarrow> 'v writer" where
  "write_returning_projection L d projection = (case projected_expression projection of
       ColumnRef source name \<Rightarrow> seq (write_ident d name)
         (write_if (result_alias projection \<noteq> []) (seq (emit '' AS '') (write_ident d (result_alias projection))))
     | _ \<Rightarrow> write_projection L d projection)"

definition write_returning :: "(gostring \<Rightarrow> gostring) \<Rightarrow> dialect \<Rightarrow> 'v projection list \<Rightarrow> 'v writer" where
  "write_returning L d projections =
     (if projections = [] then nothing
      else require (dialect_supports d Returning) (RenderFailure ''RETURNING is not supported'' [])
        (seq (emit '' RETURNING '') (write_separated '', '' (map (write_returning_projection L d) projections))))"

subsection \<open>Statements\<close>

definition write_row :: "(gostring \<Rightarrow> gostring) \<Rightarrow> dialect \<Rightarrow> 'v expression list \<Rightarrow> 'v writer" where
  "write_row L d row = seq (emit ''('') (seq (write_separated '', '' (map (\<lambda>e. write_expression L d e) row)) (emit '')''))"

definition write_insert_base :: "(gostring \<Rightarrow> gostring) \<Rightarrow> dialect \<Rightarrow> 'v insert_stmt \<Rightarrow> 'v writer" where
  "write_insert_base L d s = seq (write_target d ''INSERT INTO '' (ins_into s))
     (if ins_default_values s then
        (if dialect_supports d DefaultValues then emit '' DEFAULT VALUES''
         else if dialect_supports d EmptyInsert then emit '' () VALUES ()''
         else fail (RenderFailure ''default-values INSERT is not supported'' []))
      else seq (emit '' ('') (seq (write_names d (ins_columns s)) (seq (emit '')'')
        (case ins_select_source s of
           Some source \<Rightarrow> seq (emit '' '') (write_query_body L d (fst source))
         | None \<Rightarrow> seq (emit '' VALUES '') (write_separated '', '' (map (write_row L d) (ins_rows s)))))))"

definition write_insert :: "(gostring \<Rightarrow> gostring) \<Rightarrow> dialect \<Rightarrow> 'v insert_stmt \<Rightarrow> 'v writer" where
  "write_insert L d s = seq (write_insert_base L d s) (write_returning L d (ins_returning s))"

definition write_update :: "(gostring \<Rightarrow> gostring) \<Rightarrow> dialect \<Rightarrow> 'v update_stmt \<Rightarrow> 'v writer" where
  "write_update L d s =
     require (up_where s \<noteq> NilExpression \<or> up_allow_all s) (RenderFailure ''UPDATE requires a WHERE predicate or an explicit AllowAll'' [])
     (require (dialect_supports d WriteSubqueryTarget \<or>
         \<not> ((up_where s \<noteq> NilExpression \<and> expression_reads_write_target (up_table s) (up_where s)) \<or>
             list_ex (\<lambda>a. expression_reads_write_target (up_table s) (as_value a)) (up_sets s)))
       (SubqueryReadsWriteTarget (dialect_name d) ''UPDATE'' (tr_qualified_name (up_table s)))
     (seq (write_target d ''UPDATE '' (up_table s))
     (seq (emit '' SET '')
     (seq (write_assignments L d (up_sets s))
     (seq (write_clause L d '' WHERE '' (up_where s))
       (write_returning L d (up_returning s)))))))"

definition write_delete :: "(gostring \<Rightarrow> gostring) \<Rightarrow> dialect \<Rightarrow> 'v delete_stmt \<Rightarrow> 'v writer" where
  "write_delete L d s =
     require (dl_where s \<noteq> NilExpression \<or> dl_allow_all s) (RenderFailure ''DELETE requires a WHERE predicate or an explicit AllowAll'' [])
     (require (\<not> (dl_where s \<noteq> NilExpression \<and> \<not> dialect_supports d WriteSubqueryTarget \<and> expression_reads_write_target (dl_from s) (dl_where s)))
       (SubqueryReadsWriteTarget (dialect_name d) ''DELETE'' (tr_qualified_name (dl_from s)))
     (seq (write_target d ''DELETE FROM '' (dl_from s))
     (seq (write_clause L d '' WHERE '' (dl_where s))
       (write_returning L d (dl_returning s)))))"

definition dialect_upsert_style :: "dialect \<Rightarrow> upsert_style" where
  "dialect_upsert_style d = bd_upsert (base d)"

definition upsert_problems :: "dialect \<Rightarrow> 'v upsert_stmt \<Rightarrow> gostring" where
  "upsert_problems d s = ''explicit conflict target is not supported: this dialect lacks dialect.CapabilityConflictTarget'' @
     (if ins_default_values (us_insert s) \<and> \<not> dialect_supports d DefaultValuesUpsert then ''; default-values upsert is not supported'' else []) @
     (if dialect_upsert_style d = UpsertDuplicateKey \<and> us_assignments s = [] then ''; upsert without assignments is not supported'' else [])"

definition write_conflict :: "(gostring \<Rightarrow> gostring) \<Rightarrow> dialect \<Rightarrow> 'v upsert_stmt \<Rightarrow> 'v writer" where
  "write_conflict L d s =
     require (us_conflict s \<noteq> [] \<or> us_assignments s = []) (RenderFailure ''upsert update requires a conflict target'' [])
     (seq (emit '' ON CONFLICT'')
     (seq (write_if (us_conflict s \<noteq> []) (seq (emit '' ('') (seq (write_names d (us_conflict s)) (seq (emit '')'')
            (write_clause L d '' WHERE '' (us_conflict_where s))))))
       (if us_assignments s = [] then emit '' DO NOTHING''
        else seq (emit '' DO UPDATE SET '') (seq (in_excluded_scope UpsertOnConflict (write_assignments L d (us_assignments s)))
          (write_if (us_update_where s \<noteq> NilExpression) (seq (emit '' WHERE '')
            (in_excluded_scope UpsertOnConflict (write_expression L d (us_update_where s)))))))))"

definition write_upsert :: "(gostring \<Rightarrow> gostring) \<Rightarrow> dialect \<Rightarrow> 'v upsert_stmt \<Rightarrow> 'v writer" where
  "write_upsert L d s =
     require (dialect_supports d Upsert \<and> dialect_upsert_style d \<noteq> UpsertUnsupported) (RenderFailure ''upsert is not supported'' [])
     (require (us_conflict_where s = NilExpression \<or> dialect_supports d UpsertConflictWhere) (UnsupportedUpsertPredicate (dialect_name d) ''conflict-target'')
     (require (us_update_where s = NilExpression \<or> dialect_supports d UpsertUpdateWhere) (UnsupportedUpsertPredicate (dialect_name d) ''update'')
     (require (us_conflict s = [] \<or> dialect_supports d ConflictTarget) (RenderFailure (upsert_problems d s) [])
     (require (\<not> (ins_default_values (us_insert s) \<and> \<not> dialect_supports d DefaultValuesUpsert)) (RenderFailure ''default-values upsert is not supported'' [])
     (seq (write_insert_base L d (us_insert s))
     (seq (case dialect_upsert_style d of
             UpsertOnConflict \<Rightarrow> write_conflict L d s
           | UpsertDuplicateKey \<Rightarrow>
               require (us_assignments s \<noteq> []) (RenderFailure ''upsert without assignments is not supported'' [])
               (seq (emit '' ON DUPLICATE KEY UPDATE '') (in_excluded_scope UpsertDuplicateKey (write_assignments L d (us_assignments s))))
           | UpsertUnsupported \<Rightarrow> fail (RenderFailure ''unsupported upsert style %d'' []))
       (write_returning L d (us_returning s))))))))"

definition render_insert :: "case_tables \<Rightarrow> dialect \<Rightarrow> 'v insert_stmt \<Rightarrow> render_error + 'v stmt" where
  "render_insert T d s = render_statement ''INSERT'' (insert_validate T s) (write_insert (ct_lower T) d s)"

definition render_update :: "case_tables \<Rightarrow> dialect \<Rightarrow> 'v update_stmt \<Rightarrow> render_error + 'v stmt" where
  "render_update T d s = render_statement ''UPDATE'' (update_validate T s) (write_update (ct_lower T) d s)"

definition render_delete :: "case_tables \<Rightarrow> dialect \<Rightarrow> 'v delete_stmt \<Rightarrow> render_error + 'v stmt" where
  "render_delete T d s = render_statement ''DELETE'' (delete_validate T s) (write_delete (ct_lower T) d s)"

definition render_upsert :: "case_tables \<Rightarrow> dialect \<Rightarrow> 'v upsert_stmt \<Rightarrow> render_error + 'v stmt" where
  "render_upsert T d s = render_statement ''UPSERT'' (upsert_validate T s) (write_upsert (ct_lower T) d s)"

fun render_write :: "case_tables \<Rightarrow> dialect \<Rightarrow> 'v write_statement \<Rightarrow> render_error + 'v stmt" where
  "render_write T d (InsertStatement s) = render_insert T d s"
| "render_write T d (UpdateStatement s) = render_update T d s"
| "render_write T d (DeleteStatement s) = render_delete T d s"
| "render_write T d (UpsertStatement s) = render_upsert T d s"
| "render_write T d NilWriteStatement = Inl (RenderFailure ''write statement must not be nil'' [])"

subsection \<open>Replacing bound values\<close>

definition map_column :: "('v \<Rightarrow> 'w) \<Rightarrow> 'v column_ref \<Rightarrow> 'w column_ref" where
  "map_column f c = (map_relation_ref f (fst c), snd c)"

definition map_assignment :: "('v \<Rightarrow> 'w) \<Rightarrow> 'v assignment \<Rightarrow> 'w assignment" where
  "map_assignment f a = \<lparr>as_column = map_column f (as_column a), as_value = map_expression f (as_value a), as_default = as_default a\<rparr>"

definition map_insert :: "('v \<Rightarrow> 'w) \<Rightarrow> 'v insert_stmt \<Rightarrow> 'w insert_stmt" where
  "map_insert f s = \<lparr>ins_into = ins_into s, ins_columns = map (map_column f) (ins_columns s), ins_rows = map (map (map_expression f)) (ins_rows s),
     ins_default_values = ins_default_values s, ins_select_source = map_option (map_prod (map_query_body f) id) (ins_select_source s),
     ins_returning = map (map_projection f) (ins_returning s)\<rparr>"

definition map_update :: "('v \<Rightarrow> 'w) \<Rightarrow> 'v update_stmt \<Rightarrow> 'w update_stmt" where
  "map_update f s = \<lparr>up_table = up_table s, up_sets = map (map_assignment f) (up_sets s), up_where = map_expression f (up_where s),
     up_returning = map (map_projection f) (up_returning s), up_allow_all = up_allow_all s\<rparr>"

definition map_delete :: "('v \<Rightarrow> 'w) \<Rightarrow> 'v delete_stmt \<Rightarrow> 'w delete_stmt" where
  "map_delete f s = \<lparr>dl_from = dl_from s, dl_where = map_expression f (dl_where s),
     dl_returning = map (map_projection f) (dl_returning s), dl_allow_all = dl_allow_all s\<rparr>"

definition map_upsert :: "('v \<Rightarrow> 'w) \<Rightarrow> 'v upsert_stmt \<Rightarrow> 'w upsert_stmt" where
  "map_upsert f s = \<lparr>us_insert = map_insert f (us_insert s), us_conflict = map (map_column f) (us_conflict s),
     us_assignments = map (map_assignment f) (us_assignments s), us_returning = map (map_projection f) (us_returning s),
     us_conflict_where = map_expression f (us_conflict_where s), us_update_where = map_expression f (us_update_where s)\<rparr>"

fun map_write :: "('v \<Rightarrow> 'w) \<Rightarrow> 'v write_statement \<Rightarrow> 'w write_statement" where
  "map_write f (InsertStatement s) = InsertStatement (map_insert f s)"
| "map_write f (UpdateStatement s) = UpdateStatement (map_update f s)"
| "map_write f (DeleteStatement s) = DeleteStatement (map_delete f s)"
| "map_write f (UpsertStatement s) = UpsertStatement (map_upsert f s)"
| "map_write f NilWriteStatement = NilWriteStatement"

lemma map_column_simps [simp]: "snd (map_column f c) = snd c" "fst (map_column f c) = map_relation_ref f (fst c)"
  by (simp_all add: map_column_def)

lemma map_assignment_simps [simp]:
  "as_column (map_assignment f a) = map_column f (as_column a)" "as_value (map_assignment f a) = map_expression f (as_value a)"
  "as_default (map_assignment f a) = as_default a"
  by (simp_all add: map_assignment_def)

lemma map_insert_simps [simp]:
  "ins_into (map_insert f s) = ins_into s" "ins_columns (map_insert f s) = map (map_column f) (ins_columns s)"
  "ins_rows (map_insert f s) = map (map (map_expression f)) (ins_rows s)" "ins_default_values (map_insert f s) = ins_default_values s"
  "ins_select_source (map_insert f s) = map_option (map_prod (map_query_body f) id) (ins_select_source s)"
  "ins_returning (map_insert f s) = map (map_projection f) (ins_returning s)"
  by (simp_all add: map_insert_def)

lemma source_is_target_map [simp]: "source_is_target (map_relation_ref f r) target = source_is_target r target"
  by (simp add: source_is_target_def)

lemma list_ex_id_map: "(\<And>x. x \<in> set xs \<Longrightarrow> h (g x) = h' x) \<Longrightarrow> list_ex id (map (\<lambda>x. h x) (map g xs)) = list_ex id (map (\<lambda>x. h' x) xs)"
  by (simp add: list_ex_iff)

lemma reads_write_target_map [simp]:
  fixes e :: "'v expression" and b :: "'v case_when" and t :: "'v order" and p :: "'v fragment_part" and q :: "'v projection"
    and r :: "'v relation_ref" and c :: "'v cte" and body :: "'v query_body" and j :: "'v join" and s :: "'v select"
  shows "expression_reads_write_target target (map_expression f e) = expression_reads_write_target target e"
    and True
    and "order_reads_write_target target (map_order f t) = order_reads_write_target target t"
    and True
    and "projection_reads_write_target target (map_projection f q) = projection_reads_write_target target q"
    and True and True and True
    and "join_reads_write_target target (map_join f j) = join_reads_write_target target j"
    and "select_reads_write_target target (map_select f s) = select_reads_write_target target s"
proof (induction e and b and t and p and q and r and c and body and j and s)
  case (Membership expr members negated subquery)
  then show ?case by (cases subquery) (simp_all add: list_ex_iff)
qed (auto simp: list_ex_iff)

subsection \<open>Validation does not look at values\<close>

lemma validate_clause_map [simp]: "validate_clause_expression T (map_expression f e) = validate_clause_expression T e"
  by (intro ext) (simp add: validate_clause_expression_def validation_map)

lemma validate_target_column_map [simp]: "validate_target_column (map_column f c) table path = validate_target_column c table path"
  by (simp add: validate_target_column_def relation_def cong: sum.case_cong if_cong)

lemma target_column_step_map [simp]: "target_column_step table path (map_column f c) = target_column_step table path c"
  by (rule ext) (simp add: target_column_step_def)

lemma projected_expression_map [simp]: "projected_expression (map_projection f p) = map_expression f (projected_expression p)"
  by (cases p) simp_all

lemma validate_projections_map [simp]: "validate_projections T (map (map_projection f) ps) sources path = validate_projections T ps sources path"
  by (simp add: validate_projections_def walk_map Let_def cong: if_cong)

lemma validate_insert_row_map [simp]: "validate_insert_row T sources n i (map (map_expression f) row) = validate_insert_row T sources n i row"
  by (simp add: validate_insert_row_def walk_map cong: if_cong)

lemma insert_validate_map [simp]: "insert_validate T (map_insert f s) = insert_validate T s"
  by (cases "ins_select_source s") (simp_all add: insert_validate_def validate_insert_columns_def walk_map cong: if_cong)

lemma assignment_steps_map [simp]:
  "update_assignment_step T table sources path (map_assignment f a) = update_assignment_step T table sources path a"
  "upsert_assignment_step T table sources path (map_assignment f a) = upsert_assignment_step T table sources path a"
  by (intro ext; simp add: update_assignment_step_def upsert_assignment_step_def cong: if_cong)+

lemma update_validate_map [simp]: "update_validate T (map_update f s) = update_validate T s"
  by (simp add: update_validate_def map_update_def walk_map cong: if_cong)

lemma delete_validate_map [simp]: "delete_validate T (map_delete f s) = delete_validate T s"
  by (simp add: delete_validate_def map_delete_def walk_map cong: if_cong)

lemma upsert_validate_map [simp]: "upsert_validate T (map_upsert f s) = upsert_validate T s"
  by (simp add: upsert_validate_def map_upsert_def walk_map cong: if_cong)

subsection \<open>The relation carried to write statements\<close>

context writer_relation
begin

lemma style_same: "dialect_upsert_style d' = dialect_upsert_style d"
  by (simp add: dialect_upsert_style_def base_same)

lemma write_target: "R (write_target d keyword table) (write_target d' keyword table)"
  unfolding write_target_def quote_qualified_same by (rule emit_result)

lemma write_names: "R (write_names d cs) (write_names d' (map (map_column f) cs))"
  unfolding write_names_def by (rule write_separated, rule list_rel) (simp add: write_ident)

lemma write_assignment: "R (write_assignment L d a) (write_assignment L d' (map_assignment f a))"
  unfolding write_assignment_def by (auto intro!: seq write_ident emit write_statement)

lemma write_assignments: "R (write_assignments L d as) (write_assignments L d' (map (map_assignment f) as))"
  unfolding write_assignments_def by (rule write_separated, rule list_rel) (rule write_assignment)

lemma write_clause: "R (write_clause L d keyword e) (write_clause L d' keyword (map_expression f e))"
  unfolding write_clause_def map_nil by (intro write_if seq emit write_statement)

lemma write_returning_projection: "R (write_returning_projection L d p) (write_returning_projection L d' (map_projection f p))"
proof -
  have "R (write_projection L d p) (write_projection L d' (map_projection f p))" by (rule write_statement)
  then show ?thesis unfolding write_returning_projection_def
    by (cases "projected_expression p") (auto intro!: seq write_ident write_if emit)
qed

lemma write_returning: "R (write_returning L d ps) (write_returning L d' (map (map_projection f) ps))"
  unfolding write_returning_def base_same
  by (auto intro!: rel_nothing require seq emit write_separated list_rel [simplified] write_returning_projection simp: list_all2_conv_all_nth)

lemma write_row: "R (write_row L d row) (write_row L d' (map (map_expression f) row))"
  unfolding write_row_def by (intro seq emit write_separated list_rel write_statement)

lemma write_insert_base: "R (write_insert_base L d s) (write_insert_base L d' (map_insert f s))"
proof -
  have rows: "R (write_separated sep (map (write_row L d) rows)) (write_separated sep (map (write_row L d') (map (map (map_expression f)) rows)))" for sep rows
    by (rule write_separated, rule list_rel) (rule write_row)
  show ?thesis unfolding write_insert_base_def map_insert_simps base_same
    by (cases "ins_select_source s") (auto simp del: map_map intro!: seq write_target emit fail write_names rows write_statement)
qed

lemma write_insert: "R (write_insert L d s) (write_insert L d' (map_insert f s))"
  unfolding write_insert_def map_insert_simps by (intro seq write_insert_base write_returning)

lemma write_update: "R (write_update L d s) (write_update L d' (map_update f s))"
proof -
  have "list_ex (\<lambda>a. expression_reads_write_target (up_table s) (as_value a)) (up_sets (map_update f s)) =
      list_ex (\<lambda>a. expression_reads_write_target (up_table s) (as_value a)) (up_sets s)"
    by (simp add: map_update_def list_ex_iff)
  then show ?thesis unfolding write_update_def base_same
    by (simp add: map_update_def) (intro require seq write_target emit write_assignments write_clause write_returning)
qed

lemma write_delete: "R (write_delete L d s) (write_delete L d' (map_delete f s))"
  unfolding write_delete_def base_same
  by (simp add: map_delete_def) (intro require seq write_target write_clause write_returning)

lemma write_conflict: "R (write_conflict L d s) (write_conflict L d' (map_upsert f s))"
  unfolding write_conflict_def
  by (auto simp: map_upsert_def intro!: require seq emit write_if write_names write_clause excluded_scope write_assignments write_statement)

lemma write_upsert: "R (write_upsert L d s) (write_upsert L d' (map_upsert f s))"
proof -
  have problems: "upsert_problems d' (map_upsert f s) = upsert_problems d s"
    by (simp add: upsert_problems_def map_upsert_def base_same style_same)
  have style: "R (case dialect_upsert_style d of
             UpsertOnConflict \<Rightarrow> write_conflict L d s
           | UpsertDuplicateKey \<Rightarrow>
               require (us_assignments s \<noteq> []) (RenderFailure ''upsert without assignments is not supported'' [])
               (seq (Render_Core.emit '' ON DUPLICATE KEY UPDATE '') (in_excluded_scope UpsertDuplicateKey (write_assignments L d (us_assignments s))))
           | UpsertUnsupported \<Rightarrow> Render_Core.fail (RenderFailure ''unsupported upsert style %d'' []))
     (case dialect_upsert_style d of
             UpsertOnConflict \<Rightarrow> write_conflict L d' (map_upsert f s)
           | UpsertDuplicateKey \<Rightarrow>
               require (us_assignments s \<noteq> []) (RenderFailure ''upsert without assignments is not supported'' [])
               (seq (Render_Core.emit '' ON DUPLICATE KEY UPDATE '') (in_excluded_scope UpsertDuplicateKey (write_assignments L d' (us_assignments (map_upsert f s)))))
           | UpsertUnsupported \<Rightarrow> Render_Core.fail (RenderFailure ''unsupported upsert style %d'' []))"
    by (auto simp: map_upsert_def [of f s] intro!: write_conflict [unfolded map_upsert_def] require seq emit excluded_scope write_assignments fail split: upsert_style.split)
  have fields: "us_insert (map_upsert f s) = map_insert f (us_insert s)" "us_returning (map_upsert f s) = map (map_projection f) (us_returning s)"
    "us_conflict (map_upsert f s) = [] \<longleftrightarrow> us_conflict s = []" "us_assignments (map_upsert f s) = [] \<longleftrightarrow> us_assignments s = []"
    "us_conflict_where (map_upsert f s) = NilExpression \<longleftrightarrow> us_conflict_where s = NilExpression"
    "us_update_where (map_upsert f s) = NilExpression \<longleftrightarrow> us_update_where s = NilExpression"
    by (simp_all add: map_upsert_def)
  show ?thesis
    unfolding write_upsert_def problems fields map_insert_simps base_same style_same
    by (intro require seq write_insert_base style write_returning)
qed

end

text \<open>
  C8. The values a caller binds never reach the SQL text of a write statement either. Replacing
  every bound value of an insert, update, delete or upsert by any function leaves the outcome
  of rendering as it was: the same error, or the same text with the arguments replaced
  one by one.
\<close>
theorem write_text_is_value_free:
  "render_write T d (map_write f s) = map_sum id (map_prod id (map (map_arg f))) (render_write T d s)"
proof -
  have carried: "render_statement operation v w' = map_sum id (map_prod id (map (map_arg f))) (render_statement operation v w)"
    if "carries f w w'" for operation v w w'
  proof -
    have "w' new_renderer = map_sum id (map_renderer f) (w new_renderer)"
      using that unfolding carries_def by (metis map_renderer_simps(11))
    then show ?thesis by (simp add: render_statement_def rbind_def split: sum.split)
  qed
  show ?thesis
    by (cases s) (simp_all add: render_insert_def render_update_def render_delete_def render_upsert_def carried
        carried.write_insert carried.write_update carried.write_delete carried.write_upsert)
qed

subsection \<open>The values of a write statement\<close>

definition assignment_values :: "(gostring \<Rightarrow> gostring) \<Rightarrow> dialect \<Rightarrow> 'v assignment \<Rightarrow> 'v arg list" where
  "assignment_values L d a = (if as_default a then [] else expression_values L d (as_value a))"

text \<open>A projection that is a column is written by its name in a \<open>RETURNING\<close> list; it binds nothing either way.\<close>

definition insert_values :: "(gostring \<Rightarrow> gostring) \<Rightarrow> dialect \<Rightarrow> 'v insert_stmt \<Rightarrow> 'v arg list" where
  "insert_values L d s = (if ins_default_values s then []
     else case ins_select_source s of Some source \<Rightarrow> body_values L d (fst source)
       | None \<Rightarrow> concat (map (\<lambda>row. concat (map (expression_values L d) row)) (ins_rows s)))"

definition returning_values :: "(gostring \<Rightarrow> gostring) \<Rightarrow> dialect \<Rightarrow> 'v projection list \<Rightarrow> 'v arg list" where
  "returning_values L d ps = concat (map (projection_values L d) ps)"

definition upsert_values :: "(gostring \<Rightarrow> gostring) \<Rightarrow> dialect \<Rightarrow> 'v upsert_stmt \<Rightarrow> 'v arg list" where
  "upsert_values L d s = insert_values L d (us_insert s) @
     (if dialect_upsert_style d = UpsertOnConflict
      then (if us_conflict s = [] then [] else expression_values L d (us_conflict_where s)) @
        (if us_assignments s = [] then [] else concat (map (assignment_values L d) (us_assignments s)) @ expression_values L d (us_update_where s))
      else concat (map (assignment_values L d) (us_assignments s))) @ returning_values L d (us_returning s)"

fun write_values :: "(gostring \<Rightarrow> gostring) \<Rightarrow> dialect \<Rightarrow> 'v write_statement \<Rightarrow> 'v arg list" where
  "write_values L d (InsertStatement s) = insert_values L d s @ returning_values L d (ins_returning s)"
| "write_values L d (UpdateStatement s) = concat (map (assignment_values L d) (up_sets s)) @ expression_values L d (up_where s) @ returning_values L d (up_returning s)"
| "write_values L d (DeleteStatement s) = expression_values L d (dl_where s) @ returning_values L d (dl_returning s)"
| "write_values L d (UpsertStatement s) = upsert_values L d s"
| "write_values L d NilWriteStatement = []"

lemma appends_nil_seq: "appends w [] \<Longrightarrow> appends x vs \<Longrightarrow> appends (seq w x) vs"
  using appends_seq [of w "[]" x vs] by simp

lemma appends_names: "appends (write_names d cs) []" "appends (write_target d keyword table) []"
proof -
  have "list_all2 appends (map (\<lambda>c. write_ident d (snd c)) cs) (map (\<lambda>_. []) cs)" by (simp add: list_all2_conv_all_nth appends_leaves)
  from appends_separated [OF this] show "appends (write_names d cs) []" by (simp add: write_names_def map_replicate_const)
  show "appends (write_target d keyword table) []" unfolding write_target_def by (rule appends_emit_result)
qed

lemma appends_assignments: "appends (write_assignments L d as) (concat (map (assignment_values L d) as))"
proof -
  have "appends (write_assignment L d a) (assignment_values L d a)" for a
    unfolding write_assignment_def assignment_values_def
    by (cases "as_default a") (auto intro!: appends_nil_seq [OF appends_leaves(1)] appends_seq_emit appends_basic written_values)
  then show ?thesis unfolding write_assignments_def by (intro appends_separated appends_list)
qed

lemma appends_clause: "appends (write_clause L d keyword e) (expression_values L d e)"
  unfolding write_clause_def by (rule appends_if) (auto intro: appends_seq_emit written_values)

lemma appends_returning: "appends (write_returning L d ps) (returning_values L d ps)"
proof -
  have "appends (write_returning_projection L d p) (projection_values L d p)" for p
  proof (cases "\<exists>source name. projected_expression p = ColumnRef source name")
    case True
    then have none: "projection_values L d p = []" by (cases p) auto
    from True show ?thesis unfolding write_returning_projection_def none
      by (auto intro!: appends_nil_seq appends_leaves appends_if appends_seq_emit)
  next
    case False
    then show ?thesis unfolding write_returning_projection_def
      by (cases "projected_expression p") (auto intro: written_values)
  qed
  then show ?thesis unfolding write_returning_def returning_values_def
    by (auto intro!: appends_basic appends_require appends_seq_emit appends_separated appends_list)
qed

lemma appends_insert_base: "appends (write_insert_base L d s) (insert_values L d s)"
proof -
  have row: "appends (write_row L d row) (concat (map (expression_values L d) row))" for row
    unfolding write_row_def by (intro appends_seqs appends_list written_values)
  show ?thesis unfolding write_insert_base_def insert_values_def
    by (cases "ins_select_source s")
      (auto intro!: appends_nil_seq [OF appends_names(2)] appends_nil_seq [OF appends_names(1)] appends_seq_emit appends_separated appends_list row appends_basic written_values)
qed

lemma appends_upsert: "appends (write_upsert L d s) (upsert_values L d s)"
proof -
  have where_part: "appends (write_if (us_conflict s \<noteq> []) (seq (emit '' ('') (seq (write_names d (us_conflict s)) (seq (emit '')'') (write_clause L d '' WHERE '' (us_conflict_where s))))))
      (if us_conflict s = [] then [] else expression_values L d (us_conflict_where s))"
    by (rule appends_if) (auto intro!: appends_seq_emit appends_nil_seq [OF appends_names(1)] appends_clause)
  have update_where: "appends (write_if (us_update_where s \<noteq> NilExpression) (seq (emit '' WHERE '') (in_excluded_scope UpsertOnConflict (write_expression L d (us_update_where s)))))
      (expression_values L d (us_update_where s))"
    by (rule appends_if) (auto intro!: appends_seq_emit appends_scope written_values)
  have conflict: "appends (write_conflict L d s) ((if us_conflict s = [] then [] else expression_values L d (us_conflict_where s)) @
      (if us_assignments s = [] then [] else concat (map (assignment_values L d) (us_assignments s)) @ expression_values L d (us_update_where s)))"
  proof -
    have "appends (if us_assignments s = [] then emit '' DO NOTHING''
        else seq (emit '' DO UPDATE SET '') (seq (in_excluded_scope UpsertOnConflict (write_assignments L d (us_assignments s)))
          (write_if (us_update_where s \<noteq> NilExpression) (seq (emit '' WHERE '') (in_excluded_scope UpsertOnConflict (write_expression L d (us_update_where s)))))))
      (if us_assignments s = [] then [] else concat (map (assignment_values L d) (us_assignments s)) @ expression_values L d (us_update_where s))"
      using appends_seq [OF appends_scope(2) [OF appends_assignments] update_where] by (auto intro: appends_basic appends_seq_emit)
    from appends_seq [OF where_part this] show ?thesis unfolding write_conflict_def by (intro appends_require appends_seq_emit)
  qed
  have style: "appends (case dialect_upsert_style d of
             UpsertOnConflict \<Rightarrow> write_conflict L d s
           | UpsertDuplicateKey \<Rightarrow>
               require (us_assignments s \<noteq> []) (RenderFailure ''upsert without assignments is not supported'' [])
               (seq (emit '' ON DUPLICATE KEY UPDATE '') (in_excluded_scope UpsertDuplicateKey (write_assignments L d (us_assignments s))))
           | UpsertUnsupported \<Rightarrow> fail (RenderFailure ''unsupported upsert style %d'' []))
     (if dialect_upsert_style d = UpsertOnConflict
      then (if us_conflict s = [] then [] else expression_values L d (us_conflict_where s)) @
        (if us_assignments s = [] then [] else concat (map (assignment_values L d) (us_assignments s)) @ expression_values L d (us_update_where s))
      else concat (map (assignment_values L d) (us_assignments s)))"
    using conflict by (cases "dialect_upsert_style d") (auto intro: appends_require appends_seq_emit appends_scope appends_assignments appends_basic)
  show ?thesis unfolding write_upsert_def upsert_values_def
    by (intro appends_require appends_seq appends_insert_base style appends_returning)
qed

lemma appends_writes:
  "appends (write_insert L d i) (write_values L d (InsertStatement i))" "appends (write_update L d u) (write_values L d (UpdateStatement u))"
  "appends (write_delete L d x) (write_values L d (DeleteStatement x))"
  unfolding write_insert_def write_update_def write_delete_def write_values.simps
  by (intro appends_require appends_nil_seq [OF appends_names(2)] appends_seq_emit appends_seq appends_insert_base appends_assignments appends_clause appends_returning)+

lemma map_column_id: "map_column id = id"
  by (simp add: fun_eq_iff map_column_def relation_ref.map_id)

lemma map_assignment_id: "map_assignment id = id"
  by (simp add: fun_eq_iff map_assignment_def map_column_id expression.map_id)

lemma map_statements_id [simp]: "map_insert id i = i" "map_update id u = u" "map_delete id x = x" "map_upsert id y = y"
proof -
  have ids: "map_expression id = id" "map_projection id = id" "map_query_body id = id"
    by (simp_all add: fun_eq_iff expression.map_id projection.map_id query_body.map_id)
  show "map_insert id i = i" by (simp add: map_insert_def map_column_id ids prod.map_id0 option.map_id)
  then show "map_update id u = u" "map_delete id x = x" "map_upsert id y = y"
    by (simp_all add: map_update_def map_delete_def map_upsert_def map_insert_def map_column_id map_assignment_id ids prod.map_id0 option.map_id)
qed

text \<open>
  The text and the arguments of a rendered write statement belong together in the same
  way: the arguments are the values of the rows or of the selected source, of the
  assignments, of the predicates and of the \<open>RETURNING\<close> list, in this order, and the text has
  one placeholder for each of them and no other.
\<close>
theorem write_arguments_match_placeholders:
  assumes "render_write T d s = Inr (sql, args)"
  shows "args = write_values (ct_lower T) d s \<and> belongs d (\<lambda>d. render_write T d s) sql args"
proof (cases s)
  case (InsertStatement x)
  have "agrees d (with_placeholder p d) (write_insert (ct_lower T) d x) (write_insert (ct_lower T) (with_placeholder p d) x)" for p
    using accounted.write_insert [of d p "ct_lower T" x] by simp
  then show ?thesis
    using assms InsertStatement rendered_values [OF _ appends_writes(1)] rendered_belongs [of "''INSERT''" "insert_validate T x" "\<lambda>d. write_insert (ct_lower T) d x" d]
    by (simp add: render_insert_def)
next
  case (UpdateStatement x)
  have "agrees d (with_placeholder p d) (write_update (ct_lower T) d x) (write_update (ct_lower T) (with_placeholder p d) x)" for p
    using accounted.write_update [of d p "ct_lower T" x] by simp
  then show ?thesis
    using assms UpdateStatement rendered_values [OF _ appends_writes(2)] rendered_belongs [of "''UPDATE''" "update_validate T x" "\<lambda>d. write_update (ct_lower T) d x" d]
    by (simp add: render_update_def)
next
  case (DeleteStatement x)
  have "agrees d (with_placeholder p d) (write_delete (ct_lower T) d x) (write_delete (ct_lower T) (with_placeholder p d) x)" for p
    using accounted.write_delete [of d p "ct_lower T" x] by simp
  then show ?thesis
    using assms DeleteStatement rendered_values [OF _ appends_writes(3)] rendered_belongs [of "''DELETE''" "delete_validate T x" "\<lambda>d. write_delete (ct_lower T) d x" d]
    by (simp add: render_delete_def)
next
  case (UpsertStatement x)
  have "agrees d (with_placeholder p d) (write_upsert (ct_lower T) d x) (write_upsert (ct_lower T) (with_placeholder p d) x)" for p
    using accounted.write_upsert [of d p "ct_lower T" x] by simp
  then show ?thesis
    using assms UpsertStatement rendered_values [OF _ appends_upsert] rendered_belongs [of "''UPSERT''" "upsert_validate T x" "\<lambda>d. write_upsert (ct_lower T) d x" d]
    by (simp add: render_upsert_def)
qed (use assms in simp)

subsection \<open>Guards\<close>

text \<open>
  The subqueries that an expression runs, as far as they are operands of operators,
  connectives, tests, memberships and function calls, or part of such a subquery in turn;
  those inside \<open>CASE\<close>, \<open>CAST\<close>, \<open>FILTER\<close>, \<open>OVER\<close> and trusted fragments, in derived tables and in
  common table expressions are not among them.
\<close>

fun operands_of :: "'v expression \<Rightarrow> 'v expression list" where
  "operands_of (Binary left operator right) = [left, right]"
| "operands_of (Logical operator es) = es"
| "operands_of (NotExpression e) = [e]"
| "operands_of (NullTest e negated) = [e]"
| "operands_of (Membership e members negated subquery) = e # members"
| "operands_of (Function name arguments star dist raw) = arguments"
| "operands_of _ = []"

fun own_subqueries :: "'v expression \<Rightarrow> 'v select list" where
  "own_subqueries (Membership e members negated (Some s)) = [s]"
| "own_subqueries (Subquery s) = [s]"
| "own_subqueries (Existence s negated) = [s]"
| "own_subqueries _ = []"

definition select_expressions :: "'v select \<Rightarrow> 'v expression list" where
  "select_expressions s = map projected_expression (s_projections s) @ map jn_on (s_joins s) @ [s_where s] @ s_group_by s @ [s_having s] @ map od_expression (s_order_by s)"

inductive runs :: "'v expression \<Rightarrow> 'v select \<Rightarrow> bool" where
  own: "s \<in> set (own_subqueries e) \<Longrightarrow> runs e s"
| operand: "e' \<in> set (operands_of e) \<Longrightarrow> runs e' s \<Longrightarrow> runs e s"
| inner: "s' \<in> set (own_subqueries e) \<Longrightarrow> e' \<in> set (select_expressions s') \<Longrightarrow> runs e' s \<Longrightarrow> runs e s"

definition reads_table :: "table_ref \<Rightarrow> 'v select \<Rightarrow> bool" where
  "reads_table target s = (\<exists>r\<in>set (s_from s # map jn_source (s_joins s)). source_is_target r target)"

lemma operand_reads: "e' \<in> set (operands_of e) \<Longrightarrow> expression_reads_write_target target e' \<Longrightarrow> expression_reads_write_target target e"
  by (cases e) (auto simp: list_ex_iff)

lemma own_reads: "s \<in> set (own_subqueries e) \<Longrightarrow> select_reads_write_target target s \<Longrightarrow> expression_reads_write_target target e"
  by (cases e rule: own_subqueries.cases) auto

lemma select_expression_reads:
  assumes "e \<in> set (select_expressions s)" "expression_reads_write_target target e"
  shows "select_reads_write_target target s"
proof (cases s)
  case (Select projections source correlations ctes joins whr group_by having order_by limit offset dist lock checked)
  have projection: "expression_reads_write_target target (projected_expression p) \<Longrightarrow> projection_reads_write_target target p" for p by (cases p) auto
  have join: "expression_reads_write_target target (jn_on j) \<Longrightarrow> join_reads_write_target target j" for j by (cases j) auto
  have order: "expression_reads_write_target target (od_expression t) \<Longrightarrow> order_reads_write_target target t" for t by (cases t) auto
  have "e \<noteq> NilExpression" using assms(2) by auto
  then show ?thesis using assms Select by (auto simp: select_expressions_def list_ex_iff intro: projection join order)
qed

lemma table_reads: "reads_table target s \<Longrightarrow> select_reads_write_target target s"
proof (cases s)
  case (Select projections source correlations ctes joins whr group_by having order_by limit offset dist lock checked)
  have "source_is_target (jn_source j) target \<Longrightarrow> join_reads_write_target target j" for j by (cases j) auto
  then show "reads_table target s \<Longrightarrow> select_reads_write_target target s" using Select by (auto simp: reads_table_def list_ex_iff)
qed

lemma runs_reads: "runs e s \<Longrightarrow> reads_table target s \<Longrightarrow> expression_reads_write_target target e"
  by (induction rule: runs.induct) (auto intro: own_reads table_reads operand_reads select_expression_reads)

text \<open>A writer that is given some text and adds some more.\<close>

definition adds_text :: "'v writer \<Rightarrow> gostring \<Rightarrow> gostring \<Rightarrow> bool" where
  "adds_text w before added \<longleftrightarrow> (\<exists>r r'. rr_text r = before \<and> w r = Inr r' \<and> rr_text r' = before @ added)"

lemma agrees_grows:
  assumes "agrees d d' w w'" "w r = Inr r'"
  obtains added where "rr_text r' = rr_text r @ added" "adds_text w (rr_text r) added"
proof -
  have "abreast r r" by (simp add: abreast_def)
  then obtain ps where "emitted r' = written d ps (emitted r)" using agreesD [OF assms(1)] assms(2) by (fastforce simp: writes_pieces_def)
  then have "rr_text r' = rr_text r @ assemble d (length (rr_args r)) ps" by (simp add: emitted_def written_def)
  then show thesis using that assms(2) by (auto simp: adds_text_def)
qed

text \<open>The text of a write with a \<open>WHERE\<close> clause, from the text before that clause on.\<close>

definition guarded_text :: "(gostring \<Rightarrow> gostring) \<Rightarrow> dialect \<Rightarrow> 'v expression \<Rightarrow> bool \<Rightarrow> 'v projection list \<Rightarrow> gostring \<Rightarrow> gostring \<Rightarrow> bool" where
  "guarded_text L d predicate all_rows returning before sql \<longleftrightarrow>
     (\<exists>clause rest. sql = before @ clause @ rest \<and> adds_text (write_returning L d returning) (before @ clause) rest \<and>
       (if all_rows then predicate = NilExpression \<and> clause = []
        else \<exists>condition. clause = '' WHERE '' @ condition \<and> adds_text (write_expression L d predicate) (before @ '' WHERE '') condition))"

lemma clause_text:
  assumes "seq (write_clause L d '' WHERE '' e) (write_returning L d returning) r = Inr r'" "(e \<noteq> NilExpression) \<noteq> all_rows"
  shows "guarded_text L d e all_rows returning (rr_text r) (rr_text r')"
proof -
  obtain q where q: "write_clause L d '' WHERE '' e r = Inr q" "write_returning L d returning q = Inr r'" using assms(1) by (auto simp: seq_def)
  obtain rest where rest: "rr_text r' = rr_text q @ rest" "adds_text (write_returning L d returning) (rr_text q) rest"
    using agrees_grows [OF accounted.write_returning q(2)] by metis
  show ?thesis
  proof (cases all_rows)
    case True
    then have "q = r" using q(1) assms(2) by (simp add: write_clause_def write_if_def nothing_def)
    then show ?thesis using True assms(2) rest by (auto simp: guarded_text_def)
  next
    case False
    have written: "write_expression L d e (r\<lparr>rr_text := rr_text r @ '' WHERE ''\<rparr>) = Inr q"
      using q(1) assms(2) False by (simp add: write_clause_def write_if_def seq_def emit_def)
    obtain condition where "rr_text q = rr_text (r\<lparr>rr_text := rr_text r @ '' WHERE ''\<rparr>) @ condition"
      "adds_text (write_expression L d e) (rr_text (r\<lparr>rr_text := rr_text r @ '' WHERE ''\<rparr>)) condition"
      by (rule agrees_grows [OF accounted.write_statement(1) written]) (rule that)
    then have "rr_text q = rr_text r @ ('' WHERE '' @ condition)" "adds_text (write_expression L d e) (rr_text r @ '' WHERE '') condition" by simp_all
    then show ?thesis using False rest unfolding guarded_text_def by (metis append_assoc)
  qed
qed

text \<open>
  C2. No update or delete of every row slips through. The text of a rendered \<open>UPDATE\<close> or \<open>DELETE\<close>
  is the keyword with the quoted table, for an update the assignments, then \<open>WHERE\<close> with the
  text of the statement's predicate, and the \<open>RETURNING\<close> list; there is no \<open>WHERE\<close> only if the
  caller has permitted all rows explicitly, and then there is no predicate that it would
  drop. And for a dialect that cannot run it, MySQL, no subquery that the predicate or an assigned
  value reaches through comparisons, \<open>AND\<close>, \<open>OR\<close>, \<open>NOT\<close>, \<open>NULL\<close> tests, memberships, function
  arguments and the clauses of other subqueries, at any depth, selects from or joins the
  written table; subqueries inside \<open>CASE\<close>, \<open>CAST\<close>, \<open>FILTER\<close>, windows and fragments, and those in
  derived tables and common table expressions, are not reached.
\<close>
theorem rendered_writes_are_guarded:
  "(render_update T d u = Inr (sql, args) \<longrightarrow>
      (\<exists>target sets. quote_qualified d (tr_schema (up_table u)) (tr_name (up_table u)) = Inr target \<and>
         adds_text (write_assignments (ct_lower T) d (up_sets u)) (''UPDATE '' @ target @ '' SET '') sets \<and>
         guarded_text (ct_lower T) d (up_where u) (up_allow_all u) (up_returning u) (''UPDATE '' @ target @ '' SET '' @ sets) sql) \<and>
      (\<not> dialect_supports d WriteSubqueryTarget \<longrightarrow> \<not> (\<exists>e\<in>set (up_where u # map as_value (up_sets u)). \<exists>s. runs e s \<and> reads_table (up_table u) s))) \<and>
   (render_delete T d x = Inr (sql, args) \<longrightarrow>
      (\<exists>target. quote_qualified d (tr_schema (dl_from x)) (tr_name (dl_from x)) = Inr target \<and>
         guarded_text (ct_lower T) d (dl_where x) (dl_allow_all x) (dl_returning x) (''DELETE FROM '' @ target) sql) \<and>
      (\<not> dialect_supports d WriteSubqueryTarget \<longrightarrow> \<not> (\<exists>s. runs (dl_where x) s \<and> reads_table (dl_from x) s)))"
proof (intro conjI impI)
  let ?L = "ct_lower T"
  assume u: "render_update T d u = Inr (sql, args)"
  then obtain r where r: "write_update ?L d u new_renderer = Inr r" "rr_text r = sql" and "update_validate T u = Inr ()"
    by (auto simp: render_update_def render_statement_def split: sum.splits)
  then have "\<not> (up_allow_all u \<and> up_where u \<noteq> NilExpression)" by (auto simp: update_validate_def split: if_splits)
  then have one: "(up_where u \<noteq> NilExpression) \<noteq> up_allow_all u" using r(1) by (auto simp: write_update_def require_def fail_def split: if_splits)
  obtain target q where target: "quote_qualified d (tr_schema (up_table u)) (tr_name (up_table u)) = Inr target"
    and q: "write_assignments ?L d (up_sets u) (new_renderer\<lparr>rr_text := ''UPDATE '' @ target @ '' SET ''\<rparr>) = Inr q"
    and rest: "seq (write_clause ?L d '' WHERE '' (up_where u)) (write_returning ?L d (up_returning u)) q = Inr r"
    using r(1) by (fastforce simp: write_update_def require_def fail_def seq_def emit_def emit_result_def write_target_def new_renderer_def split: if_splits)
  have "\<exists>r0. rr_text r0 = ''UPDATE '' @ target @ '' SET '' \<and> write_assignments ?L d (up_sets u) r0 = Inr q"
    using q by (intro exI [of _ "new_renderer\<lparr>rr_text := ''UPDATE '' @ target @ '' SET ''\<rparr>"]) simp
  then obtain r0 where r0: "rr_text r0 = ''UPDATE '' @ target @ '' SET ''" "write_assignments ?L d (up_sets u) r0 = Inr q" by blast
  obtain sets where "rr_text q = rr_text r0 @ sets" "adds_text (write_assignments ?L d (up_sets u)) (rr_text r0) sets"
    using agrees_grows [OF accounted.write_assignments r0(2)] by blast
  then have "rr_text q = ''UPDATE '' @ target @ '' SET '' @ sets" "adds_text (write_assignments ?L d (up_sets u)) (''UPDATE '' @ target @ '' SET '') sets"
    unfolding r0(1) by simp_all
  then show "\<exists>target sets. quote_qualified d (tr_schema (up_table u)) (tr_name (up_table u)) = Inr target \<and>
         adds_text (write_assignments ?L d (up_sets u)) (''UPDATE '' @ target @ '' SET '') sets \<and>
         guarded_text ?L d (up_where u) (up_allow_all u) (up_returning u) (''UPDATE '' @ target @ '' SET '' @ sets) sql"
    using target clause_text [OF rest one] r(2) by metis
  assume "\<not> dialect_supports d WriteSubqueryTarget"
  then have "\<forall>e\<in>set (up_where u # map as_value (up_sets u)). \<not> expression_reads_write_target (up_table u) e"
    using r(1) by (auto simp: write_update_def require_def fail_def list_ex_iff split: if_splits)
  then show "\<not> (\<exists>e\<in>set (up_where u # map as_value (up_sets u)). \<exists>s. runs e s \<and> reads_table (up_table u) s)" using runs_reads by blast
next
  let ?L = "ct_lower T"
  assume x: "render_delete T d x = Inr (sql, args)"
  then obtain r where r: "write_delete ?L d x new_renderer = Inr r" "rr_text r = sql" and "delete_validate T x = Inr ()"
    by (auto simp: render_delete_def render_statement_def split: sum.splits)
  then have "\<not> (dl_allow_all x \<and> dl_where x \<noteq> NilExpression)" by (auto simp: delete_validate_def split: if_splits)
  then have one: "(dl_where x \<noteq> NilExpression) \<noteq> dl_allow_all x" using r(1) by (auto simp: write_delete_def require_def fail_def split: if_splits)
  obtain target where target: "quote_qualified d (tr_schema (dl_from x)) (tr_name (dl_from x)) = Inr target"
    and rest: "seq (write_clause ?L d '' WHERE '' (dl_where x)) (write_returning ?L d (dl_returning x)) (new_renderer\<lparr>rr_text := ''DELETE FROM '' @ target\<rparr>) = Inr r"
    using r(1) by (fastforce simp: write_delete_def require_def fail_def seq_def emit_def emit_result_def write_target_def new_renderer_def split: if_splits)
  show "\<exists>target. quote_qualified d (tr_schema (dl_from x)) (tr_name (dl_from x)) = Inr target \<and>
         guarded_text ?L d (dl_where x) (dl_allow_all x) (dl_returning x) (''DELETE FROM '' @ target) sql"
    using target clause_text [OF rest one] r(2) by (intro exI [of _ target]) (simp add: new_renderer_def)
  assume "\<not> dialect_supports d WriteSubqueryTarget"
  then have "\<not> expression_reads_write_target (dl_from x) (dl_where x)"
    using r(1) by (auto simp: write_delete_def require_def fail_def split: if_splits)
  then show "\<not> (\<exists>s. runs (dl_where x) s \<and> reads_table (dl_from x) s)" using runs_reads by blast
qed

subsection \<open>Sample statements\<close>

lemma dialect_supports_iff:
  "dialect_supports PostgreSQL c \<longleftrightarrow> c \<in> set postgresql_capabilities"
  "dialect_supports MySQL c \<longleftrightarrow> c \<in> set mysql_capabilities"
  "dialect_supports SQLite c \<longleftrightarrow> c \<in> set sqlite_capabilities"
  using supports_capabilities [of "[c]"] by (simp_all add: dialect_supports_def PostgreSQL_def MySQL_def SQLite_def capabilities_def)

lemma quoted_email: "quote_ident PostgreSQL ''email'' = Inr ''\"email\"''"
  by (simp add: quote_ident_def quote_identifier_def validate_identifier_def check_def decode_rune_ascii PostgreSQL_def postgresql_def replace_byte_def)

lemma sample_insert_rendered:
  "render_write ascii_tables PostgreSQL (InsertStatement sample_insert) =
     Inr (''INSERT INTO \"users\" (\"id\", \"email\") VALUES ($1, $2)'', [BoundArg 1, BoundArg 2])"
  using built_insert_valid [OF sample_insert_built]
  by (simp add: render_insert_def render_statement_def write_insert_def write_insert_base_def write_target_def write_names_def
      write_row_def write_returning_def sample_insert_def zero_insert_def seq_def emit_def emit_result_def nothing_def write_ident_def
      write_argument_def new_renderer_def quote_qualified_def quoted_names quoted_email users_names postgres_placeholders
      del: rbind_eq_Inr rbind_unit_eq_Inr)

theorem write_arguments_match_placeholders_witness:
  "write_values (ct_lower ascii_tables) PostgreSQL (InsertStatement sample_insert) = [BoundArg (1 :: nat), BoundArg 2] \<and>
   belongs PostgreSQL (\<lambda>d. render_write ascii_tables d (InsertStatement sample_insert))
     ''INSERT INTO \"users\" (\"id\", \"email\") VALUES ($1, $2)'' [BoundArg 1, BoundArg 2]"
  using write_arguments_match_placeholders [OF sample_insert_rendered] by metis

lemma sample_update_rendered:
  "render_update ascii_tables PostgreSQL sample_update =
     Inr (''UPDATE \"users\" SET \"email\" = $1 WHERE (\"users\".\"id\" = $2)'', [BoundArg 3, BoundArg 1])"
  using built_update_valid [OF sample_update_built]
  by (simp add: render_update_def render_statement_def write_update_def write_assignments_def write_assignment_def write_clause_def write_if_def
      write_target_def set_column_def operand_def write_returning_def sample_update_def seq_def emit_def emit_result_def nothing_def write_ident_def
      write_argument_def new_renderer_def quote_qualified_def quoted_names quoted_email users_names postgres_placeholders require_def
      write_column_ref_def dialect_supports_iff postgresql_capabilities_def
      del: rbind_eq_Inr rbind_unit_eq_Inr)

theorem rendered_writes_are_guarded_witness:
  "\<exists>target sets. quote_qualified PostgreSQL (tr_schema (up_table sample_update)) (tr_name (up_table sample_update)) = Inr target \<and>
     adds_text (write_assignments (ct_lower ascii_tables) PostgreSQL (up_sets sample_update)) (''UPDATE '' @ target @ '' SET '') sets \<and>
     guarded_text (ct_lower ascii_tables) PostgreSQL (up_where sample_update) (up_allow_all sample_update) (up_returning sample_update)
       (''UPDATE '' @ target @ '' SET '' @ sets) ''UPDATE \"users\" SET \"email\" = $1 WHERE (\"users\".\"id\" = $2)''"
  using conjunct1 [OF rendered_writes_are_guarded, THEN mp, OF sample_update_rendered] by blast

subsection \<open>Subqueries the walk does not reach\<close>

definition existing_user :: "nat expression" where
  "existing_user = Existence sample_select False"

definition hidden_user :: "nat expression" where
  "hidden_user = Case NilExpression [CaseWhen existing_user (Value 1)] None"

definition delete_users :: "nat expression \<Rightarrow> nat delete_stmt" where
  "delete_users e = \<lparr>dl_from = users_table, dl_where = e, dl_returning = [], dl_allow_all = False\<rparr>"

lemma mysql_names: "quote_ident MySQL ''users'' = Inr ''`users`''" "quote_ident MySQL ''id'' = Inr ''`id`''"
  by (simp_all add: quote_ident_def quote_identifier_def validate_identifier_def check_def decode_rune_ascii MySQL_def mysql_def replace_byte_def)

lemma mysql_name: "dialect_name MySQL = ''mysql''"
  by (simp add: dialect_name_def MySQL_def mysql_def)

lemma mysql_placeholder: "placeholder_text (base MySQL) 1 = Inr ''?''"
  by (simp add: placeholder_text_def MySQL_def mysql_def question_placeholder_text_def)

lemma users_is_target: "source_is_target users users_table"
  by (simp add: source_is_target_def same_base_table_def)

lemma delete_users_built:
  assumes "e \<in> {existing_user, hidden_user}"
  shows "built_delete ascii_tables (delete_users e)"
proof -
  have checked: "validate_statement ascii_tables (sample_select :: nat select) = Inr ()" "s_correlations (sample_select :: nat select) = []"
    by (simp_all add: sample_select_def)
  have "new_delete ascii_tables users_table = Inr (delete_users NilExpression)"
    by (simp add: new_delete_def delete_validate_def delete_users_def sample_defs)
  moreover have "delete_with_where ascii_tables e (delete_users NilExpression) = Inr (delete_users e)"
    using assms by (auto simp: delete_with_where_def delete_validate_def delete_users_def existing_user_def hidden_user_def
        validate_subquery_statement_def err_at_def checked sample_defs)
  ultimately show ?thesis by (metis built_delete.new built_delete.whr)
qed

text \<open>
  The check for MySQL's error 1093 does not see through every expression. A delete whose
  predicate runs a subquery on the written table is refused for MySQL, but the same subquery
  inside a \<open>CASE\<close> is rendered, because the walk stops at \<open>CASE\<close>, \<open>CAST\<close>, \<open>FILTER\<close>,
  \<open>OVER\<close> and trusted fragments, although its comment claims to list every node with children.
\<close>
theorem case_hides_write_target_from_the_check:
  "built_delete ascii_tables (delete_users existing_user) \<and> built_delete ascii_tables (delete_users hidden_user) \<and>
   render_delete ascii_tables MySQL (delete_users existing_user) =
     Inl (SubqueryReadsWriteTarget ''mysql'' ''DELETE'' (tr_qualified_name users_table)) \<and>
   render_delete ascii_tables MySQL (delete_users hidden_user) =
     Inr (''DELETE FROM `users` WHERE (CASE WHEN (EXISTS (SELECT `users`.`id` FROM `users`)) THEN ? END)'', [BoundArg 1])"
proof (intro conjI)
  have target: "select_reads_write_target users_table (sample_select :: nat select)"
    by (simp add: sample_select_def users_is_target)
  show "render_delete ascii_tables MySQL (delete_users existing_user) =
     Inl (SubqueryReadsWriteTarget ''mysql'' ''DELETE'' (tr_qualified_name users_table))"
    using built_delete_valid [OF delete_users_built [of existing_user]] target
    by (simp add: render_delete_def render_statement_def write_delete_def require_def fail_def delete_users_def existing_user_def
        dialect_supports_iff mysql_capabilities_def mysql_name)
  show "render_delete ascii_tables MySQL (delete_users hidden_user) =
     Inr (''DELETE FROM `users` WHERE (CASE WHEN (EXISTS (SELECT `users`.`id` FROM `users`)) THEN ? END)'', [BoundArg 1])"
    using built_delete_valid [OF delete_users_built [of hidden_user]]
    by (simp add: render_delete_def render_statement_def write_delete_def require_def delete_users_def hidden_user_def existing_user_def
        write_target_def write_clause_def write_if_def write_returning_def write_case_def seq_def emit_def emit_result_def nothing_def
        sample_select_def in_cte_scope_def check_sources_def validate_select_sources_def cte_names_collide_def add_source_def
        visible_source_from_table_def write_column_ref_def write_physical_table_def write_bound_def write_argument_def new_renderer_def
        quote_qualified_def mysql_names mysql_placeholder users_names write_users
        del: rbind_eq_Inr rbind_unit_eq_Inr)
qed (simp_all add: delete_users_built)

subsection \<open>Correlated sources of an INSERT\<close>

definition aliased_users :: "'v relation_ref" where
  "aliased_users = relation (users_table\<lparr>tr_alias := ''u''\<rparr>)"

definition correlated_select :: "nat select" where
  "correlated_select = Select [ColumnProjection users ''id''] aliased_users [users] [] [] NilExpression [] NilExpression [] None None False None True"

definition insert_correlated :: "nat insert_stmt" where
  "insert_correlated = (zero_insert users_table)\<lparr>ins_columns := [(users, ''id'')],
     ins_select_source := Some (SelectBody correlated_select, [\<lparr>rc_name = ''id'', rc_type = None, rc_nullable = False, rc_codec = []\<rparr>])\<rparr>"

lemma aliased_users_simps [simp]:
  "rel_validate aliased_users = Inr ()" "rel_cte_name aliased_users = []" "rel_alias aliased_users = ''u''"
  "rel_table aliased_users = Some (users_table\<lparr>tr_alias := ''u''\<rparr>)"
  by (simp_all add: aliased_users_def relation_def tr_validate_def table_ref_from_def)

lemma references_apart: "\<not> conflicts (rel_reference users) (rel_reference aliased_users)"
  by (simp add: conflicts_def rel_reference_def rel_qualifier_def tr_qualifier_def tr_def_def table_ref_from_def new_table_descriptor_def sample_table_def)

lemma correlated_select_built: "built ascii_tables correlated_select"
proof (rule built.new)
  have valid: "validate_statement ascii_tables (set_checked False correlated_select) = Inr ()"
    by (simp add: correlated_select_def set_checked_def validate_visible_cte_def err_at_def validate_ctes_def indexed_def
      validate_correlations_def validate_source_reference_def empty_scope_def validate_joins_def validate_group_by_def references_apart
      validate_projection_set_def validate_column_ref_def projection_context_def aggregate_clause_context_def clause_context_def
      scope_add_def usage_merge_def no_usage_def validate_having_def validate_order_by_def validate_bounds_def)
  show "new_correlated_joined_select ascii_tables aliased_users [users] [] [] [ColumnProjection users ''id''] = Inr correlated_select"
    unfolding new_correlated_joined_select_def validated_Inr using valid
    by (simp add: correlated_select_def set_checked_def del: validate_statement.simps)
qed

text \<open>
  A correlated query is only meant to run inside the statement it correlates with, and it is
  refused when it is rendered on its own. As the source of an \<open>INSERT\<close> it is not refused: the
  rendered statement reads a table that no \<open>FROM\<close> names.
\<close>
theorem insert_select_keeps_a_dangling_correlation:
  "built ascii_tables correlated_select \<and> built_insert ascii_tables insert_correlated \<and>
   (\<exists>e. render_select ascii_tables PostgreSQL correlated_select = Inl e) \<and>
   render_insert ascii_tables PostgreSQL insert_correlated =
     Inr (''INSERT INTO \"users\" (\"id\") SELECT \"users\".\"id\" FROM \"users\" AS \"u\"'', [])"
proof (intro conjI)
  show built: "built_insert ascii_tables insert_correlated"
  proof (rule built_insert.sel)
    show "new_insert_select ascii_tables users_table [(users, ''id'')]
       (SelectBody correlated_select, [\<lparr>rc_name = ''id'', rc_type = None, rc_nullable = False, rc_codec = []\<rparr>]) = Inr insert_correlated"
      by (simp add: new_insert_select_def insert_correlated_def zero_insert_def insert_validate_def validate_insert_columns_def users_key sample_defs)
  qed
  show "\<exists>e. render_select ascii_tables PostgreSQL correlated_select = Inl e"
    by (simp add: render_select_def render_statement_def correlated_select_def fail_def)
  have names: "quote_ident PostgreSQL ''u'' = Inr ''\"u\"''" "rel_qualifier aliased_users = ''u''" "rel_qualifier_schema aliased_users = []"
    "write_table L d aliased_users = write_physical_table d (users_table\<lparr>tr_alias := ''u''\<rparr>)"
    "tr_schema (users_table\<lparr>tr_alias := ''u''\<rparr>) = []" "tr_name (users_table\<lparr>tr_alias := ''u''\<rparr>) = ''users''" for L d
    by (simp_all add: quote_ident_def quote_identifier_def validate_identifier_def check_def decode_rune_ascii PostgreSQL_def postgresql_def replace_byte_def
        aliased_users_def relation_def rel_qualifier_def rel_qualifier_schema_def tr_qualifier_def tr_qualifier_schema_def tr_schema_def tr_name_def tr_def_def
        table_ref_from_def new_table_descriptor_def sample_table_def zero_table_def)
  have "\<not> identifiers_equal PostgreSQL ''users'' ''u''" by (simp add: PostgreSQL_def)
  then show "render_insert ascii_tables PostgreSQL insert_correlated =
     Inr (''INSERT INTO \"users\" (\"id\") SELECT \"users\".\"id\" FROM \"users\" AS \"u\"'', [])"
    using built_insert_valid [OF built]
    by (simp add: render_insert_def render_statement_def write_insert_def write_insert_base_def insert_correlated_def zero_insert_def correlated_select_def
        write_target_def write_names_def write_if_def write_returning_def seq_def emit_def emit_result_def nothing_def write_ident_def
        in_cte_scope_def check_sources_def validate_select_sources_def cte_names_collide_def add_source_def source_identifiers_conflict_def
        visible_source_from_table_def write_column_ref_def write_physical_table_def write_bound_def new_renderer_def
        quote_qualified_def quoted_names users_names write_users names
        del: rbind_eq_Inr rbind_unit_eq_Inr)
qed (rule correlated_select_built)

end
