(* ===== verification/Page_Keyset.thy ===== *)
theory Page_Keyset
  imports Query_Relation Cursor_Envelope
begin

text \<open>
  Keyset pagination of the root package (\<open>cursor.go\<close>, \<open>page.go\<close>): page keys and specs, the
  limit of a page, the predicate that selects the rows behind a cursor, and the loop that
  turns rows into a page with the cursor of the next one.

  A key value is one of the Go values of the cursor codec. The type variable \<open>'v\<close> stands
  for bind tokens and \<open>'r\<close> for rows. The paged query itself is in theory \<open>Page_Plan\<close>.
\<close>

subsection \<open>Keys\<close>

datatype page_cause = CodecCause cursor_error | TextCause gostring "message_arg list"

datatype page_error =
    PlanError gostring gostring gostring
  | InvalidCursor page_cause
  | OtherPageError page_cause

record 'v order_term =
  ot_node :: "'v expression"
  ot_source :: gostring
  ot_descending :: bool
  ot_nulls :: "8 word"

abbreviation nulls_default :: "8 word" where "nulls_default \<equiv> 0"
abbreviation nulls_first :: "8 word" where "nulls_first \<equiv> 1"
abbreviation nulls_last :: "8 word" where "nulls_last \<equiv> 2"
abbreviation page_ascending :: "8 word" where "page_ascending \<equiv> 1"
abbreviation page_descending :: "8 word" where "page_descending \<equiv> 2"

text \<open>The address tells keys apart that are built alike: the source compares pointers.\<close>

record ('v, 'r) page_key =
  pk_address :: nat
  pk_term :: "'v order_term"
  pk_direction :: "8 word"
  pk_nullable :: bool
  pk_codec :: gostring
  pk_type :: cursor_type
  pk_extract :: "'r \<Rightarrow> page_error + cursor_value option"

record 'v typed_expr =
  te_node :: "'v expression"
  te_codec :: gostring
  te_source :: gostring

type_synonym copier = "cursor_value \<Rightarrow> page_error + cursor_value"

definition asc_key :: "nat \<Rightarrow> 'v typed_expr \<Rightarrow> cursor_type \<Rightarrow> copier \<Rightarrow> ('r \<Rightarrow> cursor_value) \<Rightarrow> ('v, 'r) page_key" where
  "asc_key address e typ copy_page_value extract = \<lparr>pk_address = address,
     pk_term = \<lparr>ot_node = te_node e, ot_source = te_source e, ot_descending = False, ot_nulls = nulls_default\<rparr>,
     pk_direction = page_ascending, pk_nullable = False, pk_codec = te_codec e, pk_type = typ,
     pk_extract = (\<lambda>row. rbind (copy_page_value (extract row)) (\<lambda>owned. Inr (Some owned)))\<rparr>"

definition desc_key :: "nat \<Rightarrow> 'v typed_expr \<Rightarrow> cursor_type \<Rightarrow> copier \<Rightarrow> ('r \<Rightarrow> cursor_value) \<Rightarrow> ('v, 'r) page_key" where
  "desc_key address e typ copy_page_value extract = \<lparr>pk_address = address,
     pk_term = \<lparr>ot_node = te_node e, ot_source = te_source e, ot_descending = True, ot_nulls = nulls_default\<rparr>,
     pk_direction = page_descending, pk_nullable = False, pk_codec = te_codec e, pk_type = typ,
     pk_extract = (\<lambda>row. rbind (copy_page_value (extract row)) (\<lambda>owned. Inr (Some owned)))\<rparr>"

definition new_null_page_key :: "nat \<Rightarrow> 'v typed_expr \<Rightarrow> cursor_type \<Rightarrow> copier \<Rightarrow> ('r \<Rightarrow> cursor_value option) \<Rightarrow> 8 word \<Rightarrow> 8 word \<Rightarrow> ('v, 'r) page_key" where
  "new_null_page_key address e typ copy_page_value extract direction nulls = \<lparr>pk_address = address,
     pk_term = \<lparr>ot_node = te_node e, ot_source = te_source e, ot_descending = (direction = page_descending), ot_nulls = nulls\<rparr>,
     pk_direction = direction, pk_nullable = True, pk_codec = te_codec e, pk_type = typ,
     pk_extract = (\<lambda>row. case extract row of
        None \<Rightarrow> Inr None
      | Some value \<Rightarrow> rbind (copy_page_value value) (\<lambda>owned. Inr (Some owned)))\<rparr>"

definition asc_null_key :: "nat \<Rightarrow> 'v typed_expr \<Rightarrow> cursor_type \<Rightarrow> copier \<Rightarrow> ('r \<Rightarrow> cursor_value option) \<Rightarrow> 8 word \<Rightarrow> ('v, 'r) page_key" where
  "asc_null_key address e typ copy_page_value extract nulls = new_null_page_key address e typ copy_page_value extract page_ascending nulls"

definition desc_null_key :: "nat \<Rightarrow> 'v typed_expr \<Rightarrow> cursor_type \<Rightarrow> copier \<Rightarrow> ('r \<Rightarrow> cursor_value option) \<Rightarrow> 8 word \<Rightarrow> ('v, 'r) page_key" where
  "desc_null_key address e typ copy_page_value extract nulls = new_null_page_key address e typ copy_page_value extract page_descending nulls"

record ('v, 'r) page_spec =
  sp_keys :: "('v, 'r) page_key list"
  sp_unique_suffix :: "('v, 'r) page_key list"

text \<open>An argument that is nil or of another type is \<open>None\<close>.\<close>

definition spec_key_step :: "nat \<times> ('v, 'r) page_key option \<Rightarrow> ('v, 'r) page_key list \<Rightarrow> page_error + ('v, 'r) page_key list" where
  "spec_key_step p keys = (case snd p of
       None \<Rightarrow> Inl (PlanError ''invalid_page_spec'' (item_path ''order'' (fst p)) ''must be a valid page key'')
     | Some key \<Rightarrow>
         if ot_node (pk_term key) = NilExpression then Inl (PlanError ''invalid_page_spec'' (item_path ''order'' (fst p)) ''must be a valid page key'')
         else if pk_nullable key \<and> ot_nulls (pk_term key) = nulls_default
           then Inl (PlanError ''invalid_page_spec'' (item_path ''order'' (fst p)) ''nullable keys require explicit NULL order'')
         else Inr (keys @ [key]))"

definition spec_suffix_step :: "('v, 'r) page_key list \<Rightarrow> nat \<Rightarrow> nat \<times> ('v, 'r) page_key option \<Rightarrow> ('v, 'r) page_key list \<Rightarrow> page_error + ('v, 'r) page_key list" where
  "spec_suffix_step keys n p suffix = (case snd p of
       None \<Rightarrow> Inl (PlanError ''invalid_page_spec'' (item_path ''uniqueSuffix'' (fst p)) ''must be a valid page key'')
     | Some key \<Rightarrow> let at = int (length keys) - int n + int (fst p) in
         if at < 0 \<or> pk_address (keys ! nat at) \<noteq> pk_address key
           then Inl (PlanError ''order_not_unique'' ''uniqueSuffix'' ''must match the terminal page keys'')
         else Inr (suffix @ [key]))"

definition new_page_spec :: "('v, 'r) page_key option list \<Rightarrow> ('v, 'r) page_key option list \<Rightarrow> page_error + ('v, 'r) page_spec" where
  "new_page_spec order unique_suffix =
     (if order = [] then Inl (PlanError ''invalid_page_spec'' ''order'' ''must not be empty'')
      else if unique_suffix = [] then Inl (PlanError ''order_not_unique'' ''uniqueSuffix'' ''must not be empty'')
      else if length order > 255 then Inl (PlanError ''invalid_page_spec'' ''order'' ''must contain at most 255 keys'')
      else rbind (rfold spec_key_step (indexed order) []) (\<lambda>keys.
        rbind (rfold (spec_suffix_step keys (length unique_suffix)) (indexed unique_suffix) []) (\<lambda>suffix.
        Inr \<lparr>sp_keys = keys, sp_unique_suffix = suffix\<rparr>)))"

subsection \<open>The limit of a page\<close>

record page_policy =
  pp_default_limit :: int
  pp_max_limit :: int

record page_request =
  pr_limit :: int
  pr_after :: gostring

record 'r page =
  pg_values :: "'r list"
  pg_next :: gostring
  pg_has_more :: bool

definition default_page_policy :: page_policy where
  "default_page_policy = \<lparr>pp_default_limit = 50, pp_max_limit = 1000\<rparr>"

definition max_int :: int where "max_int = 2 ^ 63 - 1"

definition page_limit :: "page_policy \<Rightarrow> page_request \<Rightarrow> page_error + int" where
  "page_limit policy request =
     (let policy = (if pp_default_limit policy = 0 \<and> pp_max_limit policy = 0 then default_page_policy else policy) in
      if pp_default_limit policy < 1 \<or> pp_max_limit policy < pp_default_limit policy \<or> pp_max_limit policy > max_int - 1
        then Inl (PlanError ''invalid_page_policy'' ''policy'' ''limits are invalid'')
      else (let limit = (if pr_limit request = 0 then pp_default_limit policy else pr_limit request) in
        if limit < 0 \<or> limit > pp_max_limit policy then Inl (PlanError ''invalid_page_limit'' ''request.limit'' ''limit is outside policy'')
        else Inr limit))"

subsection \<open>Cursors\<close>

datatype codec = CursorCodec "cursor_value \<Rightarrow> page_cause + gostring" "gostring \<Rightarrow> page_cause + cursor_value" | OtherCodec

type_synonym codec_registry = "gostring \<Rightarrow> codec option"

definition cursor_codec_from :: "codec_registry \<Rightarrow> gostring \<Rightarrow> page_cause + ((cursor_value \<Rightarrow> page_cause + gostring) \<times> (gostring \<Rightarrow> page_cause + cursor_value))" where
  "cursor_codec_from registry name = (case registry name of
       None \<Rightarrow> Inl (TextCause ''codec %q unavailable'' [QuotedArg name])
     | Some (CursorCodec enc decd) \<Rightarrow> Inr (enc, decd)
     | Some OtherCodec \<Rightarrow> Inl (TextCause ''codec %q does not support cursors'' [QuotedArg name]))"

definition encode_page_value :: "codec_registry \<Rightarrow> ('v, 'r) page_key \<Rightarrow> cursor_value \<Rightarrow> page_cause + gostring" where
  "encode_page_value registry key val =
     (if \<not> pk_nullable key \<and> val = NilValue then Inl (TextCause ''nil cursor value'' [])
      else if pk_codec key = [] then map_sum CodecCause id (encode_value val)
      else rbind (cursor_codec_from registry (pk_codec key)) (\<lambda>codec. fst codec val))"

definition decode_page_value :: "codec_registry \<Rightarrow> ('v, 'r) page_key \<Rightarrow> gostring \<Rightarrow> page_cause + cursor_value" where
  "decode_page_value registry key data =
     (if pk_codec key = [] then map_sum CodecCause id (decode_value data (pk_type key))
      else rbind (cursor_codec_from registry (pk_codec key)) (\<lambda>codec. snd codec data))"

definition byte_of :: "8 word \<Rightarrow> char" where
  "byte_of w = char_of (unat w)"

definition page_key_field :: "('v, 'r) page_key \<Rightarrow> cursor_field" where
  "page_key_field key = \<lparr>cf_direction = byte_of (pk_direction key), cf_nullable = pk_nullable key,
     cf_nulls = byte_of (ot_nulls (pk_term key)), cf_codec = pk_codec key\<rparr>"

definition decode_cursor_step :: "codec_registry \<Rightarrow> ('v, 'r) page_key \<times> cursor_field \<times> cursor_payload \<Rightarrow> cursor_value option list \<Rightarrow> page_error + cursor_value option list" where
  "decode_cursor_step registry p decoded = (case p of (key, field, payload) \<Rightarrow>
     if field \<noteq> page_key_field key then Inl (InvalidCursor (TextCause ''cursor metadata mismatch'' []))
     else if \<not> cp_present payload then
       (if \<not> pk_nullable key then Inl (InvalidCursor (TextCause ''invalid absent cursor value'' [])) else Inr (decoded @ [None]))
     else (case decode_page_value registry key (cp_data payload) of
         Inl e \<Rightarrow> Inl (InvalidCursor e)
       | Inr val \<Rightarrow> Inr (decoded @ [Some val])))"

definition decode_page_cursor :: "codec_registry \<Rightarrow> ('v, 'r) page_key list \<Rightarrow> gostring \<Rightarrow> page_error + (cursor_value option list \<times> gostring)" where
  "decode_page_cursor registry keys cursor = (case decode_envelope cursor of
       Inl e \<Rightarrow> Inl (InvalidCursor (CodecCause e))
     | Inr env \<Rightarrow>
         if length (ev_fields env) \<noteq> length keys then Inl (InvalidCursor (TextCause ''cursor arity mismatch'' []))
         else rbind (rfold (decode_cursor_step registry) (zip keys (zip (ev_fields env) (ev_values env))) []) (\<lambda>decoded.
           Inr (decoded, ev_fingerprint env)))"

subsection \<open>The predicate behind a cursor\<close>

definition prior_part :: "(cursor_value \<Rightarrow> gostring \<Rightarrow> 'v) \<Rightarrow> ('v, 'r) page_key \<Rightarrow> cursor_value option \<Rightarrow> 'v expression" where
  "prior_part bind prior c = (let node = ot_node (pk_term prior) in case c of
       None \<Rightarrow> is_null node
     | Some val \<Rightarrow> and_expr [is_not_null node, equal_expr (Inr node) (Inr (Value (bind val (pk_codec prior))))])"

definition current_part :: "(cursor_value \<Rightarrow> gostring \<Rightarrow> 'v) \<Rightarrow> ('v, 'r) page_key \<Rightarrow> cursor_value option \<Rightarrow> 'v expression option" where
  "current_part bind key c = (let current = ot_node (pk_term key) in case c of
       None \<Rightarrow> if ot_nulls (pk_term key) = nulls_first then Some (is_not_null current) else None
     | Some val \<Rightarrow>
         let comparison = (if pk_direction key = page_descending then less_than (Inr current) (Inr (Value (bind val (pk_codec key))))
                           else greater_than (Inr current) (Inr (Value (bind val (pk_codec key)))));
             branch = and_expr [is_not_null current, comparison] in
         Some (if ot_nulls (pk_term key) = nulls_last then or_expr [is_null current, branch] else branch))"

fun keyset_branches :: "(cursor_value \<Rightarrow> gostring \<Rightarrow> 'v) \<Rightarrow> 'v expression list \<Rightarrow> (('v, 'r) page_key \<times> cursor_value option) list \<Rightarrow> page_error + 'v expression list" where
  "keyset_branches bind priors [] = Inr []"
| "keyset_branches bind priors ((key, c) # rest) =
     (if c = None \<and> \<not> pk_nullable key then Inl (InvalidCursor (TextCause ''missing non-null cursor value'' []))
      else rbind (keyset_branches bind (priors @ [prior_part bind key c]) rest) (\<lambda>branches.
        Inr ((case current_part bind key c of
            None \<Rightarrow> []
          | Some part \<Rightarrow> [if priors = [] then part else and_expr (priors @ [part])]) @ branches)))"

definition keyset_predicate :: "(cursor_value \<Rightarrow> gostring \<Rightarrow> 'v) \<Rightarrow> ('v, 'r) page_key list \<Rightarrow> cursor_value option list \<Rightarrow> page_error + ('v expression option \<times> bool)" where
  "keyset_predicate bind keys cursors =
     (if cursors = [] then Inr (None, False)
      else rbind (keyset_branches bind [] (zip keys cursors)) (\<lambda>branches.
        if branches = [] then Inr (None, True)
        else if length branches = 1 then Inr (Some (hd branches), False)
        else Inr (Some (or_expr branches), False)))"

subsection \<open>Pages\<close>

fun consume_rows :: "nat \<Rightarrow> ('r \<Rightarrow> bool \<Rightarrow> page_error option) \<Rightarrow> (page_error + 'r) list \<Rightarrow> 'r list \<Rightarrow> 'r list \<times> bool \<times> page_error option" where
  "consume_rows limit callback [] vals = (vals, False, None)"
| "consume_rows limit callback (Inl e # rows) vals = (vals, False, Some e)"
| "consume_rows limit callback (Inr row # rows) vals =
     (let kept = length vals < limit in
      case callback row kept of
        Some e \<Rightarrow> (vals, False, Some e)
      | None \<Rightarrow>
          if kept then consume_rows limit callback rows (vals @ [row])
          else if length vals = limit then (vals, True, None)
          else consume_rows limit callback rows vals)"

definition key_payload :: "codec_registry \<Rightarrow> 'r \<Rightarrow> ('v, 'r) page_key \<Rightarrow> cursor_payload list \<Rightarrow> page_error + cursor_payload list" where
  "key_payload registry row key payloads = rbind (pk_extract key row) (\<lambda>val. case val of
       None \<Rightarrow> Inr (payloads @ [\<lparr>cp_present = False, cp_data = []\<rparr>])
     | Some v \<Rightarrow> (case encode_page_value registry key v of
          Inl e \<Rightarrow> Inl (OtherPageError e)
        | Inr data \<Rightarrow> Inr (payloads @ [\<lparr>cp_present = True, cp_data = data\<rparr>])))"

definition next_cursor :: "codec_registry \<Rightarrow> gostring \<Rightarrow> ('v, 'r) page_key list \<Rightarrow> 'r \<Rightarrow> page_error + gostring" where
  "next_cursor registry fp keys row = rbind (rfold (key_payload registry row) keys []) (\<lambda>payloads.
     case encode_envelope fp (map page_key_field keys) payloads of
       Inl e \<Rightarrow> Inl (OtherPageError (CodecCause e))
     | Inr cursor \<Rightarrow> Inr cursor)"

definition empty_page :: "'r page" where
  "empty_page = \<lparr>pg_values = [], pg_next = [], pg_has_more = False\<rparr>"

text \<open>
  A prepared page: \<open>None\<close> when no row can follow. Running it is the list of what the row
  iterator yields, or the error that opening it returned.
\<close>

record 'r prepared_page =
  pp_rows :: "page_error + (page_error + 'r) list"
  pp_limit :: int
  pp_fingerprint :: gostring

definition consume_prepared_page :: "codec_registry \<Rightarrow> ('v, 'r) page_key list \<Rightarrow> 'r prepared_page option \<Rightarrow> ('r \<Rightarrow> bool \<Rightarrow> page_error option) \<Rightarrow> 'r page \<times> page_error option" where
  "consume_prepared_page registry keys prepared callback = (case prepared of
       None \<Rightarrow> (empty_page, None)
     | Some pp \<Rightarrow> (case pp_rows pp of
          Inl e \<Rightarrow> (empty_page, Some e)
        | Inr rows \<Rightarrow> (case consume_rows (nat (pp_limit pp)) callback rows [] of
             (vals, m, Some e) \<Rightarrow> (empty_page\<lparr>pg_values := vals\<rparr>, Some e)
           | (vals, False, None) \<Rightarrow> (empty_page\<lparr>pg_values := vals\<rparr>, None)
           | (vals, True, None) \<Rightarrow> (case next_cursor registry (pp_fingerprint pp) keys (last vals) of
                Inl e \<Rightarrow> (empty_page, Some e)
              | Inr cursor \<Rightarrow> (\<lparr>pg_values = vals, pg_next = cursor, pg_has_more = True\<rparr>, None)))))"

definition check_key_codecs :: "codec_registry \<Rightarrow> ('v, 'r) page_key list \<Rightarrow> page_error + unit" where
  "check_key_codecs registry keys = rfold (\<lambda>(i, key) _.
     if pk_codec key = [] then Inr ()
     else (case cursor_codec_from registry (pk_codec key) of
         Inl e \<Rightarrow> Inl (PlanError ''codec_unavailable'' (item_path ''page.order'' i @ ''.codec'') [])
       | Inr _ \<Rightarrow> Inr ())) (indexed keys) ()"

end
