(* ===== verification/Page_Fingerprint.thy ===== *)
theory Page_Fingerprint
  imports Page_Keyset
begin

text \<open>
  Package \<open>internal/pagekey\<close>: the bytes that are hashed into the fingerprint of a paged query.
  The theorem says that they determine what the query is, down to the types of its columns
  and the values of its arguments. A function that writes to the hash is the bytes it writes;
  the hash itself is a parameter.
\<close>

subsection \<open>Framed writes\<close>

definition write_field :: "gostring \<Rightarrow> gostring" where
  "write_field s = be_bytes 4 (length s mod 2 ^ 32) @ s"

definition write_bool_field :: "gostring \<Rightarrow> bool \<Rightarrow> gostring" where
  "write_bool_field tag b = write_field tag @ write_field (if b then ''1'' else ''0'')"

definition write_uint_field :: "gostring \<Rightarrow> 64 word \<Rightarrow> gostring" where
  "write_uint_field tag w = write_field tag @ write_field (put_uint64 w)"

definition write_int_field :: "gostring \<Rightarrow> int \<Rightarrow> gostring" where
  "write_int_field tag n = write_field tag @ write_field (put_uint64 (word_of_int n))"

subsection \<open>Column types\<close>

datatype fingerprint_error =
    UnsupportedColumnType column_type
  | NilColumnType
  | InvalidArgumentIndex
  | UnsupportedDriverValue gostring

fun kind_name :: "type_kind \<Rightarrow> gostring" where
  "kind_name KindBoolean = ''boolean''"
| "kind_name KindInteger = ''integer''"
| "kind_name KindFloat = ''float''"
| "kind_name KindText = ''text''"
| "kind_name KindBytes = ''bytes''"
| "kind_name KindTime = ''time''"
| "kind_name KindJSON = ''json''"
| "kind_name KindUUID = ''uuid''"
| "kind_name KindDecimal = ''decimal''"
| "kind_name KindNative = ''native''"

definition write_stated :: "gostring \<Rightarrow> gostring \<Rightarrow> int option \<Rightarrow> gostring" where
  "write_stated stated_tag tag n = write_bool_field stated_tag (n \<noteq> None) @ (case n of None \<Rightarrow> [] | Some v \<Rightarrow> write_int_field tag v)"

fun write_type_parameters :: "column_type \<Rightarrow> fingerprint_error + gostring" where
  "write_type_parameters (IntegerType u w z) =
     Inr (write_bool_field ''unsigned'' u @ write_stated ''display-width-stated'' ''display-width'' w @ write_bool_field ''zerofill'' z)"
| "write_type_parameters (TextType w f) = Inr (write_stated ''width-stated'' ''width'' w @ write_bool_field ''fixed'' f)"
| "write_type_parameters (DecimalType p s u z) =
     Inr (write_int_field ''precision'' p @ write_stated ''scale-stated'' ''scale'' s @ write_bool_field ''unsigned'' u @ write_bool_field ''zerofill'' z)"
| "write_type_parameters (PointerTo t) = Inl (UnsupportedColumnType (PointerTo t))"
| "write_type_parameters _ = Inr []"

definition write_column_type :: "column_type option \<Rightarrow> fingerprint_error + gostring" where
  "write_column_type ct = (case ct of
       None \<Rightarrow> Inl NilColumnType
     | Some t \<Rightarrow> rbind (write_type_parameters t) (\<lambda>parameters.
         Inr (write_field ''column-type'' @ write_field (kind_name (kind t)) @ write_field ''parameters'' @ parameters)))"

definition write_column :: "result_column \<Rightarrow> fingerprint_error + gostring" where
  "write_column column = rbind (write_column_type (rc_type column)) (\<lambda>typ.
     Inr (write_field (rc_name column) @ typ @ write_field (rc_codec column) @ write_field (if rc_nullable column then ''nullable'' else ''required'')))"

subsection \<open>Argument values\<close>

text \<open>
  A time in UTC by its calendar fields. \<open>Format(time.RFC3339Nano)\<close> writes the year with at
  least four digits and the fraction of a second without trailing zeros.
\<close>

record utc_time =
  ut_year :: int
  ut_month :: nat
  ut_day :: nat
  ut_hour :: nat
  ut_minute :: nat
  ut_second :: nat
  ut_nanosecond :: nat

definition padded :: "nat \<Rightarrow> nat \<Rightarrow> gostring" where
  "padded width n = replicate (width - length (dec n)) (CHR ''0'') @ dec n"

definition trim_zeros :: "gostring \<Rightarrow> gostring" where
  "trim_zeros s = rev (dropWhile (\<lambda>c. c = CHR ''0'') (rev s))"

definition rfc3339_nano :: "utc_time \<Rightarrow> gostring" where
  "rfc3339_nano t = (if ut_year t < 0 then ''-'' else []) @ padded 4 (nat \<bar>ut_year t\<bar>) @ ''-'' @ padded 2 (ut_month t) @ ''-'' @ padded 2 (ut_day t) @
     ''T'' @ padded 2 (ut_hour t) @ '':'' @ padded 2 (ut_minute t) @ '':'' @ padded 2 (ut_second t) @
     (if ut_nanosecond t = 0 then [] else ''.'' @ trim_zeros (padded 9 (ut_nanosecond t))) @ ''Z''"

text \<open>
  A driver value by its dynamic type. \<open>NumberArg\<close> is a value of another integer or float
  type, with the name of the type and the 64 bits it is converted to.
\<close>

datatype driver_value =
    NamedArg gostring driver_value
  | NilArg
  | Int64Arg "64 word"
  | Float64Arg "64 word"
  | BoolArg bool
  | StringArg gostring
  | BytesArg gostring
  | TimeArg utc_time
  | NumberArg gostring "64 word"
  | OtherArg gostring

fun write_fingerprint_value :: "driver_value \<Rightarrow> fingerprint_error + gostring" where
  "write_fingerprint_value (NamedArg name v) = rbind (write_fingerprint_value v) (\<lambda>bs. Inr (write_field ''named'' @ write_field name @ bs))"
| "write_fingerprint_value NilArg = Inr (write_field ''nil'')"
| "write_fingerprint_value (Int64Arg w) = Inr (write_field ''int64'' @ put_uint64 w)"
| "write_fingerprint_value (Float64Arg w) = Inr (write_field ''float64'' @ put_uint64 w)"
| "write_fingerprint_value (BoolArg b) = Inr (write_field ''bool'' @ [if b then CHR 0x01 else CHR 0x00])"
| "write_fingerprint_value (StringArg s) = Inr (write_field ''string'' @ write_field s)"
| "write_fingerprint_value (BytesArg s) = Inr (write_field ''bytes'' @ write_field s)"
| "write_fingerprint_value (TimeArg t) = Inr (write_field ''time'' @ write_field (rfc3339_nano t))"
| "write_fingerprint_value (NumberArg typ w) = Inr (write_field typ @ put_uint64 w)"
| "write_fingerprint_value (OtherArg typ) = Inl (UnsupportedDriverValue typ)"

subsection \<open>The fingerprint\<close>

record fingerprint_key =
  fk_direction :: char
  fk_nulls :: char
  fk_codec :: gostring
  fk_source :: gostring

definition write_key :: "fingerprint_key \<Rightarrow> gostring" where
  "write_key key = write_field [fk_direction key, fk_nulls key] @ write_field (fk_codec key) @ write_field (fk_source key)"

fun rconcat :: "('x \<Rightarrow> 'e + 'y list) \<Rightarrow> 'x list \<Rightarrow> 'e + 'y list" where
  "rconcat f [] = Inr []"
| "rconcat f (x # xs) = rbind (f x) (\<lambda>a. rbind (rconcat f xs) (\<lambda>b. Inr (a @ b)))"

definition write_indexed_argument :: "driver_value list \<Rightarrow> int \<Rightarrow> fingerprint_error + gostring" where
  "write_indexed_argument args index =
     (if index < 0 \<or> index \<ge> int (length args) then Inl InvalidArgumentIndex else write_fingerprint_value (args ! nat index))"

record fingerprint_query =
  fq_engine :: gostring
  fq_sql :: gostring
  fq_columns :: "result_column list"
  fq_arguments :: "driver_value list"
  fq_keys :: "fingerprint_key list"
  fq_indexes :: "int list"

definition fingerprint_bytes :: "fingerprint_query \<Rightarrow> fingerprint_error + gostring" where
  "fingerprint_bytes q = rbind (rconcat write_column (fq_columns q)) (\<lambda>columns.
     rbind (rconcat (write_indexed_argument (fq_arguments q)) (fq_indexes q)) (\<lambda>arguments.
     Inr (write_field ''rasql-keyset-v1'' @ write_field (fq_engine q) @ write_field (fq_sql q) @
       write_uint_field ''column-count'' (word_of_nat (length (fq_columns q))) @ columns @
       write_uint_field ''key-count'' (word_of_nat (length (fq_keys q))) @ concat (map write_key (fq_keys q)) @
       write_uint_field ''argument-count'' (word_of_nat (length (fq_indexes q))) @ arguments)))"

definition fingerprint :: "(gostring \<Rightarrow> gostring) \<Rightarrow> fingerprint_query \<Rightarrow> fingerprint_error + gostring" where
  "fingerprint sha256 q = rbind (fingerprint_bytes q) (\<lambda>bs. Inr (sha256 bs))"

definition page_fingerprint_field :: "('v, 'r) page_key \<Rightarrow> fingerprint_key" where
  "page_fingerprint_field key = \<lparr>fk_direction = byte_of (pk_direction key), fk_nulls = byte_of (ot_nulls (pk_term key)),
     fk_codec = pk_codec key, fk_source = ot_source (pk_term key)\<rparr>"

subsection \<open>Codes that can be told apart\<close>

text \<open>
  An encoder whose outputs can be followed by anything: what follows never changes where an
  output ends or what it stands for.
\<close>

locale prefix_code =
  fixes enc :: "'a \<Rightarrow> 'e + gostring" and ok :: "'a \<Rightarrow> bool"
  assumes splits: "ok x \<Longrightarrow> ok y \<Longrightarrow> enc x = Inr a \<Longrightarrow> enc y = Inr b \<Longrightarrow> a @ r = b @ s \<Longrightarrow> x = y \<and> r = s"
begin

lemma many_splits:
  assumes "length xs = length ys" "list_all ok xs" "list_all ok ys" "rconcat enc xs = Inr a" "rconcat enc ys = Inr b" "a @ r = b @ s"
  shows "xs = ys \<and> r = s"
  using assms
proof (induction xs ys arbitrary: a b rule: list_induct2)
  case (Cons x xs y ys)
  obtain a1 a2 b1 b2 where e: "enc x = Inr a1" "rconcat enc xs = Inr a2" "a = a1 @ a2" "enc y = Inr b1" "rconcat enc ys = Inr b2" "b = b1 @ b2"
    using Cons.prems by auto
  have "x = y \<and> a2 @ r = b2 @ s"
    using splits [OF _ _ e(1,4), of "a2 @ r" "b2 @ s"] Cons.prems e by simp
  then show ?case using Cons.IH [OF _ _ e(2,5)] Cons.prems by simp
qed simp

end


text \<open>A string whose length fits the 32 bits it is announced with.\<close>

definition framed :: "gostring \<Rightarrow> bool" where
  "framed s = (length s < 2 ^ 32)"

lemma framed_short [simp]: "length s < 100 \<Longrightarrow> framed s"
  by (simp add: framed_def)

lemma write_field_splits [simp]:
  assumes "framed s" "framed t"
  shows "write_field s @ q = write_field t @ r \<longleftrightarrow> s = t \<and> q = r"
proof
  assume eq: "write_field s @ q = write_field t @ r"
  then have "be_bytes 4 (length s) @ s @ q = be_bytes 4 (length t) @ t @ r" using assms by (simp add: write_field_def framed_def)
  then have "be_bytes 4 (length s) = be_bytes 4 (length t) \<and> s @ q = t @ r" by (simp add: append_eq_append_conv)
  moreover from this have "be_val (be_bytes 4 (length s)) = be_val (be_bytes 4 (length t))" by simp
  then have "length s = length t" using assms by (simp add: be_val_bytes framed_def)
  ultimately show "s = t \<and> q = r" by (simp add: append_eq_append_conv)
qed simp

lemma put_uint64_splits [simp]: "put_uint64 v @ q = put_uint64 w @ r \<longleftrightarrow> v = w \<and> q = r"
  by (metis append_eq_append_conv get_put_uint64(2) length_put_uint64)

lemma put_uint64_inj [simp]: "put_uint64 v = put_uint64 w \<longleftrightarrow> v = w"
  by (metis get_put_uint64(2))

lemma write_bool_field_splits [simp]: "framed tag \<Longrightarrow> write_bool_field tag a @ q = write_bool_field tag b @ r \<longleftrightarrow> a = b \<and> q = r"
  by (simp add: write_bool_field_def)

lemma write_uint_field_splits [simp]: "framed tag \<Longrightarrow> write_uint_field tag v @ q = write_uint_field tag w @ r \<longleftrightarrow> v = w \<and> q = r"
  by (simp add: write_uint_field_def)

definition in_int64 :: "int \<Rightarrow> bool" where
  "in_int64 n = (- (2 ^ 63) \<le> n \<and> n < 2 ^ 63)"

lemma sint_of_int64: "in_int64 a \<Longrightarrow> sint (word_of_int a :: 64 word) = a"
  by (simp add: in_int64_def sint_sbintrunc' signed_take_bit_int_eq_self)

lemma word_of_int64_inj: "in_int64 a \<Longrightarrow> in_int64 b \<Longrightarrow> (word_of_int a :: 64 word) = word_of_int b \<longleftrightarrow> a = b"
  by (metis sint_of_int64)

lemma write_int_field_splits [simp]:
  "framed tag \<Longrightarrow> in_int64 a \<Longrightarrow> in_int64 b \<Longrightarrow> write_int_field tag a @ q = write_int_field tag b @ r \<longleftrightarrow> a = b \<and> q = r"
  by (simp add: write_int_field_def word_of_int64_inj)

lemma write_stated_splits [simp]:
  "framed stated_tag \<Longrightarrow> framed tag \<Longrightarrow> pred_option in_int64 m \<Longrightarrow> pred_option in_int64 n \<Longrightarrow>
   write_stated stated_tag tag m @ q = write_stated stated_tag tag n @ r \<longleftrightarrow> m = n \<and> q = r"
  by (cases m; cases n) (simp_all add: write_stated_def)

fun type_integers_ok :: "column_type option \<Rightarrow> bool" where
  "type_integers_ok (Some (IntegerType u w z)) = pred_option in_int64 w"
| "type_integers_ok (Some (TextType w f)) = pred_option in_int64 w"
| "type_integers_ok (Some (DecimalType p s u z)) = (in_int64 p \<and> pred_option in_int64 s)"
| "type_integers_ok ct = True"

lemma kind_name_inj: "kind_name k = kind_name l \<longleftrightarrow> k = l"
  by (cases k; cases l) simp_all

lemma framed_kind_name: "framed (kind_name k)"
  by (cases k) simp_all

lemma parameters_split:
  assumes "type_integers_ok (Some t)" "type_integers_ok (Some u)" "kind t = kind u" "write_type_parameters t = Inr a" "write_type_parameters u = Inr b" "a @ r = b @ s"
  shows "t = u \<and> r = s"
  using assms by (cases t; cases u) auto

interpretation ctyp: prefix_code write_column_type type_integers_ok
proof
  fix x y a b r s
  assume ok: "type_integers_ok x" "type_integers_ok y" "write_column_type x = Inr a" "write_column_type y = Inr b" "a @ r = b @ s"
  then obtain t u pa pb where t: "x = Some t" "y = Some u" "write_type_parameters t = Inr pa" "write_type_parameters u = Inr pb"
    "a = write_field ''column-type'' @ write_field (kind_name (kind t)) @ write_field ''parameters'' @ pa"
    "b = write_field ''column-type'' @ write_field (kind_name (kind u)) @ write_field ''parameters'' @ pb"
    by (auto simp: write_column_type_def split: option.splits)
  then have "kind t = kind u \<and> pa @ r = pb @ s" using ok(5) by (simp add: framed_kind_name kind_name_inj)
  then show "x = y \<and> r = s" using parameters_split [of t u pa pb r s] ok t by simp
qed

definition column_ok :: "result_column \<Rightarrow> bool" where
  "column_ok column = (framed (rc_name column) \<and> framed (rc_codec column) \<and> type_integers_ok (rc_type column))"

interpretation col: prefix_code write_column column_ok
proof
  fix x y :: result_column and a b r s
  assume ok: "column_ok x" "column_ok y" "write_column x = Inr a" "write_column y = Inr b" "a @ r = b @ s"
  obtain ta tb where t: "write_column_type (rc_type x) = Inr ta" "write_column_type (rc_type y) = Inr tb"
    "a = write_field (rc_name x) @ ta @ write_field (rc_codec x) @ write_field (if rc_nullable x then ''nullable'' else ''required'')"
    "b = write_field (rc_name y) @ tb @ write_field (rc_codec y) @ write_field (if rc_nullable y then ''nullable'' else ''required'')"
    using ok(3,4) by (auto simp: write_column_def)
  have framed [simp]: "framed (if c then ''nullable'' else ''required'')" for c by simp
  have flag: "(if c then ''nullable'' else ''required'') = (if d then ''nullable'' else ''required'') \<longleftrightarrow> c = d" for c d by simp
  have "rc_name x = rc_name y \<and> ta @ write_field (rc_codec x) @ write_field (if rc_nullable x then ''nullable'' else ''required'') @ r =
      tb @ write_field (rc_codec y) @ write_field (if rc_nullable y then ''nullable'' else ''required'') @ s"
    using ok(1,2,5) unfolding t(3,4) append_assoc column_ok_def by simp
  then have name: "rc_name x = rc_name y" and rest: "ta @ write_field (rc_codec x) @ write_field (if rc_nullable x then ''nullable'' else ''required'') @ r =
      tb @ write_field (rc_codec y) @ write_field (if rc_nullable y then ''nullable'' else ''required'') @ s" by blast+
  have "rc_type x = rc_type y \<and>
      write_field (rc_codec x) @ write_field (if rc_nullable x then ''nullable'' else ''required'') @ r =
      write_field (rc_codec y) @ write_field (if rc_nullable y then ''nullable'' else ''required'') @ s"
    using ok(1,2) unfolding column_ok_def by (intro ctyp.splits [OF _ _ t(1,2) rest]) blast+
  then show "x = y \<and> r = s" using name ok(1,2) by (simp add: column_ok_def flag del: if_split)
qed

definition key_field_ok :: "fingerprint_key \<Rightarrow> bool" where
  "key_field_ok key = (framed (fk_codec key) \<and> framed (fk_source key))"

interpretation key: prefix_code "\<lambda>key. Inr (write_key key)" key_field_ok
  by unfold_locales (auto simp: write_key_def key_field_ok_def)

subsection \<open>Times\<close>

lemma dec_val_zeros: "dec_val (replicate k (CHR ''0'') @ s) = dec_val s"
proof (induction s rule: rev_induct)
  case Nil
  show ?case by (induction k) (simp_all add: dec_val_def digit_val_def replicate_append_same [symmetric] del: replicate.simps)
next
  case (snoc c s)
  then show ?case using dec_val_snoc [of "replicate k (CHR ''0'') @ s" c] by (simp add: dec_val_snoc)
qed

lemma dec_val_padded [simp]: "dec_val (padded width n) = n"
  by (simp add: padded_def dec_val_zeros)

lemma padded_inj [simp]: "padded width m = padded width n \<longleftrightarrow> m = n"
  by (metis dec_val_padded)

lemma padded_digits: "list_all is_digit (padded width n)"
  using dec_digits [of n] by (auto simp: padded_def list_all_iff is_digit_def)

lemma length_dec: "n < 10 ^ Suc k \<Longrightarrow> length (dec n) \<le> Suc k"
proof (induction k arbitrary: n)
  case (Suc k)
  then have "n div 10 < 10 ^ Suc k" by (simp add: less_mult_imp_div_less mult.commute)
  then show ?case using Suc.IH [of "n div 10"] by (simp add: dec.simps [of n])
qed (simp add: dec.simps)

lemma length_padded: "n < 10 ^ Suc k \<Longrightarrow> length (padded (Suc k) n) = Suc k"
  using length_dec [of n k] by (simp add: padded_def)

lemma digit_run_splits:
  assumes "list_all is_digit a" "list_all is_digit b" "\<not> is_digit c" "\<not> is_digit d"
  shows "a @ c # r = b @ d # s \<longleftrightarrow> a = b \<and> c = d \<and> r = s"
proof
  assume eq: "a @ c # r = b @ d # s"
  have "takeWhile is_digit (a @ c # r) = a" "takeWhile is_digit (b @ d # s) = b"
    using assms by (auto simp: list_all_iff takeWhile_append2)
  then show "a = b \<and> c = d \<and> r = s" using eq by auto
qed simp

lemma padded_splits [simp]:
  "\<not> is_digit c \<Longrightarrow> \<not> is_digit d \<Longrightarrow> padded k m @ c # r = padded l n @ d # s \<longleftrightarrow> padded k m = padded l n \<and> c = d \<and> r = s"
  by (rule digit_run_splits [OF padded_digits padded_digits])

lemma trim_zeros_restores: "s = trim_zeros s @ replicate (length s - length (trim_zeros s)) (CHR ''0'')"
proof -
  have "takeWhile (\<lambda>c. c = CHR ''0'') (rev s) = replicate (length (takeWhile (\<lambda>c. c = CHR ''0'') (rev s))) (CHR ''0'')"
    by (rule replicate_length_same [symmetric]) (auto dest: set_takeWhileD)
  then obtain k where "takeWhile (\<lambda>c. c = CHR ''0'') (rev s) = replicate k (CHR ''0'')" by blast
  then have "rev (rev s) = trim_zeros s @ replicate k (CHR ''0'')"
    unfolding trim_zeros_def by (subst takeWhile_dropWhile_id [symmetric, where P = "\<lambda>c. c = CHR ''0''"]) (simp only: rev_append rev_replicate)
  then have restored: "s = trim_zeros s @ replicate k (CHR ''0'')" by simp
  then have "length s = length (trim_zeros s) + k" by (metis length_append length_replicate)
  then show ?thesis using restored by simp
qed

lemma trim_zeros_inj: "length s = length t \<Longrightarrow> trim_zeros s = trim_zeros t \<longleftrightarrow> s = t"
  by (metis trim_zeros_restores)

lemma trim_zeros_digits: "list_all is_digit s \<Longrightarrow> list_all is_digit (trim_zeros s)"
  by (auto simp: trim_zeros_def list_all_iff dest: set_dropWhileD)

definition time_ok :: "utc_time \<Rightarrow> bool" where
  "time_ok t = (\<bar>ut_year t\<bar> < 10 ^ 12 \<and> ut_month t < 100 \<and> ut_day t < 100 \<and> ut_hour t < 100 \<and> ut_minute t < 100 \<and> ut_second t < 100 \<and>
     ut_nanosecond t < 10 ^ 9)"

definition fraction :: "utc_time \<Rightarrow> gostring" where
  "fraction t = (if ut_nanosecond t = 0 then [] else ''.'' @ trim_zeros (padded 9 (ut_nanosecond t))) @ ''Z''"

lemma fraction_inj:
  assumes "ut_nanosecond t < 10 ^ 9" "ut_nanosecond u < 10 ^ 9"
  shows "fraction t = fraction u \<longleftrightarrow> ut_nanosecond t = ut_nanosecond u"
proof -
  have "length (padded 9 (ut_nanosecond t)) = length (padded 9 (ut_nanosecond u))"
    using length_padded [of "ut_nanosecond t" 8] length_padded [of "ut_nanosecond u" 8] assms by simp
  then show ?thesis by (auto simp: fraction_def trim_zeros_inj)
qed

definition clock :: "utc_time \<Rightarrow> gostring" where
  "clock t = padded 2 (ut_month t) @ ''-'' @ padded 2 (ut_day t) @ ''T'' @ padded 2 (ut_hour t) @ '':'' @ padded 2 (ut_minute t) @ '':'' @ padded 2 (ut_second t) @ fraction t"

lemma rfc3339_nano_parts: "rfc3339_nano t = (if ut_year t < 0 then ''-'' else []) @ padded 4 (nat \<bar>ut_year t\<bar>) @ ''-'' @ clock t"
  by (simp add: rfc3339_nano_def clock_def fraction_def)

lemma not_digits [simp]: "\<not> is_digit (CHR ''-'')" "\<not> is_digit (CHR ''T'')" "\<not> is_digit (CHR '':'')" "\<not> is_digit (CHR ''.'')" "\<not> is_digit (CHR ''Z'')"
  by (simp_all add: is_digit_def)

lemma fraction_starts: "\<exists>c rest. fraction t = c # rest \<and> \<not> is_digit c"
  by (simp add: fraction_def)

lemma clock_inj:
  assumes "time_ok t" "time_ok u" "clock t = clock u"
  shows "ut_month t = ut_month u \<and> ut_day t = ut_day u \<and> ut_hour t = ut_hour u \<and> ut_minute t = ut_minute u \<and> ut_second t = ut_second u \<and>
    ut_nanosecond t = ut_nanosecond u"
proof -
  obtain c r d s where f: "fraction t = c # r" "\<not> is_digit c" "fraction u = d # s" "\<not> is_digit d"
    using fraction_starts by metis
  have "ut_month t = ut_month u \<and> ut_day t = ut_day u \<and> ut_hour t = ut_hour u \<and> ut_minute t = ut_minute u \<and> ut_second t = ut_second u \<and> fraction t = fraction u"
    using assms(3) f by (simp add: clock_def)
  then show ?thesis using fraction_inj [of t u] assms(1,2) by (simp add: time_ok_def)
qed

lemma padded_starts: "\<exists>c rest. padded 4 n = c # rest \<and> is_digit c"
proof (cases "padded 4 n")
  case Nil
  then show ?thesis by (simp add: padded_def)
next
  case (Cons c rest)
  then show ?thesis using padded_digits [of 4 n] by simp
qed

lemma rfc3339_nano_inj:
  assumes "time_ok t" "time_ok u" "rfc3339_nano t = rfc3339_nano u"
  shows "t = u"
proof -
  obtain c r d s where p: "padded 4 (nat \<bar>ut_year t\<bar>) = c # r" "is_digit c" "padded 4 (nat \<bar>ut_year u\<bar>) = d # s" "is_digit d"
    using padded_starts by metis
  then have "c \<noteq> CHR ''-''" "d \<noteq> CHR ''-''" using not_digits(1) by metis+
  then have sign: "ut_year t < 0 \<longleftrightarrow> ut_year u < 0" using assms(3) p by (auto simp: rfc3339_nano_parts split: if_splits)
  have "padded 4 (nat \<bar>ut_year t\<bar>) @ CHR ''-'' # clock t = padded 4 (nat \<bar>ut_year u\<bar>) @ CHR ''-'' # clock u"
    using assms(3) sign by (cases "ut_year t < 0") (simp_all add: rfc3339_nano_parts)
  then have "nat \<bar>ut_year t\<bar> = nat \<bar>ut_year u\<bar> \<and> clock t = clock u" by simp
  then have "ut_year t = ut_year u" "clock t = clock u" using sign by auto
  then show ?thesis using clock_inj [OF assms(1,2)] by simp
qed

lemma length_trim_zeros: "length (trim_zeros s) \<le> length s"
  using length_dropWhile_le [of _ "rev s"] by (simp add: trim_zeros_def)

lemma framed_rfc3339_nano: "time_ok t \<Longrightarrow> framed (rfc3339_nano t)"
proof -
  assume ok: "time_ok t"
  have two: "n < 100 \<Longrightarrow> length (padded 2 n) = 2" for n using length_padded [of n 1] by (simp add: numeral_2_eq_2)
  have "length (dec (nat \<bar>ut_year t\<bar>)) \<le> 12" using length_dec [of "nat \<bar>ut_year t\<bar>" 11] ok by (simp add: time_ok_def nat_less_iff)
  then have year: "length (padded 4 (nat \<bar>ut_year t\<bar>)) \<le> 12" by (simp add: padded_def)
  have "length (padded 9 (ut_nanosecond t)) = 9" using length_padded [of "ut_nanosecond t" 8] ok by (simp add: time_ok_def)
  then have "length (fraction t) \<le> 11" using length_trim_zeros [of "padded 9 (ut_nanosecond t)"] by (simp add: fraction_def)
  moreover obtain y where y: "padded 4 (nat \<bar>ut_year t\<bar>) = y" by blast
  ultimately show ?thesis using two year ok unfolding y by (intro framed_short) (simp add: rfc3339_nano_parts y clock_def time_ok_def)
qed

subsection \<open>Values and queries\<close>

definition value_tags :: "gostring set" where
  "value_tags = {''named'', ''nil'', ''int64'', ''float64'', ''bool'', ''string'', ''bytes'', ''time''}"

text \<open>
  Strings of less than four gigabytes, times in the years Go can count to, and names of
  number types that are not one of the tags: Go's own are \<open>int\<close>, \<open>uint8\<close> and the like, and
  those of declared types have a dot.
\<close>

fun argument_ok :: "driver_value \<Rightarrow> bool" where
  "argument_ok (NamedArg name v) = (framed name \<and> argument_ok v)"
| "argument_ok (StringArg s) = framed s"
| "argument_ok (BytesArg s) = framed s"
| "argument_ok (TimeArg t) = time_ok t"
| "argument_ok (NumberArg typ w) = (framed typ \<and> typ \<notin> value_tags)"
| "argument_ok _ = True"

interpretation arg: prefix_code write_fingerprint_value argument_ok
proof
  fix x y a b r s
  assume "argument_ok x" "argument_ok y" "write_fingerprint_value x = Inr a" "write_fingerprint_value y = Inr b" "a @ r = b @ s"
  then show "x = y \<and> r = s"
  proof (induction x arbitrary: y a b)
    case (NamedArg name v)
    then show ?case by (cases y) (auto simp: value_tags_def framed_rfc3339_nano)
  next
    case (TimeArg t)
    then show ?case by (cases y) (auto simp: value_tags_def framed_rfc3339_nano intro: rfc3339_nano_inj)
  next
    case (NumberArg name w)
    then show ?case by (cases y) (auto simp: value_tags_def framed_rfc3339_nano)
  qed (case_tac y; auto simp: value_tags_def framed_rfc3339_nano split: if_splits)+
qed


lemma rconcat_arguments:
  assumes "rconcat (write_indexed_argument args) indexes = Inr bs"
  shows "rconcat write_fingerprint_value (map (\<lambda>i. args ! nat i) indexes) = Inr bs \<and> list_all (\<lambda>i. 0 \<le> i \<and> nat i < length args) indexes"
  using assms by (induction indexes arbitrary: bs) (auto simp: write_indexed_argument_def split: if_splits)

definition query_ok :: "fingerprint_query \<Rightarrow> bool" where
  "query_ok q = (framed (fq_engine q) \<and> framed (fq_sql q) \<and> list_all column_ok (fq_columns q) \<and> list_all key_field_ok (fq_keys q) \<and>
     list_all argument_ok (fq_arguments q) \<and> length (fq_columns q) < 2 ^ 63 \<and> length (fq_keys q) < 2 ^ 63 \<and> length (fq_indexes q) < 2 ^ 63)"

definition matched_arguments :: "fingerprint_query \<Rightarrow> driver_value list" where
  "matched_arguments q = map (\<lambda>i. fq_arguments q ! nat i) (fq_indexes q)"

lemma word_of_length_inj: "m < 2 ^ 63 \<Longrightarrow> n < 2 ^ 63 \<Longrightarrow> (word_of_nat m :: 64 word) = word_of_nat n \<longleftrightarrow> m = n"
  by (simp add: word_of_nat_eq_iff take_bit_nat_eq_self)

lemma write_key_rconcat: "rconcat (\<lambda>key. Inr (write_key key)) keys = Inr (concat (map write_key keys))"
  by (induction keys) simp_all

text \<open>
  C22. The fingerprint identifies the query. Two queries whose hashed bytes are the same have
  the same engine, SQL text, result columns with the parameters of their types, key fields
  and matched argument values: no part can be shifted into its neighbour, because each is
  announced with its length or has a fixed one.
\<close>
theorem fingerprint_identifies_query:
  assumes "query_ok q" "query_ok p" "fingerprint_bytes q = Inr bs" "fingerprint_bytes p = Inr bs"
  shows "fq_engine q = fq_engine p \<and> fq_sql q = fq_sql p \<and> fq_columns q = fq_columns p \<and> fq_keys q = fq_keys p \<and>
    matched_arguments q = matched_arguments p"
proof -
  obtain c a c' a' where parts: "rconcat write_column (fq_columns q) = Inr c" "rconcat (write_indexed_argument (fq_arguments q)) (fq_indexes q) = Inr a"
      "rconcat write_column (fq_columns p) = Inr c'" "rconcat (write_indexed_argument (fq_arguments p)) (fq_indexes p) = Inr a'"
    using assms(3,4) by (auto simp: fingerprint_bytes_def)
  let ?keys = "\<lambda>q a. write_uint_field ''key-count'' (word_of_nat (length (fq_keys q))) @ concat (map write_key (fq_keys q)) @
       write_uint_field ''argument-count'' (word_of_nat (length (fq_indexes q))) @ a"
  have args: "list_all argument_ok (map (\<lambda>i. fq_arguments r ! nat i) (fq_indexes r))"
    if "query_ok r" "rconcat (write_indexed_argument (fq_arguments r)) (fq_indexes r) = Inr x" for r x
    using rconcat_arguments [OF that(2)] that(1) by (auto simp: query_ok_def list_all_iff)
  let ?text = "\<lambda>q c a. write_field ''rasql-keyset-v1'' @ write_field (fq_engine q) @ write_field (fq_sql q) @
       write_uint_field ''column-count'' (word_of_nat (length (fq_columns q))) @ c @ ?keys q a"
  have "?text q c a = ?text p c' a'" using assms(3,4) parts by (simp add: fingerprint_bytes_def)
  then have head: "fq_engine q = fq_engine p" "fq_sql q = fq_sql p" "length (fq_columns q) = length (fq_columns p)" "c @ ?keys q a = c' @ ?keys p a'"
    using assms(1,2) by (simp_all add: query_ok_def word_of_length_inj)
  then have columns: "fq_columns q = fq_columns p" "?keys q a = ?keys p a'"
    using col.many_splits [OF head(3) _ _ parts(1,3) head(4)] assms(1,2) by (simp_all add: query_ok_def)
  then have key_count: "length (fq_keys q) = length (fq_keys p)"
    using assms(1,2) by (simp add: query_ok_def word_of_length_inj)
  then have "concat (map write_key (fq_keys q)) @ write_uint_field ''argument-count'' (word_of_nat (length (fq_indexes q))) @ a =
      concat (map write_key (fq_keys p)) @ write_uint_field ''argument-count'' (word_of_nat (length (fq_indexes p))) @ a'"
    using columns(2) by simp
  from key.many_splits [OF key_count _ _ write_key_rconcat write_key_rconcat this]
  have keys: "fq_keys q = fq_keys p" "length (fq_indexes q) = length (fq_indexes p)" "a = a'"
    using assms(1,2) by (auto simp: query_ok_def word_of_length_inj)
  have "matched_arguments q = matched_arguments p"
    using arg.many_splits [of "matched_arguments q" "matched_arguments p" a a' "[]" "[]"] keys
      rconcat_arguments [OF parts(2)] rconcat_arguments [OF parts(4)] args [OF assms(1) parts(2)] args [OF assms(2) parts(4)]
    by (simp add: matched_arguments_def)
  then show ?thesis using head columns keys by simp
qed

text \<open>A query by score, and the same query asked for a page of another size.\<close>

definition scores_page :: "64 word \<Rightarrow> fingerprint_query" where
  "scores_page limit = \<lparr>fq_engine = ''sqlite'', fq_sql = ''SELECT id FROM t WHERE score > ?'',
     fq_columns = [\<lparr>rc_name = ''id'', rc_type = Some (IntegerType False None False), rc_nullable = False, rc_codec = []\<rparr>],
     fq_arguments = [Int64Arg 5, Int64Arg limit], fq_keys = [\<lparr>fk_direction = CHR 0x01, fk_nulls = CHR 0x00, fk_codec = [], fk_source = ''t''\<rparr>],
     fq_indexes = [0]\<rparr>"

theorem fingerprint_identifies_query_witness:
  "\<exists>bs. fingerprint_bytes (scores_page 11) = Inr bs \<and> fingerprint_bytes (scores_page 51) = Inr bs \<and>
     query_ok (scores_page 11) \<and> matched_arguments (scores_page 11) = matched_arguments (scores_page 51)"
proof -
  obtain bs where bs: "fingerprint_bytes (scores_page 11) = Inr bs" "fingerprint_bytes (scores_page 51) = Inr bs"
    by (simp add: fingerprint_bytes_def scores_page_def write_column_def write_column_type_def write_indexed_argument_def)
  have ok: "query_ok (scores_page limit)" for limit
    by (simp add: query_ok_def scores_page_def column_ok_def key_field_ok_def)
  show ?thesis using fingerprint_identifies_query [OF ok ok bs] bs ok by blast
qed

end
