(* ===== verification/Page_Plan.thy ===== *)
theory Page_Plan
  imports Page_Fingerprint
begin

text \<open>
  \<open>PageAfter\<close> (\<open>page.go\<close>): ordering the query, matching the bound values of the base query in
  the paged one (\<open>MatchBaseOccurrences\<close> of \<open>internal/bindplan\<close>), the fingerprint and the page.

  Of a query its conditions, order and bounds are modelled (\<open>query_api.go\<close>); the rest is a
  value of type \<open>'x\<close>. Validating, compiling and preparing a query and running it is the work
  of the query compiler, the executor and the driver; they are a record of functions, each of
  which may fail.
\<close>

subsection \<open>Bound values of a compiled query\<close>

record bind_slot =
  bs_id :: nat
  bs_codec :: gostring
  bs_pre_encoded :: bool
  bs_parameter :: bool

record compiled_query =
  cq_sql :: gostring
  cq_arguments :: "driver_value list"
  cq_slots :: "bind_slot list"

text \<open>The inner loop: the first slot from \<open>j\<close> on with the identity wanted.\<close>

fun next_slot :: "bind_slot \<Rightarrow> nat \<Rightarrow> bind_slot list \<Rightarrow> (nat \<times> bind_slot) option" where
  "next_slot want j [] = None"
| "next_slot want j (got # slots) = (if bs_id got = bs_id want then Some (j, got) else next_slot want (j + 1) slots)"

fun match_from :: "nat \<Rightarrow> nat \<Rightarrow> bind_slot list \<Rightarrow> bind_slot list \<Rightarrow> page_error + nat list" where
  "match_from i j [] paged = Inr []"
| "match_from i j (want # base) paged =
     (if bs_id want = 0 then Inl (PlanError ''unsupported_keyset_bind'' (item_path ''base'' i) ''bind has no identity'')
      else case next_slot want j (drop j paged) of
          None \<Rightarrow> Inl (PlanError ''unsupported_keyset_bind'' (item_path ''base'' i) ''bind occurrence is missing or reordered'')
        | Some (found, got) \<Rightarrow>
            if bs_codec got \<noteq> bs_codec want then Inl (PlanError ''unsupported_keyset_bind'' (item_path ''paged'' found) ''codec differs'')
            else rbind (match_from (i + 1) (found + 1) base paged) (\<lambda>rest. Inr (found # rest)))"

definition match_base_occurrences :: "compiled_query \<Rightarrow> compiled_query \<Rightarrow> page_error + nat list" where
  "match_base_occurrences base paged =
     (if length (cq_slots base) \<noteq> length (cq_arguments base) \<or> length (cq_slots paged) \<noteq> length (cq_arguments paged)
      then Inl (PlanError ''internal_plan'' ''binds'' ''statement arguments and bind slots differ'')
      else match_from 0 0 (cq_slots base) (cq_slots paged))"

subsection \<open>The paged query\<close>

record ('v, 'x) page_query =
  qp_where :: "'v expression list"
  qp_order :: "'v order_term list"
  qp_limit :: "int option"
  qp_offset :: "int option"
  qp_native :: bool
  qp_error :: "page_error option"
  qp_body :: 'x

definition native_composed :: page_error where
  "native_composed = PlanError ''unsupported_feature'' ''native'' ''native plans cannot be composed''"

definition query_where :: "'v expression \<Rightarrow> ('v, 'x) page_query \<Rightarrow> ('v, 'x) page_query" where
  "query_where p q = (if qp_native q then q\<lparr>qp_error := Some native_composed\<rparr> else q\<lparr>qp_where := qp_where q @ [p]\<rparr>)"

definition query_limit :: "int \<Rightarrow> ('v, 'x) page_query \<Rightarrow> page_error + ('v, 'x) page_query" where
  "query_limit n q = (if n < 0 then Inl (PlanError ''invalid_projection'' ''limit'' ''must not be negative'')
     else if qp_native q then Inr (q\<lparr>qp_error := Some native_composed\<rparr>) else Inr (q\<lparr>qp_limit := Some n\<rparr>))"

definition check_order_term :: "nat \<times> 'v order_term \<Rightarrow> page_error + unit" where
  "check_order_term p = (case p of (i, t) \<Rightarrow>
     if ot_node t = NilExpression then Inl (PlanError ''invalid_keyset_order'' (item_path ''query.order'' i) ''must not be zero'')
     else if unat (ot_nulls t) > unat nulls_last then Inl (PlanError ''invalid_keyset_order'' (item_path ''query.order'' i) ''invalid NULL placement'')
     else Inr ())"

definition with_keyset_order :: "'v order_term list \<Rightarrow> ('v, 'x) page_query \<Rightarrow> page_error + ('v, 'x) page_query" where
  "with_keyset_order order q =
     (if qp_limit q \<noteq> None then Inl (PlanError ''keyset_limit_conflict'' ''query.limit'' ''base query must not have a limit'')
      else if qp_offset q \<noteq> None then Inl (PlanError ''keyset_offset_conflict'' ''query.offset'' ''base query must not have an offset'')
      else if order = [] then Inl (PlanError ''invalid_keyset_order'' ''query.order'' ''must not be empty'')
      else rbind (rfold (\<lambda>p _. check_order_term p) (indexed order) ()) (\<lambda>_.
        if qp_order q \<noteq> [] then
          (if qp_order q = order then Inr q else Inl (PlanError ''keyset_order_mismatch'' ''query.order'' ''existing order differs''))
        else Inr (q\<lparr>qp_order := order\<rparr>)))"

subsection \<open>PageAfter\<close>

text \<open>
  What the executor contributes: its dialect, its codecs, whether it has a compiler, the result of
  \<open>Query.Validate\<close>, \<open>mapCompileError\<close>, the compiled query of \<open>lowerQuery\<close> and
  \<open>compileQueryLowered\<close>, and of \<open>prepareRowsLowered\<close> the encoded arguments of the statement together
  with what running it yields: an error, or the results of the row iterator.
\<close>

record ('v, 'r, 'x) page_engine =
  pe_dialect :: gostring
  pe_codecs :: "page_error + codec_registry"
  pe_compiler :: bool
  pe_validate :: "('v, 'x) page_query \<Rightarrow> page_error + unit"
  pe_map_error :: "page_error \<Rightarrow> page_error"
  pe_compile :: "('v, 'x) page_query \<Rightarrow> page_error + compiled_query"
  pe_prepare :: "('v, 'x) page_query \<Rightarrow> compiled_query \<Rightarrow> page_error + driver_value list \<times> (page_error + (page_error + 'r) list)"
  pe_columns :: "'x \<Rightarrow> result_column list"

definition compile_query :: "('v, 'r, 'x) page_engine \<Rightarrow> ('v, 'x) page_query \<Rightarrow> page_error + compiled_query" where
  "compile_query e q = rbind (map_sum (pe_map_error e) id (pe_validate e q)) (\<lambda>_. pe_compile e q)"

fun fingerprint_failure :: "fingerprint_error \<Rightarrow> page_error" where
  "fingerprint_failure InvalidArgumentIndex = PlanError ''internal_plan'' ''binds'' ''matched argument index is invalid''"
| "fingerprint_failure (UnsupportedColumnType t) = OtherPageError (TextCause ''unsupported column type %T'' [])"
| "fingerprint_failure NilColumnType = OtherPageError (TextCause ''invalid memory address or nil pointer dereference'' [])"
| "fingerprint_failure (UnsupportedDriverValue t) = OtherPageError (TextCause ''unsupported driver value %T'' [QuotedArg t])"

definition page_fingerprint :: "(gostring \<Rightarrow> gostring) \<Rightarrow> gostring \<Rightarrow> gostring \<Rightarrow> result_column list \<Rightarrow> driver_value list \<Rightarrow>
    ('v, 'r) page_key list \<Rightarrow> nat list \<Rightarrow> page_error + gostring" where
  "page_fingerprint sha256 engine sql columns arguments keys indexes = map_sum fingerprint_failure id (fingerprint sha256
     \<lparr>fq_engine = engine, fq_sql = sql, fq_columns = columns, fq_arguments = arguments,
      fq_keys = map page_fingerprint_field keys, fq_indexes = map int indexes\<rparr>)"

definition prepare_page_after :: "(cursor_value \<Rightarrow> gostring \<Rightarrow> 'v) \<Rightarrow> (gostring \<Rightarrow> gostring) \<Rightarrow> ('v, 'r, 'x) page_engine option \<Rightarrow> ('v, 'x) page_query \<Rightarrow>
    ('v, 'r) page_key list \<Rightarrow> page_policy \<Rightarrow> page_request \<Rightarrow> page_error + (codec_registry \<times> 'r prepared_page option)" where
  "prepare_page_after bind sha256 executor q keys policy request = (case executor of
       None \<Rightarrow> Inl (PlanError ''engine_profile_unavailable'' ''executor'' ''must not be nil'')
     | Some e \<Rightarrow>
         if keys = [] then Inl (PlanError ''invalid_page_spec'' ''order'' ''must not be empty'')
         else rbind (page_limit policy request) (\<lambda>limit.
           rbind (pe_codecs e) (\<lambda>registry.
           rbind (check_key_codecs registry keys) (\<lambda>_.
           rbind (with_keyset_order (map pk_term keys) q) (\<lambda>ordered.
           rbind (pe_validate e ordered) (\<lambda>_.
           if \<not> pe_compiler e then Inl (PlanError ''engine_profile_unavailable'' ''executor'' ''executor has no retained compiler'')
           else rbind (compile_query e ordered) (\<lambda>base.
           rbind (if pr_after request \<noteq> [] then decode_page_cursor registry keys (pr_after request) else Inr ([], [])) (\<lambda>cursor.
           rbind (keyset_predicate bind keys (fst cursor)) (\<lambda>p.
           if snd p then Inr (registry, None)
           else rbind (query_limit (limit + 1) (case fst p of None \<Rightarrow> ordered | Some node \<Rightarrow> query_where node ordered)) (\<lambda>final.
           rbind (map_sum (pe_map_error e) id (pe_validate e final)) (\<lambda>_.
           rbind (pe_compile e final) (\<lambda>paged.
           rbind (match_base_occurrences base paged) (\<lambda>indexes.
           rbind (pe_prepare e final paged) (\<lambda>prepared.
           rbind (page_fingerprint sha256 (pe_dialect e) (cq_sql base) (pe_columns e (qp_body final)) (fst prepared) keys indexes) (\<lambda>fp.
           if pr_after request \<noteq> [] \<and> fp \<noteq> snd cursor
             then Inl (InvalidCursor (TextCause ''cursor fingerprint does not match query'' []))
             else Inr (registry, Some \<lparr>pp_rows = snd prepared, pp_limit = limit, pp_fingerprint = fp\<rparr>))))))))))))))))"

definition page_after :: "(cursor_value \<Rightarrow> gostring \<Rightarrow> 'v) \<Rightarrow> (gostring \<Rightarrow> gostring) \<Rightarrow> ('v, 'r, 'x) page_engine option \<Rightarrow> ('v, 'x) page_query \<Rightarrow>
    ('v, 'r) page_key list \<Rightarrow> page_policy \<Rightarrow> page_request \<Rightarrow> 'r page \<times> page_error option" where
  "page_after bind sha256 executor q keys policy request = (case prepare_page_after bind sha256 executor q keys policy request of
       Inl e \<Rightarrow> (empty_page, Some e)
     | Inr (registry, prepared) \<Rightarrow> consume_prepared_page registry keys prepared (\<lambda>_ _. None))"

subsection \<open>Matching finds the bound values of the base query\<close>

lemma next_slot_first:
  assumes "filter P slots = want # rest" "\<And>s. bs_id s = bs_id want \<Longrightarrow> P s"
  shows "\<exists>before after. slots = before @ want # after \<and> filter P after = rest \<and> next_slot want j slots = Some (j + length before, want)"
proof -
  obtain before after where s: "slots = before @ want # after" "\<forall>s \<in> set before. \<not> P s" "filter P after = rest"
    using assms(1) by (auto simp: filter_eq_Cons_iff)
  have "next_slot want j (before @ want # after) = Some (j + length before, want)" if "\<forall>s \<in> set before. \<not> P s" for j
    using that assms(2) by (induction before arbitrary: j) auto
  then show ?thesis using s by blast
qed

text \<open>
  When the slots of the paged query with an identity of the base query are the slots of the
  base query, in order, matching finds them: at each index the slot matched stands.
\<close>

lemma match_finds_base:
  assumes "filter P (drop j paged) = base" "\<forall>s \<in> set base. bs_id s \<noteq> 0" "\<And>s t. s \<in> set base \<Longrightarrow> bs_id t = bs_id s \<Longrightarrow> P t"
  shows "\<exists>found. match_from i j base paged = Inr found \<and> map ((!) paged) found = base \<and> (\<forall>k \<in> set found. k < length paged)"
  using assms
proof (induction base arbitrary: i j)
  case (Cons want base)
  obtain before after where b: "drop j paged = before @ want # after" "filter P after = base"
      "next_slot want j (drop j paged) = Some (j + length before, want)"
    using next_slot_first [OF Cons.prems(1), of j] Cons.prems(3) [of want] by (auto simp del: append_Cons)
  have len: "j + length before < length paged"
    using arg_cong [OF b(1), of length] by simp
  have nth: "paged ! (j + length before) = want"
    using nth_drop [of j paged "length before"] b(1) len by simp
  have "drop (j + length before + 1) paged = after"
    using arg_cong [OF b(1), of "drop (length before + 1)"] by (simp add: add.commute add.left_commute)
  then obtain found where f: "match_from (i + 1) (j + length before + 1) base paged = Inr found" "map ((!) paged) found = base"
      "\<forall>k \<in> set found. k < length paged"
    using Cons.IH [of "j + length before + 1" "i + 1"] b(2) Cons.prems(2,3) by auto
  then show ?case using b(3) nth len Cons.prems(2) by (intro exI [of _ "(j + length before) # found"]) simp
qed simp

lemma indexed_arguments:
  assumes "\<forall>k \<in> set found. k < length args"
  shows "rconcat (write_indexed_argument args) (map int found) = rconcat write_fingerprint_value (map ((!) args) found)"
  using assms by (induction found) (simp_all add: write_indexed_argument_def)

text \<open>
  The fingerprint does not depend on where the bound values of the base query stand in the
  paged one, nor on what else is bound there.
\<close>

lemma fingerprint_of_matched:
  assumes "\<forall>k \<in> set found. k < length slots" "map ((!) slots) found = base"
  shows "page_fingerprint sha256 engine sql columns (map val slots) keys found =
    page_fingerprint sha256 engine sql columns (map val base) keys [0..<length base]"
proof -
  have len: "length found = length base" using assms(2) by (metis length_map)
  have "map ((!) (map val slots)) found = map val base"
    using assms by (auto simp: comp_def)
  moreover have "map ((!) (map val base)) [0..<length base] = map val base" by (metis length_map map_nth)
  ultimately show ?thesis
    using assms(1) len indexed_arguments [of found "map val slots"] indexed_arguments [of "[0..<length base]" "map val base"]
    by (simp add: page_fingerprint_def fingerprint_def fingerprint_bytes_def)
qed

end
