(* ===== verification/Named_Sql.thy ===== *)
theory Named_Sql
  imports Dialect
begin

text \<open>
  Package \<open>namedsql\<close>: SQL text with \<open>{{bind "name"}}\<close> actions, compiled to one dialect's
  placeholders and bound to named values.
\<close>

subsection \<open>Quoted strings of Go\<close>

text \<open>
  \<open>strconv.Unquote\<close>: an interpreted string or character literal with its escapes, or a raw
  string literal without its carriage returns. \<open>None\<close> is \<open>ErrSyntax\<close>.
\<close>

definition append_rune :: "nat \<Rightarrow> gostring" where
  "append_rune r = map char_of
     (if r < 128 then [r]
      else if r < 2048 then [192 + r div 64, 128 + r mod 64]
      else if r > 1114111 \<or> (55296 \<le> r \<and> r \<le> 57343) then [239, 191, 189]
      else if r < 65536 then [224 + r div 4096, 128 + r div 64 mod 64, 128 + r mod 64]
      else [240 + r div 262144, 128 + r div 4096 mod 64, 128 + r div 64 mod 64, 128 + r mod 64])"

definition unhex :: "char \<Rightarrow> nat option" where
  "unhex c = (if is_digit c then Some (code c - 48)
     else if 97 \<le> code c \<and> code c \<le> 102 then Some (code c - 87)
     else if 65 \<le> code c \<and> code c \<le> 70 then Some (code c - 55)
     else None)"

definition octal :: "char \<Rightarrow> nat option" where
  "octal c = (if 48 \<le> code c \<and> code c \<le> 55 then Some (code c - 48) else None)"

fun digits_value :: "(char \<Rightarrow> nat option) \<Rightarrow> nat \<Rightarrow> nat \<Rightarrow> nat \<Rightarrow> gostring \<Rightarrow> (nat \<times> gostring) option" where
  "digits_value digit radix 0 v s = Some (v, s)"
| "digits_value digit radix (Suc n) v [] = None"
| "digits_value digit radix (Suc n) v (c # s) = (case digit c of None \<Rightarrow> None | Some x \<Rightarrow> digits_value digit radix n (v * radix + x) s)"

definition escape_letter :: "char \<Rightarrow> nat option" where
  "escape_letter c = map_of [(CHR ''a'', 7), (CHR ''b'', 8), (CHR ''f'', 12), (CHR ''n'', 10), (CHR ''r'', 13), (CHR ''t'', 9),
     (CHR ''v'', 11), (CHR 0x5C, 92)] c"

text \<open>\<open>UnquoteChar\<close> on a non-empty string: the bytes to append and the rest.\<close>

definition unquote_char :: "gostring \<Rightarrow> char \<Rightarrow> (gostring \<times> gostring) option" where
  "unquote_char s q = (let c = hd s in
     if c = q then None
     else if code c \<ge> 128 then Some (append_rune (fst (decode_rune s)), drop (snd (decode_rune s)) s)
     else if c \<noteq> CHR 0x5C then Some ([c], tl s)
     else (case tl s of
         [] \<Rightarrow> None
       | e # rest \<Rightarrow> (case escape_letter e of
            Some v \<Rightarrow> Some ([char_of v], rest)
          | None \<Rightarrow>
              if e = CHR ''x'' then map_option (map_prod (\<lambda>v. [char_of v]) id) (digits_value unhex 16 2 0 rest)
              else if e = CHR ''u'' \<or> e = CHR ''U'' then
                (case digits_value unhex 16 (if e = CHR ''u'' then 4 else 8) 0 rest of
                   None \<Rightarrow> None
                 | Some (v, rest) \<Rightarrow> if v > 1114111 \<or> (55296 \<le> v \<and> v \<le> 57343) then None else Some (append_rune v, rest))
              else if octal e \<noteq> None then
                (case digits_value octal 8 2 (the (octal e)) rest of
                   None \<Rightarrow> None
                 | Some (v, rest) \<Rightarrow> if v > 255 then None else Some ([char_of v], rest))
              else if e = CHR 0x27 \<or> e = CHR 0x22 then (if e \<noteq> q then None else Some ([e], rest))
              else None)))"

lemma digits_value_length: "digits_value digit radix n v s = Some (w, rest) \<Longrightarrow> length rest \<le> length s"
  by (induction digit radix n v s rule: digits_value.induct) (auto split: option.splits)

lemma unquote_char_length: "s \<noteq> [] \<Longrightarrow> unquote_char s q = Some (bs, rest) \<Longrightarrow> length rest < length s"
  using decode_rune_width [of s]
  by (cases s) (auto simp: unquote_char_def Let_def split: if_splits list.splits option.splits dest!: digits_value_length)

function unquote_from :: "gostring \<Rightarrow> char \<Rightarrow> gostring \<Rightarrow> (gostring \<times> gostring) option" where
  "unquote_from s q buf =
     (if s = [] then None
      else if hd s = q then Some (buf, tl s)
      else (case unquote_char s q of
          None \<Rightarrow> None
        | Some (bs, rest) \<Rightarrow>
            if hd s = CHR 0x0A then None
            else if q = CHR 0x27 then (if rest \<noteq> [] \<and> hd rest = q then Some (buf @ bs, tl rest) else None)
            else unquote_from rest q (buf @ bs)))"
  by pat_completeness auto
termination
  by (relation "measure (\<lambda>(s, q, buf). length s)") (auto dest: unquote_char_length)

declare unquote_from.simps [simp del]

definition plain_literal :: "char \<Rightarrow> gostring \<Rightarrow> bool" where
  "plain_literal q body = (CHR 0x5C \<notin> set body \<and> CHR 0x0A \<notin> set body \<and>
     (if q = CHR 0x22 then valid_utf8 body
      else (case body of [] \<Rightarrow> True | _ \<Rightarrow> snd (decode_rune body) = length body \<and> decode_rune body \<noteq> (65533, 1))))"

definition unquote :: "gostring \<Rightarrow> gostring option" where
  "unquote s =
     (if length s < 2 then None
      else (let q = hd s in case index_of (tl s) [q] of
          None \<Rightarrow> None
        | Some end \<Rightarrow> (let body = take end (tl s); rest = drop (Suc end) (tl s) in
            if q = CHR 0x60 then (if rest = [] then Some (filter (\<lambda>c. c \<noteq> CHR 0x0D) body) else None)
            else if q = CHR 0x22 \<or> q = CHR 0x27 then
              (if plain_literal q body then (if rest = [] then Some body else None)
               else (case unquote_from (tl s) q [] of
                   None \<Rightarrow> None
                 | Some (out, rest) \<Rightarrow> if rest = [] then Some out else None))
            else None)))"

subsection \<open>Templates\<close>

record column_ref =
  cr_schema_name :: gostring
  cr_table :: gostring
  cr_column :: gostring

definition no_column_ref :: column_ref where
  "no_column_ref = \<lparr>cr_schema_name = [], cr_table = [], cr_column = []\<rparr>"

definition stated :: "column_ref \<Rightarrow> bool" where
  "stated r = (cr_column r \<noteq> [])"

definition column_ref_string :: "column_ref \<Rightarrow> gostring" where
  "column_ref_string r = (if cr_schema_name r \<noteq> [] then cr_schema_name r @ ''.'' @ cr_table r @ ''.'' @ cr_column r
     else cr_table r @ ''.'' @ cr_column r)"

definition column_ref_description :: "column_ref \<Rightarrow> gostring" where
  "column_ref_description r = (if \<not> stated r then ''no column'' else ''column '' @ column_ref_string r)"

record template_part =
  tp_text :: gostring
  tp_bind_index :: nat
  tp_is_bind_part :: bool

abbreviation text_part :: "gostring \<Rightarrow> template_part" where
  "text_part s \<equiv> \<lparr>tp_text = s, tp_bind_index = 0, tp_is_bind_part = False\<rparr>"

abbreviation bind_part :: "nat \<Rightarrow> template_part" where
  "bind_part n \<equiv> \<lparr>tp_text = [], tp_bind_index = n, tp_is_bind_part = True\<rparr>"

record template =
  tm_name :: gostring
  tm_parts :: "template_part list"
  tm_parameters :: "gostring list"
  tm_unique_names :: "gostring list"
  tm_column_refs :: "column_ref list"

datatype action_error =
    NotABind
  | NameNotQuoted
  | InvalidParameterName validation_error
  | QuotedColumnReference
  | ColumnReferenceShape gostring
  | InvalidColumnReference gostring validation_error

datatype named_error =
    EmptyTemplateName
  | EmptySource gostring
  | UnclosedAction gostring
  | BadAction gostring action_error
  | TwoColumns gostring gostring gostring gostring
  | MixedColumns gostring gostring gostring gostring
  | NilDialect gostring
  | InvalidTemplate
  | PlaceholderError gostring int dialect_error
  | InvalidCompiled
  | MissingValue gostring gostring
  | UnusedValue gostring gostring

definition parse_column_ref :: "gostring \<Rightarrow> action_error + column_ref" where
  "parse_column_ref s =
     (if has_prefix s [CHR 0x22] then Inl QuotedColumnReference
      else (let parts = split_byte (CHR ''.'') s in
        if length parts \<noteq> 2 \<and> length parts \<noteq> 3 then Inl (ColumnReferenceShape s)
        else rbind (rfold (\<lambda>part _. case validate_simple_identifier part of
               Inl e \<Rightarrow> Inl (InvalidColumnReference s e) | Inr _ \<Rightarrow> Inr ()) parts ()) (\<lambda>_.
          if length parts = 2 then Inr \<lparr>cr_schema_name = [], cr_table = parts ! 0, cr_column = parts ! 1\<rparr>
          else Inr \<lparr>cr_schema_name = parts ! 0, cr_table = parts ! 1, cr_column = parts ! 2\<rparr>)))"

definition parse_bind_action :: "gostring \<Rightarrow> action_error + (gostring \<times> column_ref)" where
  "parse_bind_action action = (let fs = Go_Base.fields action in
     if (length fs \<noteq> 2 \<and> length fs \<noteq> 3) \<or> fs ! 0 \<noteq> ''bind'' then Inl NotABind
     else (case unquote (fs ! 1) of
         None \<Rightarrow> Inl NameNotQuoted
       | Some name \<Rightarrow> (case validate_simple_identifier name of
            Inl e \<Rightarrow> Inl (InvalidParameterName e)
          | Inr _ \<Rightarrow>
              if length fs = 2 then Inr (name, no_column_ref)
              else rbind (parse_column_ref (fs ! 2)) (\<lambda>ref. Inr (name, ref)))))"

text \<open>The state of the loop of \<open>Parse\<close>; \<open>seen\<close> holds the reference of each name.\<close>

record parse_state =
  ps_parts :: "template_part list"
  ps_parameters :: "gostring list"
  ps_unique_names :: "gostring list"
  ps_column_refs :: "column_ref list"
  ps_seen :: "gostring \<rightharpoonup> column_ref"

definition add_text :: "gostring \<Rightarrow> parse_state \<Rightarrow> parse_state" where
  "add_text s st = (if s = [] then st else st\<lparr>ps_parts := ps_parts st @ [text_part s]\<rparr>)"

definition add_bind :: "gostring \<Rightarrow> gostring \<Rightarrow> column_ref \<Rightarrow> parse_state \<Rightarrow> named_error + parse_state" where
  "add_bind name parameter ref st = (let st' = st\<lparr>ps_parts := ps_parts st @ [bind_part (length (ps_parameters st))],
       ps_parameters := ps_parameters st @ [parameter]\<rparr> in
     case ps_seen st parameter of
       None \<Rightarrow> Inr (st'\<lparr>ps_seen := (ps_seen st)(parameter \<mapsto> ref), ps_unique_names := ps_unique_names st @ [parameter],
                       ps_column_refs := ps_column_refs st @ [ref]\<rparr>)
     | Some existing \<Rightarrow>
         if existing = ref then Inr st'
         else if stated existing \<and> stated ref then Inl (TwoColumns name parameter (column_ref_string ref) (column_ref_string existing))
         else Inl (MixedColumns name parameter (column_ref_description ref) (column_ref_description existing)))"

function parse_from :: "gostring \<Rightarrow> gostring \<Rightarrow> parse_state \<Rightarrow> named_error + parse_state" where
  "parse_from name remaining st =
     (if remaining = [] then Inr st
      else (case index_of remaining ''{{'' of
          None \<Rightarrow> Inr (st\<lparr>ps_parts := ps_parts st @ [text_part remaining]\<rparr>)
        | Some start \<Rightarrow> (let action = drop (start + 2) remaining in case index_of action ''}}'' of
             None \<Rightarrow> Inl (UnclosedAction name)
           | Some end \<Rightarrow> (case parse_bind_action (trim_space (take end action)) of
                Inl e \<Rightarrow> Inl (BadAction name e)
              | Inr (parameter, ref) \<Rightarrow> (case add_bind name parameter ref (add_text (take start remaining) st) of
                   Inl e \<Rightarrow> Inl e
                 | Inr st' \<Rightarrow> parse_from name (drop (end + 2) action) st')))))"
  by pat_completeness auto
termination
  by (relation "measure (\<lambda>(name, s, st). length s)") (auto dest!: index_of_bound)

declare parse_from.simps [simp del]

definition empty_parse :: parse_state where
  "empty_parse = \<lparr>ps_parts = [], ps_parameters = [], ps_unique_names = [], ps_column_refs = [], ps_seen = Map.empty\<rparr>"

definition parse :: "gostring \<Rightarrow> gostring \<Rightarrow> named_error + template" where
  "parse name source =
     (if name = [] then Inl EmptyTemplateName
      else if trim_space source = [] then Inl (EmptySource name)
      else rbind (parse_from name source empty_parse) (\<lambda>st.
        Inr \<lparr>tm_name = name, tm_parts = ps_parts st, tm_parameters = ps_parameters st, tm_unique_names = ps_unique_names st,
             tm_column_refs = ps_column_refs st\<rparr>))"

subsection \<open>Compiling and binding\<close>

record compiled =
  cm_name :: gostring
  cm_sql :: gostring
  cm_parameters :: "gostring list"
  cm_unique_names :: "gostring list"
  cm_column_refs :: "column_ref list"

definition render_template_parts :: "template_part list \<Rightarrow> gostring list \<Rightarrow> gostring" where
  "render_template_parts parts phs =
     concat (map (\<lambda>part. if tp_is_bind_part part then phs ! tp_bind_index part else tp_text part) parts)"

definition placeholder_step :: "gostring \<Rightarrow> dialect \<Rightarrow> nat \<Rightarrow> gostring list \<Rightarrow> named_error + gostring list" where
  "placeholder_step name d index phs = (case placeholder_text (base d) (int index + 1) of
       Inl e \<Rightarrow> Inl (PlaceholderError name (int index + 1) e)
     | Inr p \<Rightarrow> Inr (phs @ [p]))"

definition compile :: "template \<Rightarrow> dialect option \<Rightarrow> named_error + compiled" where
  "compile t d = (case d of
       None \<Rightarrow> Inl (NilDialect (tm_name t))
     | Some d \<Rightarrow>
         if tm_name t = [] \<or> tm_parts t = [] then Inl InvalidTemplate
         else rbind (rfold (placeholder_step (tm_name t) d) [0 ..< length (tm_parameters t)] []) (\<lambda>phs.
           Inr \<lparr>cm_name = tm_name t, cm_sql = render_template_parts (tm_parts t) phs, cm_parameters = tm_parameters t,
                cm_unique_names = tm_unique_names t, cm_column_refs = tm_column_refs t\<rparr>))"

record bind_def =
  bn_name :: gostring
  bn_schema :: gostring
  bn_table :: gostring
  bn_column :: gostring

record query_def =
  qd_name :: gostring
  qd_sql :: gostring
  qd_parameters :: "gostring list"
  qd_binds :: "bind_def list"

definition query_def_of :: "compiled \<Rightarrow> query_def" where
  "query_def_of c = \<lparr>qd_name = cm_name c, qd_sql = cm_sql c, qd_parameters = cm_parameters c,
     qd_binds = map (\<lambda>(name, ref). \<lparr>bn_name = name, bn_schema = cr_schema_name ref, bn_table = cr_table ref, bn_column = cr_column ref\<rparr>)
       (zip (cm_unique_names c) (cm_column_refs c))\<rparr>"

text \<open>
  A Go map from names to values is the list of its entries in the order a loop over it
  visits them.
\<close>

definition bind_step :: "gostring \<Rightarrow> (gostring \<times> 'a) list \<Rightarrow> gostring \<Rightarrow> 'a list \<Rightarrow> named_error + 'a list" where
  "bind_step name vals parameter args = (case map_of vals parameter of
       None \<Rightarrow> Inl (MissingValue name parameter)
     | Some v \<Rightarrow> Inr (args @ [v]))"

definition bind :: "compiled \<Rightarrow> (gostring \<times> 'a) list \<Rightarrow> named_error + (gostring \<times> 'a list)" where
  "bind c vals =
     (if cm_name c = [] \<or> trim_space (cm_sql c) = [] then Inl InvalidCompiled
      else rbind (rfold (bind_step (cm_name c) vals) (cm_parameters c) []) (\<lambda>args.
        rbind (rfold (\<lambda>(name, _) _. if name \<notin> set (cm_unique_names c) then Inl (UnusedValue (cm_name c) name) else Inr ()) vals ()) (\<lambda>_.
        Inr (cm_sql c, args))))"

subsection \<open>What a parsed template is\<close>

lemma render_parts_simps [simp]:
  "render_template_parts [] phs = []"
  "render_template_parts (parts @ [text_part txt]) phs = render_template_parts parts phs @ txt"
  "render_template_parts (parts @ [bind_part n]) phs = render_template_parts parts phs @ phs ! n"
  by (simp_all add: render_template_parts_def)

lemma render_parts_more:
  assumes "\<forall>part \<in> set parts. tp_is_bind_part part \<longrightarrow> tp_bind_index part < length phs"
  shows "render_template_parts parts (phs @ qs) = render_template_parts parts phs"
  using assms by (auto simp: render_template_parts_def nth_append intro!: arg_cong [of _ _ concat])

definition as_action :: "gostring \<Rightarrow> gostring" where
  "as_action a = ''{{'' @ a @ ''}}''"

definition binds_read :: "parse_state \<Rightarrow> gostring list \<Rightarrow> bool" where
  "binds_read st actions = list_all2 (\<lambda>a p. \<exists>ref. parse_bind_action (trim_space a) = Inr (p, ref) \<and> ps_seen st p = Some ref) actions (ps_parameters st)"

text \<open>
  The text read so far is the parts collected so far with the actions in place of the binds;
  the binds are numbered in order, and the distinct names with their references are recorded
  once each, in the order of first use.
\<close>

definition read_so_far :: "parse_state \<Rightarrow> gostring \<Rightarrow> gostring list \<Rightarrow> bool" where
  "read_so_far st consumed actions = (consumed = render_template_parts (ps_parts st) (map as_action actions) \<and> binds_read st actions \<and>
     map tp_bind_index (filter tp_is_bind_part (ps_parts st)) = [0 ..< length (ps_parameters st)] \<and>
     distinct (ps_unique_names st) \<and> set (ps_unique_names st) = set (ps_parameters st) \<and> dom (ps_seen st) = set (ps_parameters st) \<and>
     map (ps_seen st) (ps_unique_names st) = map Some (ps_column_refs st))"

lemma read_so_far_empty: "read_so_far empty_parse [] []"
  by (simp add: read_so_far_def empty_parse_def binds_read_def)

lemma read_text: "read_so_far st consumed actions \<Longrightarrow> read_so_far (add_text txt st) (consumed @ txt) actions"
  by (auto simp: read_so_far_def add_text_def binds_read_def)

lemma read_last_text: "read_so_far st consumed actions \<Longrightarrow> read_so_far (st\<lparr>ps_parts := ps_parts st @ [text_part txt]\<rparr>) (consumed @ txt) actions"
  by (auto simp: read_so_far_def binds_read_def)

lemma bind_indexes_bounded:
  assumes "map tp_bind_index (filter tp_is_bind_part parts) = [0 ..< n]"
  shows "\<forall>part \<in> set parts. tp_is_bind_part part \<longrightarrow> tp_bind_index part < n"
proof -
  have "tp_bind_index ` set (filter tp_is_bind_part parts) = {0 ..< n}" using arg_cong [OF assms, of set] by simp
  then show ?thesis by auto
qed

lemma read_bind:
  assumes "read_so_far st consumed actions" "parse_bind_action (trim_space a) = Inr (parameter, ref)" "add_bind name parameter ref st = Inr st'"
  shows "read_so_far st' (consumed @ as_action a) (actions @ [a])"
proof -
  have len: "length actions = length (ps_parameters st)" using assms(1) by (auto simp: read_so_far_def binds_read_def dest: list_all2_lengthD)
  have parts: "ps_parts st' = ps_parts st @ [bind_part (length (ps_parameters st))]" "ps_parameters st' = ps_parameters st @ [parameter]"
    using assms(3) by (auto simp: add_bind_def Let_def split: option.splits if_splits)
  have shown: "consumed @ as_action a = render_template_parts (ps_parts st') (map as_action (actions @ [a]))"
    using assms(1) len bind_indexes_bounded [of "ps_parts st" "length (ps_parameters st)"]
    by (simp add: parts read_so_far_def render_parts_more nth_append)
  show ?thesis
  proof (cases "ps_seen st parameter")
    case None
    then have st': "ps_seen st' = (ps_seen st)(parameter \<mapsto> ref)" "ps_unique_names st' = ps_unique_names st @ [parameter]" "ps_column_refs st' = ps_column_refs st @ [ref]"
      using assms(3) by (auto simp: add_bind_def Let_def)
    have new: "parameter \<notin> set (ps_parameters st)" using assms(1) None by (auto simp: read_so_far_def)
    then have "binds_read st' (actions @ [a])" using assms(1,2)
      by (auto simp: binds_read_def read_so_far_def parts st' list_all2_conv_all_nth nth_append)
    then show ?thesis using assms(1) shown new by (auto simp: read_so_far_def parts st')
  next
    case (Some existing)
    then have st': "existing = ref" "ps_seen st' = ps_seen st" "ps_unique_names st' = ps_unique_names st" "ps_column_refs st' = ps_column_refs st"
      using assms(3) by (auto simp: add_bind_def Let_def split: if_splits)
    have old: "parameter \<in> set (ps_parameters st)" using assms(1) Some by (auto simp: read_so_far_def)
    have "binds_read st' (actions @ [a])" using assms(1,2) Some
      by (auto simp: binds_read_def read_so_far_def parts st' list_all2_conv_all_nth nth_append less_Suc_eq)
    then show ?thesis using assms(1) shown old by (auto simp: read_so_far_def parts st')
  qed
qed

lemma take_index_split: "index_of s p = Some k \<Longrightarrow> s = take k s @ p @ drop (k + length p) s"
  using index_of_Some [of s p k] by (metis append_take_drop_id drop_drop add.commute)

lemma parse_from_reads:
  assumes "read_so_far st consumed actions" "parse_from name remaining st = Inr st'"
  shows "\<exists>actions'. read_so_far st' (consumed @ remaining) actions'"
  using assms
proof (induction name remaining st arbitrary: consumed actions rule: parse_from.induct)
  case (1 name remaining st)
  note eq = parse_from.simps [of name remaining st]
  consider (nil) "remaining = []" | (plain) "remaining \<noteq> []" "index_of remaining ''{{'' = None"
    | (action) start where "remaining \<noteq> []" "index_of remaining ''{{'' = Some start" by blast
  then show ?case
  proof cases
    case nil
    then show ?thesis using 1 eq by auto
  next
    case plain
    then show ?thesis using "1.prems" eq by (auto intro!: exI [of _ actions] read_last_text)
  next
    case action
    let ?action = "drop (start + 2) remaining"
    obtain e parameter ref st1 where step: "index_of ?action ''}}'' = Some e" "parse_bind_action (trim_space (take e ?action)) = Inr (parameter, ref)"
      "add_bind name parameter ref (add_text (take start remaining) st) = Inr st1" "parse_from name (drop (e + 2) ?action) st1 = Inr st'"
      using "1.prems"(2) action eq by (auto simp: Let_def split: option.splits sum.splits prod.splits)
    have "read_so_far st1 ((consumed @ take start remaining) @ as_action (take e ?action)) (actions @ [take e ?action])"
      by (rule read_bind [OF read_text [OF "1.prems"(1)] step(2,3)])
    then have "\<exists>actions'. read_so_far st' (((consumed @ take start remaining) @ as_action (take e ?action)) @ drop (e + 2) ?action) actions'"
      using "1.IH" action step by blast
    moreover have "remaining = take start remaining @ as_action (take e ?action) @ drop (e + 2) ?action"
      using take_index_split [OF action(2)] take_index_split [OF step(1)] by (simp add: as_action_def)
    ultimately show ?thesis by simp
  qed
qed


lemma parse_reads:
  assumes "parse name source = Inr t"
  shows "\<exists>st actions. read_so_far st source actions \<and> trim_space source \<noteq> [] \<and>
    t = \<lparr>tm_name = name, tm_parts = ps_parts st, tm_parameters = ps_parameters st, tm_unique_names = ps_unique_names st, tm_column_refs = ps_column_refs st\<rparr> \<and>
    name \<noteq> []"
  using assms parse_from_reads [OF read_so_far_empty, of name source] by (auto simp: parse_def split: if_splits)

subsection \<open>What a bound template is\<close>

lemma placeholders_written:
  "rfold (placeholder_step name d) [0 ..< n] acc = Inr (acc @ map (\<lambda>i. bd_placeholder (base d) (int i + 1)) [0 ..< n])"
  by (induction n) (simp_all add: rfold_append placeholder_step_def placeholder_text_def)

lemma bind_fold:
  "rfold (bind_step name vals) params acc = Inr args \<longleftrightarrow> set params \<subseteq> fst ` set vals \<and> args = acc @ map (\<lambda>p. the (map_of vals p)) params"
proof (induction params arbitrary: acc)
  case (Cons p params)
  have "map_of vals p = None \<longleftrightarrow> p \<notin> fst ` set vals" by (rule map_of_eq_None_iff)
  then show ?case using Cons by (cases "map_of vals p") (auto simp: bind_step_def)
qed auto

lemma unused_fold:
  "rfold (\<lambda>(name, _) _. if name \<notin> set names then Inl (UnusedValue n name) else Inr ()) vals () = Inr u \<longleftrightarrow> fst ` set vals \<subseteq> set names"
  by (induction vals) (auto split: if_splits)

lemma wide_spaces_not_ascii: "w \<in> set wide_spaces \<Longrightarrow> c \<in> set w \<Longrightarrow> \<not> is_ascii c"
  by (auto simp: wide_spaces_def is_ascii_def)

text \<open>A byte that is ASCII and no white space survives the trimming.\<close>

lemma space_width_prefix:
  "\<exists>w rest. s = w @ rest \<and> length w = space_width s \<and> (\<forall>c \<in> set w. is_ascii c \<longrightarrow> ascii_space c)"
proof (cases s)
  case (Cons a t)
  consider (ascii) "is_ascii a" | (none) "\<not> is_ascii a" "find (has_prefix s) wide_spaces = None"
    | (wide) w where "\<not> is_ascii a" "find (has_prefix s) wide_spaces = Some w" by blast
  then show ?thesis
  proof cases
    case ascii
    then have "space_width s = (if ascii_space a then 1 else 0)" using Cons by (simp add: space_width_def)
    then show ?thesis using Cons by (cases "ascii_space a") (auto intro: exI [of _ "[a]"])
  next
    case none
    then show ?thesis using Cons by (auto simp: space_width_def)
  next
    case wide
    then have "space_width s = length w" using Cons by (simp add: space_width_def)
    moreover have "w \<in> set wide_spaces" "\<exists>rest. s = w @ rest" using wide(2) by (auto simp: find_Some_iff has_prefix_iff)
    ultimately show ?thesis using wide_spaces_not_ascii by (rule_tac exI [of _ w]) auto
  qed
qed simp

lemma space_width_suffix:
  "\<exists>w rest. s = rest @ w \<and> length w = space_width_end s \<and> (\<forall>c \<in> set w. is_ascii c \<longrightarrow> ascii_space c)"
proof (cases s rule: rev_cases)
  case (snoc t a)
  consider (ascii) "is_ascii a" | (none) "\<not> is_ascii a" "find (has_suffix s) wide_spaces = None"
    | (wide) w where "\<not> is_ascii a" "find (has_suffix s) wide_spaces = Some w" by blast
  then show ?thesis
  proof cases
    case ascii
    then have "space_width_end s = (if ascii_space a then 1 else 0)" using snoc by (simp add: space_width_end_def)
    then show ?thesis using snoc by (cases "ascii_space a") (auto intro: exI [of _ "[a]"])
  next
    case none
    then show ?thesis using snoc by (auto simp: space_width_end_def)
  next
    case wide
    then have "space_width_end s = length w" using snoc by (simp add: space_width_end_def)
    moreover have "w \<in> set wide_spaces" "\<exists>rest. s = rest @ w" using wide(2) by (auto simp: find_Some_iff has_suffix_iff)
    ultimately show ?thesis using wide_spaces_not_ascii by (rule_tac exI [of _ w]) auto
  qed
qed simp

lemma space_width_keeps:
  assumes "c \<in> set s" "is_ascii c" "\<not> ascii_space c"
  shows "c \<in> set (drop (space_width s) s)" "c \<in> set (take (length s - space_width_end s) s)"
proof -
  obtain w rest where w: "s = w @ rest" "length w = space_width s" "\<forall>c \<in> set w. is_ascii c \<longrightarrow> ascii_space c" using space_width_prefix by blast
  then show "c \<in> set (drop (space_width s) s)" using assms by (metis Un_iff append_eq_conv_conj set_append)
  obtain v front where v: "s = front @ v" "length v = space_width_end s" "\<forall>c \<in> set v. is_ascii c \<longrightarrow> ascii_space c" using space_width_suffix by blast
  then have "take (length s - space_width_end s) s = front" by simp
  then show "c \<in> set (take (length s - space_width_end s) s)" using assms v by auto
qed

lemma trim_left_keeps: "c \<in> set s \<Longrightarrow> is_ascii c \<Longrightarrow> \<not> ascii_space c \<Longrightarrow> c \<in> set (trim_left s)"
  by (induction s rule: trim_left.induct) (subst trim_left.simps, auto simp: space_width_keeps)

lemma trim_right_keeps: "c \<in> set s \<Longrightarrow> is_ascii c \<Longrightarrow> \<not> ascii_space c \<Longrightarrow> c \<in> set (trim_right s)"
  by (induction s rule: trim_right.induct) (subst trim_right.simps, auto simp: space_width_keeps)

lemma trim_space_keeps: "c \<in> set s \<Longrightarrow> is_ascii c \<Longrightarrow> \<not> ascii_space c \<Longrightarrow> trim_space s \<noteq> []"
  using trim_right_keeps [of c "trim_left s"] trim_left_keeps [of c s] by (auto simp: trim_space_def)

definition placeholders_of :: "dialect \<Rightarrow> nat \<Rightarrow> gostring list" where
  "placeholders_of d n = map (\<lambda>i. bd_placeholder (base d) (int i + 1)) [0 ..< n]"

lemma placeholder_visible:
  assumes "d \<in> {PostgreSQL, MySQL, SQLite}"
  shows "\<exists>c \<in> set (bd_placeholder (base d) n). is_ascii c \<and> \<not> ascii_space c"
  using assms by (auto simp: dialect_consts dollar_placeholder_text_def question_placeholder_text_def is_ascii_def ascii_space_def)

lemma rendered_not_blank:
  assumes "read_so_far st source actions" "trim_space source \<noteq> []" "d \<in> {PostgreSQL, MySQL, SQLite}"
  shows "trim_space (render_template_parts (ps_parts st) (placeholders_of d (length (ps_parameters st)))) \<noteq> []"
proof (cases "ps_parameters st")
  case Nil
  then have "\<forall>part \<in> set (ps_parts st). \<not> tp_is_bind_part part"
    using assms(1) by (auto simp: read_so_far_def filter_empty_conv)
  then have "render_template_parts (ps_parts st) phs = concat (map tp_text (ps_parts st))" for phs
    by (auto simp: render_template_parts_def intro!: arg_cong [of _ _ concat])
  then show ?thesis using assms(1,2) by (simp add: read_so_far_def)
next
  case (Cons p ps)
  let ?phs = "placeholders_of d (length (ps_parameters st))"
  have "map tp_bind_index (filter tp_is_bind_part (ps_parts st)) \<noteq> []" using assms(1) Cons by (simp add: read_so_far_def)
  then obtain part where part: "part \<in> set (ps_parts st)" "tp_is_bind_part part" by (auto simp: filter_empty_conv)
  then have "tp_bind_index part < length (ps_parameters st)"
    using bind_indexes_bounded assms(1) by (auto simp: read_so_far_def)
  then have "?phs ! tp_bind_index part = bd_placeholder (base d) (int (tp_bind_index part) + 1)" by (simp add: placeholders_of_def)
  moreover have "set (?phs ! tp_bind_index part) \<subseteq> set (render_template_parts (ps_parts st) ?phs)"
    using part by (auto simp: render_template_parts_def)
  ultimately show ?thesis using placeholder_visible [OF assms(3)] trim_space_keeps by (metis subsetD)
qed

text \<open>
  C23. A named statement is its source with placeholders. For every template that \<open>Parse\<close>
  accepts there are actions such that the source is the literal text with the actions
  between, each action binding the parameter of its place; \<open>Compile\<close> succeeds for every
  built-in dialect, with the same literal text and the placeholder of position \<open>n\<close> where the
  \<open>n\<close>-th action was; and \<open>Bind\<close> succeeds exactly on the values whose names are those the
  template binds, none missing and none unused, and returns this text, whatever the values
  are, with each placeholder's value at its place.
\<close>
theorem named_statement_exact:
  fixes vals :: "(gostring \<times> 'a) list"
  assumes "parse name source = Inr t" "d \<in> {PostgreSQL, MySQL, SQLite}"
  shows "\<exists>actions c.
    source = render_template_parts (tm_parts t) (map as_action actions) \<and>
    list_all2 (\<lambda>a p. \<exists>ref. parse_bind_action (trim_space a) = Inr (p, ref)) actions (tm_parameters t) \<and>
    compile t (Some d) = Inr c \<and>
    cm_sql c = render_template_parts (tm_parts t) (placeholders_of d (length (tm_parameters t))) \<and>
    ((\<exists>st. bind c vals = Inr st) \<longleftrightarrow> fst ` set vals = set (tm_parameters t)) \<and>
    (\<forall>st. bind c vals = Inr st \<longrightarrow> st = (cm_sql c, map (\<lambda>p. the (map_of vals p)) (tm_parameters t)))"
proof -
  obtain st actions where read: "read_so_far st source actions" "trim_space source \<noteq> []" "name \<noteq> []"
    and t: "t = \<lparr>tm_name = name, tm_parts = ps_parts st, tm_parameters = ps_parameters st, tm_unique_names = ps_unique_names st, tm_column_refs = ps_column_refs st\<rparr>"
    using parse_reads [OF assms(1)] by blast
  let ?sql = "render_template_parts (ps_parts st) (placeholders_of d (length (ps_parameters st)))"
  let ?c = "\<lparr>cm_name = name, cm_sql = ?sql, cm_parameters = ps_parameters st, cm_unique_names = ps_unique_names st, cm_column_refs = ps_column_refs st\<rparr>"
  have "trim_space [] = []" by (simp add: trim_space_def trim_left.simps trim_right.simps)
  then have "ps_parts st \<noteq> []" using read(1,2) by (auto simp: read_so_far_def)
  then have compiled: "compile t (Some d) = Inr ?c" using read(3)
    by (simp add: compile_def t placeholders_written placeholders_of_def)
  have bound: "bind ?c vals = Inr r \<longleftrightarrow> fst ` set vals = set (ps_parameters st) \<and> r = (?sql, map (\<lambda>p. the (map_of vals p)) (ps_parameters st))" for r
    using rendered_not_blank [OF read(1,2) assms(2)] read(1,3) by (auto simp: bind_def bind_fold unused_fold read_so_far_def)
  have "list_all2 (\<lambda>a p. \<exists>ref. parse_bind_action (trim_space a) = Inr (p, ref)) actions (ps_parameters st)"
    using read(1) unfolding read_so_far_def binds_read_def by (auto elim: list_all2_mono)
  then show ?thesis using read(1) compiled bound by (intro exI [of _ actions] exI [of _ ?c]) (auto simp: t read_so_far_def)
qed

subsection \<open>Printing a template\<close>

lemma mod_in_block: "m * q + k \<le> b \<Longrightarrow> b < m * q + m \<Longrightarrow> k * n \<le> b mod m * n" for b :: nat
proof -
  assume b: "m * q + k \<le> b" "b < m * q + m"
  then obtain i where "b = m * q + i" by (metis add_leD1 le_Suc_ex)
  then show ?thesis using b by simp
qed

lemma if_bounded: "(A \<Longrightarrow> k \<le> x) \<Longrightarrow> (\<not> A \<Longrightarrow> k \<le> y) \<Longrightarrow> k \<le> (if A then x else y)" for k :: nat
  by simp

lemma decode_rune_wide:
  assumes "128 \<le> code c"
  shows "128 \<le> fst (decode_rune (c # s))"
proof -
  have two: "128 \<le> b mod 32 * 64 + x" if "194 \<le> b \<and> b \<le> 223 \<and> Q" for b x :: nat and Q
    using mod_in_block [of 32 6 2 b 64] that by simp
  have low: "128 \<le> y + b mod 64 * 64 + x" if "P \<and> (l \<and> 160 \<le> b \<and> b \<le> 191) \<and> Q" for b x y :: nat and P Q l
    using mod_in_block [of 64 2 32 b 64] that by simp
  have three: "128 \<le> b mod 16 * 4096 + x + y" if "(225 \<le> b \<and> b \<le> 236 \<or> b = 238 \<or> b = 239) \<and> Q" for b x y :: nat and Q
    using mod_in_block [of 16 14 1 b 4096] that by auto
  have three': "128 \<le> b mod 16 * 4096 + x + y" if "b = 237 \<and> Q" for b x y :: nat and Q using that by auto
  have mid: "128 \<le> y + b mod 64 * 4096 + x + z" if "P \<and> (l \<and> 144 \<le> b \<and> b \<le> 191) \<and> Q" for b x y z :: nat and P Q l
    using mod_in_block [of 64 2 16 b 4096] that by simp
  have four: "128 \<le> b mod 8 * 262144 + x + y + z" if "241 \<le> b \<and> b \<le> 243 \<and> Q" for b x y z :: nat and Q
    using mod_in_block [of 8 30 1 b 262144] that by simp
  have four': "128 \<le> b mod 8 * 262144 + x + y + z" if "b = 244 \<and> Q" for b x y z :: nat and Q using that by auto
  have "\<not> code ((c # s) ! 0) < 128" using assms by simp
  then show ?thesis unfolding decode_rune_def Let_def between_def if_distrib [of fst] fst_conv
    by (intro if_bounded) (erule notE, assumption, erule two, erule low, erule three, erule three', erule mid, erule four, erule four', simp)
qed

lemma runes_small_ascii: "\<forall>r \<in> set (runes s). r < 128 \<Longrightarrow> list_all is_ascii s"
proof (induction s rule: runes.induct)
  case (2 c s)
  have "fst (decode_rune (c # s)) < 128" using "2.prems" by simp
  then have c: "code c < 128" using decode_rune_wide [of c s] by (meson not_le)
  then have rest: "drop (snd (decode_rune (c # s))) (c # s) = s" by (simp add: decode_rune_ascii)
  have "list_all is_ascii s" using "2.IH" "2.prems" unfolding runes.simps(2) rest by simp
  then show ?case using c by (simp add: is_ascii_def [of c])
qed simp

definition ident_char :: "char \<Rightarrow> bool" where
  "ident_char c = (rune_alpha (code c) \<or> rune_digit (code c))"

lemma rfold_check_iff: "rfold (\<lambda>x _. check (P x) (e x)) xs () = Inr u \<longleftrightarrow> (\<forall>x \<in> set xs. P x)"
  by (induction xs) auto

lemma simple_identifier_chars:
  assumes "simple_identifier_ok n"
  shows "list_all ident_char n" "n \<noteq> []" "list_all is_ascii n"
proof -
  obtain r rs where r: "runes n = r # rs" "rune_alpha r" "\<forall>x \<in> set rs. rune_alpha x \<or> rune_digit x"
    using assms by (auto simp: simple_identifier_ok_def validate_simple_identifier_def rfold_check_iff split: list.splits)
  then have "\<forall>x \<in> set (runes n). x < 128" by (auto simp: rune_alpha_def rune_digit_def)
  then show ascii: "list_all is_ascii n" by (rule runes_small_ascii)
  then have "runes n = map of_char n" by (rule runes_ascii)
  then show "list_all ident_char n" using r by (auto simp: list_all_iff ident_char_def)
  show "n \<noteq> []" using r by auto
qed

definition field_char :: "char \<Rightarrow> bool" where
  "field_char c = (is_ascii c \<and> \<not> ascii_space c)"

lemma ident_field_char: "ident_char c \<Longrightarrow> field_char c"
  by (auto simp: ident_char_def rune_alpha_def rune_digit_def field_char_def is_ascii_def ascii_space_def)

lemma not_ident [simp]: "\<not> ident_char (CHR 0x22)" "\<not> ident_char (CHR 0x5C)" "\<not> ident_char (CHR 0x0A)" "\<not> ident_char (CHR ''}'')" "\<not> ident_char (CHR ''.'')"
  by (simp_all add: ident_char_def rune_alpha_def rune_digit_def)

lemma list_all_not: "list_all P s \<Longrightarrow> \<not> P c \<Longrightarrow> c \<notin> set s"
  by (auto simp: list_all_iff)

lemma fields_word: "list_all field_char w \<Longrightarrow> fields_from acc (w @ rest) = fields_from (acc @ w) rest"
  by (induction w arbitrary: acc) (simp_all add: fields_from.simps [of _ "_ # _"] space_width_def field_char_def)

lemma fields_space: "acc \<noteq> [] \<Longrightarrow> fields_from acc (CHR '' '' # rest) = acc # fields_from [] rest"
  by (simp add: fields_from.simps [of acc] space_width_def is_ascii_def ascii_space_def)

lemma fields_end: "acc \<noteq> [] \<Longrightarrow> fields_from acc [] = [acc]"
  by (simp add: fields_from.simps)

lemma trim_space_word:
  assumes "field_char a" "field_char z" "s = a # t" "s = u @ [z]"
  shows "trim_space s = s"
proof -
  have "space_width s = 0" using assms(1,3) by (simp add: space_width_def field_char_def)
  moreover have "space_width_end s = 0" using assms(2,4) by (simp add: space_width_end_def field_char_def)
  ultimately show ?thesis by (simp add: trim_space_def trim_left.simps trim_right.simps)
qed

lemma index_of_absent: "c \<notin> set s \<Longrightarrow> index_of (s @ (c # p) @ rest) (c # p) = Some (length s)"
  by (induction s) (auto simp: has_prefix_iff)

lemma index_of_open:
  assumes "index_of (lit @ ''{'') ''{{'' = None"
  shows "index_of (lit @ ''{{'' @ rest) ''{{'' = Some (length lit)"
  using assms
proof (induction lit)
  case (Cons c lit)
  have "\<not> has_prefix ((c # lit) @ ''{{'' @ rest) ''{{''" using Cons.prems by (cases lit) (auto split: if_splits)
  moreover have "index_of (lit @ ''{'') ''{{'' = None" using Cons.prems by (auto split: if_splits)
  ultimately show ?case using Cons.IH by simp
qed simp

lemma split_byte_parts [simp]:
  "sep \<notin> set a \<Longrightarrow> split_byte sep a = [a]" "sep \<notin> set a \<Longrightarrow> split_byte sep (a @ sep # b) = a # split_byte sep b"
  by (induction a) auto

lemma unquote_quoted:
  assumes "simple_identifier_ok n"
  shows "unquote (CHR 0x22 # n @ [CHR 0x22]) = Some n"
proof -
  note chars = simple_identifier_chars [OF assms]
  have absent: "CHR 0x22 \<notin> set n" "CHR 0x5C \<notin> set n" "CHR 0x0A \<notin> set n"
    using list_all_not [OF chars(1)] by simp_all
  have "plain_literal (CHR 0x22) n" using absent valid_utf8_ascii [OF chars(3)] by (simp add: plain_literal_def)
  moreover have "index_of (n @ [CHR 0x22]) [CHR 0x22] = Some (length n)" using index_of_absent [OF absent(1), of "[]" "[]"] by simp
  ultimately show ?thesis by (simp add: unquote_def Let_def)
qed

definition ref_ok :: "column_ref \<Rightarrow> bool" where
  "ref_ok r = (if stated r then (cr_schema_name r = [] \<or> simple_identifier_ok (cr_schema_name r)) \<and> simple_identifier_ok (cr_table r) \<and>
     simple_identifier_ok (cr_column r) else r = no_column_ref)"

definition print_action :: "gostring \<Rightarrow> column_ref \<Rightarrow> gostring" where
  "print_action n r = ''bind '' @ CHR 0x22 # n @ [CHR 0x22] @ (if stated r then '' '' @ column_ref_string r else [])"

lemma no_dot: "simple_identifier_ok n \<Longrightarrow> CHR ''.'' \<notin> set n"
  using list_all_not [OF simple_identifier_chars(1)] by simp

lemma reference_part: "simple_identifier_ok n \<Longrightarrow> validate_simple_identifier n = Inr ()"
  by (simp add: simple_identifier_ok_def)

lemma parse_printed_ref:
  assumes "ref_ok r" "stated r"
  shows "parse_column_ref (column_ref_string r) = Inr r"
proof -
  have first: "\<not> has_prefix (n @ t) [CHR 0x22]" if "simple_identifier_ok n" for n t
    using simple_identifier_chars(1,2) [OF that] by (cases n) auto
  show ?thesis
  proof (cases "cr_schema_name r = []")
    case True
    then show ?thesis using assms first [of "cr_table r"]
      by (simp add: ref_ok_def parse_column_ref_def column_ref_string_def no_dot reference_part Let_def del: has_prefix.simps)
  next
    case False
    then show ?thesis using assms first [of "cr_schema_name r"]
      by (simp add: ref_ok_def parse_column_ref_def column_ref_string_def no_dot reference_part Let_def del: has_prefix.simps)
  qed
qed

lemma word_list: "list_all ident_char s \<Longrightarrow> list_all field_char s"
  by (auto simp: list_all_iff ident_field_char)

lemma ref_string_word:
  assumes "ref_ok r" "stated r"
  shows "list_all field_char (column_ref_string r)" "column_ref_string r \<noteq> []" "CHR ''}'' \<notin> set (column_ref_string r)"
proof -
  have ids: "list_all ident_char (cr_schema_name r)" "list_all ident_char (cr_table r)" "list_all ident_char (cr_column r)"
    using assms simple_identifier_chars(1) by (auto simp: ref_ok_def)
  have dot: "field_char (CHR ''.'')" by (simp add: field_char_def is_ascii_def ascii_space_def)
  show "list_all field_char (column_ref_string r)" using ids dot by (simp add: column_ref_string_def word_list)
  show "column_ref_string r \<noteq> []" by (simp add: column_ref_string_def)
  show "CHR ''}'' \<notin> set (column_ref_string r)" using ids [THEN list_all_not, of "CHR ''}''"] by (simp add: column_ref_string_def)
qed

lemma bind_fields:
  assumes "simple_identifier_ok n" "ref_ok r"
  shows "Go_Base.fields (print_action n r) = [''bind'', CHR 0x22 # n @ [CHR 0x22]] @ (if stated r then [column_ref_string r] else [])"
proof -
  let ?q = "CHR 0x22 # n @ [CHR 0x22]"
  have quoted: "list_all field_char ?q"
    using word_list [OF simple_identifier_chars(1) [OF assms(1)]] by (simp add: field_char_def [of "CHR 0x22"] is_ascii_def ascii_space_def)
  have bind: "list_all field_char ''bind''" by (simp add: field_char_def is_ascii_def ascii_space_def)
  have "Go_Base.fields (print_action n r) = fields_from [] (''bind'' @ CHR '' '' # ?q @ (if stated r then '' '' @ column_ref_string r else []))"
    by (simp add: Go_Base.fields_def print_action_def)
  also have "\<dots> = ''bind'' # fields_from ?q (if stated r then CHR '' '' # column_ref_string r else [])"
    using fields_word [OF bind, of "[]"] fields_word [OF quoted, of "[]"] by (simp add: fields_space)
  also have "\<dots> = [''bind'', ?q] @ (if stated r then [column_ref_string r] else [])"
    using fields_word [OF ref_string_word(1) [OF assms(2)], of "[]" "[]"] ref_string_word(2) [OF assms(2)] by (simp add: fields_space fields_end)
  finally show ?thesis .
qed


lemma print_action_parsed:
  assumes "simple_identifier_ok n" "ref_ok r"
  shows "parse_bind_action (print_action n r) = Inr (n, r)"
  using assms parse_printed_ref [OF assms(2)]
  by (cases "stated r") (simp_all add: parse_bind_action_def Let_def bind_fields unquote_quoted reference_part ref_ok_def)

lemma print_action_trimmed:
  assumes "simple_identifier_ok n" "ref_ok r"
  shows "trim_space (print_action n r) = print_action n r"
proof -
  have b: "field_char (CHR ''b'')" "field_char (CHR 0x22)" by (simp_all add: field_char_def is_ascii_def ascii_space_def)
  show ?thesis
  proof (cases "stated r")
    case True
    obtain u z where z: "column_ref_string r = u @ [z]" using ref_string_word(2) [OF assms(2) True] by (meson rev_exhaust)
    then have "field_char z" using ref_string_word(1) [OF assms(2) True] by simp
    then show ?thesis using True z
      by (intro trim_space_word [OF b(1), of z _ "tl (print_action n r)" "''bind '' @ CHR 0x22 # n @ [CHR 0x22] @ '' '' @ u"]) (simp_all add: print_action_def)
  next
    case False
    then show ?thesis
      by (intro trim_space_word [OF b, of _ "tl (print_action n r)" "''bind '' @ CHR 0x22 # n"]) (simp_all add: print_action_def)
  qed
qed

lemma print_action_closes:
  assumes "simple_identifier_ok n" "ref_ok r"
  shows "CHR ''}'' \<notin> set (print_action n r)"
  using list_all_not [OF simple_identifier_chars(1) [OF assms(1)], of "CHR ''}''"] ref_string_word(3) [OF assms(2)]
  by (simp add: print_action_def)

text \<open>
  A template by its binds, each with the literal text before it, and the text after the last.
\<close>

definition print_template :: "(gostring \<times> gostring \<times> column_ref) list \<Rightarrow> gostring \<Rightarrow> gostring" where
  "print_template binds rest = concat (map (\<lambda>(lit, n, r). lit @ as_action (print_action n r)) binds) @ rest"

fun bind_parts :: "nat \<Rightarrow> (gostring \<times> gostring \<times> column_ref) list \<Rightarrow> gostring \<Rightarrow> template_part list" where
  "bind_parts k [] rest = (if rest = [] then [] else [text_part rest])"
| "bind_parts k ((lit, n, r) # binds) rest = (if lit = [] then [] else [text_part lit]) @ bind_part k # bind_parts (Suc k) binds rest"

definition binds_ok :: "(gostring \<times> gostring \<times> column_ref) list \<Rightarrow> bool" where
  "binds_ok binds = list_all (\<lambda>(lit, n, r). index_of (lit @ ''{'') ''{{'' = None \<and> simple_identifier_ok n \<and> ref_ok r) binds"

definition agrees :: "(gostring \<rightharpoonup> column_ref) \<Rightarrow> (gostring \<rightharpoonup> column_ref) \<Rightarrow> bool" where
  "agrees seen refs = (\<forall>n r. seen n = Some r \<longrightarrow> refs n = Some r)"

lemma add_bind_agrees:
  assumes "agrees (ps_seen st) refs" "refs n = Some r"
  shows "\<exists>st'. add_bind name n r st = Inr st' \<and> agrees (ps_seen st') refs \<and> ps_seen st' n = Some r \<and>
    ps_parts st' = ps_parts st @ [bind_part (length (ps_parameters st))] \<and> ps_parameters st' = ps_parameters st @ [n]"
  using assms by (cases "ps_seen st n") (auto simp: add_bind_def Let_def agrees_def)

lemma add_text_simps [simp]:
  "ps_parts (add_text txt st) = ps_parts st @ (if txt = [] then [] else [text_part txt])"
  "ps_parameters (add_text txt st) = ps_parameters st" "ps_seen (add_text txt st) = ps_seen st"
  by (simp_all add: add_text_def)

lemma parse_from_printed:
  assumes "binds_ok binds" "index_of rest ''{{'' = None" "agrees (ps_seen st) refs" "\<forall>(lit, n, r) \<in> set binds. refs n = Some r"
  shows "\<exists>st'. parse_from name (print_template binds rest) st = Inr st' \<and> agrees (ps_seen st') refs \<and>
    ps_parts st' = ps_parts st @ bind_parts (length (ps_parameters st)) binds rest \<and>
    ps_parameters st' = ps_parameters st @ map (\<lambda>(lit, n, r). n) binds"
  using assms(1,3,4)
proof (induction binds arbitrary: st)
  case Nil
  then show ?case using assms(2) by (simp add: print_template_def parse_from.simps)
next
  case (Cons b binds)
  obtain lit n r where b: "b = (lit, n, r)" by (cases b)
  have ok: "index_of (lit @ ''{'') ''{{'' = None" "simple_identifier_ok n" "ref_ok r" "binds_ok binds" "refs n = Some r"
    using Cons.prems by (auto simp: b binds_ok_def)
  obtain st1 where st1: "add_bind name n r (add_text lit st) = Inr st1" "agrees (ps_seen st1) refs"
      "ps_parts st1 = ps_parts (add_text lit st) @ [bind_part (length (ps_parameters st))]" "ps_parameters st1 = ps_parameters st @ [n]"
    using add_bind_agrees [of "add_text lit st" refs n r name] Cons.prems(2) ok(5) by auto
  let ?tail = "print_action n r @ ''}}'' @ print_template binds rest"
  have source: "print_template (b # binds) rest = lit @ ''{{'' @ ?tail" by (simp add: b print_template_def as_action_def)
  have "parse_from name (lit @ ''{{'' @ ?tail) st = parse_from name (print_template binds rest) st1"
    using index_of_open [OF ok(1), of ?tail] index_of_absent [OF print_action_closes [OF ok(2,3)], of "''}''" "print_template binds rest"]
      print_action_trimmed [OF ok(2,3)] print_action_parsed [OF ok(2,3)] st1(1)
    by (subst parse_from.simps) (simp add: Let_def)
  then show ?case using Cons.IH [of st1] ok st1 Cons.prems(3) unfolding source by (auto simp: b)
qed

lemma printed_template_parsed:
  assumes "name \<noteq> []" "trim_space (print_template binds rest) \<noteq> []" "binds_ok binds" "index_of rest ''{{'' = None"
    "\<forall>(lit, n, r) \<in> set binds. refs n = Some r"
  shows "\<exists>t. parse name (print_template binds rest) = Inr t \<and> tm_parts t = bind_parts 0 binds rest \<and>
    tm_parameters t = map (\<lambda>(lit, n, r). n) binds"
  using parse_from_printed [OF assms(3,4) _ assms(5), of empty_parse name] assms(1,2)
  by (auto simp: parse_def agrees_def empty_parse_def)

text \<open>
  Parsing reads back what was written. A template is given by its binds, each with the
  literal text before it, and the text after the last; literals do not open an action and
  every name keeps to one column reference. Writing the actions as \<open>{{bind "name" table.column}}\<close>
  and parsing gives exactly these literals, names and numbers.
\<close>
theorem template_roundtrip:
  assumes "name \<noteq> []" "trim_space (print_template binds rest) \<noteq> []" "binds_ok binds" "index_of rest ''{{'' = None"
    "\<forall>(lit, n, r) \<in> set binds. refs n = Some r"
  shows "\<exists>t. parse name (print_template binds rest) = Inr t \<and> tm_parts t = bind_parts 0 binds rest \<and>
    tm_parameters t = map (\<lambda>(lit, n, r). n) binds"
  using assms by (rule printed_template_parsed)

subsection \<open>Witnesses\<close>

definition sample_binds :: "(gostring \<times> gostring \<times> column_ref) list" where
  "sample_binds = [(''SELECT * FROM t WHERE a = '', ''a'', \<lparr>cr_schema_name = [], cr_table = ''t'', cr_column = ''a''\<rparr>), ('' OR b = '', ''b'', no_column_ref)]"

lemma sample_binds_ok: "binds_ok sample_binds"
  by (simp add: binds_ok_def sample_binds_def ref_ok_def stated_def no_column_ref_def simple_identifier_ok_def validate_simple_identifier_def
      decode_rune_ascii rune_alpha_def)

lemma sample_not_blank: "trim_space (print_template sample_binds []) \<noteq> []"
  by (rule trim_space_keeps [of "CHR ''S''"]) (simp_all add: print_template_def sample_binds_def is_ascii_def ascii_space_def)

definition sample_refs :: "gostring \<rightharpoonup> column_ref" where
  "sample_refs = map_of [(''a'', \<lparr>cr_schema_name = [], cr_table = ''t'', cr_column = ''a''\<rparr>), (''b'', no_column_ref)]"

lemma sample_agrees: "\<forall>(lit, n, r) \<in> set sample_binds. sample_refs n = Some r"
  by (simp add: sample_binds_def sample_refs_def)

theorem template_roundtrip_witness:
  "\<exists>t. parse ''q'' (print_template sample_binds []) = Inr t \<and> tm_parameters t = [''a'', ''b'']"
  using template_roundtrip [OF _ sample_not_blank sample_binds_ok _ sample_agrees, of "''q''"] by (auto simp: sample_binds_def)

theorem named_statement_exact_witness:
  "\<exists>t c. parse ''q'' (print_template sample_binds []) = Inr t \<and> compile t (Some PostgreSQL) = Inr c \<and>
     bind c [(''b'', 2 :: int), (''a'', 1)] = Inr (''SELECT * FROM t WHERE a = $1 OR b = $2'', [1, 2])"
proof -
  obtain t where t: "parse ''q'' (print_template sample_binds []) = Inr t" "tm_parts t = bind_parts 0 sample_binds []" "tm_parameters t = [''a'', ''b'']"
    using printed_template_parsed [OF _ sample_not_blank sample_binds_ok _ sample_agrees, of "''q''"] by (auto simp: sample_binds_def)
  let ?vals = "[(''b'', 2 :: int), (''a'', 1)]"
  obtain c where c: "compile t (Some PostgreSQL) = Inr c" "cm_sql c = render_template_parts (tm_parts t) (placeholders_of PostgreSQL (length (tm_parameters t)))"
      "(\<exists>st. bind c ?vals = Inr st) \<longleftrightarrow> fst ` set ?vals = set (tm_parameters t)"
      "\<forall>st. bind c ?vals = Inr st \<longrightarrow> st = (cm_sql c, map (\<lambda>p. the (map_of ?vals p)) (tm_parameters t))"
    using named_statement_exact [OF t(1), of PostgreSQL ?vals] by auto
  have "cm_sql c = ''SELECT * FROM t WHERE a = $1 OR b = $2''"
    by (simp add: c(2) t placeholders_of_def sample_binds_def render_template_parts_def PostgreSQL_def postgresql_def dollar_placeholder_text_def dec_int_def
        dec.simps digit_char_def numeral_2_eq_2 [symmetric] char_of_eq_iff)
  moreover have "fst ` set ?vals = set (tm_parameters t)" by (auto simp: t)
  ultimately show ?thesis using c t by auto
qed

end
