(* ===== verification/Migration_Dir.thy ===== *)
theory Migration_Dir
  imports Migrate_Plan "HOL-Library.Sublist"
begin

text \<open>
  Package \<open>migrationdir\<close>: reading a directory tree of SQL sources into migrations
  (\<open>internal/migrationdir/migrationdir.go\<close>).

  A directory is the list of its entries with distinct names, in no particular order; what
  the operating system refuses to read is a file or a directory without contents.
  Symbolic links are not modelled. The result of a load is in the order of the names,
  whatever the order of the entries.
\<close>

subsection \<open>Directories\<close>

datatype node = FileNode "gostring option" | DirNode "(gostring \<times> node) list option"

type_synonym entries = "(gostring \<times> node) list"

fun is_dir :: "node \<Rightarrow> bool" where
  "is_dir (FileNode c) = False"
| "is_dir (DirNode es) = True"

text \<open>\<open>os.ReadDir\<close>, which sorts the entries by name, and \<open>os.ReadFile\<close> of an entry.\<close>

definition read_dir :: "node \<Rightarrow> entries option" where
  "read_dir n = (case n of DirNode (Some es) \<Rightarrow> Some (sort_key fst es) | _ \<Rightarrow> None)"

definition read_file :: "entries \<Rightarrow> gostring \<Rightarrow> gostring option" where
  "read_file es name = (case map_of es name of Some (FileNode c) \<Rightarrow> c | _ \<Rightarrow> None)"

definition hidden :: "gostring \<Rightarrow> bool" where
  "hidden name = has_prefix name ''.''"

definition up_suffix :: gostring where "up_suffix = ''.up.sql''"
definition down_suffix :: gostring where "down_suffix = ''.down.sql''"
definition mode_file :: gostring where "mode_file = ''.rasql-mode''"

subsection \<open>Loading\<close>

datatype load_error =
    ReadDirectory
  | NonDirectoryEntry gostring
  | NoMigrationDirectories
  | ReadMigration gostring
  | ModeIsDirectory gostring
  | ReadMode gostring
  | InvalidModeFile gostring
  | ContainsSubdirectory gostring gostring
  | UnknownSource gostring gostring
  | NoUpSource gostring
  | UnmatchedReverse gostring gostring
  | ReadSource gostring gostring
  | InvalidMigration migrate_error

record load_state =
  ls_up :: "gostring list"
  ls_down :: "gostring list"
  ls_mode :: gostring
  ls_stems :: "gostring set"

definition mode_content_ok :: "gostring \<Rightarrow> bool" where
  "mode_content_ok content = (length content \<le> 4096 \<and> valid_utf8 content \<and> trim_space content = ''nontransactional'')"

definition load_entry :: "gostring \<Rightarrow> entries \<Rightarrow> gostring \<times> node \<Rightarrow> load_state \<Rightarrow> load_error + load_state" where
  "load_entry mid es e st = (let name = fst e in
     if name = mode_file then
       (if is_dir (snd e) then Inl (ModeIsDirectory mid)
        else case read_file es name of
            None \<Rightarrow> Inl (ReadMode mid)
          | Some content \<Rightarrow> if mode_content_ok content then Inr (st\<lparr>ls_mode := mode_nontransactional\<rparr>)
              else Inl (InvalidModeFile mid))
     else if hidden name then Inr st
     else if is_dir (snd e) then Inl (ContainsSubdirectory mid name)
     else if has_suffix name up_suffix then
       Inr (st\<lparr>ls_up := ls_up st @ [name], ls_stems := insert (trim_suffix name up_suffix) (ls_stems st)\<rparr>)
     else if has_suffix name down_suffix then Inr (st\<lparr>ls_down := ls_down st @ [name]\<rparr>)
     else Inl (UnknownSource mid name))"

fun read_statements :: "gostring \<Rightarrow> entries \<Rightarrow> gostring list \<Rightarrow> load_error + statement list" where
  "read_statements mid es [] = Inr []"
| "read_statements mid es (name # names) = (case read_file es name of
       None \<Rightarrow> Inl (ReadSource mid name)
     | Some content \<Rightarrow> rbind (read_statements mid es names) (\<lambda>ss. Inr (\<lparr>st_source = name, st_sql = content\<rparr> # ss)))"

definition validated_migration :: "migration \<Rightarrow> load_error + migration" where
  "validated_migration m = rbind (map_sum InvalidMigration id (migration_validate m)) (\<lambda>_. Inr m)"

definition load_migration :: "gostring \<Rightarrow> node \<Rightarrow> load_error + migration" where
  "load_migration mid n = (case read_dir n of
       None \<Rightarrow> Inl (ReadMigration mid)
     | Some es \<Rightarrow>
         rbind (rfold (load_entry mid es) es \<lparr>ls_up = [], ls_down = [], ls_mode = mode_atomic, ls_stems = {}\<rparr>) (\<lambda>st.
         let ups = sort (ls_up st); downs = rev (sort (ls_down st)) in
         if ups = [] then Inl (NoUpSource mid)
         else if downs = [] then
           rbind (read_statements mid es ups) (\<lambda>ss.
           validated_migration \<lparr>mg_id = mid, mg_mode = ls_mode st, mg_statements = ss, mg_down = []\<rparr>)
         else
           rbind (rfold (\<lambda>name _. check (trim_suffix name down_suffix \<in> ls_stems st) (UnmatchedReverse mid name)) downs ()) (\<lambda>_.
           rbind (read_statements mid es ups) (\<lambda>ss.
           rbind (read_statements mid es downs) (\<lambda>ds.
           validated_migration \<lparr>mg_id = mid, mg_mode = ls_mode st, mg_statements = ss, mg_down = ds\<rparr>)))))"

definition directory_step :: "gostring \<times> node \<Rightarrow> gostring list \<Rightarrow> load_error + gostring list" where
  "directory_step e names =
     (if hidden (fst e) then Inr names
      else if \<not> is_dir (snd e) then Inl (NonDirectoryEntry (fst e))
      else Inr (names @ [fst e]))"

fun load_each :: "entries \<Rightarrow> gostring list \<Rightarrow> load_error + migration list" where
  "load_each es [] = Inr []"
| "load_each es (name # names) =
     rbind (load_migration name (the (map_of es name))) (\<lambda>m. rbind (load_each es names) (\<lambda>ms. Inr (m # ms)))"

definition load :: "node \<Rightarrow> load_error + migration list" where
  "load n = (case read_dir n of
       None \<Rightarrow> Inl ReadDirectory
     | Some es \<Rightarrow>
         rbind (rfold directory_step es []) (\<lambda>names.
         if names = [] then Inl NoMigrationDirectories else load_each es (sort names)))"

subsection \<open>What a load reads\<close>

definition ups_of :: "entries \<Rightarrow> gostring list" where
  "ups_of es = filter (\<lambda>n. \<not> hidden n \<and> has_suffix n up_suffix) (map fst es)"

definition downs_of :: "entries \<Rightarrow> gostring list" where
  "downs_of es = filter (\<lambda>n. \<not> hidden n \<and> \<not> has_suffix n up_suffix \<and> has_suffix n down_suffix) (map fst es)"

definition mode_of :: "entries \<Rightarrow> gostring" where
  "mode_of es = (if mode_file \<in> fst ` set es then mode_nontransactional else mode_atomic)"

definition entry_ok :: "entries \<Rightarrow> gostring \<times> node \<Rightarrow> bool" where
  "entry_ok es e = (if fst e = mode_file then \<not> is_dir (snd e) \<and> (\<exists>c. read_file es mode_file = Some c \<and> mode_content_ok c)
     else hidden (fst e) \<or> \<not> is_dir (snd e) \<and> (has_suffix (fst e) up_suffix \<or> has_suffix (fst e) down_suffix))"

lemma hidden_mode_file [simp]: "hidden mode_file"
  by (simp add: hidden_def mode_file_def)

definition entries_loaded :: "load_state \<Rightarrow> entries \<Rightarrow> load_state" where
  "entries_loaded st es = st\<lparr>ls_up := ls_up st @ ups_of es, ls_down := ls_down st @ downs_of es,
     ls_mode := (if mode_file \<in> fst ` set es then mode_nontransactional else ls_mode st),
     ls_stems := ls_stems st \<union> (\<lambda>n. trim_suffix n up_suffix) ` set (ups_of es)\<rparr>"

lemma load_entry_Inr: "load_entry mid all e st = Inr st' \<longleftrightarrow> entry_ok all e \<and> st' = entries_loaded st [e]"
  by (cases e) (auto simp: load_entry_def entry_ok_def entries_loaded_def ups_of_def downs_of_def Let_def split: option.splits)

lemma entries_loaded_append: "entries_loaded (entries_loaded st xs) ys = entries_loaded st (xs @ ys)"
  by (auto simp: entries_loaded_def ups_of_def downs_of_def image_Un Un_assoc)

lemma entries_loaded_Nil [simp]: "entries_loaded st [] = st"
  by (simp add: entries_loaded_def ups_of_def downs_of_def)

lemma load_entries_Inr: "rfold (load_entry mid all) es st = Inr st' \<longleftrightarrow> list_all (entry_ok all) es \<and> st' = entries_loaded st es"
proof (induction es arbitrary: st)
  case (Cons e es)
  then show ?case using entries_loaded_append [of st "[e]" es] by (auto simp: load_entry_Inr)
qed auto

definition source_of :: "entries \<Rightarrow> gostring \<Rightarrow> statement" where
  "source_of es name = \<lparr>st_source = name, st_sql = the (read_file es name)\<rparr>"

lemma read_statements_Inr:
  "read_statements mid es names = Inr ss \<longleftrightarrow> list_all (\<lambda>n. read_file es n \<noteq> None) names \<and> ss = map (source_of es) names"
  by (induction names arbitrary: ss) (auto simp: source_of_def split: option.splits)

definition reverse_named :: "entries \<Rightarrow> bool" where
  "reverse_named es = (\<forall>n \<in> set (downs_of es). trim_suffix n down_suffix \<in> (\<lambda>n. trim_suffix n up_suffix) ` set (ups_of es))"

definition loaded :: "gostring \<Rightarrow> entries \<Rightarrow> migration" where
  "loaded mid es = \<lparr>mg_id = mid, mg_mode = mode_of es, mg_statements = map (source_of es) (sort (ups_of es)),
     mg_down = map (source_of es) (rev (sort (downs_of es)))\<rparr>"

lemma checks_all: "rfold (\<lambda>x _. check (P x) (e x)) xs u = Inr v \<longleftrightarrow> list_all P xs"
  by (induction xs arbitrary: u) auto

lemma map_sum_Inr_iff: "map_sum f id r = Inr y \<longleftrightarrow> r = Inr y"
  by (cases r) auto

text \<open>Nothing depends on the order of the entries.\<close>

lemma sort_filter_names: "distinct (map fst es) \<Longrightarrow> sort (filter P (map fst (sort_key fst es))) = sort (filter P (map fst es))"
  by (rule properties_for_sort) simp_all

lemma sorted_dir:
  assumes "distinct (map fst es)"
  shows "map_of (sort_key fst es) = map_of es" "read_file (sort_key fst es) = read_file es"
    "sort (ups_of (sort_key fst es)) = sort (ups_of es)" "sort (downs_of (sort_key fst es)) = sort (downs_of es)"
    "set (ups_of (sort_key fst es)) = set (ups_of es)" "set (downs_of (sort_key fst es)) = set (downs_of es)"
    "mode_of (sort_key fst es) = mode_of es"
proof -
  have "distinct (map fst (sort_key fst es))" using assms
    by (metis distinct_map distinct_sort set_sort)
  then show m: "map_of (sort_key fst es) = map_of es" using assms by (simp add: map_of_inject_set)
  then show "read_file (sort_key fst es) = read_file es" by (simp add: read_file_def fun_eq_iff)
  show "sort (ups_of (sort_key fst es)) = sort (ups_of es)" "sort (downs_of (sort_key fst es)) = sort (downs_of es)"
    unfolding ups_of_def downs_of_def using assms by (rule sort_filter_names)+
  show "set (ups_of (sort_key fst es)) = set (ups_of es)" "set (downs_of (sort_key fst es)) = set (downs_of es)"
    by (auto simp: ups_of_def downs_of_def)
  show "mode_of (sort_key fst es) = mode_of es" by (simp add: mode_of_def)
qed

definition directory_ok :: "entries \<Rightarrow> bool" where
  "directory_ok es = (list_all (entry_ok es) es \<and> ups_of es \<noteq> [] \<and> reverse_named es \<and>
     (\<forall>n \<in> set (ups_of es) \<union> set (downs_of es). read_file es n \<noteq> None))"

lemma load_migration_Inr:
  assumes "distinct (map fst es)"
  shows "load_migration mid (DirNode (Some es)) = Inr m \<longleftrightarrow> directory_ok es \<and> migration_validate (loaded mid es) = Inr () \<and> m = loaded mid es"
proof -
  note dir = sorted_dir [OF assms]
  have ok: "entry_ok (sort_key fst es) = entry_ok es" by (simp add: fun_eq_iff entry_ok_def dir)
  have none: "ups_of (sort_key fst es) = [] \<longleftrightarrow> ups_of es = []" "downs_of (sort_key fst es) = [] \<longleftrightarrow> downs_of es = []"
    using dir(5,6) by (metis set_empty)+
  have source: "source_of (sort_key fst es) = source_of es" by (simp add: fun_eq_iff source_of_def dir)
  have empty: "sort xs = [] \<longleftrightarrow> xs = []" for xs :: "gostring list" by (metis length_0_conv length_sort)
  show ?thesis
    by (auto simp: load_migration_def read_dir_def load_entries_Inr read_statements_Inr checks_all validated_migration_def map_sum_Inr_iff
      entries_loaded_def ok none source dir empty list_all_iff directory_ok_def reverse_named_def loaded_def mode_of_def Let_def)
qed

text \<open>The sources of a migration: named, with distinct names, and not blank.\<close>

definition statement_ok :: "statement \<Rightarrow> bool" where
  "statement_ok s = (st_source s \<noteq> [] \<and> valid_utf8 (st_source s) \<and> CHR 0x00 \<notin> set (st_source s) \<and> trim_space (st_sql s) \<noteq> [])"

interpretation source_loop: registry_loop "statement_step mid" "\<lambda>p. statement_ok (snd p)" "\<lambda>p. Some (st_source (snd p))" "\<lambda>s. s" for mid
  by unfold_locales (auto simp: statement_step_def statement_ok_def check_def Let_def split: if_splits)

lemma validate_statements_iff: "validate_statements mid ss = Inr () \<longleftrightarrow> list_all statement_ok ss \<and> distinct (map st_source ss)"
proof -
  have "validate_statements mid ss = Inr () \<longleftrightarrow> (\<exists>t. rfold (statement_step mid) (indexed ss) {} = Inr t)"
    by (auto simp: validate_statements_def)
  also have "\<dots> \<longleftrightarrow> list_all statement_ok ss \<and> distinct (map st_source ss)"
    unfolding source_loop.run indexed_ball list_all_iff using map_filter_indexed [of "\<lambda>s. Some (st_source s)" ss] by simp
  finally show ?thesis .
qed

subsection \<open>The order of the sources\<close>

text \<open>Behind names of which neither starts with the other, a suffix does not change the order.\<close>

lemma append_less_append:
  fixes a b :: "'a::linorder list"
  assumes "\<not> prefix a b" "\<not> prefix b a"
  shows "a @ x < b @ y \<longleftrightarrow> a < b"
  using assms
proof (induction a arbitrary: b)
  case (Cons c a)
  then show ?case by (cases b) auto
qed simp

definition stem_of :: "gostring \<Rightarrow> statement \<Rightarrow> gostring" where
  "stem_of ext s = trim_suffix (st_source s) ext"

definition prefix_free :: "gostring list \<Rightarrow> bool" where
  "prefix_free stems = (\<forall>a \<in> set stems. \<forall>b \<in> set stems. a \<noteq> b \<longrightarrow> \<not> prefix a b)"

lemma prefix_free_subset: "prefix_free xs \<Longrightarrow> set ys \<subseteq> set xs \<Longrightarrow> prefix_free ys"
  by (auto simp: prefix_free_def)

lemma stems_sorted:
  assumes "prefix_free (map (\<lambda>n. trim_suffix n ext) names)" "list_all (\<lambda>n. has_suffix n ext) names" "sorted names" "distinct names"
  shows "sorted (map (\<lambda>n. trim_suffix n ext) names) \<and> distinct (map (\<lambda>n. trim_suffix n ext) names)"
  using assms
proof (induction names)
  case (Cons n names)
  let ?stem = "\<lambda>n. trim_suffix n ext"
  have free: "prefix_free (map ?stem names)" using Cons.prems(1) by (simp add: prefix_free_def)
  then have rest: "sorted (map ?stem names) \<and> distinct (map ?stem names)" using Cons by simp
  have "?stem n < ?stem m" if m: "m \<in> set names" for m
  proof -
    obtain a b where n: "n = a @ ext" and b: "m = b @ ext"
      using Cons.prems(2) m by (auto simp: list_all_iff has_suffix_iff)
    have less: "n < m" using Cons.prems(3,4) m by (metis distinct.simps(2) order_less_le sorted_simps(2))
    then have "a \<noteq> b" using n b by auto
    then have "\<not> prefix a b" "\<not> prefix b a" using Cons.prems(1) m n b by (auto simp: prefix_free_def)
    then show ?thesis using less append_less_append [of a b ext ext] n b by simp
  qed
  then show ?case using rest by (auto simp: order_less_le)
qed simp

lemma ups_of_suffix: "list_all (\<lambda>n. has_suffix n up_suffix) (ups_of es)" "list_all (\<lambda>n. has_suffix n down_suffix) (downs_of es)"
  by (simp_all add: ups_of_def downs_of_def list_all_iff)

lemma names_distinct: "distinct (map fst es) \<Longrightarrow> distinct (ups_of es)" "distinct (map fst es) \<Longrightarrow> distinct (downs_of es)"
  by (simp_all add: ups_of_def downs_of_def)

text \<open>
  C35. A loaded migration runs its forward sources in ascending order of their names, and when
  no forward source's stem starts with another's, it is undone in the reverse of the order it
  was done: its reverse sources are those of the forward sources, from the last to the first,
  that have one.
\<close>
theorem loaded_migration_is_undone_in_reverse:
  assumes "distinct (map fst es)" "load_migration mid (DirNode (Some es)) = Inr m"
    and "prefix_free (map (stem_of up_suffix) (mg_statements m))"
  shows "sorted (map st_source (mg_statements m)) \<and>
    map (stem_of down_suffix) (mg_down m) =
      filter (\<lambda>s. s \<in> stem_of down_suffix ` set (mg_down m)) (rev (map (stem_of up_suffix) (mg_statements m)))"
proof -
  let ?up = "\<lambda>n. trim_suffix n up_suffix" and ?down = "\<lambda>n. trim_suffix n down_suffix"
  have m: "m = loaded mid es" and ok: "directory_ok es" using assms(1,2) by (auto simp: load_migration_Inr)
  have ups: "map (stem_of up_suffix) (mg_statements m) = map ?up (sort (ups_of es))" "map st_source (mg_statements m) = sort (ups_of es)"
    and downs: "map (stem_of down_suffix) (mg_down m) = rev (map ?down (sort (downs_of es)))"
    by (simp_all add: m loaded_def stem_of_def source_of_def comp_def rev_map)
  have inside: "?down ` set (downs_of es) \<subseteq> ?up ` set (ups_of es)" using ok by (auto simp: directory_ok_def reverse_named_def)
  have free: "prefix_free (map ?up (sort (ups_of es)))" using assms(3) ups by simp
  have "sorted (map ?up (sort (ups_of es))) \<and> distinct (map ?up (sort (ups_of es)))"
    using free ups_of_suffix(1) names_distinct(1) [OF assms(1)] by (intro stems_sorted) (simp_all add: list_all_iff)
  moreover have "prefix_free (map ?down (sort (downs_of es)))" using inside by (intro prefix_free_subset [OF free]) simp
  then have "sorted (map ?down (sort (downs_of es))) \<and> distinct (map ?down (sort (downs_of es)))"
    using ups_of_suffix(2) names_distinct(2) [OF assms(1)] by (intro stems_sorted) (simp_all add: list_all_iff)
  moreover have "set (filter (\<lambda>s. s \<in> ?down ` set (downs_of es)) (map ?up (sort (ups_of es)))) = set (map ?down (sort (downs_of es)))"
    using inside by auto
  ultimately have "filter (\<lambda>s. s \<in> ?down ` set (downs_of es)) (map ?up (sort (ups_of es))) = map ?down (sort (downs_of es))"
    by (intro sorted_distinct_set_unique) (auto simp: sorted_wrt_filter distinct_filter)
  moreover have "stem_of down_suffix ` set (mg_down m) = ?down ` set (downs_of es)"
    by (simp add: m loaded_def stem_of_def source_of_def image_image)
  ultimately show ?thesis unfolding ups downs by (simp add: rev_filter [symmetric])
qed

text \<open>Evaluation on a concrete directory.\<close>

lemmas dir_eval = ups_of_def downs_of_def hidden_def up_suffix_def down_suffix_def mode_file_def has_suffix_def

definition sample_directory :: entries where
  "sample_directory = [(''2.down.sql'', FileNode (Some ''D'')), (''1.up.sql'', FileNode (Some ''A'')),
     (''.rasql-mode'', FileNode (Some ''nontransactional'')), (''2.up.sql'', FileNode (Some ''B''))]"

definition sample_migration :: migration where
  "sample_migration = \<lparr>mg_id = ''init'', mg_mode = ''nontransactional'',
     mg_statements = [\<lparr>st_source = ''1.up.sql'', st_sql = ''A''\<rparr>, \<lparr>st_source = ''2.up.sql'', st_sql = ''B''\<rparr>],
     mg_down = [\<lparr>st_source = ''2.down.sql'', st_sql = ''D''\<rparr>]\<rparr>"

lemma sample_mode: "mode_content_ok ''nontransactional''"
  by (simp add: mode_content_ok_def decode_rune_ascii byte_eval)

lemma sample_loads: "load_migration ''init'' (DirNode (Some sample_directory)) = Inr sample_migration"
proof -
  have "loaded ''init'' sample_directory = sample_migration"
    by (simp add: loaded_def sample_migration_def sample_directory_def dir_eval mode_of_def mode_nontransactional_def source_of_def read_file_def less_char_def less_eq_char_def)
  moreover have "directory_ok sample_directory" using sample_mode
    by (simp add: directory_ok_def reverse_named_def sample_directory_def dir_eval entry_ok_def read_file_def trim_suffix_def)
  moreover have "trim_space ''A'' \<noteq> []" "trim_space ''B'' \<noteq> []" "trim_space ''D'' \<noteq> []" by (simp_all add: byte_eval)
  then have "migration_validate sample_migration = Inr ()"
    by (simp add: migration_validate_def validate_migration_id_def check_def sample_migration_def validate_statements_iff statement_ok_def decode_rune_ascii is_ascii_def mode_nontransactional_def)
  ultimately show ?thesis by (simp add: load_migration_Inr sample_directory_def)
qed

lemma sample_stems: "prefix_free (map (stem_of up_suffix) (mg_statements sample_migration))"
  by (simp add: prefix_free_def stem_of_def sample_migration_def up_suffix_def trim_suffix_def has_suffix_def)

theorem loaded_migration_is_undone_in_reverse_witness:
  "map (stem_of down_suffix) (mg_down sample_migration) =
     filter (\<lambda>s. s \<in> stem_of down_suffix ` set (mg_down sample_migration)) (rev (map (stem_of up_suffix) (mg_statements sample_migration)))"
  by (rule loaded_migration_is_undone_in_reverse [OF _ sample_loads sample_stems, THEN conjunct2]) (simp add: sample_directory_def)

text \<open>
  C36. The reverse sources are ordered by their own names, and \<open>.down.sql\<close> does not sort as
  \<open>.up.sql\<close> does: of the stems \<open>a\<close> and \<open>a.index\<close>, \<open>a.index\<close> runs first and is also undone
  first, whatever the sources hold. The package comment promises that a migration is undone
  in the reverse of the order it was done.
\<close>
theorem dotted_stems_are_undone_in_order:
  assumes "trim_space t \<noteq> []" "trim_space x \<noteq> []" "trim_space t' \<noteq> []" "trim_space x' \<noteq> []"
  shows "load_migration ''init'' (DirNode (Some [(''a.up.sql'', FileNode (Some t)), (''a.index.up.sql'', FileNode (Some x)),
     (''a.down.sql'', FileNode (Some t')), (''a.index.down.sql'', FileNode (Some x'))])) =
   Inr \<lparr>mg_id = ''init'', mg_mode = mode_atomic,
     mg_statements = [\<lparr>st_source = ''a.index.up.sql'', st_sql = x\<rparr>, \<lparr>st_source = ''a.up.sql'', st_sql = t\<rparr>],
     mg_down = [\<lparr>st_source = ''a.index.down.sql'', st_sql = x'\<rparr>, \<lparr>st_source = ''a.down.sql'', st_sql = t'\<rparr>]\<rparr>"
proof -
  let ?es = "[(''a.up.sql'', FileNode (Some t)), (''a.index.up.sql'', FileNode (Some x)), (''a.down.sql'', FileNode (Some t')), (''a.index.down.sql'', FileNode (Some x'))]"
  let ?m = "\<lparr>mg_id = ''init'', mg_mode = mode_atomic,
     mg_statements = [\<lparr>st_source = ''a.index.up.sql'', st_sql = x\<rparr>, \<lparr>st_source = ''a.up.sql'', st_sql = t\<rparr>],
     mg_down = [\<lparr>st_source = ''a.index.down.sql'', st_sql = x'\<rparr>, \<lparr>st_source = ''a.down.sql'', st_sql = t'\<rparr>]\<rparr>"
  have m: "loaded ''init'' ?es = ?m"
    by (simp add: loaded_def dir_eval mode_of_def source_of_def read_file_def less_char_def less_eq_char_def)
  have "directory_ok ?es"
    by (simp add: directory_ok_def reverse_named_def dir_eval entry_ok_def read_file_def trim_suffix_def)
  moreover have "migration_validate ?m = Inr ()" using assms
    by (simp add: migration_validate_def validate_migration_id_def check_def validate_statements_iff statement_ok_def decode_rune_ascii is_ascii_def mode_atomic_def)
  ultimately show ?thesis unfolding m [symmetric] by (simp add: load_migration_Inr)
qed

theorem dotted_stems_are_undone_in_order_witness:
  "map st_source (mg_down (projr (load_migration ''init'' (DirNode (Some [(''a.up.sql'', FileNode (Some ''t'')), (''a.index.up.sql'', FileNode (Some ''x'')),
     (''a.down.sql'', FileNode (Some ''t'')), (''a.index.down.sql'', FileNode (Some ''x''))]))))) = [''a.index.down.sql'', ''a.down.sql'']"
proof -
  have "trim_space ''t'' \<noteq> []" "trim_space ''x'' \<noteq> []" by (simp_all add: byte_eval)
  then show ?thesis by (simp add: dotted_stems_are_undone_in_order)
qed

end
