(* ===== verification/Diff_Plan.thy ===== *)
theory Diff_Plan
  imports Migration_Dir
begin

text \<open>
  Migration plans of package \<open>diff\<close> (\<open>migrate/diff/diff.go\<close>): what an analyzer proposes, the
  decisions it leaves to the caller, their resolution, and the validation of a plan. A
  lowerer is code of a dialect package and a parameter of the plan; so is the check of a
  caller's SQL, \<open>native\<close>, of which \<open>Diff_Native\<close> has the model. Copies made so that a plan
  shares no slice with its caller are the values themselves.
\<close>

subsection \<open>Plans\<close>

record planned_statement =
  ps_source :: gostring
  ps_sql :: gostring
  ps_reverse_sql :: gostring
  ps_summary :: gostring

record proposed_operation =
  op_id :: gostring
  op_table :: gostring
  op_column :: gostring
  op_constraint :: gostring
  op_summary :: gostring
  op_kind :: gostring
  op_forward :: "planned_statement list"
  op_reverse :: "planned_statement list"

record required_decision =
  rd_id :: gostring
  rd_table :: gostring
  rd_column :: gostring
  rd_baseline :: gostring
  rd_target :: gostring
  rd_reason :: gostring
  rd_kind :: gostring

record resolution =
  rs_decision_id :: gostring
  rs_backfill_sql :: gostring
  rs_rename_from :: gostring

record lowering_result =
  lr_operations :: "proposed_operation list"
  lr_mode :: gostring
  lr_statements :: "planned_statement list"
  lr_irreversible_reason :: gostring

type_synonym 'e lowerer = "(gostring \<rightharpoonup> resolution) \<Rightarrow> 'e + lowering_result"

record 'e plan =
  pl_dialect :: gostring
  pl_operations :: "proposed_operation list"
  pl_decisions :: "required_decision list"
  pl_mode :: gostring
  pl_statements :: "planned_statement list"
  pl_irreversible_reason :: gostring
  pl_lowerer :: "'e lowerer option"

definition decision_backfill :: gostring where "decision_backfill = ''backfill''"
definition decision_rename :: gostring where "decision_rename = ''rename''"

datatype 'e diff_error =
    EmptyDialect
  | NoPlanSources
  | IncompleteDecision
  | DuplicateDecision gostring
  | IncompleteOperation
  | DuplicateOperation gostring
  | OperationSource gostring
  | InvalidPlanMode gostring
  | InvalidPlanSource nat
  | EmptyPlanSource gostring
  | DuplicatePlanSource gostring
  | UntrimmedReason
  | NoReverseSQL gostring
  | InvalidReverseSQL gostring
  | LowerPlan 'e
  | LoweredPlan "'e diff_error"
  | ResolutionCount nat nat
  | InvalidDecision
  | UnknownDecision gostring
  | DuplicateResolution gostring
  | EmptyBackfill gostring
  | BackfillSQL gostring 'e
  | EmptyRename gostring
  | NonCandidate gostring gostring
  | UnsupportedDecision gostring
  | UnresolvedDecisions
  | LowerResolved 'e

subsection \<open>Identifiers\<close>

definition operation_id :: "(gostring \<Rightarrow> gostring) \<Rightarrow> gostring \<Rightarrow> gostring \<Rightarrow> gostring \<Rightarrow> gostring \<Rightarrow> gostring \<Rightarrow> gostring" where
  "operation_id L k dialect table column constraint = join ''_'' ([k, to_lower L dialect, to_lower L table] @
     (if column = [] then [] else [to_lower L column]) @ (if constraint = [] then [] else [to_lower L constraint]))"

definition decision_id :: "(gostring \<Rightarrow> gostring) \<Rightarrow> gostring \<Rightarrow> gostring \<Rightarrow> gostring \<Rightarrow> gostring \<Rightarrow> gostring" where
  "decision_id L k dialect table column = join ''_'' [k, to_lower L dialect, to_lower L table, to_lower L column]"

subsection \<open>File names\<close>

text \<open>\<open>filepath.Base\<close> and \<open>filepath.Ext\<close> for slash-separated paths.\<close>

definition strip_slashes :: "gostring \<Rightarrow> gostring" where
  "strip_slashes s = rev (dropWhile (\<lambda>c. c = CHR ''/'') (rev s))"

definition path_base :: "gostring \<Rightarrow> gostring" where
  "path_base s = (if s = [] then ''.'' else
     let last_element = rev (takeWhile (\<lambda>c. c \<noteq> CHR ''/'') (rev (strip_slashes s))) in
     if last_element = [] then ''/'' else last_element)"

definition path_ext :: "gostring \<Rightarrow> gostring" where
  "path_ext s = (let r = takeWhile (\<lambda>c. c \<noteq> CHR ''/'') (rev s) in
     if CHR ''.'' \<in> set r then rev (takeWhile (\<lambda>c. c \<noteq> CHR ''.'') r @ ''.'') else [])"

definition source_name_ok :: "gostring \<Rightarrow> bool" where
  "source_name_ok s = (s \<noteq> [] \<and> path_base s = s \<and> \<not> hidden s \<and> path_ext s = ''.sql'')"

subsection \<open>Validation\<close>

definition decision_step :: "required_decision \<Rightarrow> gostring set \<Rightarrow> 'e diff_error + gostring set" where
  "decision_step d ids =
     rbind (check (rd_id d \<noteq> [] \<and> rd_table d \<noteq> [] \<and> rd_column d \<noteq> [] \<and> rd_kind d \<noteq> []) IncompleteDecision) (\<lambda>_.
     rbind (check (rd_id d \<notin> ids) (DuplicateDecision (rd_id d))) (\<lambda>_. Inr (insert (rd_id d) ids)))"

definition operation_step :: "proposed_operation \<Rightarrow> gostring set \<Rightarrow> 'e diff_error + gostring set" where
  "operation_step q ids =
     rbind (check (op_id q \<noteq> [] \<and> op_kind q \<noteq> [] \<and> op_table q \<noteq> []) IncompleteOperation) (\<lambda>_.
     rbind (check (op_id q \<notin> ids) (DuplicateOperation (op_id q))) (\<lambda>_.
     rbind (rfold (\<lambda>s _. check (source_name_ok (ps_source s)) (OperationSource (op_id q))) (op_forward q @ op_reverse q) ()) (\<lambda>_.
     Inr (insert (op_id q) ids))))"

definition source_step :: "nat \<times> planned_statement \<Rightarrow> gostring set \<Rightarrow> 'e diff_error + gostring set" where
  "source_step p sources = (let s = snd p in
     rbind (check (source_name_ok (ps_source s)) (InvalidPlanSource (fst p + 1))) (\<lambda>_.
     rbind (check (trim_space (ps_sql s) \<noteq> []) (EmptyPlanSource (ps_source s))) (\<lambda>_.
     rbind (check (ps_source s \<notin> sources) (DuplicatePlanSource (ps_source s))) (\<lambda>_. Inr (insert (ps_source s) sources)))))"

definition reverse_step :: "planned_statement \<Rightarrow> unit \<Rightarrow> 'e diff_error + unit" where
  "reverse_step s _ =
     rbind (check (trim_space (ps_reverse_sql s) \<noteq> []) (NoReverseSQL (ps_source s))) (\<lambda>_.
     check (valid_utf8 (ps_reverse_sql s)) (InvalidReverseSQL (ps_source s)))"

definition plan_validate :: "'e plan \<Rightarrow> 'e diff_error + unit" where
  "plan_validate p =
     rbind (check (pl_dialect p \<noteq> []) EmptyDialect) (\<lambda>_.
     rbind (check (pl_statements p \<noteq> [] \<or> pl_operations p \<noteq> [] \<or> pl_decisions p \<noteq> []) NoPlanSources) (\<lambda>_.
     rbind (rfold decision_step (pl_decisions p) {}) (\<lambda>_.
     rbind (rfold operation_step (pl_operations p) {}) (\<lambda>_.
     rbind (check (pl_mode p = mode_atomic \<or> pl_mode p = mode_nontransactional) (InvalidPlanMode (pl_mode p))) (\<lambda>_.
     rbind (rfold source_step (indexed (pl_statements p)) {}) (\<lambda>_.
     if trim_space (pl_irreversible_reason p) \<noteq> []
     then check (trim_space (pl_irreversible_reason p) = pl_irreversible_reason p) UntrimmedReason
     else rfold reverse_step (pl_statements p) ()))))))"

definition executable :: "'e plan \<Rightarrow> bool" where
  "executable p = (pl_decisions p = [] \<and> pl_statements p \<noteq> [])"

definition empty_plan :: "'e plan \<Rightarrow> bool" where
  "empty_plan p = (pl_statements p = [] \<and> pl_operations p = [] \<and> pl_decisions p = [])"

subsection \<open>Construction and resolution\<close>

definition lowered_plan :: "'e plan \<Rightarrow> lowering_result \<Rightarrow> 'e plan" where
  "lowered_plan p r = p\<lparr>pl_operations := lr_operations r, pl_mode := lr_mode r, pl_statements := lr_statements r,
     pl_irreversible_reason := lr_irreversible_reason r\<rparr>"

definition new_plan :: "gostring \<Rightarrow> proposed_operation list \<Rightarrow> required_decision list \<Rightarrow> 'e lowerer option \<Rightarrow> 'e diff_error + 'e plan" where
  "new_plan dialect operations decisions lowerer = (let
     p = \<lparr>pl_dialect = dialect, pl_operations = operations, pl_decisions = decisions, pl_mode = mode_atomic,
          pl_statements = [], pl_irreversible_reason = [], pl_lowerer = lowerer\<rparr> in
     if decisions = [] \<and> lowerer \<noteq> None then
       (case the lowerer Map.empty of
          Inl e \<Rightarrow> Inl (LowerPlan e)
        | Inr r \<Rightarrow> rbind (map_sum LoweredPlan id (plan_validate (lowered_plan p r))) (\<lambda>_. Inr (lowered_plan p r)))
     else rbind (plan_validate p) (\<lambda>_. Inr p))"

definition resolution_step :: "(gostring \<Rightarrow> 'e + unit) \<Rightarrow> (gostring \<rightharpoonup> required_decision) \<Rightarrow> resolution \<Rightarrow> gostring set \<Rightarrow> 'e diff_error + gostring set" where
  "resolution_step native decision_of r seen = (case decision_of (rs_decision_id r) of
       None \<Rightarrow> Inl (UnknownDecision (rs_decision_id r))
     | Some d \<Rightarrow>
         if rs_decision_id r \<in> seen then Inl (DuplicateResolution (rs_decision_id r))
         else if rd_kind d = decision_backfill then
           (if trim_space (rs_backfill_sql r) = [] \<or> trim_space (rs_rename_from r) \<noteq> [] then Inl (EmptyBackfill (rd_id d))
            else rbind (map_sum (BackfillSQL (rd_id d)) id (native (rs_backfill_sql r))) (\<lambda>_. Inr (insert (rs_decision_id r) seen)))
         else if rd_kind d = decision_rename then
           (if trim_space (rs_rename_from r) = [] \<or> trim_space (rs_backfill_sql r) \<noteq> [] then Inl (EmptyRename (rd_id d))
            else if rs_rename_from r \<noteq> rd_baseline d then Inl (NonCandidate (rd_id d) (rs_rename_from r))
            else Inr (insert (rs_decision_id r) seen))
         else Inl (UnsupportedDecision (rd_kind d)))"

definition answers_for :: "resolution list \<Rightarrow> gostring \<Rightarrow> resolution" where
  "answers_for rs did = (case find (\<lambda>r. rs_decision_id r = did) rs of
       Some r \<Rightarrow> r
     | None \<Rightarrow> \<lparr>rs_decision_id = [], rs_backfill_sql = [], rs_rename_from = []\<rparr>)"

definition newline :: gostring where "newline = [CHR 0x0A]"

definition rename_statement :: "required_decision \<Rightarrow> planned_statement" where
  "rename_statement d = \<lparr>ps_source = ''000_rename_'' @ rd_id d @ ''.sql'',
     ps_sql = ''ALTER TABLE '' @ rd_table d @ '' RENAME COLUMN '' @ rd_baseline d @ '' TO '' @ rd_target d @ '';'' @ newline,
     ps_reverse_sql = ''ALTER TABLE '' @ rd_table d @ '' RENAME COLUMN '' @ rd_target d @ '' TO '' @ rd_baseline d @ '';'' @ newline,
     ps_summary = ''rename '' @ rd_table d @ ''.'' @ rd_baseline d\<rparr>"

definition backfill_statement :: "required_decision \<Rightarrow> resolution \<Rightarrow> planned_statement" where
  "backfill_statement d r = \<lparr>ps_source = ''000_backfill_'' @ rd_id d @ ''.sql'', ps_sql = trim_space (rs_backfill_sql r) @ newline,
     ps_reverse_sql = ''-- caller-supplied backfill has no inferred reverse'' @ newline,
     ps_summary = ''backfill '' @ rd_table d @ ''.'' @ rd_column d\<rparr>"

definition before_first :: "gostring \<Rightarrow> proposed_operation list \<Rightarrow> proposed_operation list" where
  "before_first sql ops = ops[0 := (ops ! 0)\<lparr>op_forward := (op_forward (ops ! 0))[0 := (op_forward (ops ! 0) ! 0)\<lparr>ps_sql := sql @ ps_sql (op_forward (ops ! 0) ! 0)\<rparr>]\<rparr>]"

definition default_step :: "resolution list \<Rightarrow> required_decision \<Rightarrow> 'e plan \<Rightarrow> 'e plan" where
  "default_step rs d p =
     (if rd_kind d = decision_rename then p\<lparr>pl_statements := pl_statements p @ [rename_statement d]\<rparr>
      else if rd_kind d \<noteq> decision_backfill then p
      else (let s = backfill_statement d (answers_for rs (rd_id d)) in
        (if pl_operations p \<noteq> [] \<and> op_forward (pl_operations p ! 0) \<noteq> []
         then p\<lparr>pl_operations := before_first (ps_sql s) (pl_operations p), pl_statements := []\<rparr>
         else p\<lparr>pl_statements := s # pl_statements p\<rparr>)
        \<lparr>pl_irreversible_reason := ''caller-supplied backfill has no inferred reverse''\<rparr>))"

definition default_lowering :: "resolution list \<Rightarrow> 'e plan \<Rightarrow> 'e plan" where
  "default_lowering rs p = (let
     q = fold (default_step rs) (pl_decisions p) (p\<lparr>pl_decisions := [], pl_statements := []\<rparr>);
     ss = pl_statements q @ concat (map op_forward (pl_operations q)) in
     q\<lparr>pl_statements := (if ss = [] then pl_statements p else ss)\<rparr>)"

definition resolve :: "(gostring \<Rightarrow> gostring \<Rightarrow> 'e + unit) \<Rightarrow> 'e plan \<Rightarrow> resolution list \<Rightarrow> 'e diff_error + 'e plan" where
  "resolve native p rs =
     rbind (check (length rs = length (pl_decisions p)) (ResolutionCount (length rs) (length (pl_decisions p)))) (\<lambda>_.
     rbind (check (list_all (\<lambda>d. rd_id d \<noteq> [] \<and> rd_kind d \<noteq> []) (pl_decisions p)) InvalidDecision) (\<lambda>_.
     let decision_of = map_of (rev (map (\<lambda>d. (rd_id d, d)) (pl_decisions p))) in
     rbind (rfold (resolution_step (native (pl_dialect p)) decision_of) rs {}) (\<lambda>seen.
     rbind (check (card seen = card (set (map rd_id (pl_decisions p)))) UnresolvedDecisions) (\<lambda>_.
     rbind (case pl_lowerer p of
         Some lowerer \<Rightarrow> (case lowerer (map_of (rev (map (\<lambda>r. (rs_decision_id r, r)) rs))) of
             Inl e \<Rightarrow> Inl (LowerResolved e)
           | Inr r \<Rightarrow> Inr (lowered_plan (p\<lparr>pl_decisions := [], pl_statements := []\<rparr>) r))
       | None \<Rightarrow> Inr (default_lowering rs p)) (\<lambda>q.
     rbind (plan_validate q) (\<lambda>_. Inr q))))))"

subsection \<open>Numbering\<close>

text \<open>\<open>%0*d\<close>.\<close>

definition pad :: "nat \<Rightarrow> nat \<Rightarrow> gostring" where
  "pad width n = replicate (width - length (dec n)) (CHR ''0'') @ dec n"

definition number_sources :: "planned_statement list \<Rightarrow> planned_statement list" where
  "number_sources ss = (let width = max 3 (length (dec (length ss))) in
     map (\<lambda>(i, s). s\<lparr>ps_source := pad width (i + 1) @ ''_'' @ ps_source s\<rparr>) (indexed ss))"

subsection \<open>What validation accepts\<close>

definition decision_ok :: "required_decision \<Rightarrow> bool" where
  "decision_ok d = (rd_id d \<noteq> [] \<and> rd_table d \<noteq> [] \<and> rd_column d \<noteq> [] \<and> rd_kind d \<noteq> [])"

definition operation_ok :: "proposed_operation \<Rightarrow> bool" where
  "operation_ok q = (op_id q \<noteq> [] \<and> op_kind q \<noteq> [] \<and> op_table q \<noteq> [] \<and>
     list_all (\<lambda>s. source_name_ok (ps_source s)) (op_forward q @ op_reverse q))"

definition planned_ok :: "planned_statement \<Rightarrow> bool" where
  "planned_ok s = (source_name_ok (ps_source s) \<and> trim_space (ps_sql s) \<noteq> [])"

definition plan_ok :: "'e plan \<Rightarrow> bool" where
  "plan_ok p = (pl_dialect p \<noteq> [] \<and> \<not> empty_plan p \<and>
     list_all decision_ok (pl_decisions p) \<and> distinct (map rd_id (pl_decisions p)) \<and>
     list_all operation_ok (pl_operations p) \<and> distinct (map op_id (pl_operations p)) \<and>
     pl_mode p \<in> {mode_atomic, mode_nontransactional} \<and>
     list_all planned_ok (pl_statements p) \<and> distinct (map ps_source (pl_statements p)) \<and>
     (if trim_space (pl_irreversible_reason p) = [] then list_all (\<lambda>s. trim_space (ps_reverse_sql s) \<noteq> [] \<and> valid_utf8 (ps_reverse_sql s)) (pl_statements p)
      else trim_space (pl_irreversible_reason p) = pl_irreversible_reason p))"

interpretation decision_loop: registry_loop decision_step decision_ok "\<lambda>d. Some (rd_id d)" "\<lambda>s. s"
  by unfold_locales (auto simp: decision_step_def decision_ok_def check_def split: if_splits)

interpretation operation_loop: registry_loop operation_step operation_ok "\<lambda>q. Some (op_id q)" "\<lambda>s. s"
  by unfold_locales (auto simp: operation_step_def operation_ok_def checks_all)

interpretation planned_loop: registry_loop source_step "\<lambda>q. planned_ok (snd q)" "\<lambda>q. Some (ps_source (snd q))" "\<lambda>s. s"
  by unfold_locales (auto simp: source_step_def planned_ok_def Let_def)

lemma plan_validate_iff: "plan_validate p = Inr u \<longleftrightarrow> plan_ok p"
proof -
  have loops: "(\<exists>t. rfold decision_step (pl_decisions p) {} = Inr t) \<longleftrightarrow> list_all decision_ok (pl_decisions p) \<and> distinct (map rd_id (pl_decisions p))"
    "(\<exists>t. rfold operation_step (pl_operations p) {} = Inr t) \<longleftrightarrow> list_all operation_ok (pl_operations p) \<and> distinct (map op_id (pl_operations p))"
    "(\<exists>t. rfold source_step (indexed (pl_statements p)) {} = Inr t) \<longleftrightarrow> list_all planned_ok (pl_statements p) \<and> distinct (map ps_source (pl_statements p))"
    using map_filter_indexed [of "\<lambda>s. Some (ps_source s)" "pl_statements p"]
    by (simp_all add: decision_loop.run operation_loop.run planned_loop.run list_all_iff)
  have reverses: "rfold reverse_step ss v = Inr w \<longleftrightarrow> list_all (\<lambda>s. trim_space (ps_reverse_sql s) \<noteq> [] \<and> valid_utf8 (ps_reverse_sql s)) ss" for ss v w
    by (induction ss arbitrary: v) (auto simp: reverse_step_def)
  have "plan_validate p = Inr u \<longleftrightarrow> pl_dialect p \<noteq> [] \<and> \<not> empty_plan p \<and>
      (\<exists>t. rfold decision_step (pl_decisions p) {} = (Inr t :: 'a diff_error + gostring set)) \<and>
      (\<exists>t. rfold operation_step (pl_operations p) {} = (Inr t :: 'a diff_error + gostring set)) \<and> pl_mode p \<in> {mode_atomic, mode_nontransactional} \<and>
      (\<exists>t. rfold source_step (indexed (pl_statements p)) {} = (Inr t :: 'a diff_error + gostring set)) \<and>
      (if trim_space (pl_irreversible_reason p) = [] then list_all (\<lambda>s. trim_space (ps_reverse_sql s) \<noteq> [] \<and> valid_utf8 (ps_reverse_sql s)) (pl_statements p)
       else trim_space (pl_irreversible_reason p) = pl_irreversible_reason p)"
    unfolding plan_validate_def rbind_eq_Inr rbind_unit_eq_Inr check_eq_Inr empty_plan_def
    by (cases "trim_space (pl_irreversible_reason p) = []") (simp_all add: reverses)
  then show ?thesis unfolding loops plan_ok_def by blast
qed

subsection \<open>Resolution\<close>

definition answers :: "(gostring \<Rightarrow> 'e + unit) \<Rightarrow> required_decision \<Rightarrow> resolution \<Rightarrow> bool" where
  "answers native d r = (rs_decision_id r = rd_id d \<and>
     (rd_kind d = decision_backfill \<and> trim_space (rs_backfill_sql r) \<noteq> [] \<and> trim_space (rs_rename_from r) = [] \<and> native (rs_backfill_sql r) = Inr () \<or>
      rd_kind d = decision_rename \<and> trim_space (rs_rename_from r) \<noteq> [] \<and> trim_space (rs_backfill_sql r) = [] \<and> rs_rename_from r = rd_baseline d))"

interpretation resolution_loop: registry_loop "resolution_step native decision_of"
  "\<lambda>r. \<exists>d. decision_of (rs_decision_id r) = Some d \<and> answers native (d\<lparr>rd_id := rs_decision_id r\<rparr>) r"
  "\<lambda>r. Some (rs_decision_id r)" "\<lambda>s. s" for native :: "gostring \<Rightarrow> 'e + unit" and decision_of
proof
  have kinds: "decision_backfill \<noteq> decision_rename" by (simp add: decision_backfill_def decision_rename_def)
  fix r s s'
  assume "resolution_step native decision_of r s = Inr s'"
  then show "(\<exists>d. decision_of (rs_decision_id r) = Some d \<and> answers native (d\<lparr>rd_id := rs_decision_id r\<rparr>) r) \<and>
      (\<forall>k. Some (rs_decision_id r) = Some k \<longrightarrow> k \<notin> s) \<and> s' = s \<union> set_option (Some (rs_decision_id r))"
    by (auto simp: resolution_step_def answers_def map_sum_Inr_iff split: option.splits if_splits)
next
  have kinds: "decision_backfill \<noteq> decision_rename" by (simp add: decision_backfill_def decision_rename_def)
  fix r s
  assume "\<exists>d. decision_of (rs_decision_id r) = Some d \<and> answers native (d\<lparr>rd_id := rs_decision_id r\<rparr>) r" "\<And>k. Some (rs_decision_id r) = Some k \<Longrightarrow> k \<notin> s"
  then show "\<exists>s'. resolution_step native decision_of r s = Inr s'" using kinds
    by (auto simp: resolution_step_def answers_def)
qed

lemma map_of_decisions:
  assumes "distinct (map rd_id ds)"
  shows "map_of (rev (map (\<lambda>d. (rd_id d, d)) ds)) i = Some d \<longleftrightarrow> d \<in> set ds \<and> rd_id d = i"
proof -
  have "distinct (map fst (rev (map (\<lambda>d. (rd_id d, d)) ds)))" using assms by (simp add: rev_map [symmetric] comp_def)
  then show ?thesis by (auto simp: map_of_eq_Some_iff)
qed

lemma default_lowering_decisions: "pl_decisions (default_lowering rs p) = []"
proof -
  have "pl_decisions (fold (default_step rs) ds q) = pl_decisions q" for ds and q :: "'a plan"
    by (induction ds arbitrary: q) (simp_all add: default_step_def Let_def)
  then show ?thesis by (simp add: default_lowering_def Let_def)
qed

text \<open>
  C37. A plan that \<open>Resolve\<close> returns is valid and has no open decision, and each decision of a
  valid plan was answered once, by a resolution of its kind: a backfill by SQL that passed the
  check of its dialect, a rename by the candidate the analyzer named. Conversely a plan is
  never resolved by fewer, more, repeated or foreign answers.
\<close>
theorem resolve_answers_every_decision:
  assumes "plan_ok p" "resolve native p rs = Inr q"
  shows "plan_ok q \<and> pl_decisions q = [] \<and> distinct (map rs_decision_id rs) \<and>
    (\<forall>d \<in> set (pl_decisions p). \<exists>!r. r \<in> set rs \<and> rs_decision_id r = rd_id d \<and> answers (native (pl_dialect p)) d r) \<and>
    set (map rs_decision_id rs) = set (map rd_id (pl_decisions p))"
proof -
  let ?ds = "pl_decisions p"
  let ?of = "map_of (rev (map (\<lambda>d. (rd_id d, d)) ?ds))"
  have ids: "distinct (map rd_id ?ds)" using assms(1) by (simp add: plan_ok_def)
  obtain seen where len: "length rs = length ?ds" and run: "rfold (resolution_step (native (pl_dialect p)) ?of) rs {} = Inr seen" and q: "plan_ok q"
    using assms(2) by (auto simp: resolve_def Let_def plan_validate_iff)
  have none: "pl_decisions q = []"
    using assms(2) by (auto simp: resolve_def Let_def lowered_plan_def default_lowering_decisions split: option.splits sum.splits)
  have each: "\<exists>d \<in> set ?ds. rd_id d = rs_decision_id r \<and> answers (native (pl_dialect p)) d r" if r: "r \<in> set rs" for r
  proof -
    obtain d where "?of (rs_decision_id r) = Some d" "answers (native (pl_dialect p)) (d\<lparr>rd_id := rs_decision_id r\<rparr>) r"
      using resolution_loop.run [THEN iffD1, OF exI, OF run] r by blast
    then show ?thesis unfolding map_of_decisions [OF ids] by (auto simp: answers_def)
  qed
  have distinct: "distinct (map rs_decision_id rs)"
    using resolution_loop.run [THEN iffD1, OF exI, OF run] by simp
  have "set (map rs_decision_id rs) \<subseteq> set (map rd_id ?ds)" using each by force
  moreover have "card (set (map rs_decision_id rs)) = card (set (map rd_id ?ds))"
    using len distinct ids by (simp only: distinct_card length_map)
  ultimately have same: "set (map rs_decision_id rs) = set (map rd_id ?ds)" by (intro card_subset_eq) auto
  have "\<exists>!r. r \<in> set rs \<and> rs_decision_id r = rd_id d \<and> answers (native (pl_dialect p)) d r" if d: "d \<in> set ?ds" for d
  proof -
    have "rd_id d \<in> set (map rs_decision_id rs)" unfolding same using d by simp
    then obtain r where r: "r \<in> set rs" "rs_decision_id r = rd_id d" by auto
    then obtain d' where d': "d' \<in> set ?ds" "rd_id d' = rd_id d" "answers (native (pl_dialect p)) d' r" using each [OF r(1)] by auto
    then have "d' = d" using ids d by (auto simp: distinct_map inj_on_def)
    then show ?thesis using r d' distinct by (auto simp: distinct_map inj_on_def)
  qed
  then show ?thesis using q none distinct same by blast
qed

text \<open>A plan with one open rename, and its resolution.\<close>

definition sample_decision :: required_decision where
  "sample_decision = \<lparr>rd_id = ''r'', rd_table = ''t'', rd_column = ''b'', rd_baseline = ''a'', rd_target = ''b'', rd_reason = [], rd_kind = ''rename''\<rparr>"

definition sample_plan :: "nat plan" where
  "sample_plan = \<lparr>pl_dialect = ''sqlite'', pl_operations = [], pl_decisions = [sample_decision], pl_mode = [], pl_statements = [],
     pl_irreversible_reason = [], pl_lowerer = Some (\<lambda>_. Inr \<lparr>lr_operations = [], lr_mode = [], lr_statements =
       [\<lparr>ps_source = ''1.sql'', ps_sql = ''R'', ps_reverse_sql = ''B'', ps_summary = []\<rparr>], lr_irreversible_reason = []\<rparr>)\<rparr>"

definition sample_answer :: resolution where
  "sample_answer = \<lparr>rs_decision_id = ''r'', rs_backfill_sql = [], rs_rename_from = ''a''\<rparr>"

lemmas plan_check_eval = plan_ok_def decision_ok_def planned_ok_def empty_plan_def source_name_ok_def path_base_def path_ext_def strip_slashes_def
  hidden_def mode_atomic_def decode_rune_ascii Let_def

lemma sample_texts: "trim_space ''R'' \<noteq> []" "trim_space ''B'' \<noteq> []" "trim_space ''a'' \<noteq> []" "trim_space [] = []"
  by (simp_all add: byte_eval)

lemma sample_plan_ok: "plan_ok sample_plan"
  by (simp add: plan_check_eval sample_texts sample_plan_def sample_decision_def)

lemma sample_resolves: "\<exists>q. resolve (\<lambda>_ _. Inr ()) sample_plan [sample_answer] = Inr q"
proof -
  let ?q = "lowered_plan (sample_plan\<lparr>pl_decisions := [], pl_statements := []\<rparr>) \<lparr>lr_operations = [], lr_mode = [], lr_statements =
       [\<lparr>ps_source = ''1.sql'', ps_sql = ''R'', ps_reverse_sql = ''B'', ps_summary = []\<rparr>], lr_irreversible_reason = []\<rparr>"
  have "plan_ok ?q" by (simp add: lowered_plan_def plan_check_eval sample_texts sample_plan_def)
  then have "plan_validate ?q = Inr ()" by (simp add: plan_validate_iff)
  then have "resolve (\<lambda>_ _. Inr ()) sample_plan [sample_answer] = Inr ?q"
    by (simp add: resolve_def resolution_step_def decision_backfill_def decision_rename_def sample_answer_def sample_decision_def sample_plan_def sample_texts check_def del: rbind_eq_Inr rbind_unit_eq_Inr)
  then show ?thesis by blast
qed

theorem resolve_answers_every_decision_witness:
  "\<exists>q. resolve (\<lambda>_ _. Inr ()) sample_plan [sample_answer] = Inr q \<and> plan_ok q \<and> pl_decisions q = []"
  using sample_resolves resolve_answers_every_decision [OF sample_plan_ok] by blast

subsection \<open>Numbered sources\<close>

lemma dec_val_fold: "fold (\<lambda>c n. 10 * n + digit_val c) s a = a * 10 ^ length s + dec_val s"
proof (induction s arbitrary: a)
  case (Cons x s)
  have "dec_val (x # s) = fold (\<lambda>c n. 10 * n + digit_val c) s (digit_val x)" by (simp add: dec_val_def)
  then have "dec_val (x # s) = digit_val x * 10 ^ length s + dec_val s" unfolding Cons .
  moreover have "fold (\<lambda>c n. 10 * n + digit_val c) (x # s) a = (10 * a + digit_val x) * 10 ^ length s + dec_val s"
    using Cons [of "10 * a + digit_val x"] by simp
  ultimately show ?case by (simp add: distrib_right)
qed (simp add: dec_val_def)

lemma dec_val_Cons: "dec_val (c # s) = digit_val c * 10 ^ length s + dec_val s"
  using dec_val_fold [of s "digit_val c"] by (simp add: dec_val_def)

lemma dec_val_bound: "list_all is_digit s \<Longrightarrow> dec_val s < 10 ^ length s"
proof (induction s)
  case (Cons c s)
  then have "digit_val c \<le> 9" "dec_val s < 10 ^ length s" by (auto simp: is_digit_def digit_val_def)
  then have "digit_val c * 10 ^ length s + dec_val s < 9 * 10 ^ length s + 10 ^ length s"
    by (intro add_le_less_mono mult_le_mono1)
  then show ?case by (simp add: dec_val_Cons)
qed (simp add: dec_val_def)

lemma digit_val_order:
  assumes "is_digit x" "is_digit y"
  shows "digit_val x < digit_val y \<longleftrightarrow> x < y" "digit_val x = digit_val y \<longleftrightarrow> x = y"
proof -
  have d: "48 \<le> code x" "48 \<le> code y" using assms by (auto simp: is_digit_def)
  then show "digit_val x < digit_val y \<longleftrightarrow> x < y" by (auto simp: digit_val_def less_char_def)
  have "code x - 48 = code y - 48 \<longleftrightarrow> code x = code y" using d by (intro eq_diff_iff)
  also have "\<dots> \<longleftrightarrow> x = y" by (metis char_of_char)
  finally show "digit_val x = digit_val y \<longleftrightarrow> x = y" by (simp add: digit_val_def)
qed

text \<open>Digit strings of one length are ordered as the numbers they denote.\<close>

lemma digits_less:
  "length a = length b \<Longrightarrow> list_all is_digit a \<Longrightarrow> list_all is_digit b \<Longrightarrow> dec_val a < dec_val b \<Longrightarrow> a < b"
proof (induction a b rule: list_induct2)
  case (Cons x a y b)
  have d: "digit_val x < digit_val y \<longleftrightarrow> x < y" "digit_val x = digit_val y \<longleftrightarrow> x = y"
    using Cons.prems digit_val_order [of x y] by simp_all
  have "\<not> digit_val y < digit_val x"
  proof
    assume "digit_val y < digit_val x"
    then have "digit_val y * 10 ^ length b + 10 ^ length b \<le> digit_val x * 10 ^ length a" using Cons.hyps
      by (metis Suc_leI add.commute mult_Suc mult_le_mono1)
    moreover have "dec_val b < 10 ^ length b" using Cons.prems by (simp add: dec_val_bound)
    ultimately show False using Cons.prems by (simp add: dec_val_Cons)
  qed
  then consider "x < y" | "x = y" using d by linarith
  then show ?case using Cons by cases (auto simp: dec_val_Cons)
qed simp

lemma length_dec_mono: "m \<le> n \<Longrightarrow> length (dec m) \<le> length (dec n)"
proof (induction n arbitrary: m rule: dec.induct)
  case (1 n)
  show ?case
  proof (cases "m < 10")
    case True
    then show ?thesis by (simp add: dec.simps [of m] Suc_le_eq)
  next
    case False
    then have "\<not> n < 10" "m div 10 \<le> n div 10" using "1.prems" by (auto simp: div_le_mono)
    then show ?thesis using "1.IH" False by (simp add: dec.simps [of m] dec.simps [of n])
  qed
qed

lemma pad_digits: "list_all is_digit (pad w n)" "dec_val (pad w n) = n"
proof -
  show "list_all is_digit (pad w n)" using dec_digits [of n] by (auto simp: pad_def list_all_iff is_digit_def)
  have "dec_val (replicate k (CHR ''0'') @ s) = dec_val s" for k s by (induction k) (simp_all add: dec_val_Cons digit_val_def)
  then show "dec_val (pad w n) = n" by (simp add: pad_def)
qed

lemma length_pad: "length (dec n) \<le> w \<Longrightarrow> length (pad w n) = w"
  by (simp add: pad_def)

lemma less_append: "a < b \<Longrightarrow> length a = length b \<Longrightarrow> a @ x < b @ y" for a b :: "'a::linorder list"
  by (rule append_less_append [THEN iffD2]) (auto simp: prefix_def)

lemma has_suffix_behind: "has_suffix (a @ CHR ''_'' # s) ''.sql'' \<longleftrightarrow> has_suffix s ''.sql''"
proof
  assume "has_suffix (a @ CHR ''_'' # s) ''.sql''"
  then obtain t where "a @ CHR ''_'' # s = t @ ''.sql''" by (auto simp: has_suffix_iff)
  then consider u where "CHR ''_'' # s = u @ ''.sql''" | u where "u @ CHR ''_'' # s = ''.sql''" by (auto simp: append_eq_append_conv2)
  then show "has_suffix s ''.sql''"
  proof cases
    case 1
    then show ?thesis by (cases u) (auto simp: has_suffix_iff)
  next
    case 2
    then have "CHR ''_'' \<in> set ''.sql''" by (metis in_set_conv_decomp)
    then show ?thesis by simp
  qed
qed (auto simp: has_suffix_iff)

definition stem :: "planned_statement \<Rightarrow> gostring" where
  "stem s = trim_suffix (ps_source s) ''.sql''"

lemma numbered_stem: "trim_suffix (a @ CHR ''_'' # s) ''.sql'' = a @ CHR ''_'' # trim_suffix s ''.sql''"
proof (cases "has_suffix s ''.sql''")
  case True
  then obtain t where "s = t @ ''.sql''" by (auto simp: has_suffix_iff)
  then show ?thesis using trim_suffix_append [of "a @ CHR ''_'' # t" "''.sql''"] by simp
qed (simp add: trim_suffix_def has_suffix_behind)

lemma number_sources_nth:
  assumes "i < length ss"
  shows "ps_source (number_sources ss ! i) = pad (max 3 (length (dec (length ss)))) (i + 1) @ CHR ''_'' # ps_source (ss ! i)"
  using assms by (simp add: number_sources_def Let_def indexed_def)

lemma number_sources_sql: "map ps_sql (number_sources ss) = map ps_sql ss" "map ps_reverse_sql (number_sources ss) = map ps_reverse_sql ss"
  "length (number_sources ss) = length ss"
proof -
  have "map ps_sql (number_sources ss) = map ps_sql (map snd (indexed ss))" "map ps_reverse_sql (number_sources ss) = map ps_reverse_sql (map snd (indexed ss))"
    by (simp_all add: number_sources_def Let_def case_prod_beta comp_def del: map_snd_indexed)
  then show "map ps_sql (number_sources ss) = map ps_sql ss" "map ps_reverse_sql (number_sources ss) = map ps_reverse_sql ss" by simp_all
  show "length (number_sources ss) = length ss" by (simp add: number_sources_def Let_def indexed_def)
qed

lemma number_sources_order:
  assumes "i < j" "j < length ss"
  shows "stem (number_sources ss ! i) @ x < stem (number_sources ss ! j) @ y \<and> \<not> prefix (stem (number_sources ss ! i)) (stem (number_sources ss ! j)) \<and>
    \<not> prefix (stem (number_sources ss ! j)) (stem (number_sources ss ! i))"
proof -
  let ?w = "max 3 (length (dec (length ss)))"
  have len: "length (pad ?w (k + 1)) = ?w" if "k < length ss" for k
    using length_dec_mono [of "k + 1" "length ss"] that by (intro length_pad) simp
  then have same: "length (pad ?w (i + 1)) = length (pad ?w (j + 1))" using assms by (metis order_less_trans)
  then have less: "pad ?w (i + 1) < pad ?w (j + 1)" using assms pad_digits by (intro digits_less) simp_all
  then show ?thesis using same less_append [OF less same]
    using number_sources_nth [of i ss] number_sources_nth [of j ss] assms
    by (auto simp: stem_def numbered_stem prefix_def append_eq_append_conv)
qed

text \<open>
  \<open>NumberSources\<close> keeps the lexical order of the sources equal to the order of the plan, for
  plans of every length: the stems of the numbered sources are ascending whatever suffixes
  the migration directory puts behind them, none is the beginning of another, and the SQL is
  unchanged.
\<close>
theorem numbered_sources_keep_plan_order:
  "sorted_wrt (\<lambda>s t. stem s @ x < stem t @ y) (number_sources ss) \<and> prefix_free (map stem (number_sources ss)) \<and>
   map ps_sql (number_sources ss) = map ps_sql ss \<and> map ps_reverse_sql (number_sources ss) = map ps_reverse_sql ss"
proof -
  note len = number_sources_sql(3) [of ss]
  have "sorted_wrt (\<lambda>s t. stem s @ x < stem t @ y) (number_sources ss)"
    unfolding sorted_wrt_iff_nth_less len using number_sources_order by blast
  moreover have "\<not> prefix (stem (number_sources ss ! i)) (stem (number_sources ss ! j))" if "i < length ss" "j < length ss" "i \<noteq> j" for i j
    using number_sources_order [of i j ss] number_sources_order [of j i ss] that by (metis linorder_neqE_nat)
  then have "prefix_free (map stem (number_sources ss))" unfolding prefix_free_def using len by (fastforce simp: in_set_conv_nth)
  ultimately show ?thesis using number_sources_sql by simp
qed

subsection \<open>What a plan loses or cannot say\<close>

text \<open>
  Identifiers of operations do not tell operations apart: adding column \<open>b_c\<close> to table \<open>a\<close>
  and column \<open>c\<close> to table \<open>a_b\<close> are proposed under one identifier, whatever the dialect, so
  a plan with both, which a correct difference of two schemas contains, is refused.
\<close>
theorem colliding_operations_are_refused:
  assumes "q \<in> set (pl_operations p)" "q' \<in> set (pl_operations p)" "op_table q = ''a''" "op_table q' = ''a_b''"
    "op_id q = operation_id L kind dialect ''a'' ''b_c'' []" "op_id q' = operation_id L kind dialect ''a_b'' ''c'' []"
  shows "\<exists>e. plan_validate p = Inl e"
proof -
  have "op_id q = op_id q'" using assms(5,6) by (simp add: operation_id_def byte_eval)
  moreover have "q \<noteq> q'" using assms(3,4) by auto
  ultimately have "\<not> distinct (map op_id (pl_operations p))" using assms(1,2) by (auto simp: distinct_map inj_on_def)
  then have "plan_validate p \<noteq> Inr u" for u by (simp add: plan_validate_iff plan_ok_def)
  then show ?thesis by (cases "plan_validate p") auto
qed

text \<open>
  Without a lowerer \<open>Resolve\<close> discards a resolved rename when a backfill follows it and the
  plan has a forward statement: the backfill branch resets the list of statements.
\<close>
theorem backfill_discards_rename:
  assumes "rd_kind d = ''rename''" "rd_kind b = ''backfill''" "pl_decisions p = [d, b]" "pl_operations p = q # qs" "op_forward q = f # fs"
  shows "pl_statements (default_lowering rs p) =
    f\<lparr>ps_sql := trim_space (rs_backfill_sql (answers_for rs (rd_id b))) @ newline @ ps_sql f\<rparr> # fs @ concat (map op_forward qs)"
  using assms by (simp add: default_lowering_def default_step_def before_first_def backfill_statement_def decision_backfill_def decision_rename_def Let_def)

end
