(* ===== verification/Migration_Write.thy ===== *)
theory Migration_Write
  imports Diff_Plan
begin

text \<open>
  Writing a plan as a migration directory (\<open>WriteMigration\<close> of \<open>migrate/diff/diff.go\<close>) and
  reading it back with \<open>migrationdir\<close>. The directory that holds the migrations is the list of
  its entries, or absent; the calls to the operating system fail as \<open>io\<close> says.
\<close>

subsection \<open>The operating system\<close>

text \<open>
  \<open>io_parent\<close> tells whether \<open>MkdirAll\<close> succeeds, \<open>io_random\<close> is what \<open>MkdirTemp\<close> puts into the
  name, \<open>io_write\<close> is \<open>None\<close> when a file is written and otherwise what a failed write leaves of
  it, \<open>io_rename\<close> tells whether the renaming succeeds where its target is free, and \<open>io_left\<close>
  is what \<open>RemoveAll\<close>, whose error is ignored, leaves of a directory.
\<close>

record io =
  io_parent :: bool
  io_random :: "gostring option"
  io_write :: "gostring \<Rightarrow> gostring option option"
  io_rename :: bool
  io_left :: "entries \<Rightarrow> node option"

datatype 'e write_error =
    EmptyDirectory
  | InvalidPlan "'e diff_error"
  | OpenDecisions "gostring list"
  | NotExecutable
  | CreateParent
  | CreateTemporary
  | WriteSource gostring
  | WriteMode
  | WriteReverse gostring
  | CreateDirectory

definition put :: "gostring \<Rightarrow> node \<Rightarrow> entries \<Rightarrow> entries" where
  "put name n es = filter (\<lambda>e. fst e \<noteq> name) es @ [(name, n)]"

text \<open>\<open>os.WriteFile\<close>: a name with a zero byte is refused.\<close>

definition write_file :: "io \<Rightarrow> gostring \<Rightarrow> gostring \<Rightarrow> entries \<Rightarrow> bool \<times> entries" where
  "write_file os name content es =
     (if CHR 0x00 \<in> set name then (False, es)
      else case io_write os name of
          None \<Rightarrow> (True, put name (FileNode (Some content)) es)
        | Some None \<Rightarrow> (False, es)
        | Some (Some rest) \<Rightarrow> (False, put name (FileNode (Some rest)) es))"

text \<open>\<open>os.MkdirTemp\<close>: the random part replaces the last \<open>*\<close> of the pattern or stands behind it.\<close>

definition temporary_name :: "gostring \<Rightarrow> gostring \<Rightarrow> gostring" where
  "temporary_name pattern random =
     (if CHR ''*'' \<in> set pattern
      then rev (drop 1 (dropWhile (\<lambda>c. c \<noteq> CHR ''*'') (rev pattern))) @ random @ rev (takeWhile (\<lambda>c. c \<noteq> CHR ''*'') (rev pattern))
      else pattern @ random)"

definition make_temporary :: "io \<Rightarrow> gostring \<Rightarrow> entries \<Rightarrow> gostring option" where
  "make_temporary os pattern es = (case io_random os of
       None \<Rightarrow> None
     | Some random \<Rightarrow>
         if CHR ''/'' \<in> set pattern \<or> CHR 0x00 \<in> set pattern \<or> temporary_name pattern random \<in> fst ` set es then None
         else Some (temporary_name pattern random))"

subsection \<open>Writing\<close>

definition up_file :: "planned_statement \<Rightarrow> gostring \<times> gostring \<times> 'e write_error" where
  "up_file s = (stem s @ up_suffix, ps_sql s, WriteSource (ps_source s))"

definition down_file :: "planned_statement \<Rightarrow> gostring \<times> gostring \<times> 'e write_error" where
  "down_file s = (stem s @ down_suffix, ps_reverse_sql s, WriteReverse (ps_source s))"

definition planned_files :: "'e plan \<Rightarrow> (gostring \<times> gostring \<times> 'e write_error) list" where
  "planned_files p = map up_file (pl_statements p) @
     (if pl_mode p = mode_nontransactional then [(mode_file, ''nontransactional'' @ newline, WriteMode)] else []) @
     (if trim_space (pl_irreversible_reason p) = [] then map down_file (pl_statements p) else [])"

fun write_files :: "io \<Rightarrow> (gostring \<times> gostring \<times> 'e write_error) list \<Rightarrow> entries \<Rightarrow> 'e write_error option \<times> entries" where
  "write_files os [] es = (None, es)"
| "write_files os ((name, content, err) # files) es =
     (case write_file os name content es of
        (True, es') \<Rightarrow> write_files os files es'
      | (False, es') \<Rightarrow> (Some err, es'))"

definition removed :: "io \<Rightarrow> gostring \<Rightarrow> entries \<Rightarrow> entries \<Rightarrow> entries" where
  "removed os temporary files es = (case io_left os files of None \<Rightarrow> es | Some n \<Rightarrow> (temporary, n) # es)"

text \<open>
  \<open>os.Rename\<close> is given the path as it was passed in. It names an entry of \<open>filepath.Dir\<close> of that
  path only when it ends in a proper name; with a slash, \<open>.\<close> or \<open>..\<close> at the end it names that
  directory itself or the one above it, and a directory that exists is refused as a target.
\<close>

definition rename_target :: "gostring \<Rightarrow> gostring option" where
  "rename_target directory = (let name = rev (takeWhile (\<lambda>c. c \<noteq> CHR ''/'') (rev directory)) in
     if name \<in> {[], ''.'', ''..''} then None else Some name)"

definition write_migration :: "io \<Rightarrow> gostring \<Rightarrow> 'e plan \<Rightarrow> entries option \<Rightarrow> ('e write_error + unit) \<times> entries option" where
  "write_migration os directory p parent =
     (if directory = [] then (Inl EmptyDirectory, parent)
      else case plan_validate p of
        Inl e \<Rightarrow> (Inl (InvalidPlan e), parent)
      | Inr _ \<Rightarrow>
          if pl_decisions p \<noteq> [] then (Inl (OpenDecisions (sort (map rd_id (pl_decisions p)))), parent)
          else if \<not> executable p then (Inl NotExecutable, parent)
          else if \<not> io_parent os then (Inl CreateParent, parent)
          else (let es = (case parent of None \<Rightarrow> [] | Some es \<Rightarrow> es) in
            case make_temporary os (''.'' @ path_base directory @ ''.tmp-'') es of
              None \<Rightarrow> (Inl CreateTemporary, Some es)
            | Some temporary \<Rightarrow>
                (case write_files os (planned_files p) [] of
                   (Some e, files) \<Rightarrow> (Inl e, Some (removed os temporary files es))
                 | (None, files) \<Rightarrow>
                     (case rename_target directory of
                        None \<Rightarrow> (Inl CreateDirectory, Some (removed os temporary files es))
                      | Some name \<Rightarrow>
                          if \<not> io_rename os \<or> name \<in> fst ` set es then (Inl CreateDirectory, Some (removed os temporary files es))
                          else (Inr (), Some (put name (DirNode (Some files)) es))))))"

lemma rename_target_base: "rename_target directory = Some name \<Longrightarrow> path_base directory = name"
proof -
  assume t: "rename_target directory = Some name"
  then have n: "name = rev (takeWhile (\<lambda>c. c \<noteq> CHR ''/'') (rev directory))" "name \<noteq> []"
    by (auto simp: rename_target_def Let_def split: if_splits)
  then obtain c r where c: "rev directory = c # r" "c \<noteq> CHR ''/''" by (cases "rev directory") (auto split: if_splits)
  then have "strip_slashes directory = directory" by (simp add: strip_slashes_def)
  moreover have "directory \<noteq> []" using c(1) by auto
  ultimately show ?thesis using n by (simp add: path_base_def Let_def)
qed

subsection \<open>Names\<close>

lemma between_append: "list_all is_ascii t \<Longrightarrow> 128 \<le> lo \<Longrightarrow> between lo hi (s @ t) i = between lo hi s i"
proof (cases "i < length s")
  case False
  assume t: "list_all is_ascii t" "128 \<le> lo"
  have "\<not> between lo hi (s @ t) i"
  proof
    assume "between lo hi (s @ t) i"
    then have i: "i - length s < length t" "lo \<le> code (t ! (i - length s))" using False by (auto simp: between_def nth_append)
    then have "is_ascii (t ! (i - length s))" using t(1) by (simp add: list_all_length)
    then show False using i t(2) by (simp add: is_ascii_def)
  qed
  then show ?thesis using False by (simp add: between_def)
qed (simp add: between_def nth_append)

lemma decode_rune_append:
  assumes "list_all is_ascii t" "s \<noteq> []"
  shows "decode_rune (s @ t) = decode_rune s" "snd (decode_rune s) \<le> length s"
proof -
  have len: "0 < length s" using assms(2) by simp
  then have first: "(s @ t) ! 0 = s ! 0" by (simp add: nth_append)
  have nth: "(s @ t) ! i = s ! i" if "between lo hi s i" for lo hi i using that by (simp add: between_def nth_append)
  have "between lo hi (s @ t) i = between lo hi s i" if "128 \<le> lo" for lo hi i by (rule between_append [OF assms(1) that])
  then have b: "between 128 hi (s @ t) i = between 128 hi s i" "between 144 hi (s @ t) i = between 144 hi s i" "between 160 hi (s @ t) i = between 160 hi s i"
    for hi i by simp_all
  show "decode_rune (s @ t) = decode_rune s"
    unfolding decode_rune_def Let_def first b by (intro if_cong refl) (use nth in metis)+
  show "snd (decode_rune s) \<le> length s"
  proof -
    have bound: "between lo hi s 1 \<Longrightarrow> 2 \<le> length s" "between lo hi s 2 \<Longrightarrow> 3 \<le> length s" "between lo hi s 3 \<Longrightarrow> 4 \<le> length s" for lo hi
      by (simp_all add: between_def)
    have branch: "snd (if c then x else y) \<le> length s" if "c \<Longrightarrow> snd x \<le> length s" "\<not> c \<Longrightarrow> snd y \<le> length s" for c and x y :: "nat \<times> nat"
      using that by simp
    have one: "1 \<le> length s" using len by (simp only: Suc_le_eq One_nat_def)
    show ?thesis unfolding decode_rune_def Let_def
      by (intro branch; unfold snd_conv) (use one bound in blast)+
  qed
qed

lemma valid_utf8_append_ascii:
  assumes "list_all is_ascii t"
  shows "valid_utf8 (s @ t) = valid_utf8 s"
proof (induction s rule: valid_utf8.induct)
  case 1
  then show ?case using valid_utf8_ascii [OF assms] by simp
next
  case (2 c s)
  have "decode_rune (c # s @ t) = decode_rune (c # s)" "snd (decode_rune (c # s)) \<le> length (c # s)"
    using decode_rune_append [OF assms, of "c # s"] by simp_all
  moreover have "drop n (c # s @ t) = drop n (c # s) @ t" if "n \<le> length (c # s)" for n using that by (cases n) simp_all
  ultimately show ?case using 2 by (simp only: append_Cons valid_utf8.simps)
qed

lemma source_name_stem:
  assumes "source_name_ok (ps_source s)"
  shows "ps_source s = stem s @ ''.sql''" "stem s \<noteq> []" "\<not> hidden (stem s @ x)"
proof -
  let ?s = "ps_source s"
  let ?r = "takeWhile (\<lambda>c. c \<noteq> CHR ''/'') (rev ?s)"
  have dot: "CHR ''.'' \<in> set ?r" and "rev (takeWhile (\<lambda>c. c \<noteq> CHR ''.'') ?r @ ''.'') = ''.sql''"
    using assms by (auto simp: source_name_ok_def path_ext_def Let_def split: if_splits)
  then have "takeWhile (\<lambda>c. c \<noteq> CHR ''.'') ?r @ ''.'' = rev ''.sql''" by (metis rev_rev_ident)
  then have tw: "takeWhile (\<lambda>c. c \<noteq> CHR ''.'') ?r = ''lqs''" by simp
  obtain t u where r: "?r = t @ CHR ''.'' # u" "CHR ''.'' \<notin> set t" using split_list_first [OF dot] by blast
  then have "takeWhile (\<lambda>c. c \<noteq> CHR ''.'') ?r = t" unfolding r(1) by (subst takeWhile_append2) auto
  then have "?r = ''lqs'' @ CHR ''.'' # u" using r(1) tw by simp
  then obtain w where "rev ?s = (''lqs'' @ CHR ''.'' # u) @ w" by (metis takeWhile_dropWhile_id)
  then have "rev (rev ?s) = rev ((''lqs'' @ CHR ''.'' # u) @ w)" by (rule arg_cong)
  then have v: "?s = (rev w @ rev u) @ ''.sql''" by simp
  then show eq: "?s = stem s @ ''.sql''" unfolding stem_def by (metis trim_suffix_append)
  have "\<not> hidden ?s" using assms by (simp add: source_name_ok_def)
  then show "stem s \<noteq> []" "\<not> hidden (stem s @ x)" using eq by (cases "stem s"; auto simp: hidden_def)+
qed

subsection \<open>The files of a plan\<close>

lemma write_files_None:
  assumes "write_files os files es = (None, es')" "distinct (map fst files)" "fst ` set files \<inter> fst ` set es = {}"
  shows "es' = es @ map (\<lambda>f. (fst f, FileNode (Some (fst (snd f))))) files \<and> list_all (\<lambda>f. CHR 0x00 \<notin> set (fst f)) files"
  using assms
proof (induction files arbitrary: es)
  case (Cons f files)
  obtain name content err where f: "f = (name, content, err)" by (cases f)
  have fresh: "filter (\<lambda>e. fst e \<noteq> name) es = es" using Cons.prems(3) f by (auto simp: filter_id_conv)
  have step: "CHR 0x00 \<notin> set name" "write_files os files (es @ [(name, FileNode (Some content))]) = (None, es')"
    using Cons.prems(1) f fresh by (auto simp: write_file_def put_def split: if_splits option.splits)
  then show ?case using Cons.IH [OF step(2)] Cons.prems f by (auto simp: image_iff)
qed simp

definition up_statement :: "planned_statement \<Rightarrow> statement" where
  "up_statement s = \<lparr>st_source = stem s @ up_suffix, st_sql = ps_sql s\<rparr>"

definition down_statement :: "planned_statement \<Rightarrow> statement" where
  "down_statement s = \<lparr>st_source = stem s @ down_suffix, st_sql = ps_reverse_sql s\<rparr>"

definition reversible :: "'e plan \<Rightarrow> bool" where
  "reversible p = (trim_space (pl_irreversible_reason p) = [])"

text \<open>The migration a plan becomes: the sources in the order of their names.\<close>

definition planned_migration :: "gostring \<Rightarrow> 'e plan \<Rightarrow> migration" where
  "planned_migration name p = \<lparr>mg_id = name, mg_mode = pl_mode p,
     mg_statements = map up_statement (sort_key (\<lambda>s. stem s @ up_suffix) (pl_statements p)),
     mg_down = (if reversible p then rev (map down_statement (sort_key (\<lambda>s. stem s @ down_suffix) (pl_statements p))) else [])\<rparr>"

definition files_of :: "'e plan \<Rightarrow> entries" where
  "files_of p = map (\<lambda>s. (stem s @ up_suffix, FileNode (Some (ps_sql s)))) (pl_statements p) @
     (if pl_mode p = mode_nontransactional then [(mode_file, FileNode (Some (''nontransactional'' @ newline)))] else []) @
     (if reversible p then map (\<lambda>s. (stem s @ down_suffix, FileNode (Some (ps_reverse_sql s)))) (pl_statements p) else [])"

lemma files_of_planned: "map (\<lambda>f. (fst f, FileNode (Some (fst (snd f))))) (planned_files p) = files_of p"
  by (auto simp: planned_files_def files_of_def up_file_def down_file_def reversible_def)

lemma planned_names: "map fst (planned_files p) = map fst (files_of p)"
  by (auto simp: planned_files_def files_of_def up_file_def down_file_def reversible_def)

lemma suffixes_differ: "a @ up_suffix \<noteq> b @ down_suffix"
proof
  assume "a @ up_suffix = b @ down_suffix"
  then have "rev (a @ up_suffix) = rev (b @ down_suffix)" by simp
  then show False by (simp add: up_suffix_def down_suffix_def)
qed

lemma stems_distinct:
  assumes "list_all planned_ok ss" "distinct (map ps_source ss)"
  shows "distinct (map stem ss)"
proof -
  have "map ps_source ss = map (\<lambda>x. x @ ''.sql'') (map stem ss)"
    using assms(1) source_name_stem(1) by (auto simp: list_all_iff planned_ok_def)
  then show ?thesis using assms(2) by (metis distinct_map)
qed

lemma files_distinct:
  assumes "plan_ok p"
  shows "distinct (map fst (files_of p))"
proof -
  let ?ss = "pl_statements p"
  have ok: "list_all planned_ok ?ss" "distinct (map ps_source ?ss)" using assms by (simp_all add: plan_ok_def)
  have stems: "distinct (map stem ?ss)" by (rule stems_distinct [OF ok])
  have behind: "distinct (map (\<lambda>s. stem s @ x) ?ss)" for x
  proof -
    have "map (\<lambda>s. stem s @ x) ?ss = map (\<lambda>t. t @ x) (map stem ?ss)" by simp
    then show ?thesis using stems by (simp add: distinct_map inj_on_def)
  qed
  have visible: "stem s @ x \<noteq> mode_file" if "s \<in> set ?ss" for s x
    using source_name_stem(3) [of s x] ok(1) that hidden_mode_file by (metis list_all_iff planned_ok_def)
  then show ?thesis using behind suffixes_differ visible [THEN not_sym]
    by (auto simp: files_of_def comp_def)
qed

lemma sort_map: "sort (map k xs) = map k (sort_key k xs)" for k :: "'a \<Rightarrow> 'b::linorder"
  by (rule properties_for_sort) simp_all

lemma planned_files_read:
  assumes "plan_ok p"
  shows "ups_of (files_of p) = map (\<lambda>s. stem s @ up_suffix) (pl_statements p)"
    "downs_of (files_of p) = (if reversible p then map (\<lambda>s. stem s @ down_suffix) (pl_statements p) else [])"
    "mode_of (files_of p) = pl_mode p"
    "s \<in> set (pl_statements p) \<Longrightarrow> source_of (files_of p) (stem s @ up_suffix) = up_statement s"
    "s \<in> set (pl_statements p) \<Longrightarrow> reversible p \<Longrightarrow> source_of (files_of p) (stem s @ down_suffix) = down_statement s"
    "directory_ok (files_of p) \<longleftrightarrow> pl_statements p \<noteq> []"
proof -
  let ?ss = "pl_statements p"
  have ok: "list_all planned_ok ?ss" and mode: "pl_mode p \<in> {mode_atomic, mode_nontransactional}" using assms by (simp_all add: plan_ok_def)
  have visible: "\<not> hidden (stem s @ x)" if "s \<in> set ?ss" for s x
    using source_name_stem(3) ok that by (auto simp: list_all_iff planned_ok_def)
  have suffixes: "has_suffix (t @ up_suffix) up_suffix" "has_suffix (t @ down_suffix) down_suffix" "\<not> has_suffix (t @ down_suffix) up_suffix" for t
    using suffixes_differ by (auto simp: has_suffix_iff) metis
  show ups: "ups_of (files_of p) = map (\<lambda>s. stem s @ up_suffix) ?ss"
    using visible suffixes by (auto simp: ups_of_def files_of_def filter_map comp_def filter_id_conv)
  have "\<not> (\<not> hidden (stem s @ up_suffix) \<and> \<not> has_suffix (stem s @ up_suffix) up_suffix \<and> has_suffix (stem s @ up_suffix) down_suffix)" for s
    using suffixes by simp
  then show downs: "downs_of (files_of p) = (if reversible p then map (\<lambda>s. stem s @ down_suffix) ?ss else [])"
    using visible suffixes by (auto simp: downs_of_def files_of_def filter_map comp_def filter_id_conv)
  have named: "mode_file \<noteq> stem s @ x" if "s \<in> set ?ss" for s x using visible [OF that, of x] hidden_mode_file by metis
  show "mode_of (files_of p) = pl_mode p" using mode named
    by (auto simp: mode_of_def files_of_def image_iff mode_atomic_def mode_nontransactional_def)
  have read: "read_file (files_of p) n = Some c" if "(n, FileNode (Some c)) \<in> set (files_of p)" for n c
    using that files_distinct [OF assms] by (simp add: read_file_def)
  have up: "read_file (files_of p) (stem s @ up_suffix) = Some (ps_sql s)" if "s \<in> set ?ss" for s
    using that by (intro read) (auto simp: files_of_def)
  have down: "read_file (files_of p) (stem s @ down_suffix) = Some (ps_reverse_sql s)" if "s \<in> set ?ss" "reversible p" for s
    using that by (intro read) (auto simp: files_of_def)
  show "s \<in> set ?ss \<Longrightarrow> source_of (files_of p) (stem s @ up_suffix) = up_statement s"
    "s \<in> set ?ss \<Longrightarrow> reversible p \<Longrightarrow> source_of (files_of p) (stem s @ down_suffix) = down_statement s"
    by (simp_all add: source_of_def up_statement_def down_statement_def up down)
  have mode_read: "pl_mode p = mode_nontransactional \<Longrightarrow> read_file (files_of p) mode_file = Some (''nontransactional'' @ newline)"
    by (intro read) (auto simp: files_of_def)
  have "trim_space (''nontransactional'' @ newline) = ''nontransactional''" "valid_utf8 (''nontransactional'' @ newline)"
    by (simp_all add: newline_def byte_eval decode_rune_ascii)
  then have content: "mode_content_ok (''nontransactional'' @ newline)" by (simp add: mode_content_ok_def newline_def)
  have "entry_ok (files_of p) e" if "e \<in> set (files_of p)" for e
    using that named [THEN not_sym] suffixes mode_read content by (auto simp: files_of_def entry_ok_def split: if_splits)
  moreover have "reverse_named (files_of p)" unfolding reverse_named_def ups downs by (auto simp: image_image)
  moreover have "\<forall>n \<in> set (ups_of (files_of p)) \<union> set (downs_of (files_of p)). read_file (files_of p) n \<noteq> None"
    unfolding ups downs using up down by auto
  ultimately show "directory_ok (files_of p) \<longleftrightarrow> ?ss \<noteq> []" using ups by (simp add: directory_ok_def list_all_iff)
qed

lemma loaded_files:
  assumes "plan_ok p"
  shows "loaded name (files_of p) = planned_migration name p"
  by (simp add: loaded_def planned_migration_def planned_files_read [OF assms] sort_map rev_map comp_def)

definition id_ok :: "gostring \<Rightarrow> bool" where
  "id_ok name = (name \<noteq> [] \<and> valid_utf8 name \<and> length name \<le> 255 \<and> CHR 0x00 \<notin> set name)"

lemma planned_migration_valid:
  assumes "plan_ok p" "pl_statements p \<noteq> []" "id_ok name" "list_all (\<lambda>s. valid_utf8 (ps_source s) \<and> CHR 0x00 \<notin> set (stem s)) (pl_statements p)"
  shows "migration_validate (planned_migration name p) = Inr ()"
proof -
  let ?ss = "pl_statements p"
  have ok: "list_all planned_ok ?ss" "distinct (map ps_source ?ss)" using assms(1) by (simp_all add: plan_ok_def)
  have stems: "distinct (map stem ?ss)" by (rule stems_distinct [OF ok])
  then have behind: "distinct (map (\<lambda>s. stem s @ x) (sort_key k ?ss))" for x and k :: "planned_statement \<Rightarrow> gostring"
    by (auto simp: distinct_map inj_on_def)
  have utf: "valid_utf8 (stem s @ up_suffix)" "valid_utf8 (stem s @ down_suffix)" if "s \<in> set ?ss" for s
  proof -
    have "valid_utf8 (stem s @ ''.sql'')" using that assms(4) ok(1) source_name_stem(1) [of s] by (auto simp: list_all_iff planned_ok_def)
    then have "valid_utf8 (stem s)" by (subst (asm) valid_utf8_append_ascii) (simp_all add: is_ascii_def)
    then show "valid_utf8 (stem s @ up_suffix)" "valid_utf8 (stem s @ down_suffix)"
      by (simp_all add: valid_utf8_append_ascii up_suffix_def down_suffix_def is_ascii_def)
  qed
  have nul: "CHR 0x00 \<notin> set up_suffix" "CHR 0x00 \<notin> set down_suffix" by (simp_all add: up_suffix_def down_suffix_def)
  have "validate_statements name (map up_statement (sort_key (\<lambda>s. stem s @ up_suffix) ?ss)) = Inr ()"
    unfolding validate_statements_iff using ok(1) utf assms(4) nul behind source_name_stem(2)
    by (auto simp: list_all_iff statement_ok_def up_statement_def planned_ok_def comp_def)
  moreover have "reversible p \<Longrightarrow> validate_statements name (rev (map down_statement (sort_key (\<lambda>s. stem s @ down_suffix) ?ss))) = Inr ()"
    unfolding validate_statements_iff using ok(1) utf assms(1,4) nul behind source_name_stem(2)
    by (auto simp: list_all_iff statement_ok_def down_statement_def planned_ok_def plan_ok_def reversible_def rev_map [symmetric] comp_def)
  moreover have "validate_statements name [] = Inr ()" by (simp add: validate_statements_iff)
  moreover have "sort_key (\<lambda>s. stem s @ up_suffix) ?ss \<noteq> []" using assms(2) by (metis length_0_conv length_sort)
  ultimately show ?thesis using assms(1,3)
    by (auto simp: migration_validate_def validate_migration_id_def planned_migration_def id_ok_def plan_ok_def)
qed

subsection \<open>The directory of the migrations\<close>

abbreviation visible :: "entries \<Rightarrow> entries" where
  "visible es \<equiv> filter (\<lambda>e. \<not> hidden (fst e)) es"

lemma directory_steps: "rfold directory_step es names = rfold directory_step (visible es) names"
  by (induction es arbitrary: names) (simp_all add: directory_step_def rbind_def split: sum.split)

lemma directory_steps_Inr:
  "rfold directory_step es names = Inr names' \<longleftrightarrow> list_all (\<lambda>e. is_dir (snd e)) (visible es) \<and> names' = names @ map fst (visible es)"
  by (induction es arbitrary: names) (auto simp: directory_step_def)

lemma load_each_cong:
  "(\<And>n. n \<in> set names \<Longrightarrow> map_of es n = map_of es' n) \<Longrightarrow> load_each es names = load_each es' names"
  by (induction names) simp_all

lemma load_hidden:
  assumes "distinct (map fst es)" "hidden name" "name \<notin> fst ` set es"
  shows "load (DirNode (Some ((name, n) # es))) = load (DirNode (Some es))"
proof -
  let ?es = "(name, n) # es"
  have d: "distinct (map fst ?es)" using assms(1,3) by simp
  have same: "visible (sort_key fst ?es) = visible (sort_key fst es)"
    unfolding filter_sort using assms(2) by simp
  then have steps: "rfold directory_step (sort_key fst ?es) [] = rfold directory_step (sort_key fst es) []"
    using directory_steps by metis
  have "load_each (sort_key fst ?es) (sort names) = load_each (sort_key fst es) (sort names)"
    if "rfold directory_step (sort_key fst es) [] = Inr names" for names
  proof (rule load_each_cong)
    fix m
    assume "m \<in> set (sort names)"
    then have "\<not> hidden m" using that unfolding directory_steps_Inr by auto
    then have "m \<noteq> name" using assms(2) by auto
    then show "map_of (sort_key fst ?es) m = map_of (sort_key fst es) m"
      using sorted_dir(1) [OF d] sorted_dir(1) [OF assms(1)] by simp
  qed
  then show ?thesis unfolding load_def read_dir_def node.case option.case steps
    by (cases "rfold directory_step (sort_key fst es) []") (simp_all only: rbind_simps)
qed

lemma load_each_Inr: "load_each es names = Inr ms \<longleftrightarrow> list_all2 (\<lambda>n m. load_migration n (the (map_of es n)) = Inr m) names ms"
  by (induction names arbitrary: ms) (auto simp: list_all2_Cons1)

lemma load_Inr:
  assumes "distinct (map fst es)"
  shows "load (DirNode (Some es)) = Inr ms \<longleftrightarrow> list_all (\<lambda>e. is_dir (snd e)) (visible es) \<and> visible es \<noteq> [] \<and>
    list_all2 (\<lambda>n m. load_migration n (the (map_of es n)) = Inr m) (sort (map fst (visible es))) ms"
proof -
  have v: "visible (sort_key fst es) = sort_key fst (visible es)" by (simp add: filter_sort)
  have empty: "sort_key fst (visible es) = [] \<longleftrightarrow> visible es = []" by (metis length_0_conv length_sort)
  have names: "sort (map fst (sort_key fst (visible es))) = sort (map fst (visible es))" by (rule properties_for_sort) simp_all
  have dirs: "list_all (\<lambda>e. is_dir (snd e)) (sort_key fst (visible es)) = list_all (\<lambda>e. is_dir (snd e)) (visible es)" by (simp add: list_all_iff)
  show ?thesis
    by (auto simp: load_def read_dir_def directory_steps_Inr v empty names dirs load_each_Inr sorted_dir(1) [OF assms])
qed

lemma list_all2_insort:
  assumes "list_all2 R xs ms" "R x m" "\<And>x m. R x m \<Longrightarrow> f m = x"
  shows "list_all2 R (insort x xs) (insort_key f m ms)"
  using assms(1)
proof (induction xs ms rule: list_all2_induct)
  case (Cons y ys n ns)
  then show ?case using assms(2,3) by auto
qed (use assms(2) in simp)

lemma load_migration_id: "load_migration n d = Inr m \<Longrightarrow> mg_id m = n"
  by (auto simp: load_migration_def validated_migration_def Let_def split: option.splits if_splits)

lemma sort_snoc: "sort (xs @ [x]) = insort x (sort xs)" for xs :: "'a::linorder list"
  by (rule properties_for_sort) (simp_all add: sorted_insort)

lemma load_put:
  assumes "distinct (map fst es)" "name \<notin> fst ` set es" "\<not> hidden name" "load_migration name (DirNode (Some files)) = Inr m"
  shows "load (DirNode (Some es)) = Inr ms \<Longrightarrow> load (DirNode (Some (put name (DirNode (Some files)) es))) = Inr (insort_key mg_id m ms)"
    "visible es = [] \<Longrightarrow> load (DirNode (Some (put name (DirNode (Some files)) es))) = Inr [m]"
proof -
  let ?es = "es @ [(name, DirNode (Some files))]"
  have put: "put name (DirNode (Some files)) es = ?es" using assms(2) by (force simp: put_def filter_id_conv)
  have d: "distinct (map fst ?es)" using assms(1,2) by auto
  have "map_of es name = None" using assms(2) by (simp add: map_of_eq_None_iff)
  then have new: "the (map_of ?es name) = DirNode (Some files)" by (simp add: map_add_def)
  have old: "map_of ?es n = map_of es n" if "n \<noteq> name" for n using that by (simp add: map_add_def split: option.split)
  show "load (DirNode (Some (put name (DirNode (Some files)) es))) = Inr (insort_key mg_id m ms)" if l: "load (DirNode (Some es)) = Inr ms"
  proof -
    have each: "list_all2 (\<lambda>n m. load_migration n (the (map_of es n)) = Inr m) (sort (map fst (visible es))) ms"
      and dirs: "list_all (\<lambda>e. is_dir (snd e)) (visible es)"
      using l load_Inr [OF assms(1)] by auto
    have "list_all2 (\<lambda>n m. load_migration n (the (map_of ?es n)) = Inr m) (sort (map fst (visible es))) ms"
      using each
    proof (rule list.rel_mono_strong)
      fix n m'
      assume n: "n \<in> set (sort (map fst (visible es)))" "load_migration n (the (map_of es n)) = Inr m'"
      then have ne: "n \<noteq> name" using assms(2) by force
      show "load_migration n (the (map_of ?es n)) = Inr m'" unfolding old [OF ne] by (rule n(2))
    qed
    then have "list_all2 (\<lambda>n m. load_migration n (the (map_of ?es n)) = Inr m) (insort name (sort (map fst (visible es)))) (insort_key mg_id m ms)"
      by (rule list_all2_insort) (use new assms(4) load_migration_id in auto)
    then show ?thesis unfolding put load_Inr [OF d] using dirs assms(3) by (simp add: sort_snoc)
  qed
  show "load (DirNode (Some (put name (DirNode (Some files)) es))) = Inr [m]" if "visible es = []"
    unfolding put load_Inr [OF d] using that new assms(3,4) by simp
qed

lemma temporary_hidden: "hidden (temporary_name (CHR ''.'' # pattern) random)"
proof (cases "CHR ''*'' \<in> set pattern")
  case True
  then obtain a b where p: "pattern = a @ CHR ''*'' # b" "CHR ''*'' \<notin> set b" by (meson split_list_last)
  have "dropWhile (\<lambda>c. c \<noteq> CHR ''*'') (rev b @ ys) = dropWhile (\<lambda>c. c \<noteq> CHR ''*'') ys" for ys
    using p(2) by (intro dropWhile_append2) auto
  then have "dropWhile (\<lambda>c. c \<noteq> CHR ''*'') (rev (CHR ''.'' # pattern)) = CHR ''*'' # rev (CHR ''.'' # a)" by (simp add: p(1))
  then show ?thesis using True by (simp add: temporary_name_def hidden_def)
qed (simp add: temporary_name_def hidden_def)

text \<open>The entries a load sees in a directory, which may be absent.\<close>

definition loads_like :: "entries option \<Rightarrow> entries option \<Rightarrow> bool" where
  "loads_like before after = (case before of
       Some es \<Rightarrow> (\<exists>es'. after = Some es' \<and> load (DirNode (Some es')) = load (DirNode (Some es)))
     | None \<Rightarrow> (\<forall>es'. after = Some es' \<longrightarrow> visible es' = []))"

text \<open>
  C19. Writing a migration is all or nothing for whoever loads the directory of migrations. Let
  the path given to \<open>WriteMigration\<close> end in a proper name, so that its parent is the directory
  of migrations. When the call fails, at whichever call to the operating system and with
  whatever left behind, loading the parent gives what it gave before, if it existed; if it did
  not, it is still absent or has no entry that a load looks at.
\<close>
theorem failed_write_changes_no_migration:
  assumes "\<forall>es. parent = Some es \<longrightarrow> distinct (map fst es)" "rename_target directory \<noteq> None"
    and "write_migration os directory p parent = (Inl e, parent')"
  shows "loads_like parent parent'"
proof -
  let ?q = "path_base directory @ ''.tmp-''"
  have hid: "hidden t \<and> t \<notin> fst ` set es" if "make_temporary os (''.'' @ ?q) es = Some t" for t es
    using that temporary_hidden by (auto simp: make_temporary_def split: option.splits if_splits)
  show ?thesis
  proof (cases parent)
    case (Some es)
    have "load (DirNode (Some (removed os t files es))) = load (DirNode (Some es))" if "make_temporary os (''.'' @ ?q) es = Some t" for t files
      using hid [OF that] load_hidden [of es] assms(1) Some by (simp add: removed_def split: option.split)
    then show ?thesis using assms(3)
      by (auto simp: Some loads_like_def write_migration_def Let_def split: if_splits sum.splits option.splits prod.splits)
  next
    case None
    have "visible (removed os t files []) = []" if "make_temporary os (''.'' @ ?q) [] = Some t" for t files
      using hid [OF that] by (simp add: removed_def split: option.split)
    then show ?thesis using assms(3)
      by (auto simp: None loads_like_def write_migration_def Let_def split: if_splits sum.splits option.splits prod.splits)
  qed
qed

lemma write_migration_Inr:
  assumes "write_migration os directory p (Some es) = (Inr (), parent)"
  shows "plan_ok p" "pl_statements p \<noteq> []" "path_base directory \<notin> fst ` set es"
    "parent = Some (put (path_base directory) (DirNode (Some (files_of p))) es)" "list_all (\<lambda>s. CHR 0x00 \<notin> set (stem s)) (pl_statements p)"
proof -
  obtain files where w: "plan_ok p" "executable p" "write_files os (planned_files p) [] = (None, files)" "path_base directory \<notin> fst ` set es"
    "parent = Some (put (path_base directory) (DirNode (Some files)) es)"
    using assms rename_target_base by (fastforce simp: write_migration_def Let_def plan_validate_iff split: if_splits sum.splits option.splits prod.splits)
  have files: "files = files_of p" "list_all (\<lambda>f. CHR 0x00 \<notin> set (fst f)) (planned_files p)"
    using write_files_None [OF w(3)] files_distinct [OF w(1)] by (simp_all add: planned_names files_of_planned)
  show "plan_ok p" "path_base directory \<notin> fst ` set es" "parent = Some (put (path_base directory) (DirNode (Some (files_of p))) es)"
    using w files(1) by simp_all
  show "pl_statements p \<noteq> []" using w(2) by (simp add: executable_def)
  show "list_all (\<lambda>s. CHR 0x00 \<notin> set (stem s)) (pl_statements p)"
  proof -
    have "list_all (\<lambda>f. CHR 0x00 \<notin> set (fst f)) (map (up_file :: _ \<Rightarrow> _ \<times> _ \<times> 'a write_error) (pl_statements p))" using files(2) unfolding planned_files_def list_all_append by blast
    then show ?thesis by (simp add: list_all_iff up_file_def)
  qed
qed

text \<open>
  C18. What \<open>WriteMigration\<close> writes is what \<open>migrationdir\<close> loads. When a plan with numbered sources
  was written, loading the directory gives the migrations it gave before and one more, in the
  place of its name: it has the mode of the plan, runs the SQL of the plan in the order of
  the plan, and is undone by the reverse SQL from the last statement to the first, or cannot
  be undone when the plan says that it is irreversible. The numbering is that of
  \<open>NumberSources\<close>; the names must be UTF-8 and the directory's name visible and not too long.
\<close>
theorem written_migration_is_loaded:
  assumes "distinct (map fst es)" "write_migration os directory p (Some es) = (Inr (), parent)" "pl_statements p = number_sources ss"
    and "id_ok (path_base directory)" "\<not> hidden (path_base directory)" "list_all (\<lambda>s. valid_utf8 (ps_source s)) (pl_statements p)"
    and "visible es = [] \<and> ms = [] \<or> load (DirNode (Some es)) = Inr ms"
  shows "\<exists>es' m. parent = Some es' \<and> load (DirNode (Some es')) = Inr (insort_key mg_id m ms) \<and> mg_id m = path_base directory \<and>
    mg_mode m = pl_mode p \<and> map st_sql (mg_statements m) = map ps_sql ss \<and>
    map st_sql (mg_down m) = (if reversible p then rev (map ps_reverse_sql ss) else [])"
proof -
  let ?name = "path_base directory" and ?m = "planned_migration (path_base directory) p"
  note w = write_migration_Inr [OF assms(2)]
  have "load_migration ?name (DirNode (Some (files_of p))) = Inr ?m"
    using load_migration_Inr [OF files_distinct [OF w(1)]] planned_files_read(6) [OF w(1)] loaded_files [OF w(1)]
      planned_migration_valid [OF w(1,2) assms(4)] w(2,5) assms(6) by (simp add: list_all_iff)
  note put = load_put [OF assms(1) w(3) assms(5) this]
  have order: "sort_key (\<lambda>s. stem s @ x) (pl_statements p) = pl_statements p" for x
  proof (rule sort_key_id_if_sorted)
    have "sorted_wrt (\<lambda>s t. stem s @ x \<le> stem t @ x) (number_sources ss)"
      unfolding sorted_wrt_iff_nth_less number_sources_sql using number_sources_order [of _ _ ss x x] by (auto intro: less_imp_le)
    then show "sorted (map (\<lambda>s. stem s @ x) (pl_statements p))" by (simp add: assms(3) sorted_map)
  qed
  have sql: "map ps_sql (number_sources ss) = map ps_sql ss" "map ps_reverse_sql (number_sources ss) = map ps_reverse_sql ss"
    by (simp_all add: number_sources_sql)
  have "map st_sql (mg_statements ?m) = map ps_sql ss" "map st_sql (mg_down ?m) = (if reversible p then rev (map ps_reverse_sql ss) else [])"
    using sql by (simp_all add: planned_migration_def order [unfolded assms(3)] assms(3) up_statement_def down_statement_def comp_def rev_map [symmetric])
  moreover have "load (DirNode (Some (put ?name (DirNode (Some (files_of p))) es))) = Inr (insort_key mg_id ?m ms)"
    using put assms(7) by auto
  ultimately show ?thesis using w(4) by (intro exI [of _ "put ?name (DirNode (Some (files_of p))) es"] exI [of _ ?m]) (simp add: planned_migration_def)
qed

text \<open>A plan of two statements, written into an empty directory, with and without a fault.\<close>

definition two_statements :: "planned_statement list" where
  "two_statements = [\<lparr>ps_source = ''a.sql'', ps_sql = ''A'', ps_reverse_sql = ''B'', ps_summary = []\<rparr>,
     \<lparr>ps_source = ''b.sql'', ps_sql = ''B'', ps_reverse_sql = ''A'', ps_summary = []\<rparr>]"

definition two_plan :: "nat plan" where
  "two_plan = \<lparr>pl_dialect = ''sqlite'', pl_operations = [], pl_decisions = [], pl_mode = mode_atomic,
     pl_statements = number_sources two_statements, pl_irreversible_reason = [], pl_lowerer = None\<rparr>"

definition working_os :: io where
  "working_os = \<lparr>io_parent = True, io_random = Some ''7'', io_write = (\<lambda>_. None), io_rename = True, io_left = (\<lambda>_. None)\<rparr>"

lemma two_numbered: "number_sources two_statements =
  [\<lparr>ps_source = ''001_a.sql'', ps_sql = ''A'', ps_reverse_sql = ''B'', ps_summary = []\<rparr>,
   \<lparr>ps_source = ''002_b.sql'', ps_sql = ''B'', ps_reverse_sql = ''A'', ps_summary = []\<rparr>]"
proof -
  have "pad 3 1 = ''001''" "pad 3 2 = ''002''" "length (dec 2) = 1"
    by code_simp+
  then show ?thesis by (simp add: number_sources_def two_statements_def indexed_def numeral_2_eq_2 numeral_3_eq_3)
qed

lemma two_plan_ok: "plan_ok two_plan"
proof -
  have "trim_space ''A'' \<noteq> []" "trim_space ''B'' \<noteq> []" "trim_space [] = []" by (simp_all add: byte_eval)
  then show ?thesis by (simp add: plan_check_eval two_plan_def two_numbered)
qed

lemma write_files_working:
  assumes "io_write os = (\<lambda>_. None)" "list_all (\<lambda>f. CHR 0x00 \<notin> set (fst f)) files"
  shows "fst (write_files os files es) = None"
  using assms(2)
proof (induction files arbitrary: es)
  case (Cons f files)
  then show ?case by (cases f) (simp add: write_file_def assms(1))
qed simp

lemma two_written:
  "\<exists>files. write_migration (working_os\<lparr>io_rename := r\<rparr>) ''m/init'' two_plan (Some []) =
     (if r then (Inr (), Some (put ''init'' (DirNode (Some files)) [])) else (Inl CreateDirectory, Some []))"
proof -
  let ?os = "working_os\<lparr>io_rename := r\<rparr>"
  have "list_all (\<lambda>f. CHR 0x00 \<notin> set (fst f)) (planned_files two_plan)"
    by (simp add: planned_files_def two_plan_def two_numbered up_file_def down_file_def stem_def up_suffix_def down_suffix_def mode_file_def trim_suffix_def has_suffix_def)
  then have "fst (write_files ?os (planned_files two_plan) []) = None" by (intro write_files_working) (simp_all add: working_os_def)
  then obtain files where "write_files ?os (planned_files two_plan) [] = (None, files)" by (metis prod.collapse)
  moreover have "path_base ''m/init'' = ''init''" "rename_target ''m/init'' = Some ''init''"
    by (simp_all add: path_base_def strip_slashes_def rename_target_def)
  moreover have "make_temporary ?os ''.init.tmp-'' [] = Some ''.init.tmp-7''" by (simp add: make_temporary_def working_os_def temporary_name_def)
  moreover have "plan_validate two_plan = Inr ()" by (simp add: plan_validate_iff two_plan_ok)
  moreover have "pl_decisions two_plan = []" "executable two_plan" by (simp_all add: two_plan_def executable_def two_numbered)
  moreover have "io_parent ?os" "io_rename ?os = r" "io_left ?os = (\<lambda>_. None)" by (simp_all add: working_os_def)
  ultimately show ?thesis by (intro exI [of _ files]) (simp add: write_migration_def removed_def)
qed

theorem written_migration_is_loaded_witness:
  "\<exists>es' m. snd (write_migration (working_os\<lparr>io_rename := True\<rparr>) ''m/init'' two_plan (Some [])) = Some es' \<and> load (DirNode (Some es')) = Inr [m] \<and>
     map st_sql (mg_statements m) = [''A'', ''B''] \<and> map st_sql (mg_down m) = [''A'', ''B'']"
proof -
  obtain parent where w: "write_migration (working_os\<lparr>io_rename := True\<rparr>) ''m/init'' two_plan (Some []) = (Inr (), parent)"
    using two_written [of True] by auto
  have name: "path_base ''m/init'' = ''init''" by (simp add: path_base_def strip_slashes_def)
  have "id_ok ''init''" "\<not> hidden ''init''" by (simp_all add: id_ok_def hidden_def decode_rune_ascii)
  moreover have "list_all (\<lambda>s. valid_utf8 (ps_source s)) (pl_statements two_plan)" by (simp add: two_plan_def two_numbered decode_rune_ascii)
  moreover have "reversible two_plan" by (simp add: reversible_def two_plan_def byte_eval)
  ultimately show ?thesis
    using written_migration_is_loaded [OF _ w, of two_statements "[]"] w by (auto simp: name two_plan_def two_statements_def)
qed

theorem failed_write_changes_no_migration_witness:
  "write_migration (working_os\<lparr>io_rename := False\<rparr>) ''m/init'' two_plan (Some []) = (Inl CreateDirectory, Some []) \<and>
     loads_like (Some []) (Some [])"
proof -
  have w: "write_migration (working_os\<lparr>io_rename := False\<rparr>) ''m/init'' two_plan (Some []) = (Inl CreateDirectory, Some [])"
    using two_written [of False] by auto
  have t: "rename_target ''m/init'' \<noteq> None" by (simp add: rename_target_def)
  show ?thesis using failed_write_changes_no_migration [OF _ t w] w by simp
qed

text \<open>
  A path with a slash at its end is not written. \<open>filepath.Dir\<close> of \<open>m/init/\<close> is \<open>m/init\<close>, which
  \<open>MkdirAll\<close> creates; the renaming onto it fails, and what is left is an empty \<open>m/init\<close>, with
  which \<open>m\<close> cannot be loaded.
\<close>

lemma slash_target: "rename_target (directory @ ''/'') = None"
  by (simp add: rename_target_def)

theorem trailing_slash_leaves_an_empty_migration:
  assumes "plan_ok p" "pl_decisions p = []" "executable p" "io_parent os" "io_left os = (\<lambda>_. None)"
    and "make_temporary os (''.'' @ path_base (directory @ ''/'') @ ''.tmp-'') [] = Some temporary" "fst (write_files os (planned_files p) []) = None"
  shows "write_migration os (directory @ ''/'') p None = (Inl CreateDirectory, Some [])"
    and "load (DirNode (Some [(''init'', DirNode (Some []))])) = Inl (NoUpSource ''init'')"
proof -
  obtain files where f: "write_files os (planned_files p) [] = (None, files)" using assms(7) by (metis prod.collapse)
  have "plan_validate p = Inr ()" using assms(1) by (simp add: plan_validate_iff)
  then show "write_migration os (directory @ ''/'') p None = (Inl CreateDirectory, Some [])"
    using assms(2-6) f by (simp add: write_migration_def slash_target removed_def)
  show "load (DirNode (Some [(''init'', DirNode (Some []))])) = Inl (NoUpSource ''init'')"
    by (simp add: load_def read_dir_def directory_step_def hidden_def load_migration_def Let_def)
qed

end
