(* ===== verification/Diff_Compare.thy ===== *)
theory Diff_Compare
  imports Go_Base "HOL-Library.Multiset"
begin

text \<open>
  Comparison of two parsed schemas by the canonical keys of their objects
  (\<open>CompareSchemas\<close> of \<open>migrate/diff/diff.go\<close>). A Go map is the list of its entries in the
  order a \<open>range\<close> loop happens to visit them; the keys are distinct.
\<close>

record ('t, 'i) schema_objects =
  so_tables :: "(gostring \<times> 't) list"
  so_indexes :: "(gostring \<times> 'i) list"

record 't schema_entry =
  se_key :: gostring
  se_value :: 't

record 't schema_pair =
  sp_key :: gostring
  sp_baseline :: 't
  sp_target :: 't
  sp_equal :: bool

record 't schema_changes =
  sc_added :: "'t schema_entry list"
  sc_removed :: "'t schema_entry list"
  sc_matched :: "'t schema_pair list"

record ('t, 'i) schema_comparison =
  cmp_tables :: "'t schema_changes"
  cmp_indexes :: "'i schema_changes"

definition target_step :: "(gostring \<times> 't) list \<Rightarrow> (gostring \<times> 't) list \<Rightarrow> ('t \<Rightarrow> 't \<Rightarrow> bool) option \<Rightarrow> gostring \<Rightarrow> 't schema_changes \<Rightarrow> 't schema_changes" where
  "target_step baseline target equal key changes = (let v = the (map_of target key) in
     case map_of baseline key of
       None \<Rightarrow> changes\<lparr>sc_added := sc_added changes @ [\<lparr>se_key = key, se_value = v\<rparr>]\<rparr>
     | Some b \<Rightarrow> changes\<lparr>sc_matched := sc_matched changes @ [\<lparr>sp_key = key, sp_baseline = b, sp_target = v,
         sp_equal = (case equal of None \<Rightarrow> True | Some eq \<Rightarrow> eq b v)\<rparr>]\<rparr>)"

definition compare_schema_objects :: "(gostring \<times> 't) list \<Rightarrow> (gostring \<times> 't) list \<Rightarrow> ('t \<Rightarrow> 't \<Rightarrow> bool) option \<Rightarrow> 't schema_changes" where
  "compare_schema_objects baseline target equal = (let
     changes = fold (target_step baseline target equal) (sort (map fst target)) \<lparr>sc_added = [], sc_removed = [], sc_matched = []\<rparr>;
     gone = sort (filter (\<lambda>key. map_of target key = None) (map fst baseline)) in
     changes\<lparr>sc_removed := sc_removed changes @ map (\<lambda>key. \<lparr>se_key = key, se_value = the (map_of baseline key)\<rparr>) gone\<rparr>)"

definition compare_schemas :: "('t, 'i) schema_objects \<Rightarrow> ('t, 'i) schema_objects \<Rightarrow> ('t \<Rightarrow> 't \<Rightarrow> bool) option \<Rightarrow> ('i \<Rightarrow> 'i \<Rightarrow> bool) option \<Rightarrow> ('t, 'i) schema_comparison" where
  "compare_schemas baseline target table_equal index_equal =
     \<lparr>cmp_tables = compare_schema_objects (so_tables baseline) (so_tables target) table_equal,
      cmp_indexes = compare_schema_objects (so_indexes baseline) (so_indexes target) index_equal\<rparr>"

subsection \<open>The changes as lists\<close>

lemma target_steps:
  "fold (target_step baseline target equal) keys changes = changes\<lparr>
     sc_added := sc_added changes @ map (\<lambda>k. \<lparr>se_key = k, se_value = the (map_of target k)\<rparr>) (filter (\<lambda>k. map_of baseline k = None) keys),
     sc_matched := sc_matched changes @ map (\<lambda>k. \<lparr>sp_key = k, sp_baseline = the (map_of baseline k), sp_target = the (map_of target k),
       sp_equal = (case equal of None \<Rightarrow> True | Some eq \<Rightarrow> eq (the (map_of baseline k)) (the (map_of target k)))\<rparr>) (filter (\<lambda>k. map_of baseline k \<noteq> None) keys)\<rparr>"
  by (induction keys arbitrary: changes) (auto simp: target_step_def Let_def split: option.split)

lemma compare_schema_objects_eq:
  "compare_schema_objects baseline target equal = \<lparr>
     sc_added = map (\<lambda>k. \<lparr>se_key = k, se_value = the (map_of target k)\<rparr>) (filter (\<lambda>k. map_of baseline k = None) (sort (map fst target))),
     sc_removed = map (\<lambda>k. \<lparr>se_key = k, se_value = the (map_of baseline k)\<rparr>) (filter (\<lambda>k. map_of target k = None) (sort (map fst baseline))),
     sc_matched = map (\<lambda>k. \<lparr>sp_key = k, sp_baseline = the (map_of baseline k), sp_target = the (map_of target k),
       sp_equal = (case equal of None \<Rightarrow> True | Some eq \<Rightarrow> eq (the (map_of baseline k)) (the (map_of target k)))\<rparr>) (filter (\<lambda>k. map_of baseline k \<noteq> None) (sort (map fst target)))\<rparr>"
  by (simp add: compare_schema_objects_def target_steps Let_def filter_sort)

text \<open>What carrying out the changes makes of a schema.\<close>

definition patched :: "(gostring \<rightharpoonup> 't) \<Rightarrow> 't schema_changes \<Rightarrow> gostring \<rightharpoonup> 't" where
  "patched m c = ((m |` (- se_key ` set (sc_removed c))) ++ map_of (map (\<lambda>p. (sp_key p, sp_target p)) (sc_matched c))) ++
     map_of (map (\<lambda>e. (se_key e, se_value e)) (sc_added c))"

definition unpatched :: "(gostring \<rightharpoonup> 't) \<Rightarrow> 't schema_changes \<Rightarrow> gostring \<rightharpoonup> 't" where
  "unpatched m c = ((m |` (- se_key ` set (sc_added c))) ++ map_of (map (\<lambda>p. (sp_key p, sp_baseline p)) (sc_matched c))) ++
     map_of (map (\<lambda>e. (se_key e, se_value e)) (sc_removed c))"

lemma map_of_selected: "map_of (map (\<lambda>k. (k, f k)) (filter P (sort (map fst m)))) k = (if map_of m k \<noteq> None \<and> P k then Some (f k) else None)"
proof -
  have "map_of (map (\<lambda>k. (k, f k)) ks) k = (if k \<in> set ks then Some (f k) else None)" for ks by (induction ks) auto
  then show ?thesis by (simp add: map_of_eq_None_iff)
qed

text \<open>
  C38. \<open>CompareSchemas\<close> is a difference: every key of either schema is in exactly one of the
  added, removed and matched objects, each listed in strictly ascending order of the keys;
  carrying the changes out on the baseline gives the target, carrying them out backwards on
  the target gives the baseline; and the result depends on the two maps only, not on the
  order in which Go visits them.
\<close>
theorem compare_schemas_is_a_difference:
  fixes baseline target :: "(gostring \<times> 't) list" and equal :: "('t \<Rightarrow> 't \<Rightarrow> bool) option"
  defines "c \<equiv> compare_schema_objects baseline target equal"
  assumes "distinct (map fst baseline)" "distinct (map fst target)"
  shows "patched (map_of baseline) c = map_of target \<and> unpatched (map_of target) c = map_of baseline \<and>
    sorted_wrt (<) (map se_key (sc_added c)) \<and> sorted_wrt (<) (map se_key (sc_removed c)) \<and> sorted_wrt (<) (map sp_key (sc_matched c)) \<and>
    mset (map se_key (sc_added c) @ map se_key (sc_removed c) @ map sp_key (sc_matched c)) = mset_set (dom (map_of baseline) \<union> dom (map_of target)) \<and>
    (\<forall>baseline' target'. mset baseline' = mset baseline \<and> mset target' = mset target \<longrightarrow> compare_schema_objects baseline' target' equal = c)"
proof -
  have keys: "map se_key (sc_added c) = filter (\<lambda>k. map_of baseline k = None) (sort (map fst target))"
    "map se_key (sc_removed c) = filter (\<lambda>k. map_of target k = None) (sort (map fst baseline))"
    "map sp_key (sc_matched c) = filter (\<lambda>k. map_of baseline k \<noteq> None) (sort (map fst target))"
    by (simp_all add: c_def compare_schema_objects_eq comp_def)
  have strict: "sorted_wrt (<) (filter P (sort ks))" if "distinct ks" for P and ks :: "gostring list"
    using that by (intro sorted_wrt_filter) (simp add: strict_sorted_iff)
  have none: "map_of m k = None \<longleftrightarrow> k \<notin> fst ` set m" for m :: "(gostring \<times> 't) list" and k by (simp add: map_of_eq_None_iff)
  have gone: "k \<in> se_key ` set (sc_removed c) \<longleftrightarrow> map_of baseline k \<noteq> None \<and> map_of target k = None"
    "k \<in> se_key ` set (sc_added c) \<longleftrightarrow> map_of target k \<noteq> None \<and> map_of baseline k = None" for k
    using arg_cong [OF keys(1), of set] arg_cong [OF keys(2), of set] by (auto simp: map_of_eq_None_iff)
  have lists: "map_of (map (\<lambda>p. (sp_key p, sp_target p)) (sc_matched c)) k = (if map_of target k \<noteq> None \<and> map_of baseline k \<noteq> None then map_of target k else None)"
    "map_of (map (\<lambda>p. (sp_key p, sp_baseline p)) (sc_matched c)) k = (if map_of target k \<noteq> None \<and> map_of baseline k \<noteq> None then map_of baseline k else None)"
    "map_of (map (\<lambda>e. (se_key e, se_value e)) (sc_added c)) k = (if map_of target k \<noteq> None \<and> map_of baseline k = None then map_of target k else None)"
    "map_of (map (\<lambda>e. (se_key e, se_value e)) (sc_removed c)) k = (if map_of baseline k \<noteq> None \<and> map_of target k = None then map_of baseline k else None)" for k
    by (simp_all add: c_def compare_schema_objects_eq comp_def map_of_selected)
  have patch: "patched (map_of baseline) c = map_of target" "unpatched (map_of target) c = map_of baseline"
    by (rule ext, simp add: patched_def unpatched_def map_add_def restrict_map_def gone lists split: option.split)+
  have all: "mset (map se_key (sc_added c) @ map se_key (sc_removed c) @ map sp_key (sc_matched c)) = mset_set (dom (map_of baseline) \<union> dom (map_of target))"
  proof -
    have "set (map se_key (sc_added c) @ map se_key (sc_removed c) @ map sp_key (sc_matched c)) = dom (map_of baseline) \<union> dom (map_of target)"
      unfolding keys by (auto simp: none dom_map_of_conv_image_fst)
    moreover have "distinct (map se_key (sc_added c) @ map se_key (sc_removed c) @ map sp_key (sc_matched c))"
      unfolding keys using assms(2,3) by (auto simp: none)
    ultimately show ?thesis by (metis mset_set_set)
  qed
  have order: "compare_schema_objects baseline' target' equal = c" if "mset baseline' = mset baseline" "mset target' = mset target" for baseline' target'
  proof -
    have "map_of m' = map_of m \<and> sort (map fst m') = sort (map fst m)" if m: "mset m' = mset m" "distinct (map fst m)" for m m' :: "(gostring \<times> 't) list"
    proof
      have "mset (map fst m') = mset (map fst m)" using m(1) by simp
      then have "distinct (map fst m')" using m(2) by (metis mset_eq_imp_distinct_iff)
      then show "map_of m' = map_of m" using m by (metis map_of_inject_set mset_eq_setD)
      show "sort (map fst m') = sort (map fst m)" using \<open>mset (map fst m') = mset (map fst m)\<close> by (intro properties_for_sort) simp_all
    qed
    from this [OF that(1) assms(2)] this [OF that(2) assms(3)] show ?thesis unfolding c_def compare_schema_objects_eq by (simp only:)
  qed
  show ?thesis using patch all order strict assms(2,3) unfolding keys by blast
qed

theorem compare_schemas_is_a_difference_witness:
  "patched (map_of [(''b'', 1 :: nat), (''a'', 2)]) (compare_schema_objects [(''b'', 1), (''a'', 2)] [(''c'', 3), (''b'', 4)] (Some (=))) =
     map_of [(''c'', 3), (''b'', 4)]"
  by (rule compare_schemas_is_a_difference [THEN conjunct1]) simp_all

end
