(* ===== verification/Diff_Native.thy ===== *)
theory Diff_Native
  imports Sql_Scan
begin

text \<open>
  The check of a caller's backfill SQL (\<open>migrate/diff/native_sql.go\<close>). The parsers of the three
  dialects are packages of other repositories; \<open>parse\<close> stands for them: for a dialect and a
  source it gives the number of statements, or an error with the offset and the message
  \<open>errors.As\<close> finds in it. An index into the source is the rest of the source from there.
\<close>

subsection \<open>Lexical parts\<close>

definition is_native_space :: "char \<Rightarrow> bool" where
  "is_native_space c = (c = CHR '' '' \<or> c = CHR 0x09 \<or> c = CHR 0x0D \<or> c = CHR 0x0A)"

definition native_word_start :: "char \<Rightarrow> bool" where
  "native_word_start c = (c = CHR ''_'' \<or> (65 \<le> code c \<and> code c \<le> 90) \<or> (97 \<le> code c \<and> code c \<le> 122))"

definition native_word_part :: "char \<Rightarrow> bool" where
  "native_word_part c = (native_word_start c \<or> (48 \<le> code c \<and> code c \<le> 57))"

definition skip_native_line_comment :: "gostring \<Rightarrow> gostring" where
  "skip_native_line_comment s = dropWhile (\<lambda>c. c \<noteq> CHR 0x0A) s"

fun native_block_end :: "gostring \<Rightarrow> gostring option" where
  "native_block_end (c # d # s) = (if c = CHR ''*'' \<and> d = CHR ''/'' then Some s else native_block_end (d # s))"
| "native_block_end s = None"

definition skip_native_block_comment :: "gostring \<Rightarrow> gostring" where
  "skip_native_block_comment s = (case native_block_end s of Some r \<Rightarrow> r | None \<Rightarrow> [])"

fun quoted_end_from :: "bool \<Rightarrow> char \<Rightarrow> gostring \<Rightarrow> gostring option" where
  "quoted_end_from esc q [] = None"
| "quoted_end_from esc q [c] = (if esc \<and> c = CHR 0x5C \<or> c \<noteq> q then None else Some [])"
| "quoted_end_from esc q (c # d # s) =
     (if esc \<and> c = CHR 0x5C then quoted_end_from esc q s
      else if c \<noteq> q then quoted_end_from esc q (d # s)
      else if d = q then quoted_end_from esc q s
      else Some (d # s))"

definition native_quoted_end_dialect :: "gostring \<Rightarrow> char \<Rightarrow> gostring \<Rightarrow> gostring option" where
  "native_quoted_end_dialect dialect opening s = (let q = (if opening = CHR ''['' then CHR '']'' else opening) in
     quoted_end_from (dialect = ''mysql'' \<and> q \<noteq> CHR 0x60) q s)"

text \<open>The rest behind a dollar-quoted value; \<open>s\<close> is the source behind its first dollar sign.\<close>

definition native_dollar_end :: "gostring \<Rightarrow> gostring option" where
  "native_dollar_end s = (let w = takeWhile native_word_part s in
     case dropWhile native_word_part s of
       [] \<Rightarrow> None
     | d # u \<Rightarrow>
         if d \<noteq> CHR 0x24 then None
         else (let tag = CHR 0x24 # w @ [CHR 0x24] in
           case index_of u tag of None \<Rightarrow> None | Some k \<Rightarrow> Some (drop (k + length tag) u)))"

definition equal_fold :: "gostring \<Rightarrow> gostring \<Rightarrow> bool" where
  "equal_fold a b = (map ascii_lower a = map ascii_lower b)"

lemma native_block_end_length: "native_block_end s = Some r \<Longrightarrow> length r < length s"
  by (induction s rule: native_block_end.induct) (auto split: if_splits)

lemma quoted_end_length: "quoted_end_from esc q s = Some r \<Longrightarrow> length r < length s"
  by (induction esc q s rule: quoted_end_from.induct) (auto split: if_splits)

lemma native_dollar_end_length: "native_dollar_end s = Some r \<Longrightarrow> length r \<le> length s"
proof -
  have "length (dropWhile native_word_part s) \<le> length s" by (rule length_dropWhile_le)
  then show "native_dollar_end s = Some r \<Longrightarrow> length r \<le> length s"
    by (auto simp: native_dollar_end_def Let_def split: list.splits if_splits option.splits)
qed

subsection \<open>The first word and leading comments\<close>

function first_native_word :: "gostring \<Rightarrow> gostring option" where
  "first_native_word s = (case s of [] \<Rightarrow> None
     | c # t \<Rightarrow>
         if is_space c then first_native_word t
         else if has_prefix s ''--'' then first_native_word (skip_native_line_comment (drop 2 s))
         else if has_prefix s ''/*'' then first_native_word (skip_native_block_comment (drop 2 s))
         else if takeWhile native_word_part s = [] then None
         else Some (takeWhile native_word_part s))"
  by pat_completeness auto
termination
proof (relation "measure length")
  fix s t :: gostring and c
  assume s: "s = c # t"
  show "(skip_native_line_comment (drop 2 s), s) \<in> measure length"
    using length_dropWhile_le [of "\<lambda>c. c \<noteq> CHR 0x0A" "drop 2 s"] s by (simp add: skip_native_line_comment_def)
  show "(skip_native_block_comment (drop 2 s), s) \<in> measure length"
    using native_block_end_length [of "drop 2 s"] s by (auto simp: skip_native_block_comment_def split: option.split)
qed auto

declare first_native_word.simps [simp del]

function strip_leading_native_comments :: "gostring \<Rightarrow> gostring" where
  "strip_leading_native_comments s = (let t = dropWhile is_native_space s in
     if has_prefix t ''--'' then strip_leading_native_comments (skip_native_line_comment (drop 2 t))
     else if has_prefix t ''/*'' then
       (case native_block_end (drop 2 t) of None \<Rightarrow> s | Some r \<Rightarrow> strip_leading_native_comments r)
     else t)"
  by pat_completeness auto
termination
proof (relation "measure length")
  fix s t :: gostring
  assume t: "t = dropWhile is_native_space s"
  have le: "length t \<le> length s" unfolding t by (rule length_dropWhile_le)
  show "(skip_native_line_comment (drop 2 t), s) \<in> measure length" if "has_prefix t ''--''"
    using length_dropWhile_le [of "\<lambda>c. c \<noteq> CHR 0x0A" "drop 2 t"] has_prefix_length [OF that] le by (simp add: skip_native_line_comment_def)
  show "(r, s) \<in> measure length" if "native_block_end (drop 2 t) = Some r" for r
    using native_block_end_length [OF that] le by simp
qed auto

declare strip_leading_native_comments.simps [simp del]

subsection \<open>Tokens\<close>

datatype native_token =
    QuotedToken
  | OpenParen
  | CloseParen
  | Semicolon
  | EqualsSign
  | CommaSign
  | WordToken gostring
  | OtherToken

datatype envelope_error =
    UnterminatedComment
  | UnterminatedDollar
  | UnterminatedQuote
  | UnexpectedClose
  | SemicolonInside
  | MultipleStatements
  | MultipleAssignments
  | NotAnUpdate
  | UnsupportedClause gostring
  | UnbalancedParens
  | IncompleteUpdate

text \<open>White space and comments: \<open>None\<close> where the source goes on with a token.\<close>

definition skip_blank :: "gostring \<Rightarrow> gostring \<Rightarrow> (envelope_error + gostring) option" where
  "skip_blank dialect s = (case s of [] \<Rightarrow> None
     | c # t \<Rightarrow>
         if is_native_space c then Some (Inr t)
         else if has_prefix s ''--'' then Some (Inr (skip_native_line_comment (drop 2 s)))
         else if dialect = ''mysql'' \<and> c = CHR ''#'' then Some (Inr (skip_native_line_comment t))
         else if has_prefix s ''/*'' then
           Some (case native_block_end (drop 2 s) of None \<Rightarrow> Inl UnterminatedComment | Some r \<Rightarrow> Inr r)
         else None)"

definition opens_quote :: "gostring \<Rightarrow> char \<Rightarrow> bool" where
  "opens_quote dialect c = (c = CHR 0x27 \<or> c = CHR 0x22 \<or> c = CHR 0x60 \<and> dialect \<noteq> ''postgresql'' \<or> c = CHR ''['' \<and> dialect = ''sqlite'')"

definition next_token :: "gostring \<Rightarrow> char \<Rightarrow> gostring \<Rightarrow> envelope_error + (native_token \<times> gostring)" where
  "next_token dialect c t =
     (if dialect = ''postgresql'' \<and> c = CHR 0x24 then
        (case native_dollar_end t of None \<Rightarrow> Inl UnterminatedDollar | Some r \<Rightarrow> Inr (QuotedToken, r))
      else if opens_quote dialect c then
        (case native_quoted_end_dialect dialect c t of None \<Rightarrow> Inl UnterminatedQuote | Some r \<Rightarrow> Inr (QuotedToken, r))
      else if c = CHR ''('' then Inr (OpenParen, t)
      else if c = CHR '')'' then Inr (CloseParen, t)
      else if c = CHR '';'' then Inr (Semicolon, t)
      else if c = CHR ''='' then Inr (EqualsSign, t)
      else if c = CHR '','' then Inr (CommaSign, t)
      else if native_word_start c then Inr (WordToken (c # takeWhile native_word_part t), dropWhile native_word_part t)
      else Inr (OtherToken, t))"

record envelope_state =
  en_depth :: nat
  en_tokens :: int
  en_set :: int
  en_equals :: int
  en_terminated :: bool

definition another :: "envelope_state \<Rightarrow> envelope_state" where
  "another st = st\<lparr>en_tokens := en_tokens st + 1\<rparr>"

definition word_step :: "gostring \<Rightarrow> envelope_state \<Rightarrow> envelope_error + envelope_state" where
  "word_step w st0 = (let st = another st0 in
     if en_tokens st = 1 \<and> \<not> equal_fold w ''update'' then Inl NotAnUpdate
     else let st' = (if equal_fold w ''set'' \<and> en_depth st = 0 \<and> en_set st < 0 then st\<lparr>en_set := en_tokens st\<rparr> else st) in
       if en_set st' \<ge> 0 \<and> en_depth st' = 0 \<and> (equal_fold w ''from'' \<or> equal_fold w ''returning'' \<or> equal_fold w ''order'' \<or> equal_fold w ''limit'')
       then Inl (UnsupportedClause w) else Inr st')"

definition token_step :: "native_token \<Rightarrow> envelope_state \<Rightarrow> envelope_error + envelope_state" where
  "token_step tok st = (case tok of
       QuotedToken \<Rightarrow> Inr (another st)
     | OpenParen \<Rightarrow> Inr (another (st\<lparr>en_depth := en_depth st + 1\<rparr>))
     | CloseParen \<Rightarrow> if en_depth st = 0 then Inl UnexpectedClose else Inr (another (st\<lparr>en_depth := en_depth st - 1\<rparr>))
     | Semicolon \<Rightarrow> if en_depth st \<noteq> 0 then Inl SemicolonInside else Inr (st\<lparr>en_terminated := True\<rparr>)
     | EqualsSign \<Rightarrow>
         if en_depth st = 0 \<and> en_set st \<ge> 0 then
           (if en_equals st \<ge> 0 then Inl MultipleAssignments else Inr (another (st\<lparr>en_equals := en_tokens st + 1\<rparr>)))
         else Inr (another st)
     | CommaSign \<Rightarrow> if en_depth st = 0 then Inl MultipleAssignments else Inr (another st)
     | WordToken w \<Rightarrow> word_step w st
     | OtherToken \<Rightarrow> Inr (another st))"

lemma skip_blank_length: "skip_blank dialect s = Some (Inr r) \<Longrightarrow> length r < length s"
proof (cases s)
  case (Cons c t)
  have le: "length (skip_native_line_comment u) \<le> length u" for u by (simp add: skip_native_line_comment_def length_dropWhile_le)
  have "length (skip_native_line_comment (drop 2 s)) < length s" "length (skip_native_line_comment t) < length s"
    using Cons le [of "drop 2 s"] le [of t] by simp_all
  moreover have "native_block_end (drop 2 s) = Some u \<Longrightarrow> length u < length s" for u using native_block_end_length [of "drop 2 s" u] by simp
  ultimately show "skip_blank dialect s = Some (Inr r) \<Longrightarrow> length r < length s"
    using Cons by (auto simp: skip_blank_def split: if_splits option.splits)
qed (simp add: skip_blank_def)

lemma next_token_length: "next_token dialect c t = Inr (tok, r) \<Longrightarrow> length r \<le> length t"
proof -
  have "native_quoted_end_dialect dialect c t = Some r \<Longrightarrow> length r \<le> length t"
    unfolding native_quoted_end_dialect_def Let_def using quoted_end_length less_imp_le by blast
  then show "next_token dialect c t = Inr (tok, r) \<Longrightarrow> length r \<le> length t"
    using native_dollar_end_length [of t r] length_dropWhile_le [of native_word_part t]
    by (auto simp: next_token_def split: if_splits option.splits)
qed

function envelope_loop :: "gostring \<Rightarrow> envelope_state \<Rightarrow> gostring \<Rightarrow> envelope_error + envelope_state" where
  "envelope_loop dialect st [] = Inr st"
| "envelope_loop dialect st (c # t) = (case skip_blank dialect (c # t) of
       Some (Inl e) \<Rightarrow> Inl e
     | Some (Inr r) \<Rightarrow> envelope_loop dialect st r
     | None \<Rightarrow>
         if en_terminated st then Inl MultipleStatements
         else (case next_token dialect c t of
             Inl e \<Rightarrow> Inl e
           | Inr (tok, r) \<Rightarrow> (case token_step tok st of Inl e \<Rightarrow> Inl e | Inr st' \<Rightarrow> envelope_loop dialect st' r)))"
  by pat_completeness auto
termination
  by (relation "measure (\<lambda>(_, _, s). length s)") (auto dest: skip_blank_length next_token_length)

definition validate_native_update_envelope :: "gostring \<Rightarrow> gostring \<Rightarrow> envelope_error + unit" where
  "validate_native_update_envelope dialect s =
     rbind (envelope_loop dialect \<lparr>en_depth = 0, en_tokens = 0, en_set = - 1, en_equals = - 1, en_terminated = False\<rparr> s) (\<lambda>st.
     rbind (check (en_depth st = 0) UnbalancedParens) (\<lambda>_.
     check (\<not> (en_tokens st < 3 \<or> en_set st < 3 \<or> en_set st = en_tokens st \<or> en_equals st < en_set st + 2 \<or> en_tokens st \<le> en_equals st)) IncompleteUpdate))"

subsection \<open>Backfill sources\<close>

datatype native_error =
    SourceEmpty
  | StatementCount nat
  | UnsupportedNativeDialect gostring
  | DialectParseError gostring "(nat \<times> gostring) option"
  | InvalidEnvelope gostring envelope_error

type_synonym native_parser = "gostring \<Rightarrow> gostring \<Rightarrow> (nat \<times> gostring) option + nat"

definition begins_update :: "gostring \<Rightarrow> bool" where
  "begins_update s = (case first_native_word s of Some w \<Rightarrow> equal_fold w ''update'' | None \<Rightarrow> False)"

definition unsupported_statement :: "nat \<times> gostring" where
  "unsupported_statement = (0, ''unsupported statement'')"

text \<open>A failure is either the parser's or, for an unknown dialect, one without a parse error in it.\<close>

definition parse_supported_native_sql :: "native_parser \<Rightarrow> gostring \<Rightarrow> gostring \<Rightarrow> (nat \<times> gostring) option + nat" where
  "parse_supported_native_sql parse dialect s =
     (if dialect \<in> {''postgresql'', ''mysql'', ''sqlite''} then
        (case parse dialect (if dialect = ''sqlite'' then strip_leading_native_comments s else s) of
           Inr n \<Rightarrow> Inr n
         | Inl e \<Rightarrow> Inl (if begins_update s then Some unsupported_statement else e))
      else Inl None)"

definition is_unsupported_native_update :: "gostring \<Rightarrow> (nat \<times> gostring) option \<Rightarrow> gostring \<Rightarrow> bool" where
  "is_unsupported_native_update dialect e s =
     (dialect \<in> {''postgresql'', ''mysql'', ''sqlite''} \<and> begins_update s \<and> e = Some unsupported_statement)"

definition require_one_statement :: "nat \<Rightarrow> native_error + unit" where
  "require_one_statement n = check (n = 1) (StatementCount n)"

definition wrap_dialect_parse_error :: "gostring \<Rightarrow> (nat \<times> gostring) option \<Rightarrow> native_error" where
  "wrap_dialect_parse_error dialect e =
     (if dialect \<in> {''postgresql'', ''mysql'', ''sqlite''} then DialectParseError dialect e else UnsupportedNativeDialect dialect)"

definition validate_native_sql_source :: "native_parser \<Rightarrow> gostring \<Rightarrow> gostring \<Rightarrow> native_error + unit" where
  "validate_native_sql_source parse dialect source = (let s = trim_space source in
     if s = [] then Inl SourceEmpty
     else case parse_supported_native_sql parse dialect (strip_leading_native_comments s) of
       Inr n \<Rightarrow> require_one_statement n
     | Inl e \<Rightarrow>
         if \<not> is_unsupported_native_update dialect e s then Inl (wrap_dialect_parse_error dialect e)
         else map_sum (InvalidEnvelope dialect) id (validate_native_update_envelope dialect s))"

subsection \<open>What the envelope accepts\<close>

text \<open>The tokens of a source, without regard to statements.\<close>

function native_tokens :: "gostring \<Rightarrow> gostring \<Rightarrow> native_token list option" where
  "native_tokens dialect [] = Some []"
| "native_tokens dialect (c # t) = (case skip_blank dialect (c # t) of
       Some (Inl e) \<Rightarrow> None
     | Some (Inr r) \<Rightarrow> native_tokens dialect r
     | None \<Rightarrow> (case next_token dialect c t of
           Inl e \<Rightarrow> None
         | Inr (tok, r) \<Rightarrow> map_option ((#) tok) (native_tokens dialect r)))"
  by pat_completeness auto
termination
  by (relation "measure (\<lambda>(_, s). length s)") (auto dest: skip_blank_length next_token_length)

definition guarded :: "native_token \<Rightarrow> envelope_state \<Rightarrow> envelope_error + envelope_state" where
  "guarded tok st = (if en_terminated st then Inl MultipleStatements else token_step tok st)"

lemma envelope_loop_tokens:
  "envelope_loop dialect st s = Inr st' \<longleftrightarrow> (\<exists>ts. native_tokens dialect s = Some ts \<and> rfold guarded ts st = Inr st')"
proof (induction dialect st s rule: envelope_loop.induct)
  case (2 dialect st c t)
  show ?case
  proof (cases "skip_blank dialect (c # t)")
    case None
    show ?thesis
    proof (cases "next_token dialect c t")
      case (Inr p)
      obtain tok r where p: "p = (tok, r)" by (cases p)
      show ?thesis
      proof (cases "en_terminated st")
        case False
        show ?thesis using "2.IH"(1) [OF None False] None False Inr p by (cases "token_step tok st") (auto simp: guarded_def)
      qed (use None Inr p in \<open>auto simp: guarded_def\<close>)
    qed (use None in auto)
  next
    case (Some b)
    then show ?thesis using "2.IH"(2) by (cases b) auto
  qed
qed simp

definition semicolon_free :: "native_token list \<Rightarrow> bool" where
  "semicolon_free ts = (Semicolon \<notin> set ts)"

lemma token_step_terminated: "token_step tok st = Inr st' \<Longrightarrow> tok \<noteq> Semicolon \<Longrightarrow> en_terminated st' = en_terminated st"
  by (cases tok) (auto simp: token_step_def word_step_def another_def Let_def split: if_splits)

lemma guarded_statement:
  assumes "rfold guarded ts st = Inr st'" "\<not> en_terminated st"
  shows "\<exists>body st''. (ts = body \<and> st' = st'' \<or> ts = body @ [Semicolon] \<and> st' = st''\<lparr>en_terminated := True\<rparr>) \<and>
    semicolon_free body \<and> rfold token_step body st = Inr st''"
  using assms
proof (induction ts arbitrary: st)
  case Nil
  then show ?case by (intro exI [of _ "[]"] exI [of _ st]) (simp add: semicolon_free_def)
next
  case (Cons tok ts)
  then obtain st1 where step: "token_step tok st = Inr st1" "rfold guarded ts st1 = Inr st'"
    using guarded_def [of tok st] by auto
  show ?case
  proof (cases "tok = Semicolon")
    case True
    then have st1: "st1 = st\<lparr>en_terminated := True\<rparr>" using step(1) by (auto simp: token_step_def split: if_splits)
    then have "ts = []" using step(2) by (cases ts) (auto simp: guarded_def)
    then show ?thesis using True st1 step(2) by (intro exI [of _ "[]"] exI [of _ st]) (simp add: semicolon_free_def)
  next
    case False
    then have "\<not> en_terminated st1" using token_step_terminated [OF step(1)] Cons.prems(2) by simp
    then obtain body st'' where "ts = body \<and> st' = st'' \<or> ts = body @ [Semicolon] \<and> st' = st''\<lparr>en_terminated := True\<rparr>"
      "semicolon_free body" "rfold token_step body st1 = Inr st''" using Cons.IH [OF step(2)] by blast
    then show ?thesis using False step(1) by (intro exI [of _ "tok # body"] exI [of _ st'']) (auto simp: semicolon_free_def)
  qed
qed

text \<open>How deep a place is in parentheses; a place of depth 0 is at the top level.\<close>

fun deeper :: "native_token \<Rightarrow> int" where
  "deeper OpenParen = 1"
| "deeper CloseParen = - 1"
| "deeper tok = 0"

definition depth_at :: "native_token list \<Rightarrow> nat \<Rightarrow> int" where
  "depth_at ts n = (\<Sum>tok\<leftarrow>take n ts. deeper tok)"

definition is_keyword :: "native_token \<Rightarrow> gostring \<Rightarrow> bool" where
  "is_keyword tok w = (\<exists>v. tok = WordToken v \<and> equal_fold v w)"

definition clause_keyword :: "native_token \<Rightarrow> bool" where
  "clause_keyword tok = (is_keyword tok ''from'' \<or> is_keyword tok ''returning'' \<or> is_keyword tok ''order'' \<or> is_keyword tok ''limit'')"

definition envelope_inv :: "native_token list \<Rightarrow> envelope_state \<Rightarrow> bool" where
  "envelope_inv ts st = (en_tokens st = int (length ts) \<and> int (en_depth st) = depth_at ts (length ts) \<and>
     (\<forall>n \<le> length ts. 0 \<le> depth_at ts n) \<and>
     (\<forall>v. ts \<noteq> [] \<and> ts ! 0 = WordToken v \<longrightarrow> equal_fold v ''update'') \<and>
     (\<forall>n < length ts. depth_at ts n = 0 \<longrightarrow> ts ! n \<noteq> CommaSign) \<and>
     en_set st \<noteq> 0 \<and> en_set st \<le> int (length ts) \<and> en_equals st \<noteq> 0 \<and> en_equals st \<le> int (length ts) \<and>
     (0 \<le> en_set st \<longrightarrow> is_keyword (ts ! nat (en_set st - 1)) ''set'' \<and> depth_at ts (nat (en_set st - 1)) = 0 \<and>
       (\<forall>n < length ts. en_set st \<le> int n \<and> depth_at ts n = 0 \<longrightarrow> \<not> clause_keyword (ts ! n) \<and> (ts ! n = EqualsSign \<longrightarrow> en_equals st = int n + 1))) \<and>
     (0 \<le> en_equals st \<longrightarrow> 0 \<le> en_set st \<and> ts ! nat (en_equals st - 1) = EqualsSign \<and> depth_at ts (nat (en_equals st - 1)) = 0))"

lemma depth_at_snoc: "n \<le> length ts \<Longrightarrow> depth_at (ts @ [tok]) n = depth_at ts n"
  "depth_at (ts @ [tok]) (Suc (length ts)) = depth_at ts (length ts) + deeper tok"
  by (simp_all add: depth_at_def)

lemma envelope_inv_extend:
  fixes ts st
  defines "d \<equiv> depth_at ts (length ts)"
  assumes inv: "envelope_inv ts st" and tokens: "en_tokens st' = int (length ts) + 1" and depth: "int (en_depth st') = d + deeper tok"
    and first: "\<And>v. ts = [] \<Longrightarrow> tok = WordToken v \<Longrightarrow> equal_fold v ''update''" and comma: "d = 0 \<Longrightarrow> tok \<noteq> CommaSign"
    and set': "en_set st' = en_set st \<or> en_set st < 0 \<and> en_set st' = int (length ts) + 1 \<and> is_keyword tok ''set'' \<and> d = 0"
    and clause: "0 \<le> en_set st \<Longrightarrow> d = 0 \<Longrightarrow> \<not> clause_keyword tok"
    and equals: "if tok = EqualsSign \<and> d = 0 \<and> 0 \<le> en_set st then en_equals st < 0 \<and> en_equals st' = int (length ts) + 1 else en_equals st' = en_equals st"
  shows "envelope_inv (ts @ [tok]) st'"
proof -
  note i = inv [unfolded envelope_inv_def]
  have nth: "n \<noteq> length ts \<Longrightarrow> n < Suc (length ts) \<Longrightarrow> (ts @ [tok]) ! n = ts ! n \<and> n < length ts" for n by (simp add: nth_append)
  have last: "(ts @ [tok]) ! length ts = tok" by simp
  have word: "tok = EqualsSign \<Longrightarrow> \<not> is_keyword tok w" for w by (simp add: is_keyword_def)
  have "0 \<le> en_equals st \<Longrightarrow> 0 \<le> en_set st" using i by blast
  then have new: "en_set st' = en_set st \<or> 0 \<le> en_set st' \<and> en_equals st < 0" using set' by linarith
  have depths: "0 \<le> depth_at (ts @ [tok]) n" if "n \<le> length (ts @ [tok])" for n
    using that i depth d_def depth_at_snoc(1) [of n ts tok] depth_at_snoc(2) [of ts tok] by (cases "n = Suc (length ts)") auto
  have commas: "(ts @ [tok]) ! n \<noteq> CommaSign" if "n < length (ts @ [tok])" "depth_at (ts @ [tok]) n = 0" for n
    using that i nth [of n] comma d_def depth_at_snoc(1) [of n ts tok] by (cases "n = length ts") auto
  have set_place: "is_keyword ((ts @ [tok]) ! nat (en_set st' - 1)) ''set'' \<and> depth_at (ts @ [tok]) (nat (en_set st' - 1)) = 0" if s: "0 \<le> en_set st'"
  proof (cases "en_set st' = en_set st")
    case True
    then have "nat (en_set st' - 1) < length ts" using i s by linarith
    then show ?thesis using i True s nth [of "nat (en_set st' - 1)"] depth_at_snoc(1) [of "nat (en_set st' - 1)" ts tok] by auto
  next
    case False
    then show ?thesis using set' depth_at_snoc(1) [of "length ts" ts tok] d_def by auto
  qed
  have after: "\<not> clause_keyword ((ts @ [tok]) ! n) \<and> ((ts @ [tok]) ! n = EqualsSign \<longrightarrow> en_equals st' = int n + 1)"
    if n: "0 \<le> en_set st'" "n < length (ts @ [tok])" "en_set st' \<le> int n" "depth_at (ts @ [tok]) n = 0" for n
  proof (cases "n = length ts")
    case True
    then have same: "en_set st' = en_set st" "d = 0" using n set' depth_at_snoc(1) [of n ts tok] d_def by auto
    then show ?thesis using True last clause equals n by (auto split: if_splits)
  next
    case False
    then have ts: "(ts @ [tok]) ! n = ts ! n" "n < length ts" using nth [of n] n(2) by auto
    then have same: "en_set st' = en_set st" using n set' by auto
    have old: "\<not> clause_keyword (ts ! n) \<and> (ts ! n = EqualsSign \<longrightarrow> en_equals st = int n + 1)"
      using i n ts same depth_at_snoc(1) [of n ts tok] by auto
    then show ?thesis using ts equals by (auto split: if_splits)
  qed
  have equals_place: "0 \<le> en_set st' \<and> (ts @ [tok]) ! nat (en_equals st' - 1) = EqualsSign \<and> depth_at (ts @ [tok]) (nat (en_equals st' - 1)) = 0" if e: "0 \<le> en_equals st'"
  proof (cases "tok = EqualsSign \<and> d = 0 \<and> 0 \<le> en_set st")
    case True
    then show ?thesis using equals set' depth_at_snoc(1) [of "length ts" ts tok] d_def by auto
  next
    case False
    then have same: "en_equals st' = en_equals st" using equals by simp
    then have inside: "nat (en_equals st - 1) < length ts" using i e by linarith
    have "0 \<le> en_set st \<and> ts ! nat (en_equals st - 1) = EqualsSign \<and> depth_at ts (nat (en_equals st - 1)) = 0" using i e unfolding same by blast
    moreover have "0 \<le> en_set st'" using calculation set' by linarith
    ultimately show ?thesis using inside depth_at_snoc(1) [of "nat (en_equals st - 1)" ts tok] unfolding same by (simp add: nth_append)
  qed
  have bounds: "en_set st' \<noteq> 0" "en_set st' \<le> int (length (ts @ [tok]))" "en_equals st' \<noteq> 0" "en_equals st' \<le> int (length (ts @ [tok]))"
  proof -
    have "en_set st \<noteq> 0" "en_set st \<le> int (length ts)" "en_equals st \<noteq> 0" "en_equals st \<le> int (length ts)" using i by blast+
    then show "en_set st' \<noteq> 0" "en_set st' \<le> int (length (ts @ [tok]))" "en_equals st' \<noteq> 0" "en_equals st' \<le> int (length (ts @ [tok]))"
      using set' equals by (auto split: if_splits)
  qed
  have "\<forall>v. ts \<noteq> [] \<and> ts ! 0 = WordToken v \<longrightarrow> equal_fold v ''update''" using i by blast
  then have "\<forall>v. ts @ [tok] \<noteq> [] \<and> (ts @ [tok]) ! 0 = WordToken v \<longrightarrow> equal_fold v ''update''" using first by (cases ts) auto
  then show ?thesis unfolding envelope_inv_def using tokens depth d_def depth_at_snoc(2) [of ts tok] depths commas bounds set_place after equals_place by simp
qed

lemma envelope_inv_step:
  assumes inv: "envelope_inv ts st" and "token_step tok st = Inr st'" "tok \<noteq> Semicolon"
  shows "envelope_inv (ts @ [tok]) st'"
proof -
  have i: "en_tokens st = int (length ts)" "int (en_depth st) = depth_at ts (length ts)" using inv by (simp_all add: envelope_inv_def)
  have keyword: "is_keyword (WordToken v) w \<longleftrightarrow> equal_fold v w" for v w by (simp add: is_keyword_def)
  have other: "\<not> is_keyword QuotedToken w" "\<not> is_keyword OpenParen w" "\<not> is_keyword CloseParen w" "\<not> is_keyword EqualsSign w" "\<not> is_keyword CommaSign w" "\<not> is_keyword OtherToken w" for w
    by (simp_all add: is_keyword_def)
  have sets: "equal_fold v ''set'' \<Longrightarrow> \<not> equal_fold v ''from'' \<and> \<not> equal_fold v ''returning'' \<and> \<not> equal_fold v ''order'' \<and> \<not> equal_fold v ''limit''" for v
    by (auto simp: equal_fold_def ascii_lower_def char_of_eq_iff)
  show ?thesis using assms(2,3)
    by (cases tok; intro envelope_inv_extend [OF inv])
      (auto simp: token_step_def word_step_def another_def Let_def i(1) i(2) [symmetric] keyword other clause_keyword_def split: if_splits)
qed

lemma envelope_inv_run:
  assumes "rfold token_step body st = Inr st'" "semicolon_free body" "envelope_inv ts st"
  shows "envelope_inv (ts @ body) st'"
  using assms
proof (induction body arbitrary: ts st)
  case (Cons tok body)
  then obtain st1 where "token_step tok st = Inr st1" "rfold token_step body st1 = Inr st'" by auto
  then show ?case using Cons.IH [of st1 "ts @ [tok]"] envelope_inv_step [OF Cons.prems(3), of tok st1] Cons.prems(2) by (auto simp: semicolon_free_def)
qed simp

text \<open>
  C39. What the check of a caller's \<open>UPDATE\<close> accepts, beyond what the dialect's parser accepts, is
  by its own reading of quotes and comments one \<open>UPDATE\<close> statement with one assignment: the
  tokens have no semicolon but possibly a last one, the parentheses match, at the top level
  there is no comma, a \<open>SET\<close> stands behind at least one token of a target, one equals sign
  follows it behind at least one token of a column and before at least one token of a value,
  and no clause \<open>FROM\<close>, \<open>RETURNING\<close>, \<open>ORDER\<close> or \<open>LIMIT\<close> follows the \<open>SET\<close>.
\<close>
theorem accepted_update_is_one_assignment:
  assumes "validate_native_update_envelope dialect s = Inr ()"
  shows "\<exists>body set_at equals_at. native_tokens dialect s \<in> {Some body, Some (body @ [Semicolon])} \<and> Semicolon \<notin> set body \<and>
    depth_at body (length body) = 0 \<and> (\<forall>n \<le> length body. 0 \<le> depth_at body n) \<and>
    (\<forall>v. body ! 0 = WordToken v \<longrightarrow> equal_fold v ''update'') \<and> (\<forall>n < length body. depth_at body n = 0 \<longrightarrow> body ! n \<noteq> CommaSign) \<and>
    2 \<le> set_at \<and> set_at + 2 \<le> equals_at \<and> equals_at + 1 < length body \<and> is_keyword (body ! set_at) ''set'' \<and> depth_at body set_at = 0 \<and>
    (\<forall>n < length body. set_at < n \<and> depth_at body n = 0 \<longrightarrow> \<not> clause_keyword (body ! n) \<and> (body ! n = EqualsSign \<longleftrightarrow> n = equals_at))"
proof -
  let ?init = "\<lparr>en_depth = 0, en_tokens = 0, en_set = - 1, en_equals = - 1, en_terminated = False\<rparr>"
  obtain st ts where ts: "native_tokens dialect s = Some ts" "rfold guarded ts ?init = Inr st"
    and st: "en_depth st = 0" "3 \<le> en_set st" "en_set st + 2 \<le> en_equals st" "en_equals st < en_tokens st"
    using assms by (auto simp: validate_native_update_envelope_def envelope_loop_tokens)
  obtain body st' where body: "ts = body \<and> st = st' \<or> ts = body @ [Semicolon] \<and> st = st'\<lparr>en_terminated := True\<rparr>"
    "semicolon_free body" "rfold token_step body ?init = Inr st'"
    using guarded_statement [OF ts(2)] by auto
  have "envelope_inv [] ?init" by (simp add: envelope_inv_def depth_at_def)
  from envelope_inv_run [OF body(3,2) this] have inv: "envelope_inv body st'" by simp
  have st': "en_depth st' = 0" "3 \<le> en_set st'" "en_set st' + 2 \<le> en_equals st'" "en_equals st' < en_tokens st'" using body(1) st by auto
  note i = inv [unfolded envelope_inv_def]
  let ?s = "nat (en_set st' - 1)" and ?e = "nat (en_equals st' - 1)"
  have places: "2 \<le> ?s" "?s + 2 \<le> ?e" "?e + 1 < length body" using st' i by linarith+
  have "\<not> clause_keyword (body ! n) \<and> (body ! n = EqualsSign \<longleftrightarrow> n = ?e)" if n: "n < length body" "?s < n" "depth_at body n = 0" for n
  proof -
    have "en_set st' \<le> int n" using n(2) st'(2) by linarith
    then have "\<not> clause_keyword (body ! n) \<and> (body ! n = EqualsSign \<longrightarrow> en_equals st' = int n + 1)" using i n st'(2) by auto
    moreover have "body ! ?e = EqualsSign" using i st'(2,3) by auto
    ultimately show ?thesis by auto
  qed
  moreover have "is_keyword (body ! ?s) ''set'' \<and> depth_at body ?s = 0" using i st'(2) by auto
  moreover have "native_tokens dialect s \<in> {Some body, Some (body @ [Semicolon])}" using ts(1) body(1) by auto
  moreover have "body \<noteq> []" using places by auto
  then have "\<forall>v. body ! 0 = WordToken v \<longrightarrow> equal_fold v ''update''" using i by blast
  moreover have "\<forall>n \<le> length body. 0 \<le> depth_at body n" "\<forall>n < length body. depth_at body n = 0 \<longrightarrow> body ! n \<noteq> CommaSign" using i by blast+
  moreover have "depth_at body (length body) = 0" using i st'(1) by (metis of_nat_0)
  ultimately show ?thesis using places body(2) unfolding semicolon_free_def by blast
qed

lemmas envelope_eval = validate_native_update_envelope_def skip_blank_def next_token_def native_quoted_end_dialect_def opens_quote_def token_step_def
  word_step_def another_def equal_fold_def is_native_space_def native_word_start_def native_word_part_def skip_native_line_comment_def
  native_dollar_end_def ascii_lower_def char_of_eq_iff check_def Let_def

theorem accepted_update_is_one_assignment_witness:
  "\<exists>body. native_tokens ''mysql'' ''UPDATE t SET a=1;'' \<in> {Some body, Some (body @ [Semicolon])} \<and> Semicolon \<notin> set body"
proof -
  have "validate_native_update_envelope ''mysql'' ''UPDATE t SET a=1;'' = Inr ()"
    by (simp add: envelope_eval del: rbind_eq_Inr rbind_unit_eq_Inr)
  from accepted_update_is_one_assignment [OF this] show ?thesis by blast
qed

text \<open>
  A source with a nested comment: the check sees a comment, then a quoted value up to the end;
  PostgreSQL sees a comment that ends behind the quotation mark, then the text \<open>p\<close> as statements.
\<close>

definition plain_char :: "char \<Rightarrow> bool" where
  "plain_char c = (c \<notin> {CHR 0x27, CHR 0x22, CHR 0x60, CHR ''-'', CHR ''/'', CHR ''$'', CHR ''?''})"

definition smuggling :: "gostring \<Rightarrow> gostring" where
  "smuggling p = ''UPDATE t SET a=1/*/**/'' @ [CHR 0x27] @ ''*/;'' @ p @ ''--'' @ [CHR 0x27]"

lemma quoted_end_passes: "CHR 0x27 \<notin> set s \<Longrightarrow> quoted_end_from False (CHR 0x27) (s @ [CHR 0x27]) = Some []"
proof (induction s)
  case (Cons c s)
  then show ?case by (cases s) auto
qed simp

lemma smuggling_accepted: "CHR 0x27 \<notin> set p \<Longrightarrow> validate_native_update_envelope ''postgresql'' (smuggling p) = Inr ()"
  using quoted_end_passes [of "''*/;'' @ p @ ''--''"]
  by (simp add: smuggling_def envelope_eval del: rbind_eq_Inr rbind_unit_eq_Inr quoted_end_from.simps)

lemma smuggling_update: "begins_update (smuggling p)"
proof -
  have "first_native_word (smuggling p) = Some ''UPDATE''"
    by (simp add: smuggling_def first_native_word.simps is_space_def native_word_part_def native_word_start_def)
  then show ?thesis by (simp add: begins_update_def equal_fold_def ascii_lower_def char_of_eq_iff)
qed

lemma smuggling_plain: "strip_leading_native_comments (smuggling p) = smuggling p" "trim_space (smuggling p) = smuggling p" "smuggling p \<noteq> []"
  by (simp_all add: smuggling_def strip_leading_native_comments.simps is_native_space_def byte_eval)

lemma scan_plain:
  assumes "list_all plain_char p" "sql = pre @ p @ c0 # rest" "c0 \<noteq> CHR 0x27"
  shows "scan_loop ''postgresql'' sql (length pre) r =
    scan_loop ''postgresql'' sql (length pre + length p)
      (r\<lparr>semicolons := semicolons r @ map ((+) (length pre)) (filter (\<lambda>i. p ! i = CHR '';'') [0..<length p])\<rparr>)"
  using assms
proof (induction p arbitrary: pre r)
  case (Cons c p)
  have c: "plain_char c" "sql ! length pre = c" "length pre < length sql" using Cons.prems by simp_all
  have next_plain: "sql ! (length pre + 1) \<noteq> CHR 0x27" "length pre + 1 < length sql"
    using Cons.prems by (cases p; simp add: nth_append plain_char_def)+
  have "scan_step ''postgresql'' sql (length pre) r = Inr (length pre + 1, if c = CHR '';'' then add_semicolon (length pre) r else r)"
    using c next_plain by (auto simp: scan_step_def plain_char_def Let_def)
  then have step: "scan_loop ''postgresql'' sql (length pre) r =
      scan_loop ''postgresql'' sql (length (pre @ [c])) (if c = CHR '';'' then add_semicolon (length pre) r else r)"
    using c(3) by (subst scan_loop.simps) simp
  have shift: "filter (\<lambda>i. (c # p) ! i = CHR '';'') [0..<length (c # p)] =
      (if c = CHR '';'' then [0] else []) @ map Suc (filter (\<lambda>i. p ! i = CHR '';'') [0..<length p])"
    by (simp add: upt_conv_Cons map_Suc_upt [symmetric] filter_map comp_def del: upt_Suc)
  show ?case
    unfolding step shift
    using Cons.IH [of "pre @ [c]" "if c = CHR '';'' then add_semicolon (length pre) r else r"] Cons.prems
    by (simp add: add_semicolon_def comp_def)
qed simp

lemma smuggling_scanned:
  assumes "list_all plain_char p"
  shows "scan L (smuggling p) (Some ''postgresql'') = Inr \<lparr>protected = [\<lparr>span_start = 16, span_end = 25\<rparr>,
      \<lparr>span_start = 26 + length p, span_end = length (smuggling p)\<rparr>], placeholders = [],
     semicolons = 25 # map ((+) 26) (filter (\<lambda>i. p ! i = CHR '';'') [0..<length p])\<rparr>"
proof -
  let ?e = "''postgresql''" and ?sql = "smuggling p"
  let ?pre = "''UPDATE t SET a=1/*/**/'' @ [CHR 0x27] @ ''*/''"
  let ?semis = "map ((+) 25) (filter (\<lambda>i. (CHR '';'' # p) ! i = CHR '';'') [0..<Suc (length p)])"
  have "list_all plain_char ''UPDATE t SET a=1''" by (simp add: plain_char_def)
  from scan_plain [OF this, of ?sql "[]" "CHR ''/''" "drop 17 ?sql" empty_result]
  have words: "scan_loop ?e ?sql 0 empty_result = scan_loop ?e ?sql 16 empty_result"
    by (simp add: smuggling_def empty_result_def upt_rec eval_nat_numeral)
  have "scan_block_comment ?sql 16 = Inr 25"
    by (simp add: smuggling_def scan_block_comment_def scan_block_from.simps)
  then have comment: "scan_loop ?e ?sql 16 empty_result = scan_loop ?e ?sql 25 (protect 16 25 empty_result)"
    by (subst scan_loop.simps) (simp add: smuggling_def scan_step_def)
  have pre: "length ?pre = 25" by simp
  have "list_all plain_char (CHR '';'' # p)" using assms by (simp add: plain_char_def)
  from scan_plain [OF this, of ?sql ?pre "CHR ''-''" "[CHR ''-'', CHR 0x27]" "protect 16 25 empty_result"]
  have payload: "scan_loop ?e ?sql 25 (protect 16 25 empty_result) =
      scan_loop ?e ?sql (26 + length p) ((protect 16 25 empty_result)\<lparr>semicolons := ?semis\<rparr>)"
    unfolding pre by (simp add: smuggling_def empty_result_def protect_def)
  have line: "scan_step ?e ?sql (26 + length p) r = Inr (length ?sql, protect (26 + length p) (length ?sql) r)" for r
    by (simp add: smuggling_def scan_step_def nth_append line_comment_start_def scan_line_comment.simps)
  have fin: "scan_loop ?e ?sql (length ?sql) r = Inr r" for r by (subst scan_loop.simps) simp
  have "scan_loop ?e ?sql (26 + length p) r = Inr (protect (26 + length p) (length ?sql) r)" for r
    using line fin by (subst scan_loop.simps) (simp add: smuggling_def)
  moreover have "?semis = 25 # map ((+) 26) (filter (\<lambda>i. p ! i = CHR '';'') [0..<length p])"
    by (simp add: upt_conv_Cons map_Suc_upt [symmetric] filter_map comp_def del: upt_Suc)
  moreover have "engine_name L (Some ?e) = ?e" by (simp add: engine_name_def byte_eval)
  ultimately show ?thesis
    unfolding scan_def using words comment payload by (simp add: protect_def empty_result_def)
qed

text \<open>
  C40. For PostgreSQL the check ends a block comment at the first \<open>*/\<close>, where PostgreSQL nests
  comments. Any text of plain characters, statements with their semicolons included, can be
  placed behind a nested comment and before a quoted value so that the check, whenever the
  parser of the dialect does not accept the source, accepts it as exactly one \<open>UPDATE\<close>, while
  the scanner this repository uses for the same dialect finds the text outside every
  comment and quoted value and records all of its semicolons, and one before it.
\<close>
theorem nested_comment_hides_statements:
  assumes "parse ''postgresql'' (smuggling p) = Inl e" "list_all plain_char p"
  shows "validate_native_sql_source parse ''postgresql'' (smuggling p) = Inr () \<and>
    (\<exists>res. scan L (smuggling p) (Some ''postgresql'') = Inr res \<and>
      semicolons res = 25 # map ((+) 26) (filter (\<lambda>i. p ! i = CHR '';'') [0..<length p]))"
proof -
  have "CHR 0x27 \<notin> set p" using assms(2) by (auto simp: list_all_iff plain_char_def)
  then show ?thesis using smuggling_accepted smuggling_update smuggling_scanned [OF assms(2), of L] assms(1)
    by (simp add: validate_native_sql_source_def parse_supported_native_sql_def is_unsupported_native_update_def smuggling_plain)
qed

theorem nested_comment_hides_statements_witness:
  "validate_native_sql_source (\<lambda>_ _. Inl None) ''postgresql'' (smuggling ''DROP TABLE t;'') = Inr ()"
  using nested_comment_hides_statements [of "\<lambda>_ _. Inl None" "''DROP TABLE t;''" None] by (simp add: plain_char_def)

end
