(* ===== verification/Spec2Isabelle.thy ===== *)
theory Spec2Isabelle
  imports Sql_Scan Render_Schema Schema_Options Dialect Migration_Order Migrate_Invariant Cursor_Envelope Query_Aggregate Render_Write Page_Order Page_Fingerprint Named_Sql Migration_Write Diff_Compare Diff_Native
begin

text \<open>Verification of rasql.\<close>

end
